(* ===== verification/Prelude.thy ===== *)
theory Prelude
  imports Main "HOL-Library.List_Lexorder" "HOL-Library.Char_ord" "HOL-Library.Product_Lexorder"
begin

text \<open>The shared base of the development: results of fallible operations, the fragment of SQL
  that the repositories use (a table is a list of rows), and the conversion between instants and
  the milliseconds stored in the database. An operation that fails returns \<open>Inl\<close> of its error and no
  new state: the statement is not applied, or the transaction is rolled back.\<close>

named_theorems table_simps \<open>rewriting rules for the table operations\<close>
named_theorems res_intros \<open>introduction rules for results\<close>

subsection \<open>Results\<close>

definition rbind :: "'e + 'a \<Rightarrow> ('a \<Rightarrow> 'e + 'b) \<Rightarrow> 'e + 'b" where
  "rbind r f = (case r of Inl e \<Rightarrow> Inl e | Inr x \<Rightarrow> f x)"

definition guardE :: "bool \<Rightarrow> 'e \<Rightarrow> 'e + unit" where
  "guardE b e = (if b then Inr () else Inl e)"

lemma rbind_simps [simp]:
  "rbind (Inl e) f = Inl e"
  "rbind (Inr x) f = f x"
  by (simp_all add: rbind_def)

lemma rbind_eq_Inr: "rbind r f = Inr y \<longleftrightarrow> (\<exists>x. r = Inr x \<and> f x = Inr y)"
  by (cases r) auto

lemma rbind_InrE [elim!]:
  assumes "rbind r f = Inr y"
  obtains x where "r = Inr x" "f x = Inr y"
  using assms by (auto simp: rbind_eq_Inr)

lemma rbind_assoc: "rbind (rbind r f) g = rbind r (\<lambda>x. rbind (f x) g)"
  by (cases r) auto

lemma guardE_simps [simp]:
  "guardE True e = Inr ()"
  "guardE False e = Inl e"
  by (simp_all add: guardE_def)

lemma guardE_eq_Inr [simp]: "guardE b e = Inr u \<longleftrightarrow> b"
  by (simp add: guardE_def)

lemma guardE_eq_Inl [simp]: "guardE b e = Inl e' \<longleftrightarrow> \<not> b \<and> e' = e"
  by (auto simp: guardE_def)

text \<open>A handler runs several stores one after the other and nothing is rolled back: a step maps the world
  to a result and the next world. \<open>finally_do\<close> is a deferred call.\<close>

type_synonym ('w, 'e, 'a) step = "'w \<Rightarrow> ('e + 'a) \<times> 'w"

definition ret :: "'a \<Rightarrow> ('w, 'e, 'a) step" where
  "ret x w = (Inr x, w)"

definition fail_with :: "'e \<Rightarrow> ('w, 'e, 'a) step" where
  "fail_with e w = (Inl e, w)"

definition sbind :: "('w, 'e, 'a) step \<Rightarrow> ('a \<Rightarrow> ('w, 'e, 'b) step) \<Rightarrow> ('w, 'e, 'b) step" where
  "sbind m f w = (case m w of (Inl e, w') \<Rightarrow> (Inl e, w') | (Inr x, w') \<Rightarrow> f x w')"

definition finally_do :: "('w, 'e, 'a) step \<Rightarrow> ('w \<Rightarrow> 'w) \<Rightarrow> ('w, 'e, 'a) step" where
  "finally_do m c w = (case m w of (r, w') \<Rightarrow> (r, c w'))"

lemma step_simps [simp]:
  "ret x w = (Inr x, w)"
  "fail_with e w = (Inl e, w)"
  by (simp_all add: ret_def fail_with_def)

lemma sbind_cases:
  assumes "sbind m f w = (r, w')"
  obtains (failed) e where "m w = (Inl e, w')" "r = Inl e"
  | (went) x w1 where "m w = (Inr x, w1)" "f x w1 = (r, w')"
  using assms by (auto simp: sbind_def split: prod.splits sum.splits)

lemma sbind_InrE:
  assumes "sbind m f w = (Inr y, w')"
  obtains x w1 where "m w = (Inr x, w1)" "f x w1 = (Inr y, w')"
  using assms by (elim sbind_cases) auto

lemma finally_do_eq: "finally_do m c w = (r, w') \<longleftrightarrow> (\<exists>w1. m w = (r, w1) \<and> w' = c w1)"
  by (auto simp: finally_do_def split: prod.splits)

text \<open>The postcondition of a step, computed backwards through binds and deferred calls.\<close>

definition post :: "('w, 'e, 'a) step \<Rightarrow> 'w \<Rightarrow> ('e + 'a \<Rightarrow> 'w \<Rightarrow> bool) \<Rightarrow> bool" where
  "post m w Q = (case m w of (r, w') \<Rightarrow> Q r w')"

lemma postI: "(\<And>r w'. m w = (r, w') \<Longrightarrow> Q r w') \<Longrightarrow> post m w Q"
  by (simp add: post_def split: prod.splits)

lemma postD: "post m w Q \<Longrightarrow> m w = (r, w') \<Longrightarrow> Q r w'"
  by (simp add: post_def)

lemma post_mono: "post m w Q \<Longrightarrow> (\<And>r w'. Q r w' \<Longrightarrow> R r w') \<Longrightarrow> post m w R"
  by (auto simp: post_def)

lemma post_sbind:
  "post (sbind m f) w Q = post m w (\<lambda>r w'. case r of Inl e \<Rightarrow> Q (Inl e) w' | Inr x \<Rightarrow> post (f x) w' Q)"
  by (auto simp: post_def sbind_def split: prod.splits sum.splits)

lemma post_finally: "post (finally_do m c) w Q = post m w (\<lambda>r w'. Q r (c w'))"
  by (auto simp: post_def finally_do_def split: prod.splits)

lemma post_bindI:
  assumes "post m w P" "\<And>e w'. P (Inl e) w' \<Longrightarrow> Q (Inl e) w'" "\<And>x w'. P (Inr x) w' \<Longrightarrow> post (f x) w' Q"
  shows "post (sbind m f) w Q"
  unfolding post_sbind by (rule post_mono [OF assms(1)]) (use assms(2,3) in \<open>auto split: sum.splits\<close>)

lemma post_simps [simp]:
  "post (ret x) w Q = Q (Inr x) w"
  "post (fail_with e) w Q = Q (Inl e) w"
  by (simp_all add: post_def)

subsection \<open>Tables\<close>

text \<open>UPDATE ... WHERE, its affected-row count, ORDER BY ... LIMIT 1 (a stable sort: ties keep the
  table order), and the uniqueness check of an INSERT.\<close>

definition update_where :: "('a \<Rightarrow> bool) \<Rightarrow> ('a \<Rightarrow> 'a) \<Rightarrow> 'a list \<Rightarrow> 'a list" where
  "update_where P f t = map (\<lambda>r. if P r then f r else r) t"

definition affected :: "('a \<Rightarrow> bool) \<Rightarrow> 'a list \<Rightarrow> nat" where
  "affected P t = length (filter P t)"

definition first_by :: "('a \<Rightarrow> 'k::linorder) \<Rightarrow> 'a list \<Rightarrow> 'a option" where
  "first_by k t = (case sort_key k t of [] \<Rightarrow> None | r # _ \<Rightarrow> Some r)"

definition lookup_by :: "('a \<Rightarrow> 'k) \<Rightarrow> 'k \<Rightarrow> 'a list \<Rightarrow> 'a option" where
  "lookup_by k x t = find (\<lambda>r. k r = x) t"

definition unique_key :: "('a \<Rightarrow> 'k) \<Rightarrow> 'a list \<Rightarrow> bool" where
  "unique_key k t = distinct (map k t)"

lemma length_update_where [simp]: "length (update_where P f t) = length t"
  by (simp add: update_where_def)

lemma update_where_simps [simp]:
  "update_where P f [] = []"
  "update_where P f (r # t) = (if P r then f r else r) # update_where P f t"
  by (simp_all add: update_where_def)

lemma set_update_where:
  "set (update_where P f t) = f ` {r \<in> set t. P r} \<union> {r \<in> set t. \<not> P r}"
  by (auto simp: update_where_def)

lemma set_update_where_image: "set (update_where P f t) = (\<lambda>r. if P r then f r else r) ` set t"
  by (simp add: update_where_def)

lemma in_update_whereE:
  assumes "r \<in> set (update_where P f t)"
  obtains (changed) s where "s \<in> set t" "P s" "r = f s" | (kept) "r \<in> set t" "\<not> P r"
  using assms by (auto simp: set_update_where)

lemma ball_update_where:
  assumes "\<forall>r\<in>set t. Q r" and "\<And>r. r \<in> set t \<Longrightarrow> P r \<Longrightarrow> Q r \<Longrightarrow> Q (f r)"
  shows "\<forall>r\<in>set (update_where P f t). Q r"
  using assms by (auto simp: set_update_where)

lemma map_update_where [table_simps]:
  "(\<And>r. k (f r) = k r) \<Longrightarrow> map k (update_where P f t) = map k t"
  by (simp add: update_where_def)

lemma image_update_where [table_simps]:
  "(\<And>r. k (f r) = k r) \<Longrightarrow> k ` set (update_where P f t) = k ` set t"
  by (metis map_update_where set_map)

lemma unique_key_update_where [table_simps]:
  "(\<And>r. k (f r) = k r) \<Longrightarrow> unique_key k (update_where P f t) = unique_key k t"
  by (simp add: unique_key_def map_update_where)

lemma unique_key_append1 [simp]:
  "unique_key k (t @ [r]) \<longleftrightarrow> unique_key k t \<and> k r \<notin> k ` set t"
  by (auto simp: unique_key_def)

lemma unique_keyD:
  "unique_key k t \<Longrightarrow> r \<in> set t \<Longrightarrow> s \<in> set t \<Longrightarrow> k r = k s \<Longrightarrow> r = s"
  unfolding unique_key_def by (metis distinct_map inj_on_eq_iff)

lemma affected_zero [simp]: "affected P t = 0 \<longleftrightarrow> (\<forall>r\<in>set t. \<not> P r)"
  by (auto simp: affected_def filter_empty_conv)

lemma affected_pos: "affected P t \<noteq> 0 \<Longrightarrow> \<exists>r\<in>set t. P r"
  by (metis affected_zero)

lemma affected_Cons: "affected P (r # t) = (if P r then 1 else 0) + affected P t"
  by (simp add: affected_def)

lemma affected_unique_le1:
  assumes "unique_key k t" "\<And>r. P r \<Longrightarrow> k r = x"
  shows "affected P t \<le> 1"
  using assms(1)
proof (induction t)
  case (Cons r t)
  have "\<not> P s" if "P r" "s \<in> set t" for s
  proof
    assume "P s"
    then have "k s = k r" using assms(2) \<open>P r\<close> by metis
    moreover have "k r \<notin> k ` set t" using Cons.prems by (simp add: unique_key_def)
    ultimately show False using that by (metis imageI)
  qed
  then have "P r \<Longrightarrow> affected P t = 0" by simp
  moreover have "affected P t \<le> 1" using Cons by (simp add: unique_key_def)
  ultimately show ?case by (auto simp: affected_Cons)
qed (simp add: affected_def)

lemma affected_eq1_iff:
  assumes "unique_key k t" "\<And>r. P r \<Longrightarrow> k r = x"
  shows "affected P t = 1 \<longleftrightarrow> (\<exists>r\<in>set t. P r)"
proof -
  have "affected P t \<le> 1" using affected_unique_le1 [OF assms] .
  then have "affected P t = 1 \<longleftrightarrow> affected P t \<noteq> 0" by linarith
  then show ?thesis by auto
qed

lemma find_set: "find P t = Some r \<Longrightarrow> r \<in> set t \<and> P r"
  by (induction t) (auto split: if_splits)

lemma find_NoneD: "find P t = None \<Longrightarrow> r \<in> set t \<Longrightarrow> \<not> P r"
  by (simp add: find_None_iff)

lemma lookup_by_Some: "lookup_by k x t = Some r \<Longrightarrow> r \<in> set t \<and> k r = x"
  unfolding lookup_by_def by (rule find_set)

lemma lookup_by_None: "lookup_by k x t = None \<longleftrightarrow> x \<notin> k ` set t"
  by (auto simp: lookup_by_def find_None_iff)

lemma lookup_by_unique:
  assumes "unique_key k t" "r \<in> set t"
  shows "lookup_by k (k r) t = Some r"
proof (cases "lookup_by k (k r) t")
  case None
  then show ?thesis using assms(2) by (simp add: lookup_by_None)
next
  case (Some s)
  then show ?thesis using lookup_by_Some [OF Some] unique_keyD [OF assms(1)] assms(2) by metis
qed

lemma lookup_by_append1 [simp]:
  "lookup_by k x (t @ [r]) =
     (case lookup_by k x t of Some s \<Rightarrow> Some s | None \<Rightarrow> if k r = x then Some r else None)"
  by (induction t) (auto simp: lookup_by_def)

lemma lookup_by_update_where [table_simps]:
  "(\<And>r. k (f r) = k r) \<Longrightarrow>
   lookup_by k x (update_where P f t) = map_option (\<lambda>r. if P r then f r else r) (lookup_by k x t)"
  by (induction t) (auto simp: lookup_by_def)

lemma first_by_Some:
  assumes "first_by k t = Some r"
  shows "r \<in> set t" "\<And>s. s \<in> set t \<Longrightarrow> k r \<le> k s"
proof -
  obtain u where u: "sort_key k t = r # u"
    using assms by (auto simp: first_by_def split: list.splits)
  then show "r \<in> set t" by (metis list.set_intros(1) set_sort)
  show "k r \<le> k s" if "s \<in> set t" for s
  proof -
    have "s \<in> set (r # u)" using that u by (metis set_sort)
    moreover have "sorted (map k (r # u))" using sorted_sort_key [of k t] u by simp
    ultimately show ?thesis by auto
  qed
qed

lemma first_by_None [simp]: "first_by k t = None \<longleftrightarrow> t = []"
proof -
  have "sort_key k t = [] \<longleftrightarrow> t = []" by (metis length_0_conv length_sort)
  then show ?thesis by (auto simp: first_by_def split: list.splits)
qed

lemma first_by_Nil [simp]: "first_by k [] = None"
  by simp

text \<open>UPDATE ... WHERE ... RETURNING of a statement that selects by primary key.\<close>

definition update_returning :: "('a \<Rightarrow> bool) \<Rightarrow> ('a \<Rightarrow> 'a) \<Rightarrow> 'a list \<Rightarrow> ('a list \<times> 'a) option" where
  "update_returning P f t = (case find P t of None \<Rightarrow> None | Some r \<Rightarrow> Some (update_where P f t, f r))"

lemma update_returning_Some:
  assumes "update_returning P f t = Some (t', x)"
  obtains r where "r \<in> set t" "P r" "t' = update_where P f t" "x = f r"
  using assms by (auto simp: update_returning_def dest!: find_set split: option.splits)

lemma update_returning_None [simp]: "update_returning P f t = None \<longleftrightarrow> (\<forall>r\<in>set t. \<not> P r)"
proof -
  have "update_returning P f t = None \<longleftrightarrow> find P t = None"
    by (simp add: update_returning_def split: option.splits)
  then show ?thesis by (auto simp: find_None_iff)
qed

lemma update_where_none: "\<forall>r\<in>set t. \<not> P r \<Longrightarrow> update_where P f t = t"
  by (simp add: update_where_def map_idI)

lemma find_unique:
  assumes "unique_key k t" "r \<in> set t" "P r" "\<And>s. P s \<Longrightarrow> k s = k r"
  shows "find P t = Some r"
proof -
  have "find P t \<noteq> None" using assms(2,3) by (auto simp: find_None_iff)
  then obtain s where s: "find P t = Some s" by blast
  then have "s = r" using find_set [OF s] assms unique_keyD by metis
  then show ?thesis using s by simp
qed

subsection \<open>Histories\<close>

text \<open>The contract of a store whose settled items are final: its calls keep the invariant of the tables and, in
  tables that meet it, every settled item.\<close>

locale settled_history =
  fixes event :: "'db \<Rightarrow> 'db \<Rightarrow> bool" and ok :: "'db \<Rightarrow> bool" and keeps :: "'db \<Rightarrow> 'v \<Rightarrow> bool"
  assumes call_ok: "event db db' \<Longrightarrow> ok db \<Longrightarrow> ok db'"
    and call_keeps: "event db db' \<Longrightarrow> ok db \<Longrightarrow> keeps db v \<Longrightarrow> keeps db' v"
begin

lemma settled_ok: "event\<^sup>*\<^sup>* db db' \<Longrightarrow> ok db \<Longrightarrow> ok db'"
  by (induction rule: rtranclp_induct) (blast intro: call_ok)+

lemma settled_keeps: "event\<^sup>*\<^sup>* db db' \<Longrightarrow> ok db \<Longrightarrow> keeps db v \<Longrightarrow> keeps db' v"
proof (induction rule: rtranclp_induct)
  case (step a b)
  then show ?case using call_keeps settled_ok by blast
qed

end

subsection \<open>Instants\<close>

text \<open>An instant is its number of nanoseconds since the epoch. The database keeps milliseconds:
  \<open>UnixMilli\<close> floors, and \<open>time.UnixMilli\<close> reads them back.\<close>

type_synonym instant = int

abbreviation nanos_per_milli :: int where "nanos_per_milli \<equiv> 1000000"
abbreviation nanos_per_second :: int where "nanos_per_second \<equiv> 1000000000"

definition unix_milli :: "instant \<Rightarrow> int" where
  "unix_milli t = t div nanos_per_milli"

definition from_milli :: "int \<Rightarrow> instant" where
  "from_milli m = m * nanos_per_milli"

lemma unix_from_milli [simp]: "unix_milli (from_milli m) = m"
  by (simp add: unix_milli_def from_milli_def)

lemma from_unix_milli_le: "from_milli (unix_milli t) \<le> t"
  by (simp add: unix_milli_def from_milli_def)

lemma unix_milli_mono: "s \<le> t \<Longrightarrow> unix_milli s \<le> unix_milli t"
  by (simp add: unix_milli_def zdiv_mono1)

end
