(* ===== verification/GoStd.thy ===== *)
theory GoStd
  imports Prelude "HOL-Library.Sublist"
begin

text \<open>The functions of Go's strings package that the program uses, on byte strings.
  \<open>trim_space\<close> removes the Unicode white space of \<open>unicode.IsSpace\<close>, given by its UTF-8 encodings.
  Case mapping is exact on ASCII and on the four non-ASCII letters whose image is ASCII (dotless i,
  long s, dotted capital I, the Kelvin sign); other letters outside ASCII are left as they are, so
  comparisons with ASCII constants are exact.\<close>

definition bytes :: "nat list \<Rightarrow> string" where
  "bytes ns = map char_of ns"

definition space_seqs :: "string list" where
  "space_seqs = map bytes
     ([[9], [10], [11], [12], [13], [32], [0xC2, 0x85], [0xC2, 0xA0], [0xE1, 0x9A, 0x80],
       [0xE2, 0x80, 0xA8], [0xE2, 0x80, 0xA9], [0xE2, 0x80, 0xAF], [0xE2, 0x81, 0x9F],
       [0xE3, 0x80, 0x80]] @ map (\<lambda>b. [0xE2, 0x80, b]) [0x80 ..< 0x8B])"

definition match_len :: "string list \<Rightarrow> string \<Rightarrow> nat" where
  "match_len ws s = (case find (\<lambda>w. prefix w s) ws of None \<Rightarrow> 0 | Some w \<Rightarrow> length w)"

function drop_seqs :: "string list \<Rightarrow> string \<Rightarrow> string" where
  "drop_seqs ws s =
     (if match_len ws s = 0 \<or> s = [] then s else drop_seqs ws (drop (match_len ws s) s))"
  by pat_completeness auto
termination by (relation "measure (length \<circ> snd)") auto

declare drop_seqs.simps [simp del]

definition trim_left :: "string \<Rightarrow> string" where
  "trim_left s = drop_seqs space_seqs s"

definition trim_right :: "string \<Rightarrow> string" where
  "trim_right s = rev (drop_seqs (map rev space_seqs) (rev s))"

definition trim_space :: "string \<Rightarrow> string" where
  "trim_space s = trim_right (trim_left s)"

definition blank :: "string \<Rightarrow> bool" where
  "blank s = (trim_space s = [])"

definition upper_char :: "char \<Rightarrow> char" where
  "upper_char c = (let n = (of_char c :: nat) in
     if 97 \<le> n \<and> n \<le> 122 then char_of (n - 32) else c)"

definition lower_char :: "char \<Rightarrow> char" where
  "lower_char c = (let n = (of_char c :: nat) in
     if 65 \<le> n \<and> n \<le> 90 then char_of (n + 32) else c)"

fun to_upper :: "string \<Rightarrow> string" where
  "to_upper [] = []"
| "to_upper [c] = [upper_char c]"
| "to_upper (c # d # s) =
     (if [c, d] = bytes [0xC4, 0xB1] then CHR ''I'' # to_upper s
      else if [c, d] = bytes [0xC5, 0xBF] then CHR ''S'' # to_upper s
      else upper_char c # to_upper (d # s))"

fun to_lower :: "string \<Rightarrow> string" where
  "to_lower [] = []"
| "to_lower [c] = [lower_char c]"
| "to_lower [c, d] =
     (if [c, d] = bytes [0xC4, 0xB0] then [CHR ''i''] else [lower_char c, lower_char d])"
| "to_lower (c # d # e # s) =
     (if [c, d] = bytes [0xC4, 0xB0] then CHR ''i'' # to_lower (e # s)
      else if [c, d, e] = bytes [0xE2, 0x84, 0xAA] then CHR ''k'' # to_lower s
      else lower_char c # to_lower (d # e # s))"

definition has_prefix :: "string \<Rightarrow> string \<Rightarrow> bool" where
  "has_prefix s p = (take (length p) s = p)"

definition has_suffix :: "string \<Rightarrow> string \<Rightarrow> bool" where
  "has_suffix s p = (length p \<le> length s \<and> drop (length s - length p) s = p)"

fun contains_sub :: "string \<Rightarrow> string \<Rightarrow> bool" where
  "contains_sub [] p = (p = [])"
| "contains_sub (c # s) p = (has_prefix (c # s) p \<or> contains_sub s p)"

definition contains_any :: "string \<Rightarrow> string \<Rightarrow> bool" where
  "contains_any s cs = list_ex (\<lambda>c. c \<in> set cs) s"

definition is_control :: "char \<Rightarrow> bool" where
  "is_control c = (let n = (of_char c :: nat) in n < 32 \<or> n = 127)"

subsection \<open>Trimming\<close>

lemma match_len_le: "match_len ws s \<le> length s"
  by (auto simp: match_len_def dest!: find_set prefix_length_le split: option.splits)

lemma match_len_zero:
  "[] \<notin> set ws \<Longrightarrow> match_len ws s = 0 \<longleftrightarrow> (\<forall>w\<in>set ws. \<not> prefix w s)"
  by (auto simp: match_len_def find_None_iff dest!: find_set split: option.splits)

lemma match_len_zero_prefix:
  "[] \<notin> set ws \<Longrightarrow> match_len ws s = 0 \<Longrightarrow> prefix p s \<Longrightarrow> match_len ws p = 0"
  by (auto simp: match_len_zero dest: prefix_order.trans)

lemma drop_seqs_fixed: "match_len ws s = 0 \<Longrightarrow> drop_seqs ws s = s"
  by (subst drop_seqs.simps) simp

lemma drop_seqs_step:
  "match_len ws s \<noteq> 0 \<Longrightarrow> s \<noteq> [] \<Longrightarrow> drop_seqs ws s = drop_seqs ws (drop (match_len ws s) s)"
  by (subst drop_seqs.simps) simp

lemma drop_seqs_Nil [simp]: "drop_seqs ws [] = []"
  by (subst drop_seqs.simps) simp

lemma drop_seqs_match: "match_len ws (drop_seqs ws s) = 0 \<or> drop_seqs ws s = []"
proof (induction ws s rule: drop_seqs.induct)
  case (1 ws s)
  then show ?case
    by (cases "match_len ws s = 0"; cases "s = []") (simp_all add: drop_seqs_fixed drop_seqs_step)
qed

lemma drop_seqs_idem [simp]: "drop_seqs ws (drop_seqs ws s) = drop_seqs ws s"
  using drop_seqs_match [of ws s] by (auto simp: drop_seqs_fixed)

lemma drop_seqs_suffix: "\<exists>p. s = p @ drop_seqs ws s"
proof (induction ws s rule: drop_seqs.induct)
  case (1 ws s)
  show ?case
  proof (cases "match_len ws s = 0 \<or> s = []")
    case False
    then obtain p where "drop (match_len ws s) s = p @ drop_seqs ws (drop (match_len ws s) s)"
      using 1 by blast
    then have "s = (take (match_len ws s) s @ p) @ drop_seqs ws s"
      using False by (metis append.assoc append_take_drop_id drop_seqs_step)
    then show ?thesis by blast
  next
    case True
    then show ?thesis by (auto simp: drop_seqs_fixed)
  qed
qed

lemma Nil_notin_space_seqs: "[] \<notin> set space_seqs"
  by (auto simp: space_seqs_def bytes_def)

lemma trim_right_prefix: "prefix (trim_right s) s"
proof -
  obtain p where "rev s = p @ drop_seqs (map rev space_seqs) (rev s)"
    using drop_seqs_suffix by blast
  then have "s = trim_right s @ rev p"
    unfolding trim_right_def by (metis rev_append rev_rev_ident)
  then show ?thesis by (metis prefixI)
qed

lemma trim_right_idem: "trim_right (trim_right s) = trim_right s"
  by (simp add: trim_right_def)

lemma trim_left_trim_right: "trim_left (trim_right (trim_left s)) = trim_right (trim_left s)"
proof (cases "trim_right (trim_left s) = []")
  case False
  then have "trim_left s \<noteq> []"
    by (auto simp: trim_right_def)
  then have "match_len space_seqs (trim_left s) = 0"
    using drop_seqs_match by (auto simp: trim_left_def)
  then have "match_len space_seqs (trim_right (trim_left s)) = 0"
    using match_len_zero_prefix Nil_notin_space_seqs trim_right_prefix by blast
  then show ?thesis
    unfolding trim_left_def by (rule drop_seqs_fixed)
qed (simp add: trim_left_def)

lemma trim_space_idem [simp]: "trim_space (trim_space s) = trim_space s"
  by (simp add: trim_space_def trim_left_trim_right trim_right_idem)

lemma trim_space_Nil [simp]: "trim_space [] = []"
  by (simp add: trim_space_def trim_left_def trim_right_def)

lemma trim_space_length: "length (trim_space s) \<le> length s"
proof -
  have "length (trim_left s) \<le> length s"
  proof -
    obtain p where "s = p @ trim_left s"
      unfolding trim_left_def using drop_seqs_suffix by blast
    then show ?thesis by (metis length_append le_add2)
  qed
  then show ?thesis
    unfolding trim_space_def using trim_right_prefix prefix_length_le order.trans by blast
qed

lemma blank_Nil [simp]: "blank []"
  by (simp add: blank_def)

lemma blank_trim [simp]: "blank (trim_space s) = blank s"
  by (simp add: blank_def)

text \<open>A string that begins and ends with a printable ASCII character is its own trimming.\<close>

definition plain_char :: "char \<Rightarrow> bool" where
  "plain_char c = (let n = (of_char c :: nat) in 32 < n \<and> n < 127)"

lemma space_seqs_ends: "\<forall>w\<in>set space_seqs. \<not> plain_char (hd w) \<and> \<not> plain_char (last w)"
  by code_simp

lemma drop_seqs_plain:
  assumes "[] \<notin> set ws" "\<forall>w\<in>set ws. \<not> plain_char (hd w)" "plain_char (hd s)"
  shows "drop_seqs ws s = s"
proof (rule drop_seqs_fixed)
  have "\<not> prefix w s" if "w \<in> set ws" for w
  proof
    assume "prefix w s"
    moreover have "w \<noteq> []" using that assms(1) by blast
    ultimately have "hd w = hd s" by (auto simp: prefix_def)
    then show False using that assms(2,3) by auto
  qed
  then show "match_len ws s = 0" using assms(1) by (simp add: match_len_zero)
qed

lemma trim_space_plain:
  assumes "s \<noteq> []" "plain_char (hd s)" "plain_char (last s)"
  shows "trim_space s = s"
proof -
  have "trim_left s = s"
    unfolding trim_left_def using space_seqs_ends Nil_notin_space_seqs assms(2)
    by (intro drop_seqs_plain) auto
  moreover have "drop_seqs (map rev space_seqs) (rev s) = rev s"
    using space_seqs_ends Nil_notin_space_seqs assms(1,3)
    by (intro drop_seqs_plain) (auto simp: hd_rev)
  ultimately show ?thesis by (simp add: trim_space_def trim_right_def)
qed

lemma trim_space_plain_Cons [simp]:
  "plain_char c \<Longrightarrow> plain_char (last (c # s)) \<Longrightarrow> trim_space (c # s) = c # s"
  by (rule trim_space_plain) auto

text \<open>A blank string is a sequence of white-space characters.\<close>

lemma drop_seqs_words: "\<exists>us. set us \<subseteq> set ws \<and> s = concat us @ drop_seqs ws s"
proof (induction ws s rule: drop_seqs.induct)
  case (1 ws s)
  show ?case
  proof (cases "match_len ws s = 0 \<or> s = []")
    case True
    then have "drop_seqs ws s = s" by (auto simp: drop_seqs_fixed)
    then show ?thesis by (intro exI [of _ "[]"]) simp
  next
    case False
    then obtain us where us: "set us \<subseteq> set ws" "drop (match_len ws s) s = concat us @ drop_seqs ws (drop (match_len ws s) s)"
      using 1 by blast
    obtain w where w: "find (\<lambda>w. prefix w s) ws = Some w" "match_len ws s = length w"
      using False by (auto simp: match_len_def split: option.splits)
    have "w \<in> set ws" "s = w @ drop (length w) s" using find_set [OF w(1)] by (auto simp: prefix_def)
    then show ?thesis using us False w(2) drop_seqs_step [of ws s] by (intro exI [of _ "w # us"]) simp
  qed
qed

lemma drop_seqs_concat:
  assumes "[] \<notin> set ws" "\<forall>v\<in>set ws. \<forall>w\<in>set ws. prefix v w \<longrightarrow> v = w" "set us \<subseteq> set ws"
  shows "drop_seqs ws (concat us) = []"
  using assms(3)
proof (induction us)
  case (Cons u us)
  then have u: "u \<in> set ws" "u \<noteq> []" using assms(1) by auto
  have "match_len ws (u @ concat us) = length u"
  proof (cases "find (\<lambda>w. prefix w (u @ concat us)) ws")
    case None
    then show ?thesis using u(1) find_NoneD by fastforce
  next
    case (Some w)
    then have "w \<in> set ws" "prefix w (u @ concat us)" using find_set by fastforce+
    then have "prefix w u \<or> prefix u w" by (meson prefix_same_cases prefixI)
    then have "w = u" using assms(2) u(1) \<open>w \<in> set ws\<close> by blast
    then show ?thesis using Some by (simp add: match_len_def)
  qed
  then show ?case using Cons u(2) drop_seqs_step [of ws "u @ concat us"] by simp
qed simp

lemma space_seqs_prefix_free: "\<forall>v\<in>set space_seqs. \<forall>w\<in>set space_seqs. prefix v w \<longrightarrow> v = w"
  by code_simp

lemma blank_iff: "trim_space s = [] \<longleftrightarrow> (\<exists>us. set us \<subseteq> set space_seqs \<and> s = concat us)"
proof
  assume "trim_space s = []"
  then have "drop_seqs (map rev space_seqs) (rev (trim_left s)) = []" by (simp add: trim_space_def trim_right_def)
  then obtain vs where v: "set vs \<subseteq> rev ` set space_seqs" "rev (trim_left s) = concat vs"
    using drop_seqs_words [of "map rev space_seqs" "rev (trim_left s)"] by auto
  obtain us where u: "set us \<subseteq> set space_seqs" "s = concat us @ trim_left s"
    unfolding trim_left_def using drop_seqs_words by blast
  have "trim_left s = concat (map rev (rev vs))" using v(2) by (metis rev_concat rev_map rev_rev_ident)
  moreover have "set (map rev (rev vs)) \<subseteq> set space_seqs" using v(1) by auto
  ultimately show "\<exists>us. set us \<subseteq> set space_seqs \<and> s = concat us"
    using u by (intro exI [of _ "us @ map rev (rev vs)"]) auto
next
  assume "\<exists>us. set us \<subseteq> set space_seqs \<and> s = concat us"
  then have "trim_left s = []"
    unfolding trim_left_def using drop_seqs_concat [OF Nil_notin_space_seqs space_seqs_prefix_free] by blast
  then show "trim_space s = []" by (simp add: trim_space_def trim_right_def)
qed

text \<open>A non-empty cut of a trimmed string is not blank.\<close>

lemma drop_seqs_all:
  assumes "drop_seqs (map rev ws) u = []" "u \<noteq> []" "[] \<notin> set ws"
  shows "\<exists>w\<in>set ws. prefix w (rev u)"
  using assms
proof (induction "map rev ws" u rule: drop_seqs.induct)
  case (1 u)
  let ?k = "match_len (map rev ws) u"
  have k: "?k \<noteq> 0" using 1 drop_seqs_fixed by fastforce
  then obtain w where f: "find (\<lambda>w. prefix w u) (map rev ws) = Some w" "?k = length w"
    by (auto simp: match_len_def split: option.splits)
  then obtain v where v: "v \<in> set ws" "prefix (rev v) u" "?k = length v"
    using find_set [OF f(1)] by auto
  show ?case
  proof (cases "drop ?k u = []")
    case True
    then have "u = rev v" using v by (auto simp: prefix_def)
    then show ?thesis using v by auto
  next
    case False
    have "drop_seqs (map rev ws) (drop ?k u) = []" using 1(2,3) k drop_seqs_step by metis
    then obtain w where w: "w \<in> set ws" "prefix w (rev (drop ?k u))" using 1 k False by blast
    have "rev u = rev (drop ?k u) @ rev (take ?k u)" by (metis append_take_drop_id rev_append)
    then show ?thesis using w by (metis prefix_prefix)
  qed
qed

lemma take_not_blank:
  assumes "trim_space s = s" "s \<noteq> []" "0 < n"
  shows "trim_space (take n s) \<noteq> []"
proof
  let ?u = "take n s"
  assume blank: "trim_space ?u = []"
  obtain p where p: "s = p @ trim_left s" unfolding trim_left_def using drop_seqs_suffix by blast
  have "length s \<le> length (trim_left s)"
    using assms(1) trim_right_prefix [of "trim_left s"] prefix_length_le by (fastforce simp: trim_space_def)
  moreover have "length s = length p + length (trim_left s)" using p by (metis length_append)
  ultimately have "p = []" by simp
  then have l: "trim_left s = s" using p by simp
  then have "match_len space_seqs s = 0" using drop_seqs_match [of space_seqs s] assms(2) by (auto simp: trim_left_def)
  then have z: "match_len space_seqs ?u = 0"
    using match_len_zero_prefix Nil_notin_space_seqs take_is_prefix by blast
  then have "trim_left ?u = ?u" by (simp add: trim_left_def drop_seqs_fixed)
  then have "drop_seqs (map rev space_seqs) (rev ?u) = []" using blank by (simp add: trim_space_def trim_right_def)
  then have "\<exists>w\<in>set space_seqs. prefix w ?u"
    using drop_seqs_all [of space_seqs "rev ?u"] assms(2,3) Nil_notin_space_seqs by auto
  then show False using z Nil_notin_space_seqs by (simp add: match_len_zero)
qed

text \<open>An ASCII string without lower-case letters is its own upper-case form.\<close>

definition upper_ascii :: "char \<Rightarrow> bool" where
  "upper_ascii c = (let n = (of_char c :: nat) in n < 97)"

lemma to_upper_id: "list_all upper_ascii s \<Longrightarrow> to_upper s = s"
proof (induction s rule: to_upper.induct)
  case (3 c d s)
  have "[c, d] \<noteq> bytes [0xC4, 0xB1]" "[c, d] \<noteq> bytes [0xC5, 0xBF]" "upper_char c = c"
    using 3 by (auto simp: bytes_def upper_ascii_def upper_char_def Let_def)
  then show ?case using 3 by simp
qed (auto simp: upper_char_def upper_ascii_def Let_def)

definition is_ascii :: "char \<Rightarrow> bool" where
  "is_ascii c = ((of_char c :: nat) < 128)"

lemma ascii_not_lead:
  "is_ascii c \<Longrightarrow> c # s \<noteq> bytes [0xC4, b]" "is_ascii c \<Longrightarrow> c # s \<noteq> bytes [0xC5, b]"
  "is_ascii c \<Longrightarrow> c # s \<noteq> bytes [0xE2, b, d]"
  by (auto simp: is_ascii_def bytes_def)

text \<open>The tests of package strings are the relations of HOL-Library.Sublist.\<close>

lemma has_prefix_iff: "has_prefix s p \<longleftrightarrow> prefix p s"
  by (metis append_eq_conv_conj has_prefix_def prefixE prefixI append_take_drop_id)

lemma has_suffix_iff: "has_suffix s p \<longleftrightarrow> suffix p s"
  unfolding has_suffix_def suffix_def by (metis append_eq_conv_conj append_take_drop_id diff_add_inverse2 le_add2 length_append)

lemma contains_sub_iff: "contains_sub s p \<longleftrightarrow> sublist p s"
  by (induction s) (auto simp: has_prefix_iff sublist_Cons_right)

subsection \<open>Paths\<close>

text \<open>\<open>filepath.Clean\<close> and \<open>filepath.Join\<close> on Unix.\<close>

fun split_char :: "char \<Rightarrow> string \<Rightarrow> string list" where
  "split_char c [] = [[]]"
| "split_char c (d # s) =
     (if d = c then [] # split_char c s
      else case split_char c s of [] \<Rightarrow> [[d]] | p # ps \<Rightarrow> (d # p) # ps)"

fun join_with :: "string \<Rightarrow> string list \<Rightarrow> string" where
  "join_with sep [] = []"
| "join_with sep [p] = p"
| "join_with sep (p # q # ps) = p @ sep @ join_with sep (q # ps)"

text \<open>The accumulator holds the components kept so far, the last one first.\<close>

fun clean_parts :: "bool \<Rightarrow> string list \<Rightarrow> string list \<Rightarrow> string list" where
  "clean_parts rooted acc [] = rev acc"
| "clean_parts rooted acc (p # ps) =
     (if p = [] \<or> p = ''.'' then clean_parts rooted acc ps
      else if p = ''..'' then
        (case acc of
           [] \<Rightarrow> if rooted then clean_parts rooted [] ps else clean_parts rooted [p] ps
         | a # as \<Rightarrow> if a = ''..'' then clean_parts rooted (p # acc) ps else clean_parts rooted as ps)
      else clean_parts rooted (p # acc) ps)"

definition is_rooted :: "string \<Rightarrow> bool" where
  "is_rooted s = (s \<noteq> [] \<and> hd s = CHR ''/'')"

definition path_parts :: "string \<Rightarrow> string list" where
  "path_parts s = clean_parts (is_rooted s) [] (split_char (CHR ''/'') s)"

definition path_clean :: "string \<Rightarrow> string" where
  "path_clean s =
     (if is_rooted s then CHR ''/'' # join_with ''/'' (path_parts s)
      else if path_parts s = [] then ''.'' else join_with ''/'' (path_parts s))"

definition path_join :: "string \<Rightarrow> string \<Rightarrow> string" where
  "path_join a b =
     (if a = [] \<and> b = [] then [] else if a = [] then path_clean b else if b = [] then path_clean a
      else path_clean (a @ ''/'' @ b))"

text \<open>\<open>filepath.Rel\<close> of two cleaned absolute paths, as its list of components.\<close>

fun strip_common :: "string list \<Rightarrow> string list \<Rightarrow> string list \<times> string list" where
  "strip_common (a # as) (b # bs) = (if a = b then strip_common as bs else (a # as, b # bs))"
| "strip_common as bs = (as, bs)"

definition path_rel_parts :: "string \<Rightarrow> string \<Rightarrow> string list" where
  "path_rel_parts base target =
     (let (up, down) = strip_common (path_parts base) (path_parts target)
      in map (\<lambda>_. ''..'') up @ down)"

end
