(* ===== verification/JobQueue.thy ===== *)
theory JobQueue
  imports GoStd
begin

text \<open>The durable job queue (internal/jobqueue): the jobs table as a list of rows and one definition
  per operation of \<open>Queue\<close>. The payload is opaque to the queue, so its type is a parameter. An
  operation returns the new table with its result, or an error and leaves the table as it was; the
  new row's id (\<open>newID\<close>) and the current instant are arguments.\<close>

datatype job_status = JQueued | JRunning | JCompleted | JDead

record 'p job_row =
  jr_id :: string
  jr_type :: string
  jr_payload :: 'p
  jr_status :: job_status
  jr_attempts :: int
  jr_max_attempts :: int
  jr_run_after :: int
  jr_locked_by :: "string option"
  jr_locked_at :: "int option"
  jr_last_error :: "string option"
  jr_created_at :: int
  jr_updated_at :: int

record 'p job =
  j_id :: string
  j_type :: string
  j_payload :: 'p
  j_status :: job_status
  j_attempts :: int
  j_max_attempts :: int
  j_run_after :: instant
  j_locked_by :: string
  j_locked_at :: "instant option"
  j_last_error :: string
  j_created_at :: instant
  j_updated_at :: instant

datatype queue_error =
  JobTypeRequired | MaxAttemptsInvalid | WorkerRequired | ErrJobNotRunning | QueueDbError

type_synonym 'p jobs_table = "'p job_row list"

definition null_string :: "string option \<Rightarrow> string" where
  "null_string v = (case v of None \<Rightarrow> [] | Some s \<Rightarrow> s)"

definition scan_job :: "'p job_row \<Rightarrow> 'p job" where
  "scan_job r = \<lparr> j_id = jr_id r, j_type = jr_type r, j_payload = jr_payload r,
     j_status = jr_status r, j_attempts = jr_attempts r, j_max_attempts = jr_max_attempts r,
     j_run_after = from_milli (jr_run_after r), j_locked_by = null_string (jr_locked_by r),
     j_locked_at = map_option from_milli (jr_locked_at r),
     j_last_error = null_string (jr_last_error r),
     j_created_at = from_milli (jr_created_at r), j_updated_at = from_milli (jr_updated_at r) \<rparr>"

definition new_job :: "string \<Rightarrow> instant \<Rightarrow> string \<Rightarrow> 'p \<Rightarrow> int \<Rightarrow> instant \<Rightarrow> 'p job" where
  "new_job new_id now job_type payload max_attempts run_after =
     \<lparr> j_id = new_id, j_type = job_type, j_payload = payload, j_status = JQueued, j_attempts = 0,
       j_max_attempts = max_attempts, j_run_after = run_after, j_locked_by = [],
       j_locked_at = None, j_last_error = [], j_created_at = now, j_updated_at = now \<rparr>"

definition insert_job :: "'p job \<Rightarrow> 'p jobs_table \<Rightarrow> queue_error + 'p jobs_table" where
  "insert_job j q =
     (if j_id j \<in> jr_id ` set q \<or> j_max_attempts j \<le> 0 then Inl QueueDbError
      else Inr (q @ [\<lparr> jr_id = j_id j, jr_type = j_type j, jr_payload = j_payload j,
        jr_status = j_status j, jr_attempts = 0, jr_max_attempts = j_max_attempts j,
        jr_run_after = unix_milli (j_run_after j), jr_locked_by = None, jr_locked_at = None,
        jr_last_error = None, jr_created_at = unix_milli (j_created_at j),
        jr_updated_at = unix_milli (j_updated_at j) \<rparr>]))"

definition enqueue ::
  "string \<Rightarrow> instant \<Rightarrow> string \<Rightarrow> 'p \<Rightarrow> int \<Rightarrow> instant \<Rightarrow> 'p jobs_table
   \<Rightarrow> queue_error + 'p jobs_table \<times> 'p job" where
  "enqueue new_id now job_type payload max_attempts run_after q =
     (if job_type = [] then Inl JobTypeRequired
      else if max_attempts < 1 then Inl MaxAttemptsInvalid
      else let j = new_job new_id now job_type payload max_attempts run_after in
        rbind (insert_job j q) (\<lambda>q'. Inr (q', j)))"

definition enqueue_with ::
  "string \<Rightarrow> instant \<Rightarrow> string \<Rightarrow> 'p \<Rightarrow> int \<Rightarrow> instant \<Rightarrow> 'p jobs_table
   \<Rightarrow> queue_error + 'p jobs_table \<times> 'p job" where
  "enqueue_with new_id now job_type payload max_attempts run_after q =
     (let job_type = trim_space job_type in
      if job_type = [] then Inl JobTypeRequired
      else if max_attempts < 1 then Inl MaxAttemptsInvalid
      else let j = new_job new_id now job_type payload max_attempts run_after in
        rbind (insert_job j q) (\<lambda>q'. Inr (q', j)))"

definition enqueue_tx ::
  "string \<Rightarrow> instant \<Rightarrow> string \<Rightarrow> 'p \<Rightarrow> int \<Rightarrow> instant \<Rightarrow> 'p jobs_table
   \<Rightarrow> queue_error + 'p jobs_table \<times> 'p job" where
  "enqueue_tx = enqueue_with"

definition runnable :: "(string \<Rightarrow> bool) \<Rightarrow> instant \<Rightarrow> 'p job_row \<Rightarrow> bool" where
  "runnable ok now r = (jr_status r = JQueued \<and> jr_run_after r \<le> unix_milli now \<and> ok (jr_type r))"

definition claim_order :: "'p job_row \<Rightarrow> int \<times> int" where
  "claim_order r = (jr_run_after r, jr_created_at r)"

definition lock_row :: "string \<Rightarrow> instant \<Rightarrow> 'p job_row \<Rightarrow> 'p job_row" where
  "lock_row worker now r = r\<lparr> jr_status := JRunning, jr_attempts := jr_attempts r + 1,
     jr_locked_by := Some worker, jr_locked_at := Some (unix_milli now),
     jr_updated_at := unix_milli now \<rparr>"

definition claim_where ::
  "(string \<Rightarrow> bool) \<Rightarrow> string \<Rightarrow> instant \<Rightarrow> 'p jobs_table \<Rightarrow> 'p jobs_table \<times> 'p job option" where
  "claim_where ok worker now q =
     (case first_by claim_order (filter (runnable ok now) q) of
        None \<Rightarrow> (q, None)
      | Some r \<Rightarrow> (update_where (\<lambda>x. jr_id x = jr_id r) (lock_row worker now) q,
                   Some (scan_job (lock_row worker now r))))"

definition claim ::
  "string \<Rightarrow> instant \<Rightarrow> 'p jobs_table \<Rightarrow> queue_error + 'p jobs_table \<times> 'p job option" where
  "claim worker now q =
     (if worker = [] then Inl WorkerRequired else Inr (claim_where (\<lambda>_. True) worker now q))"

definition normalize_job_types :: "string list \<Rightarrow> string list" where
  "normalize_job_types values = sort (rev (remdups (rev (filter (\<lambda>v. v \<noteq> []) (map trim_space values)))))"

definition claim_types ::
  "string \<Rightarrow> instant \<Rightarrow> string list \<Rightarrow> 'p jobs_table
   \<Rightarrow> queue_error + 'p jobs_table \<times> 'p job option" where
  "claim_types worker now job_types q =
     (if worker = [] then Inl WorkerRequired
      else let ts = normalize_job_types job_types in
        if ts = [] then Inr (q, None)
        else Inr (claim_where (\<lambda>t. t \<in> set ts) worker now q))"

definition is_running_job :: "string \<Rightarrow> 'p job_row \<Rightarrow> bool" where
  "is_running_job i r = (jr_id r = i \<and> jr_status r = JRunning)"

definition require_one_running :: "nat \<Rightarrow> queue_error + unit" where
  "require_one_running n = guardE (n = 1) ErrJobNotRunning"

definition complete :: "string \<Rightarrow> instant \<Rightarrow> 'p jobs_table \<Rightarrow> queue_error + 'p jobs_table" where
  "complete i now q =
     rbind (require_one_running (affected (is_running_job i) q)) (\<lambda>_.
       Inr (update_where (is_running_job i)
         (\<lambda>r. r\<lparr> jr_status := JCompleted, jr_locked_by := None, jr_locked_at := None,
               jr_updated_at := unix_milli now \<rparr>) q))"

definition fail_row :: "string \<Rightarrow> instant \<Rightarrow> instant \<Rightarrow> 'p job_row \<Rightarrow> 'p job_row" where
  "fail_row failure retry_at now r = r\<lparr>
     jr_status := (if jr_attempts r \<ge> jr_max_attempts r then JDead else JQueued),
     jr_run_after := (if jr_attempts r \<ge> jr_max_attempts r then jr_run_after r else unix_milli retry_at),
     jr_last_error := Some failure, jr_locked_by := None, jr_locked_at := None,
     jr_updated_at := unix_milli now \<rparr>"

definition fail ::
  "string \<Rightarrow> string \<Rightarrow> instant \<Rightarrow> instant \<Rightarrow> 'p jobs_table
   \<Rightarrow> queue_error + 'p jobs_table \<times> job_status" where
  "fail i failure retry_at now q =
     (case find (is_running_job i) q of
        None \<Rightarrow> Inl ErrJobNotRunning
      | Some r \<Rightarrow> Inr (update_where (is_running_job i) (fail_row failure retry_at now) q,
                       jr_status (fail_row failure retry_at now r)))"

definition requeue_row :: "instant \<Rightarrow> 'p job_row \<Rightarrow> 'p job_row" where
  "requeue_row now r = r\<lparr> jr_status := JQueued, jr_locked_by := None, jr_locked_at := None,
     jr_updated_at := unix_milli now \<rparr>"

definition is_stale :: "instant \<Rightarrow> 'p job_row \<Rightarrow> bool" where
  "is_stale locked_before r = (jr_status r = JRunning \<and>
     (case jr_locked_at r of None \<Rightarrow> False | Some l \<Rightarrow> l < unix_milli locked_before))"

definition recover_stale :: "instant \<Rightarrow> instant \<Rightarrow> 'p jobs_table \<Rightarrow> 'p jobs_table \<times> string list" where
  "recover_stale locked_before now q =
     (update_where (is_stale locked_before) (requeue_row now) q,
      map jr_id (filter (is_stale locked_before) q))"

definition recover_interrupted :: "instant \<Rightarrow> 'p jobs_table \<Rightarrow> 'p jobs_table \<times> string list" where
  "recover_interrupted now q =
     (update_where (\<lambda>r. jr_status r = JRunning) (requeue_row now) q,
      map jr_id (filter (\<lambda>r. jr_status r = JRunning) q))"

subsection \<open>Well-formed tables\<close>

definition row_ok :: "'p job_row \<Rightarrow> bool" where
  "row_ok r = (jr_max_attempts r \<ge> 1 \<and> jr_attempts r \<ge> 0 \<and>
     (jr_status r = JRunning \<longleftrightarrow> jr_locked_by r \<noteq> None) \<and>
     (jr_locked_by r = None \<longleftrightarrow> jr_locked_at r = None) \<and> jr_locked_by r \<noteq> Some [] \<and>
     (jr_status r \<noteq> JQueued \<longrightarrow> jr_attempts r \<ge> 1) \<and>
     (jr_status r = JDead \<longrightarrow> jr_attempts r \<ge> jr_max_attempts r))"

definition queue_ok :: "'p jobs_table \<Rightarrow> bool" where
  "queue_ok q = (unique_key jr_id q \<and> (\<forall>r\<in>set q. row_ok r))"

abbreviation job_row_of :: "'p jobs_table \<Rightarrow> string \<Rightarrow> 'p job_row option" where
  "job_row_of q i \<equiv> lookup_by jr_id i q"

definition settled :: "'p job_row \<Rightarrow> bool" where
  "settled r = (jr_status r = JCompleted \<or> jr_status r = JDead)"

lemma row_update_simps [simp]:
  "jr_id (lock_row w now r) = jr_id r" "jr_max_attempts (lock_row w now r) = jr_max_attempts r"
  "jr_type (lock_row w now r) = jr_type r" "jr_type (requeue_row now r) = jr_type r"
  "jr_status (lock_row w now r) = JRunning" "jr_attempts (lock_row w now r) = jr_attempts r + 1"
  "jr_id (fail_row f ra now r) = jr_id r" "jr_max_attempts (fail_row f ra now r) = jr_max_attempts r"
  "jr_attempts (fail_row f ra now r) = jr_attempts r"
  "jr_status (fail_row f ra now r) = (if jr_attempts r \<ge> jr_max_attempts r then JDead else JQueued)"
  "jr_id (requeue_row now r) = jr_id r" "jr_max_attempts (requeue_row now r) = jr_max_attempts r"
  "jr_attempts (requeue_row now r) = jr_attempts r" "jr_status (requeue_row now r) = JQueued"
  "jr_id (r\<lparr> jr_status := s, jr_locked_by := lb, jr_locked_at := la, jr_updated_at := u \<rparr>) = jr_id r"
  by (simp_all add: lock_row_def fail_row_def requeue_row_def)

lemma lock_row_ok: "row_ok r \<Longrightarrow> w \<noteq> [] \<Longrightarrow> row_ok (lock_row w now r)"
  by (auto simp: row_ok_def lock_row_def)

lemma fail_row_ok: "row_ok r \<Longrightarrow> jr_status r = JRunning \<Longrightarrow> row_ok (fail_row f ra now r)"
  by (auto simp: row_ok_def fail_row_def)

lemma requeue_row_ok: "row_ok r \<Longrightarrow> row_ok (requeue_row now r)"
  by (auto simp: row_ok_def requeue_row_def)

lemma complete_row_ok:
  "row_ok r \<Longrightarrow> jr_status r = JRunning \<Longrightarrow>
   row_ok (r\<lparr> jr_status := JCompleted, jr_locked_by := None, jr_locked_at := None, jr_updated_at := u \<rparr>)"
  by (auto simp: row_ok_def)

lemmas row_ok_updates = lock_row_ok fail_row_ok requeue_row_ok complete_row_ok

lemma queue_ok_Nil [simp]: "queue_ok []"
  by (simp add: queue_ok_def unique_key_def)

lemma queue_ok_update:
  assumes "queue_ok q" "\<And>r. jr_id (f r) = jr_id r"
    and "\<And>r. r \<in> set q \<Longrightarrow> P r \<Longrightarrow> row_ok r \<Longrightarrow> row_ok (f r)"
  shows "queue_ok (update_where P f q)"
proof -
  have "\<forall>r\<in>set (update_where P f q). row_ok r"
    using assms(1,3) by (intro ball_update_where) (auto simp: queue_ok_def)
  then show ?thesis using assms(1,2) by (simp add: queue_ok_def unique_key_update_where)
qed

subsection \<open>Behaviour of the operations\<close>

lemma enqueue_with_Inr:
  assumes "enqueue_with i now t p m ra q = Inr (q', j)"
  shows "j = new_job i now (trim_space t) p m ra" "trim_space t \<noteq> []" "1 \<le> m" "i \<notin> jr_id ` set q"
    "\<exists>r. q' = q @ [r] \<and> jr_id r = i \<and> jr_type r = trim_space t \<and> jr_payload r = p \<and> jr_status r = JQueued
         \<and> jr_attempts r = 0 \<and> jr_max_attempts r = m \<and> jr_run_after r = unix_milli ra
         \<and> jr_last_error r = None \<and> row_ok r"
  using assms
  by (auto simp: enqueue_with_def Let_def insert_job_def new_job_def row_ok_def split: if_splits)

lemma enqueue_with_succeeds:
  "trim_space t \<noteq> [] \<Longrightarrow> 1 \<le> m \<Longrightarrow> i \<notin> jr_id ` set q \<Longrightarrow>
   \<exists>q'. enqueue_with i now t p m ra q = Inr (q', new_job i now (trim_space t) p m ra)"
  by (auto simp: enqueue_with_def Let_def insert_job_def new_job_def)

lemma enqueue_eq_with: "trim_space t = t \<Longrightarrow> enqueue i now t p m ra q = enqueue_with i now t p m ra q"
  by (simp add: enqueue_def enqueue_with_def)

lemma claim_where_Some:
  assumes "claim_where ok w now q = (q', Some j)"
  obtains r where "r \<in> set q" "runnable ok now r"
    "\<And>s. s \<in> set q \<Longrightarrow> runnable ok now s \<Longrightarrow> claim_order r \<le> claim_order s"
    "q' = update_where (\<lambda>x. jr_id x = jr_id r) (lock_row w now) q"
    "j = scan_job (lock_row w now r)"
proof -
  obtain r where r: "first_by claim_order (filter (runnable ok now) q) = Some r"
    "q' = update_where (\<lambda>x. jr_id x = jr_id r) (lock_row w now) q" "j = scan_job (lock_row w now r)"
    using assms by (auto simp: claim_where_def split: option.splits)
  show thesis
    using r first_by_Some [OF r(1)] by (intro that [of r]) auto
qed

lemma claim_where_None:
  "claim_where ok w now q = (q', None) \<longleftrightarrow> q' = q \<and> (\<forall>r\<in>set q. \<not> runnable ok now r)"
  using first_by_Some(1) [of claim_order "filter (runnable ok now) q"]
  by (cases "first_by claim_order (filter (runnable ok now) q)")
    (auto simp: claim_where_def filter_empty_conv)

lemma find_running:
  assumes "queue_ok q"
  shows "find (is_running_job i) q =
    (case job_row_of q i of Some r \<Rightarrow> if jr_status r = JRunning then Some r else None | None \<Rightarrow> None)"
proof (cases "job_row_of q i")
  case None
  then have "\<forall>r\<in>set q. jr_id r \<noteq> i" by (auto simp: lookup_by_None)
  then show ?thesis using None by (auto simp: find_None_iff is_running_job_def)
next
  case (Some r)
  then have r: "r \<in> set q" "jr_id r = i" using lookup_by_Some by fast+
  have u: "s = r" if "s \<in> set q" "jr_id s = i" for s
    using assms that r unique_keyD [of jr_id q s r] by (simp add: queue_ok_def)
  show ?thesis
  proof (cases "jr_status r = JRunning")
    case True
    then have "find (is_running_job i) q \<noteq> None"
      using r by (auto simp: find_None_iff is_running_job_def)
    then obtain s where "find (is_running_job i) q = Some s" by blast
    moreover from find_set [OF this] have "s = r" by (intro u) (auto simp: is_running_job_def)
    ultimately show ?thesis using Some True by simp
  next
    case False
    then have "find (is_running_job i) q = None"
      using u by (auto simp: find_None_iff is_running_job_def)
    then show ?thesis using Some False by simp
  qed
qed

lemma fail_cases:
  assumes "fail i f ra now q = Inr (q', s)"
  obtains r where "r \<in> set q" "jr_id r = i" "jr_status r = JRunning"
    "q' = update_where (is_running_job i) (fail_row f ra now) q"
    "s = (if jr_attempts r \<ge> jr_max_attempts r then JDead else JQueued)"
  using assms that
  by (auto simp: fail_def is_running_job_def dest!: find_set split: option.splits)

lemma complete_cases:
  assumes "complete i now q = Inr q'"
  obtains "\<exists>r\<in>set q. is_running_job i r"
    "q' = update_where (is_running_job i)
       (\<lambda>r. r\<lparr> jr_status := JCompleted, jr_locked_by := None, jr_locked_at := None,
             jr_updated_at := unix_milli now \<rparr>) q"
proof -
  have "affected (is_running_job i) q = 1"
    using assms by (auto simp: complete_def require_one_running_def)
  then have n: "affected (is_running_job i) q \<noteq> 0" by linarith
  have u: "q' = update_where (is_running_job i)
       (\<lambda>r. r\<lparr> jr_status := JCompleted, jr_locked_by := None, jr_locked_at := None,
             jr_updated_at := unix_milli now \<rparr>) q"
    using assms by (auto simp: complete_def)
  show thesis by (rule that [OF affected_pos [OF n] u])
qed

lemma complete_running:
  assumes "queue_ok q" "job_row_of q i = Some r" "jr_status r = JRunning"
  shows "\<exists>q'. complete i now q = Inr q'"
proof -
  have "affected (is_running_job i) q = 1"
    using assms lookup_by_Some [OF assms(2)]
    by (subst affected_eq1_iff [where k = jr_id and x = i]) (auto simp: queue_ok_def is_running_job_def)
  then show ?thesis by (simp add: complete_def require_one_running_def)
qed

subsection \<open>Runs of the queue\<close>

text \<open>A run is a sequence of successful operations, each labelled with the rows it concerns. The
  second index counts the jobs inserted, claimed, settled and recovered so far.\<close>

datatype queue_event =
  Enqueued string | Claimed string | Completed string | Failed string | Recovered "string list"

inductive queue_step :: "'p jobs_table \<Rightarrow> queue_event \<Rightarrow> 'p jobs_table \<Rightarrow> bool" where
  step_enqueue: "enqueue i now t p m ra q = Inr (q', j) \<Longrightarrow> queue_step q (Enqueued i) q'"
| step_enqueue_tx: "enqueue_tx i now t p m ra q = Inr (q', j) \<Longrightarrow> queue_step q (Enqueued i) q'"
| step_claim: "claim w now q = Inr (q', Some j) \<Longrightarrow> queue_step q (Claimed (j_id j)) q'"
| step_claim_types: "claim_types w now ts q = Inr (q', Some j) \<Longrightarrow> queue_step q (Claimed (j_id j)) q'"
| step_complete: "complete i now q = Inr q' \<Longrightarrow> queue_step q (Completed i) q'"
| step_fail: "fail i f ra now q = Inr (q', s) \<Longrightarrow> queue_step q (Failed i) q'"
| step_stale: "recover_stale lb now q = (q', ids) \<Longrightarrow> queue_step q (Recovered ids) q'"
| step_interrupted: "recover_interrupted now q = (q', ids) \<Longrightarrow> queue_step q (Recovered ids) q'"

inductive_cases queue_stepE: "queue_step q ev q'"

inductive queue_run :: "'p jobs_table \<Rightarrow> queue_event list \<Rightarrow> 'p jobs_table \<Rightarrow> bool" where
  run_refl: "queue_run q [] q"
| run_step: "queue_run q evs q' \<Longrightarrow> queue_step q' ev q'' \<Longrightarrow> queue_run q (evs @ [ev]) q''"

definition claims_of :: "string \<Rightarrow> queue_event list \<Rightarrow> nat" where
  "claims_of i evs = length (filter (\<lambda>e. e = Claimed i) evs)"

definition recovers :: "string \<Rightarrow> queue_event \<Rightarrow> bool" where
  "recovers i e = (case e of Recovered ids \<Rightarrow> i \<in> set ids | _ \<Rightarrow> False)"

definition recoveries_of :: "string \<Rightarrow> queue_event list \<Rightarrow> nat" where
  "recoveries_of i evs = length (filter (recovers i) evs)"

text \<open>What one step does to a well-formed table, as a single case rule: either a new row is appended,
  or the claim, or the running rows selected by the operation are rewritten.\<close>

lemma queue_step_shape:
  assumes "queue_step q ev q'"
  obtains (insert) i r where "ev = Enqueued i" "q' = q @ [r]" "jr_id r = i" "i \<notin> jr_id ` set q"
      "jr_status r = JQueued" "jr_attempts r = 0" "row_ok r"
  | (lock) w now r where "ev = Claimed (jr_id r)" "r \<in> set q" "jr_status r = JQueued" "w \<noteq> []"
      "q' = update_where (\<lambda>x. jr_id x = jr_id r) (lock_row w now) q"
  | (finish) i now where "ev = Completed i"
      "q' = update_where (is_running_job i)
         (\<lambda>r. r\<lparr> jr_status := JCompleted, jr_locked_by := None, jr_locked_at := None,
               jr_updated_at := unix_milli now \<rparr>) q"
  | (fail) i f ra now where "ev = Failed i" "q' = update_where (is_running_job i) (fail_row f ra now) q"
  | (requeue) P now where "ev = Recovered (map jr_id (filter P q))" "q' = update_where P (requeue_row now) q"
      "\<And>r. P r \<Longrightarrow> jr_status r = JRunning"
  using assms
proof (cases rule: queue_step.cases)
  case (step_enqueue i now t p m ra j)
  then obtain r where "q' = q @ [r]" "jr_id r = i" "jr_status r = JQueued" "jr_attempts r = 0" "row_ok r"
    "i \<notin> jr_id ` set q"
    by (auto simp: enqueue_def Let_def insert_job_def new_job_def row_ok_def split: if_splits)
  then show ?thesis using step_enqueue insert by blast
next
  case (step_enqueue_tx i now t p m ra j)
  then show ?thesis using enqueue_with_Inr [of i now t p m ra q q' j] insert
    by (auto simp: enqueue_tx_def)
next
  case (step_claim w now j)
  then have "w \<noteq> []" "claim_where (\<lambda>_. True) w now q = (q', Some j)"
    by (auto simp: claim_def split: if_splits)
  then show ?thesis
    using step_claim(1)
    by (elim claim_where_Some) (rule lock, auto simp: runnable_def scan_job_def)
next
  case (step_claim_types w now ts j)
  then have "w \<noteq> []" "claim_where (\<lambda>t. t \<in> set (normalize_job_types ts)) w now q = (q', Some j)"
    by (auto simp: claim_types_def Let_def split: if_splits)
  then show ?thesis
    using step_claim_types(1)
    by (elim claim_where_Some) (rule lock, auto simp: runnable_def scan_job_def)
next
  case (step_complete i now)
  then show ?thesis by (elim complete_cases) (rule finish)
next
  case (step_fail i f ra now s)
  then show ?thesis by (elim fail_cases) (rule fail)
next
  case (step_stale lb now ids)
  then show ?thesis
    by (intro requeue [of "is_stale lb"]) (auto simp: recover_stale_def is_stale_def)
next
  case (step_interrupted now ids)
  then show ?thesis
    by (intro requeue [of "\<lambda>r. jr_status r = JRunning"]) (auto simp: recover_interrupted_def)
qed

lemma queue_step_ok:
  assumes "queue_step q ev q'" "queue_ok q"
  shows "queue_ok q'"
  using assms
proof (cases rule: queue_step_shape)
  case (insert i r)
  then show ?thesis using assms(2) by (simp add: queue_ok_def)
qed (auto intro!: queue_ok_update row_ok_updates simp: assms(2) is_running_job_def)

lemma queue_run_ok: "queue_run q evs q' \<Longrightarrow> queue_ok q \<Longrightarrow> queue_ok q'"
  by (induction rule: queue_run.induct) (auto intro: queue_step_ok)

lemma queue_step_settled:
  assumes "queue_step q ev q'" "queue_ok q" "r \<in> set q" "settled r"
  shows "r \<in> set q'"
  using assms(1)
proof (cases rule: queue_step_shape)
  case (lock w now s)
  then have "jr_id r \<noteq> jr_id s"
    using assms(2-4) unique_keyD [of jr_id q r s] by (auto simp: queue_ok_def settled_def)
  then show ?thesis using lock assms(3) by (auto simp: set_update_where)
next
  case (requeue P now)
  then have "\<not> P r" using assms(4) by (auto simp: settled_def)
  then show ?thesis using requeue(2) assms(3) by (auto simp: set_update_where)
qed (use assms(3,4) in \<open>auto simp: set_update_where is_running_job_def settled_def\<close>)

subsection \<open>Attempts along a run\<close>

definition attempt_budget :: "'p job_row \<Rightarrow> nat \<Rightarrow> bool" where
  "attempt_budget r k =
     (jr_attempts r + (if jr_status r = JQueued then 1 else 0) \<le> jr_max_attempts r + int k)"

lemma claims_of_simps [simp]:
  "claims_of i [] = 0"
  "claims_of i (evs @ [e]) = claims_of i evs + (if e = Claimed i then 1 else 0)"
  by (simp_all add: claims_of_def)

lemma recoveries_of_simps [simp]:
  "recoveries_of i [] = 0"
  "recoveries_of i (evs @ [e]) = recoveries_of i evs + (if recovers i e then 1 else 0)"
  by (simp_all add: recoveries_of_def)

lemma recovers_simps [simp]:
  "\<not> recovers i (Enqueued j)" "\<not> recovers i (Claimed j)" "\<not> recovers i (Completed j)"
  "\<not> recovers i (Failed j)" "recovers i (Recovered ids) \<longleftrightarrow> i \<in> set ids"
  by (simp_all add: recovers_def)

lemma queue_step_new_row:
  assumes "queue_step q ev q'" "job_row_of q i = None"
  shows "ev \<noteq> Claimed i" "\<not> recovers i ev"
    "job_row_of q' i = Some r \<Longrightarrow> jr_status r = JQueued \<and> jr_attempts r = 0 \<and> jr_max_attempts r \<ge> 1"
proof -
  have n: "i \<notin> jr_id ` set q" using assms(2) by (simp add: lookup_by_None)
  show "ev \<noteq> Claimed i" "\<not> recovers i ev"
    using assms(1) n by (auto elim!: queue_step_shape)
  show "jr_status r = JQueued \<and> jr_attempts r = 0 \<and> jr_max_attempts r \<ge> 1" if "job_row_of q' i = Some r"
    using assms(1)
    by (rule queue_step_shape)
      (use that assms(2) in \<open>auto simp: lookup_by_update_where row_ok_def split: if_splits\<close>)
qed

lemma queue_step_old_row:
  assumes "queue_step q ev q'" "queue_ok q" "job_row_of q i = Some r"
  obtains r' where "job_row_of q' i = Some r'" "jr_max_attempts r' = jr_max_attempts r"
    "jr_attempts r' = jr_attempts r + (if ev = Claimed i then 1 else 0)"
    "\<And>k. attempt_budget r k \<Longrightarrow> attempt_budget r' (k + (if recovers i ev then 1 else 0))"
proof -
  have i: "jr_id r = i" "r \<in> set q" using lookup_by_Some [OF assms(3)] by auto
  have u: "s = r" if "s \<in> set q" "jr_id s = i" for s
    using assms(2) that i unique_keyD [of jr_id q s r] by (simp add: queue_ok_def)
  from assms(1) show thesis
  proof (cases rule: queue_step_shape)
    case (insert j s)
    then show ?thesis by (intro that [of r]) (auto simp: assms(3))
  next
    case (lock w now s)
    show ?thesis
    proof (cases "jr_id s = i")
      case True
      then have "s = r" using u lock(2) by blast
      then show ?thesis using lock i
        by (intro that [of "lock_row w now r"]) (auto simp: lookup_by_update_where assms(3) attempt_budget_def)
    next
      case False
      then show ?thesis using lock i
        by (intro that [of r]) (auto simp: lookup_by_update_where assms(3))
    qed
  next
    case (finish j now)
    then show ?thesis using i
      by (intro that [of "if is_running_job j r then
          r\<lparr> jr_status := JCompleted, jr_locked_by := None, jr_locked_at := None,
             jr_updated_at := unix_milli now \<rparr> else r"])
        (auto simp: lookup_by_update_where assms(3) attempt_budget_def is_running_job_def)
  next
    case (fail j f ra now)
    then show ?thesis using i
      by (intro that [of "if is_running_job j r then fail_row f ra now r else r"])
        (auto simp: lookup_by_update_where assms(3) attempt_budget_def is_running_job_def)
  next
    case (requeue P now)
    show ?thesis
    proof (cases "P r")
      case True
      then show ?thesis using requeue i
        by (intro that [of "requeue_row now r"])
          (auto simp: lookup_by_update_where assms(3) attempt_budget_def)
    next
      case False
      then have "i \<notin> jr_id ` {x \<in> set q. P x}" using u by blast
      then show ?thesis using requeue i False
        by (intro that [of r]) (auto simp: lookup_by_update_where assms(3))
    qed
  qed
qed

lemma queue_run_counts:
  assumes "queue_run q0 evs q" "q0 = []"
  shows "queue_ok q \<and>
    (case job_row_of q i of
       None \<Rightarrow> claims_of i evs = 0 \<and> recoveries_of i evs = 0
     | Some r \<Rightarrow> jr_attempts r = int (claims_of i evs) \<and> attempt_budget r (recoveries_of i evs))"
  using assms
proof (induction rule: queue_run.induct)
  case (run_refl q)
  then show ?case by (simp add: lookup_by_def)
next
  case (run_step q evs q' ev q'')
  then have ok: "queue_ok q'" "queue_ok q''" by (auto intro: queue_step_ok)
  show ?case
  proof (cases "job_row_of q' i")
    case None
    note new = queue_step_new_row [OF run_step.hyps(2) None]
    show ?thesis
      using run_step new(1,2) None ok(2) new(3)
      by (auto split: option.splits simp: attempt_budget_def)
  next
    case (Some r)
    obtain r' where "job_row_of q'' i = Some r'"
      "jr_attempts r' = jr_attempts r + (if ev = Claimed i then 1 else 0)"
      "\<And>k. attempt_budget r k \<Longrightarrow> attempt_budget r' (k + (if recovers i ev then 1 else 0))"
      using queue_step_old_row [OF run_step.hyps(2) ok(1) Some] by metis
    then show ?thesis
      using run_step Some ok(2) by auto
  qed
qed

subsection \<open>Properties\<close>

lemma queue_run_settled:
  "queue_run q evs q' \<Longrightarrow> queue_ok q \<Longrightarrow> r \<in> set q \<Longrightarrow> settled r \<Longrightarrow> r \<in> set q'"
  by (induction rule: queue_run.induct) (auto intro: queue_step_settled queue_run_ok)

definition sample_row :: "string \<Rightarrow> job_status \<Rightarrow> string job_row" where
  "sample_row i s = \<lparr> jr_id = i, jr_type = ''t'', jr_payload = ''{}'', jr_status = s,
     jr_attempts = (if s = JQueued then 0 else 1), jr_max_attempts = 1, jr_run_after = 0,
     jr_locked_by = (if s = JRunning then Some ''w'' else None),
     jr_locked_at = (if s = JRunning then Some 5 else None), jr_last_error = None,
     jr_created_at = 0, jr_updated_at = 0 \<rparr>"

lemma sample_row_simps [simp]:
  "jr_id (sample_row i s) = i" "jr_status (sample_row i s) = s" "jr_type (sample_row i s) = ''t''"
  "row_ok (sample_row i s)"
  by (auto simp: sample_row_def row_ok_def)

text \<open>The jobs table stays well formed under every operation of the queue: ids stay unique, a row
  is locked by a named worker exactly while it is RUNNING, only a QUEUED row can have zero attempts,
  and a DEAD row has used up its attempts.\<close>
theorem queue_invariant:
  "queue_run q evs q' \<Longrightarrow> queue_ok q \<Longrightarrow> queue_ok q'"
  by (rule queue_run_ok)

text \<open>C20: A finished job is never touched again: whatever operations follow, including the recovery of
  stale and of interrupted jobs, the row of a COMPLETED or DEAD job is still there, unchanged.\<close>
theorem settled_jobs_are_final:
  "queue_run q evs q' \<Longrightarrow> queue_ok q \<Longrightarrow> r \<in> set q \<Longrightarrow> settled r \<Longrightarrow> r \<in> set q'"
  by (rule queue_run_settled)

text \<open>From the empty table on, a job's attempts counter is the number of times it was claimed, and
  it exceeds the job's max_attempts by at most the number of times the job was recovered while
  RUNNING; without recoveries no job is run more than max_attempts times.\<close>
theorem attempts_bounded:
  assumes "queue_run [] evs q" and "r \<in> set q"
  shows "jr_attempts r = int (claims_of (jr_id r) evs)
    \<and> jr_attempts r \<le> jr_max_attempts r + int (recoveries_of (jr_id r) evs)"
proof -
  note run = queue_run_counts [OF assms(1) refl, of "jr_id r"]
  then have "job_row_of q (jr_id r) = Some r"
    using assms(2) by (simp add: queue_ok_def lookup_by_unique)
  then show ?thesis using run by (auto simp: attempt_budget_def split: if_splits)
qed

text \<open>Claiming hands out a runnable job of a registered type that is due earliest (then created
  earliest), marks exactly that row RUNNING under the worker's name with one more attempt, and leaves
  every other row as it was; it hands out nothing only when no job of these types is due.\<close>
theorem claim_types_correct:
  assumes "queue_ok q" and "claim_types w now ts q = Inr (q', res)" and "normalize_job_types ts \<noteq> []"
  defines "due \<equiv> runnable (\<lambda>t. t \<in> set (normalize_job_types ts)) now"
  shows "case res of
      None \<Rightarrow> q' = q \<and> (\<forall>r\<in>set q. \<not> due r)
    | Some j \<Rightarrow> \<exists>r\<in>set q. due r \<and> j_id j = jr_id r \<and> j_attempts j = jr_attempts r + 1
        \<and> (\<forall>s\<in>set q. due s \<longrightarrow> claim_order r \<le> claim_order s)
        \<and> job_row_of q' (jr_id r) = Some (lock_row w now r)
        \<and> (\<forall>i. i \<noteq> jr_id r \<longrightarrow> job_row_of q' i = job_row_of q i)"
proof (cases res)
  case None
  then show ?thesis
    using assms(2,3) by (auto simp: claim_types_def Let_def claim_where_None due_def split: if_splits)
next
  case (Some j)
  then have "claim_where (\<lambda>t. t \<in> set (normalize_job_types ts)) w now q = (q', Some j)"
    using assms(2) by (auto simp: claim_types_def Let_def split: if_splits)
  then obtain r where r: "r \<in> set q" "due r" "\<And>s. s \<in> set q \<Longrightarrow> due s \<Longrightarrow> claim_order r \<le> claim_order s"
    "q' = update_where (\<lambda>x. jr_id x = jr_id r) (lock_row w now) q" "j = scan_job (lock_row w now r)"
    by (elim claim_where_Some) (auto simp: due_def)
  have "job_row_of q (jr_id r) = Some r" using assms(1) r(1) by (simp add: queue_ok_def lookup_by_unique)
  moreover have "job_row_of q' i = job_row_of q i" if "i \<noteq> jr_id r" for i
    using r(4) that by (cases "job_row_of q i") (auto simp: lookup_by_update_where dest: lookup_by_Some)
  ultimately show ?thesis
    using Some r by (auto simp: scan_job_def lookup_by_update_where)
qed

text \<open>An interrupted run consumes an attempt: when a claimed job is requeued by the startup
  recovery, its row is QUEUED again with one attempt more than before the claim and an unchanged
  due time, so a job interrupted often enough has no attempts left when it first fails.\<close>
theorem interrupted_run_consumes_attempt:
  assumes "queue_ok q" and "claim_types w now ts q = Inr (q1, Some j)"
    and "recover_interrupted now' q1 = (q2, ids)"
  shows "\<exists>r r2. job_row_of q (j_id j) = Some r \<and> job_row_of q2 (j_id j) = Some r2 \<and> j_id j \<in> set ids
    \<and> jr_status r2 = JQueued \<and> jr_attempts r2 = jr_attempts r + 1 \<and> jr_run_after r2 = jr_run_after r"
proof -
  have "claim_where (\<lambda>t. t \<in> set (normalize_job_types ts)) w now q = (q1, Some j)"
    using assms(2) by (auto simp: claim_types_def Let_def split: if_splits)
  then obtain r where r: "r \<in> set q" "q1 = update_where (\<lambda>x. jr_id x = jr_id r) (lock_row w now) q"
    "j_id j = jr_id r"
    by (elim claim_where_Some) (auto simp: scan_job_def)
  have row: "job_row_of q (jr_id r) = Some r" using assms(1) r(1) by (simp add: queue_ok_def lookup_by_unique)
  have q2: "q2 = update_where (\<lambda>r. jr_status r = JRunning) (requeue_row now') q1"
    "ids = map jr_id (filter (\<lambda>r. jr_status r = JRunning) q1)"
    using assms(3) by (auto simp: recover_interrupted_def)
  have "lock_row w now r \<in> set q1" using r by (auto simp: set_update_where)
  then have "jr_id r \<in> set ids"
    using q2(2) by (auto intro!: image_eqI [of _ _ "lock_row w now r"])
  moreover have "job_row_of q2 (jr_id r) = Some (requeue_row now' (lock_row w now r))"
    using q2(1) r(2) row by (simp add: lookup_by_update_where)
  ultimately show ?thesis
    using r(3) row by (simp add: requeue_row_def lock_row_def)
qed

subsection \<open>Witnesses\<close>

lemma sample_interrupt_step:
  "queue_step [sample_row ''a'' JCompleted, sample_row ''b'' JRunning]
     (Recovered [''b'']) [sample_row ''a'' JCompleted, requeue_row 7 (sample_row ''b'' JRunning)]"
  by (rule step_interrupted [where now = 7]) (simp add: recover_interrupted_def)

lemma sample_queue_ok: "queue_ok [sample_row ''a'' JCompleted, sample_row ''b'' s]"
  by (simp add: queue_ok_def unique_key_def)

lemma sample_interrupt_run:
  "queue_run [sample_row ''a'' JCompleted, sample_row ''b'' JRunning]
     [Recovered [''b'']] [sample_row ''a'' JCompleted, requeue_row 7 (sample_row ''b'' JRunning)]"
  using run_step [OF run_refl sample_interrupt_step] by simp

lemma queue_invariant_witness:
  "queue_ok [sample_row ''a'' JCompleted, requeue_row 7 (sample_row ''b'' JRunning)]"
  using queue_invariant [OF sample_interrupt_run sample_queue_ok] .

lemma settled_jobs_are_final_witness:
  "sample_row ''a'' JCompleted \<in> set [sample_row ''a'' JCompleted, requeue_row 7 (sample_row ''b'' JRunning)]"
  by (rule settled_jobs_are_final [OF sample_interrupt_run sample_queue_ok]) (simp_all add: settled_def)

definition enqueued_row :: "string job_row" where
  "enqueued_row = \<lparr> jr_id = ''b'', jr_type = ''t'', jr_payload = ''{}'', jr_status = JQueued,
     jr_attempts = 0, jr_max_attempts = 1, jr_run_after = 0, jr_locked_by = None,
     jr_locked_at = None, jr_last_error = None, jr_created_at = 0, jr_updated_at = 0 \<rparr>"

lemma enqueue_sample: "enqueue ''b'' 0 ''t'' ''{}'' 1 0 [] =
    Inr ([enqueued_row], new_job ''b'' 0 ''t'' ''{}'' 1 0)"
  by (simp add: enqueue_def Let_def insert_job_def new_job_def enqueued_row_def unix_milli_def)

lemma claim_sample:
  assumes "jr_id r = ''b''" "jr_status r = JQueued" "jr_run_after r = 0"
  shows "claim ''w'' 0 [r] = Inr ([lock_row ''w'' 0 r], Some (scan_job (lock_row ''w'' 0 r)))"
  using assms by (simp add: claim_def claim_where_def first_by_def runnable_def unix_milli_def)

lemma interrupt_sample:
  "jr_id r = ''b'' \<Longrightarrow> recover_interrupted 0 [lock_row ''w'' 0 r] = ([requeue_row 0 (lock_row ''w'' 0 r)], [''b''])"
  by (simp add: recover_interrupted_def)

lemma sample_run:
  "queue_run [] [Enqueued ''b'', Claimed ''b'', Recovered [''b''], Claimed ''b'']
     [lock_row ''w'' 0 (requeue_row 0 (lock_row ''w'' 0 enqueued_row))]"
proof -
  have e: "jr_id enqueued_row = ''b''" "jr_status enqueued_row = JQueued" "jr_run_after enqueued_row = 0"
    by (simp_all add: enqueued_row_def)
  have "queue_run [] ([] @ [Enqueued ''b'']) [enqueued_row]"
    by (rule run_step [OF run_refl step_enqueue [OF enqueue_sample]])
  from run_step [OF this step_claim [OF claim_sample]] e
  have "queue_run [] ([Enqueued ''b''] @ [Claimed ''b'']) [lock_row ''w'' 0 enqueued_row]"
    by (simp add: scan_job_def)
  from run_step [OF this step_interrupted [OF interrupt_sample]] e
  have "queue_run [] ([Enqueued ''b'', Claimed ''b''] @ [Recovered [''b'']])
      [requeue_row 0 (lock_row ''w'' 0 enqueued_row)]" by simp
  from run_step [OF this step_claim [OF claim_sample]] e show ?thesis
    by (simp add: scan_job_def requeue_row_def lock_row_def)
qed

text \<open>The bound is reached: one recovery lets a job with one allowed attempt run twice.\<close>
lemma attempts_bounded_witness:
  "claims_of ''b'' [Enqueued ''b'', Claimed ''b'', Recovered [''b''], Claimed ''b''] = 2
   \<and> (2::int) \<le> 1 + int (recoveries_of ''b'' [Enqueued ''b'', Claimed ''b'', Recovered [''b''], Claimed ''b''])"
  using attempts_bounded [OF sample_run,
      of "lock_row ''w'' 0 (requeue_row 0 (lock_row ''w'' 0 enqueued_row))"]
  by (simp add: enqueued_row_def requeue_row_def lock_row_def)

lemma trim_t: "trim_space ''t'' = ''t''"
  by (simp add: plain_char_def)

lemma normalize_t: "normalize_job_types [''t''] = [''t'']"
  by (simp add: normalize_job_types_def trim_t)

lemma claim_types_sample:
  "claim_types ''w'' 0 [''t''] [enqueued_row] =
     Inr ([lock_row ''w'' 0 enqueued_row], Some (scan_job (lock_row ''w'' 0 enqueued_row)))"
  by (simp add: claim_types_def normalize_t claim_where_def first_by_def runnable_def unix_milli_def
      enqueued_row_def)

lemma enqueued_row_ok: "queue_ok [enqueued_row]"
  by (simp add: queue_ok_def unique_key_def row_ok_def enqueued_row_def)

lemma claim_types_correct_witness:
  "job_row_of [lock_row ''w'' 0 enqueued_row] ''b'' = Some (lock_row ''w'' 0 enqueued_row)"
  using claim_types_correct [OF enqueued_row_ok claim_types_sample]
  by (simp add: normalize_t enqueued_row_def)

lemma interrupted_run_consumes_attempt_witness:
  "\<exists>r2. job_row_of [requeue_row 0 (lock_row ''w'' 0 enqueued_row)] ''b'' = Some r2 \<and> jr_attempts r2 = 1"
  using interrupted_run_consumes_attempt [OF enqueued_row_ok claim_types_sample interrupt_sample]
  by (simp add: enqueued_row_def scan_job_def lookup_by_def)

end
