(* ===== verification/Scheduler.thy ===== *)
theory Scheduler
  imports JobQueue "HOL-Library.Signed_Division"
begin

text \<open>The job scheduler (internal/scheduler). The queue it drives is a record of functions on a world
  \<open>'w\<close>, as the Go interfaces \<open>Queue\<close> and \<open>typedQueue\<close> are; handlers, the activity recorder and the
  metrics are functions on the same world. \<open>Run\<close> loops until its context is cancelled: a \<open>tick\<close> holds
  what one turn of the loop reads from outside (clock values and the state of the context), and
  \<open>sched_loop\<close> runs a finite list of them. The contract of the queue is the locale \<open>work_queue\<close>,
  interpreted below on the jobs table.\<close>

datatype activity_payload =
  RecoveredPayload string instant
| StartedPayload string int int string
| CompletedPayload string int
| FailedPayload string int int string "instant option"

datatype sched_error =
  ConfigInvalid string
| RecoverError queue_error
| RecordError string
| ClaimError queue_error
| CompleteError queue_error
| FailError queue_error

datatype sched_outcome = SchedRunning | SchedStopped | SchedFailed sched_error

record ('w, 'p) queue_ops =
  q_claim :: "string \<Rightarrow> instant \<Rightarrow> 'w \<Rightarrow> queue_error + 'w \<times> 'p job option"
  q_complete :: "string \<Rightarrow> instant \<Rightarrow> 'w \<Rightarrow> queue_error + 'w"
  q_fail :: "string \<Rightarrow> string \<Rightarrow> instant \<Rightarrow> instant \<Rightarrow> 'w \<Rightarrow> queue_error + 'w \<times> job_status"
  q_recover_stale :: "instant \<Rightarrow> instant \<Rightarrow> 'w \<Rightarrow> queue_error + 'w \<times> string list"
  q_claim_types :: "(string \<Rightarrow> instant \<Rightarrow> string list \<Rightarrow> 'w \<Rightarrow> queue_error + 'w \<times> 'p job option) option"

type_synonym ('w, 'p) handler = "'p job \<Rightarrow> 'w \<Rightarrow> 'w \<times> string option"
type_synonym 'w recorder = "string \<Rightarrow> string \<Rightarrow> activity_payload \<Rightarrow> instant \<Rightarrow> 'w \<Rightarrow> string + 'w"

record 'w sched_metrics =
  queue_retry :: "'w \<Rightarrow> 'w"
  queue_dead :: "'w \<Rightarrow> 'w"

record 'w sched_config =
  worker_id :: string
  poll_interval :: int
  stale_after :: int
  retry_base :: int
  max_retry_delay :: int
  metrics :: "'w sched_metrics option"

record ('w, 'p) scheduler =
  s_queue :: "('w, 'p) queue_ops"
  s_config :: "'w sched_config"
  s_handlers :: "string \<Rightarrow> ('w, 'p) handler option"
  s_handler_types :: "string list"
  s_activities :: "'w recorder"

definition default_config :: "string \<Rightarrow> 'w sched_config" where
  "default_config w = \<lparr> worker_id = w, poll_interval = 250 * nanos_per_milli,
     stale_after = 5 * 60 * nanos_per_second, retry_base = nanos_per_second,
     max_retry_delay = 60 * nanos_per_second, metrics = None \<rparr>"

definition discard_record :: "'w recorder" where
  "discard_record job_id event_type payload created_at w = Inr w"

definition registered_handlers ::
  "(string \<times> ('w, 'p) handler option) list \<Rightarrow> (string \<times> ('w, 'p) handler) list" where
  "registered_handlers hs =
     List.map_filter (\<lambda>(t, h). if t = [] then None else map_option (\<lambda>f. (t, f)) h) hs"

definition sched_new ::
  "('w, 'p) queue_ops option \<Rightarrow> 'w sched_config \<Rightarrow> (string \<times> ('w, 'p) handler option) list
   \<Rightarrow> 'w recorder option \<Rightarrow> sched_error + ('w, 'p) scheduler" where
  "sched_new queue config handlers activities =
     (case queue of
        None \<Rightarrow> Inl (ConfigInvalid ''queue is required'')
      | Some q \<Rightarrow>
        if worker_id config = [] then Inl (ConfigInvalid ''worker ID is required'')
        else if poll_interval config \<le> 0 then Inl (ConfigInvalid ''poll interval must be greater than zero'')
        else if stale_after config \<le> 0 then Inl (ConfigInvalid ''stale duration must be greater than zero'')
        else if retry_base config \<le> 0 then Inl (ConfigInvalid ''retry base must be greater than zero'')
        else if max_retry_delay config < retry_base config
          then Inl (ConfigInvalid ''maximum retry delay must be at least the retry base'')
        else Inr \<lparr> s_queue = q, s_config = config,
                   s_handlers = map_of (registered_handlers handlers),
                   s_handler_types = sort (map fst (registered_handlers handlers)),
                   s_activities = (case activities of None \<Rightarrow> discard_record | Some r \<Rightarrow> r) \<rparr>)"

subsection \<open>Retry delay\<close>

text \<open>\<open>time.Duration\<close> is a signed 64-bit count of nanoseconds; the doubling wraps.\<close>

definition wrap64 :: "int \<Rightarrow> int" where
  "wrap64 x = (x + 2 ^ 63) mod 2 ^ 64 - 2 ^ 63"

fun retry_loop :: "int \<Rightarrow> nat \<Rightarrow> int \<Rightarrow> int" where
  "retry_loop max_delay 0 delay = (if delay > max_delay then max_delay else delay)"
| "retry_loop max_delay (Suc n) delay =
     (if delay \<ge> max_delay sdiv 2 then max_delay else retry_loop max_delay n (wrap64 (delay * 2)))"

definition retry_delay :: "'w sched_config \<Rightarrow> int \<Rightarrow> int" where
  "retry_delay c attempt =
     (let attempt = (if attempt < 1 then 1 else attempt)
      in retry_loop (max_retry_delay c) (nat (attempt - 1)) (retry_base c))"

subsection \<open>Processing\<close>

record tick =
  t_cancelled :: bool
  t_claim_now :: instant
  t_cancelled_at_claim :: bool
  t_cancelled_in_wait :: bool
  t_cancelled_in_handler :: bool
  t_settle_now :: instant

definition sched_claim ::
  "('w, 'p) scheduler \<Rightarrow> instant \<Rightarrow> 'w \<Rightarrow> queue_error + 'w \<times> 'p job option" where
  "sched_claim s now w =
     (case q_claim_types (s_queue s) of
        Some f \<Rightarrow> f (worker_id (s_config s)) now (s_handler_types s) w
      | None \<Rightarrow> q_claim (s_queue s) (worker_id (s_config s)) now w)"

definition no_handler_error :: "string \<Rightarrow> string" where
  "no_handler_error t = ''no handler registered for job type '' @ [CHR 0x22] @ t @ [CHR 0x22]"

definition run_handler :: "('w, 'p) scheduler \<Rightarrow> 'p job \<Rightarrow> 'w \<Rightarrow> 'w \<times> string option" where
  "run_handler s j w =
     (case s_handlers s (j_type j) of
        None \<Rightarrow> (w, Some (no_handler_error (j_type j)))
      | Some h \<Rightarrow> h j w)"

definition settle_success :: "('w, 'p) scheduler \<Rightarrow> instant \<Rightarrow> 'p job \<Rightarrow> 'w \<Rightarrow> 'w \<times> sched_error option" where
  "settle_success s now j w =
     (case q_complete (s_queue s) (j_id j) now w of
        Inl e \<Rightarrow> (w, Some (CompleteError e))
      | Inr w1 \<Rightarrow>
        (case s_activities s (j_id j) ''job.completed'' (CompletedPayload (j_type j) (j_attempts j)) now w1 of
           Inl e \<Rightarrow> (w1, Some (RecordError e))
         | Inr w2 \<Rightarrow> (w2, None)))"

definition count_failure :: "('w, 'p) scheduler \<Rightarrow> job_status \<Rightarrow> 'w \<Rightarrow> 'w" where
  "count_failure s status w =
     (case metrics (s_config s) of
        None \<Rightarrow> w
      | Some m \<Rightarrow> if status = JDead then queue_dead m w else queue_retry m w)"

definition settle_failure ::
  "('w, 'p) scheduler \<Rightarrow> instant \<Rightarrow> string \<Rightarrow> 'p job \<Rightarrow> 'w \<Rightarrow> 'w \<times> sched_error option" where
  "settle_failure s now err j w =
     (let retry_at = now + retry_delay (s_config s) (j_attempts j) in
      case q_fail (s_queue s) (j_id j) err retry_at now w of
        Inl e \<Rightarrow> (w, Some (FailError e))
      | Inr (w1, status) \<Rightarrow>
        let w2 = count_failure s status w1;
            event = (if status = JDead then ''job.dead'' else ''job.retry_scheduled'');
            payload = FailedPayload (j_type j) (j_attempts j) (j_max_attempts j) err
                        (if status = JDead then None else Some retry_at)
        in (case s_activities s (j_id j) event payload now w2 of
              Inl e \<Rightarrow> (w2, Some (RecordError e))
            | Inr w3 \<Rightarrow> (w3, None)))"

definition process :: "('w, 'p) scheduler \<Rightarrow> bool \<Rightarrow> instant \<Rightarrow> 'p job \<Rightarrow> 'w \<Rightarrow> 'w \<times> sched_error option" where
  "process s cancelled now j w =
     (let (w1, handler_err) = run_handler s j w in
      if cancelled then (w1, None)
      else case handler_err of
        None \<Rightarrow> settle_success s now j w1
      | Some e \<Rightarrow> settle_failure s now e j w1)"

definition sched_turn :: "('w, 'p) scheduler \<Rightarrow> tick \<Rightarrow> 'w \<Rightarrow> 'w \<times> sched_outcome" where
  "sched_turn s t w =
     (if t_cancelled t then (w, SchedStopped)
      else case sched_claim s (t_claim_now t) w of
        Inl e \<Rightarrow> (w, if t_cancelled_at_claim t then SchedStopped else SchedFailed (ClaimError e))
      | Inr (w1, None) \<Rightarrow> (w1, if t_cancelled_in_wait t then SchedStopped else SchedRunning)
      | Inr (w1, Some j) \<Rightarrow>
        (case s_activities s (j_id j) ''job.started''
               (StartedPayload (j_type j) (j_attempts j) (j_max_attempts j) (worker_id (s_config s)))
               (t_claim_now t) w1 of
           Inl e \<Rightarrow> (w1, SchedFailed (RecordError e))
         | Inr w2 \<Rightarrow>
           (case process s (t_cancelled_in_handler t) (t_settle_now t) j w2 of
              (w3, Some e) \<Rightarrow> (w3, SchedFailed e)
            | (w3, None) \<Rightarrow> (w3, if t_cancelled_in_handler t then SchedStopped else SchedRunning))))"

fun sched_loop :: "('w, 'p) scheduler \<Rightarrow> tick list \<Rightarrow> 'w \<Rightarrow> 'w \<times> sched_outcome" where
  "sched_loop s [] w = (w, SchedRunning)"
| "sched_loop s (t # ts) w =
     (case sched_turn s t w of
        (w1, SchedRunning) \<Rightarrow> sched_loop s ts w1
      | (w1, out) \<Rightarrow> (w1, out))"

fun record_recovered ::
  "('w, 'p) scheduler \<Rightarrow> instant \<Rightarrow> string list \<Rightarrow> 'w \<Rightarrow> 'w \<times> sched_error option" where
  "record_recovered s now [] w = (w, None)"
| "record_recovered s now (i # ids) w =
     (case s_activities s i ''job.recovered'' (RecoveredPayload (worker_id (s_config s)) now) now w of
        Inl e \<Rightarrow> (w, Some (RecordError e))
      | Inr w1 \<Rightarrow> record_recovered s now ids w1)"

definition sched_run ::
  "('w, 'p) scheduler \<Rightarrow> bool \<Rightarrow> instant \<Rightarrow> tick list \<Rightarrow> 'w \<Rightarrow> 'w \<times> sched_outcome" where
  "sched_run s cancelled now ts w =
     (if cancelled then (w, SchedStopped)
      else case q_recover_stale (s_queue s) (now - stale_after (s_config s)) now w of
        Inl e \<Rightarrow> (w, SchedFailed (RecoverError e))
      | Inr (w1, ids) \<Rightarrow>
        (case record_recovered s now ids w1 of
           (w2, Some e) \<Rightarrow> (w2, SchedFailed e)
         | (w2, None) \<Rightarrow> sched_loop s ts w2))"

subsection \<open>The delay never overflows\<close>

lemma wrap64_id: "- (2 ^ 63) \<le> x \<Longrightarrow> x < 2 ^ 63 \<Longrightarrow> wrap64 x = x"
  by (simp add: wrap64_def)

lemma sdiv2: "0 < (m::int) \<Longrightarrow> m sdiv 2 = m div 2"
  by (simp add: signed_divide_int_def)

lemma retry_loop_bounds:
  assumes "0 < d" "d \<le> m" "m < 2 ^ 63"
  shows "d \<le> retry_loop m n d \<and> retry_loop m n d \<le> m
    \<and> min m (d * 2 ^ n) \<le> retry_loop m n d \<and> retry_loop m n d \<le> d * 2 ^ n + 1"
  using assms
proof (induction n arbitrary: d)
  case (Suc n)
  have p: "d * 2 \<le> d * 2 ^ Suc n" using Suc.prems(1) by (simp add: self_le_power)
  show ?case
  proof (cases "d \<ge> m div 2")
    case True
    then have "m \<le> d * 2 + 1" by linarith
    then have "m \<le> d * 2 ^ Suc n + 1" using p by linarith
    then show ?thesis using True Suc.prems by (simp add: sdiv2)
  next
    case False
    then have le: "d * 2 \<le> m" by linarith
    then have w: "wrap64 (d * 2) = d * 2" using Suc.prems by (intro wrap64_id) linarith+
    show ?thesis using Suc.IH [of "d * 2"] Suc.prems le w False by (simp add: sdiv2 mult.assoc)
  qed
qed auto

lemma retry_loop_mono:
  assumes "0 < d" "d \<le> m" "m < 2 ^ 63"
  shows "retry_loop m n d \<le> retry_loop m (Suc n) d"
  using assms
proof (induction n arbitrary: d)
  case 0
  then show ?case using retry_loop_bounds [of d m "Suc 0"] by simp
next
  case (Suc n)
  show ?case
  proof (cases "d \<ge> m div 2")
    case True
    then show ?thesis using Suc.prems by (simp add: sdiv2)
  next
    case False
    then have le: "d * 2 \<le> m" by linarith
    then have w: "wrap64 (d * 2) = d * 2" using Suc.prems by (intro wrap64_id) linarith+
    show ?thesis using Suc.IH [of "d * 2"] Suc.prems le w False by (simp add: sdiv2)
  qed
qed

lemma retry_loop_mono_le:
  assumes "0 < d" "d \<le> m" "m < 2 ^ 63" "a \<le> b"
  shows "retry_loop m a d \<le> retry_loop m b d"
  using assms(4) by (induction rule: dec_induct) (use retry_loop_mono [OF assms(1-3)] order.trans in blast)+

lemma sched_new_config:
  assumes "sched_new q c hs a = Inr s"
  shows "s_config s = c" "worker_id c \<noteq> []" "0 < retry_base c" "retry_base c \<le> max_retry_delay c" "0 < stale_after c"
  using assms by (auto simp: sched_new_def split: option.splits if_splits)

text \<open>C0: For every scheduler that \<open>New\<close> accepts, whose durations fit 64 bits, the retry delay is the
  base doubled once per earlier attempt and capped at the maximum, to within one nanosecond; it lies
  between base and maximum, never shrinks as attempts grow, and the 64-bit doubling never overflows.\<close>
theorem retry_delay_correct:
  assumes "sched_new q c hs acts = Inr s" and "max_retry_delay c < 2 ^ 63" and "1 \<le> a"
  shows "retry_base c \<le> retry_delay c a \<and> retry_delay c a \<le> max_retry_delay c
    \<and> min (max_retry_delay c) (retry_base c * 2 ^ nat (a - 1)) \<le> retry_delay c a
    \<and> retry_delay c a \<le> retry_base c * 2 ^ nat (a - 1) + 1
    \<and> (\<forall>b\<ge>a. retry_delay c a \<le> retry_delay c b)"
proof -
  note c = sched_new_config [OF assms(1)]
  note b = retry_loop_bounds [OF c(3,4) assms(2), of "nat (a - 1)"]
  have "retry_delay c a \<le> retry_delay c b" if "a \<le> b" for b
    using retry_loop_mono_le [OF c(3,4) assms(2), of "nat (a - 1)" "nat (b - 1)"] that assms(3)
    by (simp add: retry_delay_def)
  then show ?thesis using b assms(3) by (simp add: retry_delay_def)
qed

subsection \<open>The contract of the queue\<close>

text \<open>The handlers may insert jobs, but neither they nor the recorder nor the metrics touch the
  status of an existing job.\<close>

definition keeps ::
  "('w \<Rightarrow> bool) \<Rightarrow> ('w \<Rightarrow> string \<Rightarrow> job_status option) \<Rightarrow> ('w \<Rightarrow> 'w \<Rightarrow> bool) \<Rightarrow> bool" where
  "keeps good status_of R = (\<forall>w w'. good w \<and> R w w' \<longrightarrow> good w' \<and> status_of w \<subseteq>\<^sub>m status_of w'
     \<and> (\<forall>i. status_of w i = None \<longrightarrow> status_of w' i \<noteq> Some JRunning))"

definition well_behaved ::
  "('w, 'p) queue_ops \<Rightarrow> ('w \<Rightarrow> bool) \<Rightarrow> ('w \<Rightarrow> string \<Rightarrow> job_status option) \<Rightarrow> ('w, 'p) scheduler \<Rightarrow> bool" where
  "well_behaved ops good status_of s = (s_queue s = ops \<and> worker_id (s_config s) \<noteq> []
     \<and> (\<forall>t h j. s_handlers s t = Some h \<longrightarrow> keeps good status_of (\<lambda>w w'. w' = fst (h j w)))
     \<and> keeps good status_of (\<lambda>w w'. \<exists>i e p n. s_activities s i e p n w = Inr w')
     \<and> (\<forall>m. metrics (s_config s) = Some m \<longrightarrow>
          keeps good status_of (\<lambda>w w'. w' = queue_retry m w) \<and> keeps good status_of (\<lambda>w w'. w' = queue_dead m w)))"

definition running_in :: "('w \<Rightarrow> string \<Rightarrow> job_status option) \<Rightarrow> 'w \<Rightarrow> string set" where
  "running_in status_of w = {i. status_of w i = Some JRunning}"

text \<open>What the scheduler relies on, over an abstract view of the world: an invariant and the status
  of each job. A claim takes a QUEUED job and makes it RUNNING; completing and failing a RUNNING job
  succeed; recovery only requeues RUNNING jobs.\<close>

locale work_queue =
  fixes ops :: "('w, 'p) queue_ops"
    and good :: "'w \<Rightarrow> bool"
    and status_of :: "'w \<Rightarrow> string \<Rightarrow> job_status option"
  assumes claim_some: "good w \<Longrightarrow> q_claim ops wk now w = Inr (w', Some j) \<Longrightarrow>
      good w' \<and> status_of w (j_id j) = Some JQueued \<and> status_of w' = (status_of w)(j_id j \<mapsto> JRunning)"
    and claim_none: "good w \<Longrightarrow> q_claim ops wk now w = Inr (w', None) \<Longrightarrow> w' = w"
    and claim_types_some: "good w \<Longrightarrow> q_claim_types ops = Some f \<Longrightarrow> f wk now ts w = Inr (w', Some j) \<Longrightarrow>
      good w' \<and> status_of w (j_id j) = Some JQueued \<and> status_of w' = (status_of w)(j_id j \<mapsto> JRunning)"
    and claim_types_none: "good w \<Longrightarrow> q_claim_types ops = Some f \<Longrightarrow> f wk now ts w = Inr (w', None) \<Longrightarrow> w' = w"
    and complete_running: "good w \<Longrightarrow> status_of w i = Some JRunning \<Longrightarrow>
      \<exists>w'. q_complete ops i now w = Inr w' \<and> good w' \<and> status_of w' = (status_of w)(i \<mapsto> JCompleted)"
    and fail_running: "good w \<Longrightarrow> status_of w i = Some JRunning \<Longrightarrow>
      \<exists>w' st. q_fail ops i err ra now w = Inr (w', st) \<and> (st = JQueued \<or> st = JDead)
        \<and> good w' \<and> status_of w' = (status_of w)(i \<mapsto> st)"
    and recover: "good w \<Longrightarrow> q_recover_stale ops lb now w = Inr (w', ids) \<Longrightarrow>
      good w' \<and> (\<forall>i. status_of w' i = (if i \<in> set ids then Some JQueued else status_of w i))"
    and claim_total: "wk \<noteq> [] \<Longrightarrow> \<exists>r. q_claim ops wk now w = Inr r"
    and claim_types_total: "wk \<noteq> [] \<Longrightarrow> q_claim_types ops = Some f \<Longrightarrow> \<exists>r. f wk now ts w = Inr r"
    and recover_total: "\<exists>r. q_recover_stale ops lb now w = Inr r"
begin

lemma keepsD:
  assumes "keeps good status_of R" "good w" "R w w'"
  shows "good w'" "running_in status_of w' = running_in status_of w" "status_of w i = Some st \<Longrightarrow> status_of w' i = Some st"
proof -
  have k: "good w'" "status_of w \<subseteq>\<^sub>m status_of w'" "\<forall>i. status_of w i = None \<longrightarrow> status_of w' i \<noteq> Some JRunning"
    using assms unfolding keeps_def by blast+
  show "good w'" by (rule k(1))
  show st: "status_of w' i = Some st" if "status_of w i = Some st" for i st
    using k(2) that by (metis domI map_le_def)
  then show "running_in status_of w' = running_in status_of w"
    using k(3) unfolding running_in_def by (metis (mono_tags, lifting) not_Some_eq)
qed

lemma sched_claim_law:
  assumes "well_behaved ops good status_of s" "good w" "sched_claim s now w = Inr (w', r)"
  shows "case r of None \<Rightarrow> w' = w
    | Some j \<Rightarrow> good w' \<and> j_id j \<notin> running_in status_of w \<and> running_in status_of w' = insert (j_id j) (running_in status_of w)"
proof -
  have q: "s_queue s = ops" using assms(1) by (simp add: well_behaved_def)
  show ?thesis
  proof (cases r)
    case None
    then show ?thesis using assms(2,3) q claim_none claim_types_none
      by (auto simp: sched_claim_def split: option.splits)
  next
    case (Some j)
    have "good w' \<and> status_of w (j_id j) = Some JQueued \<and> status_of w' = (status_of w)(j_id j \<mapsto> JRunning)"
    proof (cases "q_claim_types ops")
      case None
      then show ?thesis using assms(2,3) q Some claim_some by (simp add: sched_claim_def)
    next
      case (Some f)
      then show ?thesis using assms(2,3) q \<open>r = Some j\<close> claim_types_some by (simp add: sched_claim_def)
    qed
    then show ?thesis using Some by (auto simp: running_in_def)
  qed
qed

lemma keeps_rules:
  assumes "well_behaved ops good status_of s"
  shows "s_handlers s t = Some h \<Longrightarrow> keeps good status_of (\<lambda>w w'. w' = fst (h j w))"
    "keeps good status_of (\<lambda>w w'. \<exists>i e p n. s_activities s i e p n w = Inr w')"
    "keeps good status_of (\<lambda>w w'. w' = count_failure s st w)"
proof -
  show "s_handlers s t = Some h \<Longrightarrow> keeps good status_of (\<lambda>w w'. w' = fst (h j w))"
    "keeps good status_of (\<lambda>w w'. \<exists>i e p n. s_activities s i e p n w = Inr w')"
    using assms unfolding well_behaved_def by blast+
  have "keeps good status_of (\<lambda>w w'. w' = w)" by (simp add: keeps_def)
  then show "keeps good status_of (\<lambda>w w'. w' = count_failure s st w)"
    using assms unfolding well_behaved_def
    by (cases "metrics (s_config s)"; cases "st = JDead") (simp_all add: count_failure_def)
qed

lemma record_keeps:
  assumes "well_behaved ops good status_of s" "good w" "s_activities s i e p n w = Inr w'"
  shows "good w'" "running_in status_of w' = running_in status_of w" "status_of w k = Some st \<Longrightarrow> status_of w' k = Some st"
  using keepsD [OF keeps_rules(2) [OF assms(1)] assms(2), of w'] assms(3) by blast+

lemma settle_success_law:
  assumes "well_behaved ops good status_of s" "good w" "status_of w (j_id j) = Some JRunning"
    and "settle_success s now j w = (w', e)"
  shows "good w' \<and> running_in status_of w' = running_in status_of w - {j_id j} \<and> (\<forall>x. e = Some x \<longrightarrow> (\<exists>m. x = RecordError m))"
proof -
  have q: "s_queue s = ops" using assms(1) by (simp add: well_behaved_def)
  obtain w1 where w1: "q_complete ops (j_id j) now w = Inr w1" "good w1"
    "status_of w1 = (status_of w)(j_id j \<mapsto> JCompleted)"
    using complete_running [OF assms(2,3)] by blast
  then have "running_in status_of w1 = running_in status_of w - {j_id j}" by (auto simp: running_in_def)
  then show ?thesis
    using assms(4) w1 q record_keeps [OF assms(1) w1(2)]
    by (auto simp: settle_success_def split: sum.splits)
qed

lemma settle_failure_law:
  assumes "well_behaved ops good status_of s" "good w" "status_of w (j_id j) = Some JRunning"
    and "settle_failure s now err j w = (w', e)"
  shows "good w' \<and> running_in status_of w' = running_in status_of w - {j_id j} \<and> (\<forall>x. e = Some x \<longrightarrow> (\<exists>m. x = RecordError m))"
proof -
  have q: "s_queue s = ops" using assms(1) by (simp add: well_behaved_def)
  obtain w1 st where w1: "q_fail ops (j_id j) err (now + retry_delay (s_config s) (j_attempts j)) now w = Inr (w1, st)"
    "good w1" "st = JQueued \<or> st = JDead" "status_of w1 = (status_of w)(j_id j \<mapsto> st)"
    using fail_running [OF assms(2,3)] by blast
  then have r: "running_in status_of w1 = running_in status_of w - {j_id j}" by (auto simp: running_in_def)
  define w2 where "w2 = count_failure s st w1"
  have w2: "good w2" "running_in status_of w2 = running_in status_of w1"
    using keepsD [OF keeps_rules(3) [OF assms(1), of st] w1(2) refl] by (simp_all add: w2_def)
  show ?thesis
    using assms(4) w1(1) q r w2 record_keeps(1,2) [OF assms(1) w2(1)]
    by (auto simp: settle_failure_def Let_def w2_def [symmetric] split: sum.splits if_splits)
qed

lemma process_law:
  assumes "well_behaved ops good status_of s" "good w" "status_of w (j_id j) = Some JRunning" "process s c now j w = (w', e)"
  shows "good w' \<and> running_in status_of w' = (if c then running_in status_of w else running_in status_of w - {j_id j})
    \<and> (\<forall>x. e = Some x \<longrightarrow> (\<exists>m. x = RecordError m))"
proof -
  obtain w1 he where h: "run_handler s j w = (w1, he)" by fastforce
  have w1: "good w1" "running_in status_of w1 = running_in status_of w" "status_of w1 (j_id j) = Some JRunning"
  proof -
    have "good w1 \<and> running_in status_of w1 = running_in status_of w \<and> status_of w1 (j_id j) = Some JRunning"
    proof (cases "s_handlers s (j_type j)")
      case None
      then show ?thesis using h assms(2,3) by (simp add: run_handler_def)
    next
      case (Some f)
      then have "w1 = fst (f j w)" using h by (simp add: run_handler_def)
      from keepsD [OF keeps_rules(1) [OF assms(1) Some] assms(2) this] assms(3)
      show ?thesis by simp
    qed
    then show "good w1" "running_in status_of w1 = running_in status_of w" "status_of w1 (j_id j) = Some JRunning" by blast+
  qed
  show ?thesis
  proof (cases c)
    case True
    then show ?thesis using assms(4) h w1 by (simp add: process_def)
  next
    case False
    show ?thesis
    proof (cases he)
      case None
      then have "settle_success s now j w1 = (w', e)" using assms(4) h False by (simp add: process_def)
      then show ?thesis using settle_success_law [OF assms(1) w1(1,3)] w1(2) False by simp
    next
      case (Some m)
      then have "settle_failure s now m j w1 = (w', e)" using assms(4) h False by (simp add: process_def)
      then show ?thesis using settle_failure_law [OF assms(1) w1(1,3)] w1(2) False by simp
    qed
  qed
qed

lemma sched_claim_total:
  assumes "well_behaved ops good status_of s"
  shows "\<exists>r. sched_claim s now w = Inr r"
  using assms claim_total claim_types_total
  by (cases "q_claim_types ops") (auto simp: sched_claim_def well_behaved_def)

lemma sched_turn_law:
  assumes "well_behaved ops good status_of s" "good w" "running_in status_of w = {}" "sched_turn s t w = (w', out)"
  shows "good w' \<and> (\<exists>i. running_in status_of w' \<subseteq> {i}) \<and> (out = SchedRunning \<longrightarrow> running_in status_of w' = {})
    \<and> (\<forall>e. out = SchedFailed e \<longrightarrow> (\<exists>m. e = RecordError m))"
proof (cases "t_cancelled t")
  case True
  then show ?thesis using assms(2-4) by (auto simp: sched_turn_def)
next
  case nc: False
  show ?thesis
  proof (cases "sched_claim s (t_claim_now t) w")
    case (Inl e)
    then show ?thesis using sched_claim_total [OF assms(1)] by (metis Inl_Inr_False)
  next
    case (Inr p)
    obtain w1 r where p: "p = (w1, r)" by fastforce
    note law = sched_claim_law [OF assms(1,2) Inr [unfolded p]]
    show ?thesis
    proof (cases r)
      case None
      then show ?thesis using assms(2-4) nc Inr p law by (auto simp: sched_turn_def split: if_splits)
    next
      case (Some j)
      then have w1: "good w1" "running_in status_of w1 = {j_id j}" using law assms(3) by auto
      show ?thesis
      proof (cases "s_activities s (j_id j) ''job.started''
               (StartedPayload (j_type j) (j_attempts j) (j_max_attempts j) (worker_id (s_config s)))
               (t_claim_now t) w1")
        case (Inl e)
        then show ?thesis using assms(4) nc Inr p Some w1 by (auto simp: sched_turn_def)
      next
        case (Inr w2)
        note rec = record_keeps(1,2) [OF assms(1) w1(1) Inr]
        then have "status_of w2 (j_id j) = Some JRunning" using w1(2) by (auto simp: running_in_def)
        moreover obtain w3 e where pr:
          "process s (t_cancelled_in_handler t) (t_settle_now t) j w2 = (w3, e)" by fastforce
        ultimately have "good w3" "running_in status_of w3 = (if t_cancelled_in_handler t then {j_id j} else {})"
          "\<forall>x. e = Some x \<longrightarrow> (\<exists>m. x = RecordError m)"
          using process_law [OF assms(1) rec(1)] rec(2) w1(2) by (auto split: if_splits)
        then show ?thesis
          using assms(4) nc \<open>sched_claim s (t_claim_now t) w = Inr p\<close> p Some Inr pr
          by (auto simp: sched_turn_def split: option.splits if_splits)
      qed
    qed
  qed
qed

lemma sched_loop_law:
  assumes "well_behaved ops good status_of s" "good w" "running_in status_of w = {}" "sched_loop s ts w = (w', out)"
  shows "good w' \<and> (\<exists>i. running_in status_of w' \<subseteq> {i}) \<and> (out = SchedRunning \<longrightarrow> running_in status_of w' = {})
    \<and> (\<forall>e. out = SchedFailed e \<longrightarrow> (\<exists>m. e = RecordError m))"
  using assms(2-4)
proof (induction ts arbitrary: w)
  case (Cons t ts)
  obtain w1 o1 where t: "sched_turn s t w = (w1, o1)" by fastforce
  note law = sched_turn_law [OF assms(1) Cons.prems(1,2) t]
  show ?case
  proof (cases "o1 = SchedRunning")
    case True
    then show ?thesis using Cons.IH [of w1] law Cons.prems(3) t by simp
  next
    case False
    then have "w' = w1" "out = o1" using Cons.prems(3) t by (cases o1; simp)+
    then show ?thesis using law by simp
  qed
qed auto

lemma record_recovered_law:
  assumes "well_behaved ops good status_of s" "good w" "record_recovered s now ids w = (w', e)"
  shows "good w' \<and> running_in status_of w' = running_in status_of w \<and> (\<forall>x. e = Some x \<longrightarrow> (\<exists>m. x = RecordError m))"
  using assms(2,3)
proof (induction ids arbitrary: w)
  case (Cons i ids)
  show ?case
  proof (cases "s_activities s i ''job.recovered'' (RecoveredPayload (worker_id (s_config s)) now) now w")
    case (Inl m)
    then show ?thesis using Cons.prems by auto
  next
    case (Inr w1)
    then show ?thesis
      using Cons.IH [of w1] Cons.prems record_keeps(1,2) [OF assms(1) Cons.prems(1) Inr] by simp
  qed
qed auto

lemma sched_run_law:
  assumes "well_behaved ops good status_of s" "good w" "running_in status_of w = {}"
    and "sched_run s c now ts w = (w', out)"
  shows "good w' \<and> (\<exists>i. running_in status_of w' \<subseteq> {i}) \<and> (out = SchedRunning \<longrightarrow> running_in status_of w' = {})
    \<and> (\<forall>e. out = SchedFailed e \<longrightarrow> (\<exists>m. e = RecordError m))"
proof (cases c)
  case True
  then show ?thesis using assms(2-4) by (auto simp: sched_run_def)
next
  case False
  have q: "s_queue s = ops" using assms(1) by (simp add: well_behaved_def)
  obtain w1 ids where r: "q_recover_stale ops (now - stale_after (s_config s)) now w = Inr (w1, ids)"
    using recover_total by (metis surj_pair)
  have g1: "good w1" "running_in status_of w1 = {}"
    using recover [OF assms(2) r] assms(3) by (auto simp: running_in_def split: if_splits)
  obtain w2 e where rr: "record_recovered s now ids w1 = (w2, e)" by fastforce
  note l = record_recovered_law [OF assms(1) g1(1) rr]
  show ?thesis
  proof (cases e)
    case None
    then have "sched_loop s ts w2 = (w', out)" using assms(4) False q r rr by (simp add: sched_run_def)
    from sched_loop_law [OF assms(1) _ _ this] l g1(2) show ?thesis by simp
  next
    case (Some x)
    then have "w' = w2" "out = SchedFailed x" using assms(4) False q r rr by (auto simp: sched_run_def)
    then show ?thesis using l g1(2) Some by auto
  qed
qed

end

subsection \<open>The jobs table keeps the contract\<close>

record activity =
  a_job :: string
  a_type :: string
  a_payload :: activity_payload
  a_at :: instant

record 'p qworld =
  w_jobs :: "'p jobs_table"
  w_log :: "activity list"

definition with_jobs :: "'p qworld \<Rightarrow> queue_error + 'p jobs_table \<times> 'a \<Rightarrow> queue_error + 'p qworld \<times> 'a" where
  "with_jobs w r = rbind r (\<lambda>(q, x). Inr (w\<lparr> w_jobs := q \<rparr>, x))"

definition jobqueue_ops :: "('p qworld, 'p) queue_ops" where
  "jobqueue_ops = \<lparr>
     q_claim = (\<lambda>wk now w. with_jobs w (claim wk now (w_jobs w))),
     q_complete = (\<lambda>i now w. rbind (complete i now (w_jobs w)) (\<lambda>q. Inr (w\<lparr> w_jobs := q \<rparr>))),
     q_fail = (\<lambda>i err ra now w. with_jobs w (fail i err ra now (w_jobs w))),
     q_recover_stale = (\<lambda>lb now w. with_jobs w (Inr (recover_stale lb now (w_jobs w)))),
     q_claim_types = Some (\<lambda>wk now ts w. with_jobs w (claim_types wk now ts (w_jobs w))) \<rparr>"

definition jobs_good :: "'p qworld \<Rightarrow> bool" where
  "jobs_good w = queue_ok (w_jobs w)"

definition statuses :: "'p jobs_table \<Rightarrow> string \<Rightarrow> job_status option" where
  "statuses q i = map_option jr_status (job_row_of q i)"

definition job_statuses :: "'p qworld \<Rightarrow> string \<Rightarrow> job_status option" where
  "job_statuses w = statuses (w_jobs w)"

definition log_activity :: "'p qworld recorder" where
  "log_activity i t p now w =
     Inr (w\<lparr> w_log := w_log w @ [\<lparr> a_job = i, a_type = t, a_payload = p, a_at = now \<rparr>] \<rparr>)"

lemma with_jobs_Inr [simp]:
  "with_jobs w (Inr (q, x)) = Inr (w\<lparr> w_jobs := q \<rparr>, x)" "with_jobs w (Inl e) = Inl e"
  by (simp_all add: with_jobs_def)

lemma with_jobs_eq_Inr: "with_jobs w r = Inr (w', x) \<longleftrightarrow> (\<exists>q. r = Inr (q, x) \<and> w' = w\<lparr> w_jobs := q \<rparr>)"
  by (cases r) (auto simp: with_jobs_def)

lemma statuses_update:
  assumes "queue_ok q" "r \<in> set q" "\<And>x. jr_id (f x) = jr_id x"
    and "\<And>x. x \<in> set q \<Longrightarrow> P x \<longleftrightarrow> jr_id x = jr_id r" and "jr_status (f r) = st"
  shows "statuses (update_where P f q) = (statuses q)(jr_id r \<mapsto> st)"
proof
  fix i
  show "statuses (update_where P f q) i = ((statuses q)(jr_id r \<mapsto> st)) i"
  proof (cases "job_row_of q i")
    case None
    then have "i \<noteq> jr_id r" using assms(2) by (auto simp: lookup_by_None)
    then show ?thesis using None assms(3) by (simp add: statuses_def lookup_by_update_where)
  next
    case (Some x)
    then have x: "x \<in> set q" "jr_id x = i" using lookup_by_Some [OF Some] by auto
    have "i = jr_id r \<Longrightarrow> x = r"
      using assms(1,2) x unique_keyD [of jr_id q x r] by (simp add: queue_ok_def)
    then show ?thesis
      using Some assms(3-5) x by (auto simp: statuses_def lookup_by_update_where)
  qed
qed

lemma claim_where_statuses:
  assumes "queue_ok q" "wk \<noteq> []" "claim_where ok wk now q = (q', Some j)"
  shows "queue_ok q'" "statuses q (j_id j) = Some JQueued" "statuses q' = (statuses q)(j_id j \<mapsto> JRunning)"
proof -
  obtain r where r: "r \<in> set q" "jr_status r = JQueued"
    "q' = update_where (\<lambda>x. jr_id x = jr_id r) (lock_row wk now) q" "j_id j = jr_id r"
    using assms(3) by (elim claim_where_Some) (auto simp: runnable_def scan_job_def)
  show "queue_ok q'" unfolding r(3) using assms(1,2) by (intro queue_ok_update lock_row_ok) auto
  show "statuses q (j_id j) = Some JQueued"
    using assms(1) r by (simp add: statuses_def queue_ok_def lookup_by_unique)
  show "statuses q' = (statuses q)(j_id j \<mapsto> JRunning)"
    unfolding r(3,4) using assms(1) r(1) by (intro statuses_update) auto
qed

lemma claim_types_None: "claim_types wk now ts q = Inr (q', None) \<Longrightarrow> q' = q"
  by (auto simp: claim_types_def Let_def claim_where_None split: if_splits)

lemma statuses_running:
  assumes "queue_ok q" "statuses q i = Some JRunning"
  obtains r where "r \<in> set q" "jr_id r = i" "jr_status r = JRunning" "job_row_of q i = Some r"
    "\<And>x. x \<in> set q \<Longrightarrow> is_running_job i x \<longleftrightarrow> jr_id x = jr_id r"
proof -
  obtain r where r: "job_row_of q i = Some r" "jr_status r = JRunning"
    using assms(2) by (auto simp: statuses_def)
  then have i: "r \<in> set q" "jr_id r = i" using lookup_by_Some by fast+
  have "is_running_job i x \<longleftrightarrow> jr_id x = jr_id r" if "x \<in> set q" for x
    using assms(1) that i r(2) unique_keyD [of jr_id q x r] by (auto simp: is_running_job_def queue_ok_def)
  then show thesis using i r that by blast
qed

lemma complete_statuses:
  assumes "queue_ok q" "statuses q i = Some JRunning"
  shows "\<exists>q'. complete i now q = Inr q' \<and> queue_ok q' \<and> statuses q' = (statuses q)(i \<mapsto> JCompleted)"
proof -
  obtain r where r: "r \<in> set q" "jr_id r = i" "jr_status r = JRunning" "job_row_of q i = Some r"
    "\<And>x. x \<in> set q \<Longrightarrow> is_running_job i x \<longleftrightarrow> jr_id x = jr_id r"
    using statuses_running [OF assms] by blast
  obtain q' where c: "complete i now q = Inr q'" using complete_running [OF assms(1) r(4,3)] by blast
  have q': "q' = update_where (is_running_job i)
       (\<lambda>r. r\<lparr> jr_status := JCompleted, jr_locked_by := None, jr_locked_at := None,
             jr_updated_at := unix_milli now \<rparr>) q"
    using c by (rule complete_cases)
  have "queue_ok q'"
    unfolding q' using assms(1) by (intro queue_ok_update complete_row_ok) (auto simp: is_running_job_def)
  moreover have "statuses q' = (statuses q)(jr_id r \<mapsto> JCompleted)"
    unfolding q' using assms(1) r(1,5) by (intro statuses_update) auto
  ultimately show ?thesis using c r(2) by simp
qed

lemma fail_statuses:
  assumes "queue_ok q" "statuses q i = Some JRunning"
  shows "\<exists>q' st. fail i err ra now q = Inr (q', st) \<and> (st = JQueued \<or> st = JDead) \<and> queue_ok q'
    \<and> statuses q' = (statuses q)(i \<mapsto> st)"
proof -
  obtain r where r: "r \<in> set q" "jr_id r = i" "jr_status r = JRunning" "job_row_of q i = Some r"
    "\<And>x. x \<in> set q \<Longrightarrow> is_running_job i x \<longleftrightarrow> jr_id x = jr_id r"
    using statuses_running [OF assms] by blast
  define q' where "q' = update_where (is_running_job i) (fail_row err ra now) q"
  define st where "st = jr_status (fail_row err ra now r)"
  have f: "fail i err ra now q = Inr (q', st)"
    using r(3,4) by (simp add: fail_def find_running [OF assms(1)] q'_def st_def)
  have "queue_ok q'"
    unfolding q'_def using assms(1) by (intro queue_ok_update fail_row_ok) (auto simp: is_running_job_def)
  moreover have "statuses q' = (statuses q)(jr_id r \<mapsto> st)"
    unfolding q'_def st_def using assms(1) r(1,5) by (intro statuses_update) auto
  moreover have "st = JQueued \<or> st = JDead" by (simp add: st_def)
  ultimately show ?thesis using f r(2) by simp
qed

lemma recover_statuses:
  assumes "queue_ok q" and "\<And>r. P r \<Longrightarrow> jr_status r = JRunning"
    and q'_def: "q' = update_where P (requeue_row now) q"
  shows "queue_ok q'"
    "statuses q' i = (if i \<in> jr_id ` {r \<in> set q. P r} then Some JQueued else statuses q i)"
proof -
  show "queue_ok q'"
    unfolding q'_def using assms(1) by (intro queue_ok_update requeue_row_ok) auto
  have "P r" if "job_row_of q i = Some r" "s \<in> set q" "P s" "i = jr_id s" for r s
    using assms(1) that lookup_by_Some [OF that(1)] unique_keyD [of jr_id q r s] by (simp add: queue_ok_def)
  moreover have "i \<notin> jr_id ` set q" if "job_row_of q i = None" using that by (simp add: lookup_by_None)
  ultimately show "statuses q' i = (if i \<in> jr_id ` {r \<in> set q. P r} then Some JQueued else statuses q i)"
    by (cases "job_row_of q i")
      (auto simp: q'_def statuses_def lookup_by_update_where dest: lookup_by_Some)
qed

lemmas statuses_laws = claim_where_statuses complete_statuses fail_statuses recover_statuses

interpretation jq: work_queue jobqueue_ops jobs_good job_statuses
proof
  fix w w' :: "'p qworld" and wk now j
  assume g: "jobs_good w"
  show "q_claim jobqueue_ops wk now w = Inr (w', Some j) \<Longrightarrow>
      jobs_good w' \<and> job_statuses w (j_id j) = Some JQueued \<and> job_statuses w' = (job_statuses w)(j_id j \<mapsto> JRunning)"
    using g claim_where_statuses
    by (fastforce simp: jobqueue_ops_def with_jobs_eq_Inr claim_def jobs_good_def job_statuses_def split: if_splits)
  show "q_claim jobqueue_ops wk now w = Inr (w', None) \<Longrightarrow> w' = w"
    by (auto simp: jobqueue_ops_def with_jobs_eq_Inr claim_def claim_where_None split: if_splits)
  fix ts f
  show "q_claim_types jobqueue_ops = Some f \<Longrightarrow> f wk now ts w = Inr (w', Some j) \<Longrightarrow>
      jobs_good w' \<and> job_statuses w (j_id j) = Some JQueued \<and> job_statuses w' = (job_statuses w)(j_id j \<mapsto> JRunning)"
    using g claim_where_statuses
    by (fastforce simp: jobqueue_ops_def with_jobs_eq_Inr claim_types_def Let_def jobs_good_def job_statuses_def
        split: if_splits)
  show "q_claim_types jobqueue_ops = Some f \<Longrightarrow> f wk now ts w = Inr (w', None) \<Longrightarrow> w' = w"
    using claim_types_None [of wk now ts "w_jobs w"] by (auto simp: jobqueue_ops_def with_jobs_eq_Inr)
next
  fix w :: "'p qworld" and i now err ra
  assume g: "jobs_good w" and st: "job_statuses w i = Some JRunning"
  show "\<exists>w'. q_complete jobqueue_ops i now w = Inr w' \<and> jobs_good w'
      \<and> job_statuses w' = (job_statuses w)(i \<mapsto> JCompleted)"
    using complete_statuses [of "w_jobs w" i now] g st
    by (auto simp: jobqueue_ops_def jobs_good_def job_statuses_def)
  show "\<exists>w' st. q_fail jobqueue_ops i err ra now w = Inr (w', st) \<and> (st = JQueued \<or> st = JDead)
      \<and> jobs_good w' \<and> job_statuses w' = (job_statuses w)(i \<mapsto> st)"
    using fail_statuses [of "w_jobs w" i err ra now] g st
    by (fastforce simp: jobqueue_ops_def jobs_good_def job_statuses_def)
next
  fix w w' :: "'p qworld" and lb now ids
  assume g: "jobs_good w" and r: "q_recover_stale jobqueue_ops lb now w = Inr (w', ids)"
  then have w': "w' = w\<lparr> w_jobs := update_where (is_stale lb) (requeue_row now) (w_jobs w) \<rparr>"
    "ids = map jr_id (filter (is_stale lb) (w_jobs w))"
    by (auto simp: jobqueue_ops_def with_jobs_eq_Inr recover_stale_def)
  show "jobs_good w' \<and> (\<forall>i. job_statuses w' i = (if i \<in> set ids then Some JQueued else job_statuses w i))"
    using g recover_statuses [of "w_jobs w" "is_stale lb" _ now, OF _ _ refl]
    by (auto simp: w' jobs_good_def job_statuses_def is_stale_def)
next
  fix wk now ts lb and w :: "'p qworld" and f
  show "wk \<noteq> [] \<Longrightarrow> \<exists>r. q_claim jobqueue_ops wk now w = Inr r"
    by (auto simp: jobqueue_ops_def claim_def with_jobs_def split_beta)
  show "wk \<noteq> [] \<Longrightarrow> q_claim_types jobqueue_ops = Some f \<Longrightarrow> \<exists>r. f wk now ts w = Inr r"
    by (auto simp: jobqueue_ops_def claim_types_def with_jobs_def split_beta Let_def)
  show "\<exists>r. q_recover_stale jobqueue_ops lb now w = Inr r"
    by (auto simp: jobqueue_ops_def with_jobs_def split_beta)
qed

subsection \<open>Properties\<close>

lemma recover_interrupted_idle:
  assumes "queue_ok q"
  shows "queue_ok (fst (recover_interrupted now q))" "statuses (fst (recover_interrupted now q)) i \<noteq> Some JRunning"
proof -
  note r = recover_statuses [OF assms(1), of "\<lambda>r. jr_status r = JRunning", OF _ refl, of now]
  show "queue_ok (fst (recover_interrupted now q))" using r(1) by (simp add: recover_interrupted_def)
  have "statuses q i = Some JRunning \<Longrightarrow> i \<in> jr_id ` {r \<in> set q. jr_status r = JRunning}"
    by (auto simp: statuses_def dest: lookup_by_Some)
  then show "statuses (fst (recover_interrupted now q)) i \<noteq> Some JRunning"
    using r(2) [of i] by (auto simp: recover_interrupted_def)
qed

text \<open>C5: No job is left behind. Started on any well-formed jobs table after the startup recovery, the
  scheduler has at every moment at most one RUNNING job, and none between two turns of its loop: each
  claimed job is completed, requeued or dead before the next claim, whatever its handler returns,
  unless the daemon is being stopped or the activity log fails; the queue itself never fails.\<close>
theorem scheduler_settles_jobs:
  assumes "queue_ok q" and "well_behaved jobqueue_ops jobs_good job_statuses s"
    and "sched_run s c now ts \<lparr> w_jobs = fst (recover_interrupted now q), w_log = l \<rparr> = (w', out)"
  shows "jobs_good w' \<and> (\<exists>i. running_in job_statuses w' \<subseteq> {i})
    \<and> (out = SchedRunning \<longrightarrow> running_in job_statuses w' = {})
    \<and> (\<forall>e. out = SchedFailed e \<longrightarrow> (\<exists>m. e = RecordError m))"
proof -
  have "jobs_good \<lparr> w_jobs = fst (recover_interrupted now q), w_log = l \<rparr>"
    "running_in job_statuses \<lparr> w_jobs = fst (recover_interrupted now q), w_log = l \<rparr> = {}"
    using recover_interrupted_idle [OF assms(1)] by (auto simp: jobs_good_def running_in_def job_statuses_def)
  then show ?thesis using jq.sched_run_law [OF assms(2) _ _ assms(3)] by blast
qed

subsection \<open>Witnesses\<close>

definition failing_handler :: "string job \<Rightarrow> string qworld \<Rightarrow> string qworld \<times> string option" where
  "failing_handler j w = (w, Some ''boom'')"

definition sample_scheduler :: "(string qworld, string) scheduler" where
  "sample_scheduler = \<lparr> s_queue = jobqueue_ops, s_config = default_config ''w'',
     s_handlers = map_of [(''t'', failing_handler)], s_handler_types = [''t''], s_activities = log_activity \<rparr>"

definition sample_tick :: tick where
  "sample_tick = \<lparr> t_cancelled = False, t_claim_now = 0, t_cancelled_at_claim = False,
     t_cancelled_in_wait = False, t_cancelled_in_handler = False, t_settle_now = 5000000 \<rparr>"

lemma sample_scheduler_ok: "well_behaved jobqueue_ops jobs_good job_statuses sample_scheduler"
  by (auto simp: well_behaved_def sample_scheduler_def default_config_def keeps_def failing_handler_def
      log_activity_def jobs_good_def job_statuses_def)

lemma sample_new:
  "sched_new (Some jobqueue_ops) (default_config ''w'' :: string qworld sched_config) [(''t'', Some failing_handler)]
     (Some log_activity) = Inr sample_scheduler"
  by (simp add: sched_new_def default_config_def sample_scheduler_def registered_handlers_def map_filter_simps)

lemma retry_delay_correct_witness:
  "retry_delay (default_config ''w'' :: string qworld sched_config) 3 = 4000000000
   \<and> retry_delay (default_config ''w'' :: string qworld sched_config) 7 = 60000000000
   \<and> retry_delay (default_config ''w'' :: string qworld sched_config) 3
       \<le> retry_delay (default_config ''w'' :: string qworld sched_config) 7"
proof -
  have "retry_delay (default_config ''w'' :: string qworld sched_config) 3 = 4000000000"
    "retry_delay (default_config ''w'' :: string qworld sched_config) 7 = 60000000000"
    by code_simp+
  moreover have "\<forall>b\<ge>3. retry_delay (default_config ''w'' :: string qworld sched_config) 3
       \<le> retry_delay (default_config ''w'' :: string qworld sched_config) b"
    using retry_delay_correct [OF sample_new, of 3] by (simp add: default_config_def)
  ultimately show ?thesis by simp
qed

definition sample_world :: "string qworld \<times> sched_outcome" where
  "sample_world = sched_run sample_scheduler False 0 [sample_tick]
     \<lparr> w_jobs = fst (recover_interrupted 0 [enqueued_row]), w_log = [] \<rparr>"

lemma sample_claimed_simps:
  "jr_id enqueued_row = ''b''" "jr_type enqueued_row = ''t''" "jr_status enqueued_row = JQueued"
  "jr_attempts enqueued_row = 0" "jr_max_attempts enqueued_row = 1" "jr_locked_at enqueued_row = None"
  by (simp_all add: enqueued_row_def)

lemma sample_world_eq:
  "\<exists>l. sample_world = (\<lparr> w_jobs = [fail_row ''boom'' (5000000 + nanos_per_second) 5000000
     (lock_row ''w'' 0 enqueued_row)], w_log = l \<rparr>, SchedRunning)"
  by (simp add: sample_world_def sched_run_def sched_turn_def sample_scheduler_def sample_tick_def
      default_config_def jobqueue_ops_def recover_interrupted_def recover_stale_def is_stale_def
      sample_claimed_simps sched_claim_def claim_types_sample log_activity_def process_def run_handler_def
      failing_handler_def settle_failure_def scan_job_def fail_def is_running_job_def retry_delay_def
      count_failure_def with_jobs_def Let_def)

text \<open>The only handler fails, so the one attempt of the job is used up and it is dead, not RUNNING.\<close>
lemma scheduler_settles_jobs_witness:
  "running_in job_statuses (fst sample_world) = {} \<and> map jr_status (w_jobs (fst sample_world)) = [JDead]"
proof -
  obtain l where w: "sample_world = (\<lparr> w_jobs = [fail_row ''boom'' (5000000 + nanos_per_second) 5000000
     (lock_row ''w'' 0 enqueued_row)], w_log = l \<rparr>, SchedRunning)"
    using sample_world_eq by blast
  have "snd sample_world = SchedRunning" "map jr_status (w_jobs (fst sample_world)) = [JDead]"
    by (simp_all add: w sample_claimed_simps)
  moreover have "sched_run sample_scheduler False 0 [sample_tick]
     \<lparr> w_jobs = fst (recover_interrupted 0 [enqueued_row]), w_log = [] \<rparr> = (fst sample_world, snd sample_world)"
    by (simp add: sample_world_def)
  ultimately show ?thesis
    using scheduler_settles_jobs [OF enqueued_row_ok sample_scheduler_ok] by blast
qed

end
