(* ===== verification/WorkflowTransition.thy ===== *)
theory WorkflowTransition
  imports Prelude
begin

text \<open>The workflow state machine (internal/workflowjob/transition.go). A status read from the database
  is one of the fourteen of the schema, so it is a datatype; an action may come from a client, so
  \<open>ActOther\<close> stands for any string that is not one of the known actions. \<open>None\<close> as a retry status is
  the empty string of the source, \<open>None\<close> as the next status its ErrInvalidTransition.\<close>

datatype wf_status =
  StReady | StWorkspacePreparing | StQueued | StExecuting | StChecking | StReviewing
| StWaitingApproval | StRevisionRequired | StApproved | StPublishing
| StCompleted | StFailed | StRejected | StCancelled

datatype wf_action =
  ActCreate | ActStart | ActWorkspaceReady | ActExecutionStarted | ActExecutionCompleted
| ActChecksCompleted | ActReviewCompleted | ActApprove | ActRequestRevision | ActQueueRevision
| ActReject | ActPublish | ActPublicationCompleted | ActFail | ActRetry | ActRestart | ActCancel
| ActContinueExecution | ActOther string

fun status_str :: "wf_status \<Rightarrow> string" where
  "status_str StReady = ''READY''"
| "status_str StWorkspacePreparing = ''WORKSPACE_PREPARING''"
| "status_str StQueued = ''QUEUED''"
| "status_str StExecuting = ''EXECUTING''"
| "status_str StChecking = ''CHECKING''"
| "status_str StReviewing = ''REVIEWING''"
| "status_str StWaitingApproval = ''WAITING_FOR_APPROVAL''"
| "status_str StRevisionRequired = ''REVISION_REQUIRED''"
| "status_str StApproved = ''APPROVED''"
| "status_str StPublishing = ''PUBLISHING''"
| "status_str StCompleted = ''COMPLETED''"
| "status_str StFailed = ''FAILED''"
| "status_str StRejected = ''REJECTED''"
| "status_str StCancelled = ''CANCELLED''"

definition known_actions :: "(string \<times> wf_action) list" where
  "known_actions =
     [(''CREATE'', ActCreate), (''START'', ActStart), (''WORKSPACE_READY'', ActWorkspaceReady),
      (''EXECUTION_STARTED'', ActExecutionStarted), (''EXECUTION_COMPLETED'', ActExecutionCompleted),
      (''CHECKS_COMPLETED'', ActChecksCompleted), (''REVIEW_COMPLETED'', ActReviewCompleted),
      (''APPROVE'', ActApprove), (''REQUEST_REVISION'', ActRequestRevision),
      (''QUEUE_REVISION'', ActQueueRevision), (''REJECT'', ActReject), (''PUBLISH'', ActPublish),
      (''PUBLICATION_COMPLETED'', ActPublicationCompleted), (''FAIL'', ActFail), (''RETRY'', ActRetry),
      (''RESTART'', ActRestart), (''CANCEL'', ActCancel), (''CONTINUE_EXECUTION'', ActContinueExecution)]"

definition action_of_string :: "string \<Rightarrow> wf_action" where
  "action_of_string s = (case map_of known_actions s of Some a \<Rightarrow> a | None \<Rightarrow> ActOther s)"

definition action_str :: "wf_action \<Rightarrow> string" where
  "action_str a = (case a of ActOther s \<Rightarrow> s
     | _ \<Rightarrow> (case find (\<lambda>(s, b). b = a) known_actions of Some (s, _) \<Rightarrow> s | None \<Rightarrow> []))"

definition transition_table :: "wf_status \<Rightarrow> wf_action \<Rightarrow> wf_status option" where
  "transition_table s a =
     (case s of
        StReady \<Rightarrow> if a = ActStart then Some StWorkspacePreparing else None
      | StWorkspacePreparing \<Rightarrow> if a = ActWorkspaceReady then Some StQueued else None
      | StQueued \<Rightarrow> if a = ActExecutionStarted then Some StExecuting else None
      | StExecuting \<Rightarrow> if a = ActExecutionCompleted then Some StChecking else None
      | StChecking \<Rightarrow> if a = ActChecksCompleted then Some StReviewing else None
      | StReviewing \<Rightarrow> if a = ActReviewCompleted then Some StWaitingApproval else None
      | StWaitingApproval \<Rightarrow>
          if a = ActApprove then Some StApproved
          else if a = ActRequestRevision then Some StRevisionRequired
          else if a = ActReject then Some StRejected else None
      | StRevisionRequired \<Rightarrow> if a = ActQueueRevision then Some StQueued else None
      | StApproved \<Rightarrow> if a = ActPublish then Some StPublishing else None
      | StPublishing \<Rightarrow> if a = ActPublicationCompleted then Some StCompleted else None
      | _ \<Rightarrow> None)"

definition failure_statuses :: "wf_status set" where
  "failure_statuses = {StWorkspacePreparing, StQueued, StExecuting, StChecking, StReviewing, StPublishing}"

definition is_terminal :: "wf_status \<Rightarrow> bool" where
  "is_terminal s = (s \<in> {StCompleted, StRejected, StCancelled})"

definition next_status :: "wf_status \<Rightarrow> wf_action \<Rightarrow> wf_status option \<Rightarrow> wf_status option" where
  "next_status current action retry =
     (if action = ActCancel then (if is_terminal current then None else Some StCancelled)
      else if action = ActFail then (if current \<notin> failure_statuses then None else Some StFailed)
      else if action = ActRestart then (if current \<noteq> StFailed then None else Some StWorkspacePreparing)
      else if action = ActContinueExecution then
        (if current \<noteq> StFailed \<or> (retry \<noteq> Some StExecuting \<and> retry \<noteq> Some StQueued) then None
         else Some StQueued)
      else if action = ActRetry then
        (case retry of
           None \<Rightarrow> None
         | Some r \<Rightarrow> if current \<noteq> StFailed \<or> r \<notin> failure_statuses then None else Some r)
      else transition_table current action)"

definition dispatch_for :: "wf_action \<Rightarrow> string option" where
  "dispatch_for action =
     (if action = ActStart \<or> action = ActRestart then Some ''workflow.prepare_workspace''
      else if action = ActWorkspaceReady \<or> action = ActQueueRevision \<or> action = ActContinueExecution
        then Some ''workflow.execute''
      else if action = ActExecutionCompleted then Some ''workflow.run_checks''
      else if action = ActChecksCompleted then Some ''workflow.review''
      else if action = ActPublish then Some ''workflow.publish''
      else None)"

definition dispatch_for_retry :: "wf_status \<Rightarrow> string option" where
  "dispatch_for_retry s =
     (case s of
        StWorkspacePreparing \<Rightarrow> Some ''workflow.prepare_workspace''
      | StQueued \<Rightarrow> Some ''workflow.execute''
      | StExecuting \<Rightarrow> Some ''workflow.execute''
      | StChecking \<Rightarrow> Some ''workflow.run_checks''
      | StReviewing \<Rightarrow> Some ''workflow.review''
      | StPublishing \<Rightarrow> Some ''workflow.publish''
      | _ \<Rightarrow> None)"

definition is_executor_pause_code :: "string \<Rightarrow> bool" where
  "is_executor_pause_code code = (code \<in> {''EXECUTOR_BUDGET_EXHAUSTED'', ''EXECUTOR_NO_PROGRESS'',
     ''EXECUTOR_REPEATED_TOOL_FAILURE'', ''EXECUTOR_REPEATED_ACTION'', ''EXECUTOR_TOOL_CALL_LIMIT''})"

subsection \<open>The machine\<close>

text \<open>Statuses are ordered along the pipeline, the statuses outside it last.\<close>

fun stage_rank :: "wf_status \<Rightarrow> nat" where
  "stage_rank StReady = 0"
| "stage_rank StWorkspacePreparing = 1"
| "stage_rank StQueued = 2"
| "stage_rank StExecuting = 3"
| "stage_rank StChecking = 4"
| "stage_rank StReviewing = 5"
| "stage_rank StWaitingApproval = 6"
| "stage_rank StRevisionRequired = 7"
| "stage_rank StApproved = 8"
| "stage_rank StPublishing = 9"
| "stage_rank StCompleted = 10"
| "stage_rank StFailed = 11"
| "stage_rank StRejected = 12"
| "stage_rank StCancelled = 13"

lemma stage_rank_inj: "stage_rank s = stage_rank t \<Longrightarrow> s = t"
  by (cases s; cases t) simp_all

instantiation wf_status :: linorder
begin

definition less_eq_wf_status :: "wf_status \<Rightarrow> wf_status \<Rightarrow> bool" where
  "less_eq_wf_status s t = (stage_rank s \<le> stage_rank t)"

definition less_wf_status :: "wf_status \<Rightarrow> wf_status \<Rightarrow> bool" where
  "less_wf_status s t = (stage_rank s < stage_rank t)"

instance
  by standard (auto simp: less_eq_wf_status_def less_wf_status_def intro: stage_rank_inj)

end

lemma next_status_terminal: "is_terminal s \<Longrightarrow> next_status s a r = None"
  by (auto simp: is_terminal_def next_status_def failure_statuses_def transition_table_def split: option.splits)

text \<open>The table entries as a case rule: each regular transition, and the five special actions.\<close>

lemma next_status_cases:
  assumes "next_status s a r = Some t"
  obtains (cancel) "a = ActCancel" "\<not> is_terminal s" "t = StCancelled"
  | (fail) "a = ActFail" "s \<in> failure_statuses" "t = StFailed"
  | (restart) "a = ActRestart" "s = StFailed" "t = StWorkspacePreparing"
  | (continue) "a = ActContinueExecution" "s = StFailed" "r = Some StExecuting \<or> r = Some StQueued" "t = StQueued"
  | (retry) "a = ActRetry" "s = StFailed" "r = Some t" "t \<in> failure_statuses"
  | (table) "a \<notin> {ActCancel, ActFail, ActRestart, ActContinueExecution, ActRetry}"
      "transition_table s a = Some t"
proof -
  consider "a = ActCancel" | "a = ActFail" | "a = ActRestart" | "a = ActContinueExecution" | "a = ActRetry"
    | "a \<notin> {ActCancel, ActFail, ActRestart, ActContinueExecution, ActRetry}"
    by blast
  then show thesis
  proof cases
    case 1
    show thesis
      by (rule cancel) (use assms 1 in \<open>auto simp: next_status_def split: if_splits option.splits\<close>)
  next
    case 2
    show thesis
      by (rule fail) (use assms 2 in \<open>auto simp: next_status_def split: if_splits option.splits\<close>)
  next
    case 3
    show thesis
      by (rule restart) (use assms 3 in \<open>auto simp: next_status_def split: if_splits option.splits\<close>)
  next
    case 4
    show thesis
      by (rule continue) (use assms 4 in \<open>auto simp: next_status_def split: if_splits option.splits\<close>)
  next
    case 5
    show thesis
      by (rule retry) (use assms 5 in \<open>auto simp: next_status_def split: if_splits option.splits\<close>)
  next
    case 6
    then show thesis using assms table by (simp add: next_status_def)
  qed
qed

lemma transition_table_cases:
  assumes "transition_table s a = Some t"
  shows "(s, a, t) \<in> {(StReady, ActStart, StWorkspacePreparing), (StWorkspacePreparing, ActWorkspaceReady, StQueued),
    (StQueued, ActExecutionStarted, StExecuting), (StExecuting, ActExecutionCompleted, StChecking),
    (StChecking, ActChecksCompleted, StReviewing), (StReviewing, ActReviewCompleted, StWaitingApproval),
    (StWaitingApproval, ActApprove, StApproved), (StWaitingApproval, ActRequestRevision, StRevisionRequired),
    (StWaitingApproval, ActReject, StRejected), (StRevisionRequired, ActQueueRevision, StQueued),
    (StApproved, ActPublish, StPublishing), (StPublishing, ActPublicationCompleted, StCompleted)}"
  using assms by (cases s) (auto simp: transition_table_def split: if_splits)

lemma next_status_target:
  assumes "next_status s a r = Some t"
  shows "(t = StApproved \<longrightarrow> s = StWaitingApproval \<and> a = ActApprove)
    \<and> (t = StCompleted \<longrightarrow> s = StPublishing \<and> a = ActPublicationCompleted)
    \<and> (t = StPublishing \<longrightarrow> s = StApproved \<and> a = ActPublish \<or> s = StFailed \<and> r = Some StPublishing \<and> a = ActRetry)
    \<and> (t = StFailed \<longrightarrow> a = ActFail \<and> s \<in> failure_statuses)
    \<and> (t = StCancelled \<longrightarrow> a = ActCancel) \<and> t \<noteq> StReady"
  using assms
proof (cases rule: next_status_cases)
  case table
  from transition_table_cases [OF this(2)] show ?thesis by auto
qed (auto simp: failure_statuses_def)

end
