(* ===== verification/Json.thy ===== *)
theory Json
  imports GoStd
begin

text \<open>JSON documents and the parts of encoding/json the program relies on. A number is \<open>JInt\<close> when
  its literal is a plain integer and \<open>JNum\<close> of its literal otherwise. A stored JSON text is
  represented by the document it decodes to, \<open>None\<close> when it is not valid JSON; \<open>marshal\<close> is the text
  \<open>json.Marshal\<close> produces for valid UTF-8 strings, HTML escapes included.\<close>

datatype json =
  JNull
| JBool bool
| JInt int
| JNum string
| JStr string
| JArr "json list"
| JObj "(string \<times> json) list"

type_synonym json_text = "json option"

subsection \<open>Printing\<close>

fun show_nat :: "nat \<Rightarrow> string" where
  "show_nat n = (if n < 10 then [char_of (48 + n)] else show_nat (n div 10) @ [char_of (48 + n mod 10)])"

declare show_nat.simps [simp del]

definition show_int :: "int \<Rightarrow> string" where
  "show_int i = (if i < 0 then CHR ''-'' # show_nat (nat (- i)) else show_nat (nat i))"

definition hex_digit :: "nat \<Rightarrow> char" where
  "hex_digit n = (if n < 10 then char_of (48 + n) else char_of (87 + n))"

definition escape_char :: "char \<Rightarrow> string" where
  "escape_char c = (let n = (of_char c :: nat) in
     if n = 34 \<or> n = 92 then [CHR 0x5C, c]
     else if n = 8 then [CHR 0x5C, CHR ''b'']
     else if n = 12 then [CHR 0x5C, CHR ''f'']
     else if n = 10 then [CHR 0x5C, CHR ''n'']
     else if n = 13 then [CHR 0x5C, CHR ''r'']
     else if n = 9 then [CHR 0x5C, CHR ''t'']
     else if n < 32 \<or> n = 60 \<or> n = 62 \<or> n = 38
       then [CHR 0x5C, CHR ''u'', CHR ''0'', CHR ''0'', hex_digit (n div 16), hex_digit (n mod 16)]
     else [c])"

fun escape :: "string \<Rightarrow> string" where
  "escape [] = []"
| "escape [c] = escape_char c"
| "escape [c, d] = escape_char c @ escape_char d"
| "escape (c # d # e # s) =
     (if [c, d] = bytes [0xE2, 0x80] \<and> (of_char e :: nat) \<in> {0xA8, 0xA9}
      then CHR 0x5C # ''u202'' @ [hex_digit (of_char e - 0xA0)] @ escape s
      else escape_char c @ escape (d # e # s))"

definition quote_json :: "string \<Rightarrow> string" where
  "quote_json s = CHR 0x22 # escape s @ [CHR 0x22]"

fun marshal :: "json \<Rightarrow> string" and marshal_list :: "json list \<Rightarrow> string"
  and marshal_obj :: "(string \<times> json) list \<Rightarrow> string" where
  "marshal JNull = ''null''"
| "marshal (JBool b) = (if b then ''true'' else ''false'')"
| "marshal (JInt i) = show_int i"
| "marshal (JNum l) = l"
| "marshal (JStr s) = quote_json s"
| "marshal (JArr xs) = ''['' @ marshal_list xs @ '']''"
| "marshal (JObj kvs) = ''{'' @ marshal_obj kvs @ ''}''"
| "marshal_list [] = []"
| "marshal_list (x # xs) = marshal x @ (if xs = [] then [] else '','') @ marshal_list xs"
| "marshal_obj [] = []"
| "marshal_obj ((k, v) # kvs) =
     quote_json k @ '':'' @ marshal v @ (if kvs = [] then [] else '','') @ marshal_obj kvs"

text \<open>A quoted string is at most six times as long as its bytes.\<close>

lemma length_escape_char: "length (escape_char c) \<le> 6"
  by (simp add: escape_char_def Let_def)

lemma length_escape: "length (escape s) \<le> 6 * length s"
proof (induction s rule: escape.induct)
  case (2 c)
  then show ?case using length_escape_char [of c] by simp
next
  case (3 c d)
  then show ?case using length_escape_char [of c] length_escape_char [of d] by simp
next
  case (4 c d e s)
  then show ?case using length_escape_char [of c] by auto
qed simp

lemma length_quote_json: "length (quote_json s) \<le> 6 * length s + 2"
  using length_escape [of s] by (simp add: quote_json_def)

subsection \<open>Decoding into Go structs\<close>

text \<open>\<open>json.Unmarshal\<close> matches an object key with a field name up to case folding, takes the last
  matching entry, leaves the field at its previous value on null, and fails on a value of the wrong
  type. Integers outside 64 bits and literals with a fraction or exponent do not decode into int.\<close>

fun fold_name :: "string \<Rightarrow> string" where
  "fold_name [] = []"
| "fold_name [c] = [upper_char c]"
| "fold_name [c, d] =
     (if [c, d] = bytes [0xC5, 0xBF] then [CHR ''S''] else [upper_char c, upper_char d])"
| "fold_name (c # d # e # s) =
     (if [c, d] = bytes [0xC5, 0xBF] then CHR ''S'' # fold_name (e # s)
      else if [c, d, e] = bytes [0xE2, 0x84, 0xAA] then CHR ''K'' # fold_name s
      else upper_char c # fold_name (d # e # s))"

definition get_field :: "(json \<Rightarrow> 'a option) \<Rightarrow> 'a \<Rightarrow> string \<Rightarrow> (string \<times> json) list \<Rightarrow> 'a option" where
  "get_field dec zero name kvs =
     foldl (\<lambda>acc (k, v).
        if fold_name k \<noteq> fold_name name then acc
        else (case acc of None \<Rightarrow> None | Some old \<Rightarrow> if v = JNull then Some old else dec v))
      (Some zero) kvs"

fun dec_string :: "json \<Rightarrow> string option" where
  "dec_string (JStr s) = Some s"
| "dec_string _ = None"

fun dec_int :: "json \<Rightarrow> int option" where
  "dec_int (JInt i) = (if - (2 ^ 63) \<le> i \<and> i < 2 ^ 63 then Some i else None)"
| "dec_int _ = None"

fun dec_bool :: "json \<Rightarrow> bool option" where
  "dec_bool (JBool b) = Some b"
| "dec_bool _ = None"

definition all_options :: "'a option list \<Rightarrow> 'a list option" where
  "all_options xs = (if None \<in> set xs then None else Some (List.map_filter id xs))"

definition dec_elem :: "(json \<Rightarrow> 'a option) \<Rightarrow> 'a \<Rightarrow> json \<Rightarrow> 'a option" where
  "dec_elem dec zero v = (if v = JNull then Some zero else dec v)"

definition dec_list :: "(json \<Rightarrow> 'a option) \<Rightarrow> 'a \<Rightarrow> json \<Rightarrow> 'a list option" where
  "dec_list dec zero v = (case v of JArr xs \<Rightarrow> all_options (map (dec_elem dec zero) xs) | _ \<Rightarrow> None)"

abbreviation get_str :: "string \<Rightarrow> (string \<times> json) list \<Rightarrow> string option" where
  "get_str \<equiv> get_field dec_string []"

abbreviation get_int :: "string \<Rightarrow> (string \<times> json) list \<Rightarrow> int option" where
  "get_int \<equiv> get_field dec_int 0"

definition known_fields :: "string list \<Rightarrow> (string \<times> json) list \<Rightarrow> bool" where
  "known_fields names kvs = list_all (\<lambda>(k, _). list_ex (\<lambda>n. fold_name n = fold_name k) names) kvs"

lemma get_field_Nil [simp]: "get_field dec zero name [] = Some zero"
  by (simp add: get_field_def)

lemma get_field_append1 [simp]:
  "get_field dec zero name (kvs @ [(k, v)]) =
     (if fold_name k \<noteq> fold_name name then get_field dec zero name kvs
      else case get_field dec zero name kvs of None \<Rightarrow> None
           | Some old \<Rightarrow> if v = JNull then Some old else dec v)"
  by (simp add: get_field_def)

lemma show_nat_not_Nil [simp]: "show_nat n \<noteq> []"
  by (subst show_nat.simps) simp

lemma show_int_not_Nil [simp]: "show_int n \<noteq> []"
  by (simp add: show_int_def)

lemma fold_name_ascii: "list_all is_ascii s \<Longrightarrow> fold_name s = map upper_char s"
proof (induction s rule: fold_name.induct)
  case (3 c d)
  then show ?case using ascii_not_lead(2) [of c "[d]" "0xBF"] by simp
next
  case (4 c d e s)
  then show ?case using ascii_not_lead(2) [of c "[d]" "0xBF"] ascii_not_lead(3) [of c "[d, e]" "0x84" "0xAA"] by simp
qed auto

declare fold_name.simps [simp del]

end
