(* ===== verification/WorkflowRepo.thy ===== *)
theory WorkflowRepo
  imports WorkflowTransition Json JobQueue
begin

text \<open>The workflow repository (internal/workflowjob/repository.go) over the tables it uses: projects,
  plans, plan versions, repositories, workflow_jobs, workflow_job_transitions and the jobs table of
  the queue. A workflow row is the \<open>Job\<close> that \<open>loadJob\<close> reads: the nullable text columns are read
  with COALESCE, so NULL and the empty string are one value, and instants are kept to the
  millisecond (\<open>stored_at\<close>). A failed operation is rolled back. The new ids, the clock readings and
  whether the activity recorder works are in \<open>wf_env\<close>.\<close>

record limits =
  max_revisions :: int
  max_stage_attempts :: int
  max_executor_turns :: int
  max_tool_calls :: int
  max_consecutive_tool_errors :: int
  max_no_progress_turns :: int
  wall_clock_seconds :: int

record agent_selection =
  ag_provider :: string
  ag_model :: string

record wf_job =
  wf_id :: string
  wf_project_id :: string
  wf_plan_id :: string
  wf_plan_version_id :: string
  wf_repository_id :: string
  wf_base_branch :: string
  wf_base_commit_sha :: string
  wf_agent_settings_version :: int
  wf_executor :: agent_selection
  wf_reviewer :: agent_selection
  wf_status_of :: wf_status
  wf_version :: int
  wf_current_dispatch_id :: string
  wf_retry_status :: "wf_status option"
  wf_execution_version :: int
  wf_revision_count :: int
  wf_limits :: limits
  wf_cancellation_requested :: bool
  wf_failure_code :: string
  wf_failure_message :: string
  wf_created_at :: instant
  wf_updated_at :: instant
  wf_completed_at :: "instant option"

record transition_row =
  tr_sequence :: int
  tr_workflow_job_id :: string
  tr_from_status :: "wf_status option"
  tr_action :: wf_action
  tr_to_status :: wf_status
  tr_workflow_version :: int
  tr_dispatch_job_id :: string
  tr_details :: json
  tr_created_at :: instant

record create_input =
  ci_project_id :: string
  ci_plan_id :: string
  ci_repository_id :: string
  ci_base_branch :: string
  ci_agent_settings_version :: int
  ci_executor :: agent_selection
  ci_reviewer :: agent_selection
  ci_limits :: limits

record transition_input =
  ti_expected_version :: int
  ti_action :: string
  ti_failure_code :: string
  ti_failure_message :: string
  ti_details :: "(string \<times> json) list option"
  ti_additional_executor_turns :: int

datatype wf_error =
  ErrNotFound | ErrProjectNotFound | ErrPlanNotReady string | ErrInvalidJob string
| ErrActiveJob string | ErrVersionConflict | ErrInvalidTransition wf_status wf_action
| ErrRevisionLimit | WfQueueError queue_error | WfDbError

record plan_row =
  pl_id :: string
  pl_project_id :: string
  pl_status :: string
  pl_current_version :: int

record plan_version_row =
  pv_id :: string
  pv_plan_id :: string
  pv_version :: int

record repository_row =
  rp_id :: string
  rp_project_id :: string
  rp_current_branch :: string
  rp_head_sha :: string
  rp_local_path :: string

record wf_event =
  ev_job :: string
  ev_type :: string
  ev_payload :: json
  ev_at :: instant

record wf_db =
  db_projects :: "string list"
  db_plans :: "plan_row list"
  db_plan_versions :: "plan_version_row list"
  db_repositories :: "repository_row list"
  db_workflows :: "wf_job list"
  db_transitions :: "transition_row list"
  db_jobs :: "json_text jobs_table"
  db_events :: "wf_event list"

record wf_env =
  we_now :: instant
  we_queue_now :: instant
  we_new_id :: string
  we_recorder_ok :: bool

definition stored_at :: "instant \<Rightarrow> instant" where
  "stored_at t = from_milli (unix_milli t)"

definition nullable_string :: "string \<Rightarrow> string" where
  "nullable_string s = (if trim_space s = [] then [] else s)"

subsection \<open>Validation\<close>

definition normalize_limits :: "limits \<Rightarrow> limits" where
  "normalize_limits l = (let d = (\<lambda>v def. if v = (0::int) then def else v) in
     \<lparr> max_revisions = d (max_revisions l) 3, max_stage_attempts = d (max_stage_attempts l) 3,
       max_executor_turns = d (max_executor_turns l) 32, max_tool_calls = d (max_tool_calls l) 24,
       max_consecutive_tool_errors = d (max_consecutive_tool_errors l) 3,
       max_no_progress_turns = d (max_no_progress_turns l) 4,
       wall_clock_seconds = d (wall_clock_seconds l) 3600 \<rparr>)"

definition normalize_agent_selection :: "agent_selection \<Rightarrow> agent_selection" where
  "normalize_agent_selection s =
     \<lparr> ag_provider = to_lower (trim_space (ag_provider s)), ag_model = trim_space (ag_model s) \<rparr>"

definition validate_agent_selections :: "int \<Rightarrow> agent_selection \<Rightarrow> agent_selection \<Rightarrow> wf_error + unit" where
  "validate_agent_selections settings_version executor reviewer =
     (let executor_complete = (ag_provider executor \<noteq> [] \<and> ag_model executor \<noteq> []);
          reviewer_complete = (ag_provider reviewer \<noteq> [] \<and> ag_model reviewer \<noteq> [])
      in if settings_version < 0 then Inl (ErrInvalidJob ''agent_settings_version must not be negative'')
      else if (ag_provider executor = []) \<noteq> (ag_model executor = [])
            \<or> (ag_provider reviewer = []) \<noteq> (ag_model reviewer = [])
        then Inl (ErrInvalidJob ''each agent selection requires both provider and model'')
      else if executor_complete \<noteq> reviewer_complete
        then Inl (ErrInvalidJob ''executor and reviewer must both be selected or both omitted'')
      else if executor_complete \<and> ag_provider executor = ag_provider reviewer
            \<and> ag_model executor = ag_model reviewer
        then Inl (ErrInvalidJob ''executor and reviewer must use different provider/model pairs'')
      else Inr ())"

definition validate_limits :: "limits \<Rightarrow> wf_error + unit" where
  "validate_limits l =
     (if max_revisions l < 0 \<or> max_revisions l > 20
        then Inl (ErrInvalidJob ''max_revisions must be between 0 and 20'')
      else if max_stage_attempts l < 1 \<or> max_stage_attempts l > 10
        then Inl (ErrInvalidJob ''max_stage_attempts must be between 1 and 10'')
      else if max_executor_turns l < 2 \<or> max_executor_turns l > 128
        then Inl (ErrInvalidJob ''max_executor_turns must be between 2 and 128'')
      else if max_tool_calls l < 1 \<or> max_tool_calls l > 1000
        then Inl (ErrInvalidJob ''max_tool_calls must be between 1 and 1000'')
      else if max_consecutive_tool_errors l < 1 \<or> max_consecutive_tool_errors l > 10
        then Inl (ErrInvalidJob ''max_consecutive_tool_errors must be between 1 and 10'')
      else if max_no_progress_turns l < 1 \<or> max_no_progress_turns l > 20
        then Inl (ErrInvalidJob ''max_no_progress_turns must be between 1 and 20'')
      else if wall_clock_seconds l < 60 \<or> wall_clock_seconds l > 86400
        then Inl (ErrInvalidJob ''wall_clock_seconds must be between 60 and 86400'')
      else Inr ())"

definition validate_base_branch :: "string \<Rightarrow> wf_error + unit" where
  "validate_base_branch v =
     guardE (\<not> (v = [] \<or> length v > 255 \<or> has_prefix v ''-'' \<or> contains_sub v ''..''
        \<or> contains_sub v [CHR ''@'', CHR ''{''] \<or> contains_any v ('' ~^:?*['' @ [CHR 0x5C])
        \<or> has_suffix v ''.'' \<or> has_suffix v ''/'' \<or> list_ex is_control v))
       (ErrInvalidJob ''base_branch is not a safe Git branch name'')"

definition safe_details :: "(string \<times> json) list option \<Rightarrow> wf_error + json" where
  "safe_details d =
     (case d of
        None \<Rightarrow> Inr (JObj [])
      | Some kvs \<Rightarrow>
        if length (marshal (JObj kvs)) > 32 * 1024
          then Inl (ErrInvalidJob ''transition details exceed 32768 bytes'')
        else Inr (JObj kvs))"

subsection \<open>Reading\<close>

definition load_job :: "wf_db \<Rightarrow> string \<Rightarrow> wf_error + wf_job" where
  "load_job db i =
     (case lookup_by wf_id i (db_workflows db) of None \<Rightarrow> Inl ErrNotFound | Some w \<Rightarrow> Inr w)"

definition wf_get :: "wf_db \<Rightarrow> string \<Rightarrow> wf_error + wf_job" where
  "wf_get db i = load_job db (trim_space i)"

definition list_project :: "wf_db \<Rightarrow> string \<Rightarrow> wf_job list" where
  "list_project db p =
     sort_key (\<lambda>w. (- wf_updated_at w, - wf_created_at w))
       (filter (\<lambda>w. wf_project_id w = trim_space p) (db_workflows db))"

definition list_transitions :: "wf_db \<Rightarrow> string \<Rightarrow> wf_error + transition_row list" where
  "list_transitions db i =
     rbind (wf_get db i) (\<lambda>_.
       Inr (sort_key tr_sequence
              (filter (\<lambda>t. tr_workflow_job_id t = trim_space i) (db_transitions db))))"

subsection \<open>Writing\<close>

definition next_sequence :: "wf_db \<Rightarrow> int" where
  "next_sequence db = foldl (\<lambda>m t. max m (tr_sequence t)) 0 (db_transitions db) + 1"

definition insert_transition ::
  "string \<Rightarrow> wf_status option \<Rightarrow> wf_action \<Rightarrow> wf_status \<Rightarrow> int \<Rightarrow> string \<Rightarrow> json \<Rightarrow> instant \<Rightarrow> wf_db
   \<Rightarrow> wf_error + wf_db" where
  "insert_transition i from action to version dispatch_id details created_at db =
     (if \<exists>t\<in>set (db_transitions db). tr_workflow_job_id t = i \<and> tr_workflow_version t = version
        then Inl WfDbError
      else Inr (db\<lparr> db_transitions := db_transitions db @
        [\<lparr> tr_sequence = next_sequence db, tr_workflow_job_id = i, tr_from_status = from,
           tr_action = action, tr_to_status = to, tr_workflow_version = version,
           tr_dispatch_job_id = nullable_string dispatch_id, tr_details = details,
           tr_created_at = stored_at created_at \<rparr>] \<rparr>))"

definition record_event :: "wf_env \<Rightarrow> string \<Rightarrow> string \<Rightarrow> json \<Rightarrow> wf_db \<Rightarrow> wf_db" where
  "record_event e i event_type payload db =
     (if we_recorder_ok e
      then db\<lparr> db_events := db_events db @
        [\<lparr> ev_job = i, ev_type = event_type, ev_payload = payload, ev_at = we_now e \<rparr>] \<rparr>
      else db)"

definition resolve_inputs ::
  "wf_db \<Rightarrow> create_input \<Rightarrow> (plan_row \<times> plan_version_row \<times> repository_row) option" where
  "resolve_inputs db i =
     (case find (\<lambda>p. pl_id p = ci_plan_id i \<and> pl_project_id p = ci_project_id i) (db_plans db) of
        None \<Rightarrow> None
      | Some p \<Rightarrow>
        (case find (\<lambda>v. pv_plan_id v = pl_id p \<and> pv_version v = pl_current_version p) (db_plan_versions db) of
           None \<Rightarrow> None
         | Some v \<Rightarrow>
           (case find (\<lambda>r. rp_project_id r = pl_project_id p \<and> rp_id r = ci_repository_id i) (db_repositories db) of
              None \<Rightarrow> None
            | Some r \<Rightarrow> Some (p, v, r))))"

definition is_active :: "string \<Rightarrow> string \<Rightarrow> wf_job \<Rightarrow> bool" where
  "is_active plan_version repo w =
     (wf_plan_version_id w = plan_version \<and> wf_repository_id w = repo \<and> \<not> is_terminal (wf_status_of w))"

definition insert_workflow :: "wf_job \<Rightarrow> wf_db \<Rightarrow> wf_error + wf_db" where
  "insert_workflow w db =
     (if wf_id w \<in> wf_id ` set (db_workflows db)
         \<or> (\<exists>v\<in>set (db_workflows db). is_active (wf_plan_version_id w) (wf_repository_id w) v)
      then Inl WfDbError
      else Inr (db\<lparr> db_workflows := db_workflows db @
        [w\<lparr> wf_created_at := stored_at (wf_created_at w), wf_updated_at := stored_at (wf_updated_at w) \<rparr>] \<rparr>))"

definition normalize_create :: "create_input \<Rightarrow> create_input" where
  "normalize_create i = \<lparr> ci_project_id = trim_space (ci_project_id i), ci_plan_id = trim_space (ci_plan_id i),
     ci_repository_id = trim_space (ci_repository_id i), ci_base_branch = trim_space (ci_base_branch i),
     ci_agent_settings_version = ci_agent_settings_version i,
     ci_executor = normalize_agent_selection (ci_executor i),
     ci_reviewer = normalize_agent_selection (ci_reviewer i), ci_limits = normalize_limits (ci_limits i) \<rparr>"

definition new_workflow ::
  "wf_env \<Rightarrow> create_input \<Rightarrow> plan_version_row \<Rightarrow> string \<Rightarrow> string \<Rightarrow> wf_job" where
  "new_workflow e i v branch head_sha = \<lparr> wf_id = we_new_id e, wf_project_id = ci_project_id i,
     wf_plan_id = ci_plan_id i, wf_plan_version_id = pv_id v, wf_repository_id = ci_repository_id i,
     wf_base_branch = branch, wf_base_commit_sha = head_sha,
     wf_agent_settings_version = ci_agent_settings_version i, wf_executor = ci_executor i,
     wf_reviewer = ci_reviewer i, wf_status_of = StReady, wf_version = 1, wf_current_dispatch_id = [],
     wf_retry_status = None, wf_execution_version = 0, wf_revision_count = 0, wf_limits = ci_limits i,
     wf_cancellation_requested = False, wf_failure_code = [], wf_failure_message = [],
     wf_created_at = we_now e, wf_updated_at = we_now e, wf_completed_at = None \<rparr>"

definition agent_json :: "agent_selection \<Rightarrow> json" where
  "agent_json a = JObj [(''provider'', JStr (ag_provider a)), (''model'', JStr (ag_model a))]"

definition created_payload :: "wf_job \<Rightarrow> json" where
  "created_payload w = JObj [(''project_id'', JStr (wf_project_id w)), (''plan_id'', JStr (wf_plan_id w)),
     (''plan_version_id'', JStr (wf_plan_version_id w)), (''repository_id'', JStr (wf_repository_id w)),
     (''agent_settings_version'', JInt (wf_agent_settings_version w)), (''executor'', agent_json (wf_executor w)),
     (''reviewer'', agent_json (wf_reviewer w)), (''status'', JStr (status_str (wf_status_of w))),
     (''version'', JInt (wf_version w))]"

definition wf_create :: "wf_env \<Rightarrow> create_input \<Rightarrow> wf_db \<Rightarrow> wf_error + wf_db \<times> wf_job" where
  "wf_create e raw db =
     (let i = normalize_create raw in
      rbind (validate_agent_selections (ci_agent_settings_version i) (ci_executor i) (ci_reviewer i)) (\<lambda>_.
      rbind (guardE (\<not> (ci_project_id i = [] \<or> ci_plan_id i = [] \<or> ci_repository_id i = []))
               (ErrInvalidJob ''project_id, plan_id, and repository_id are required'')) (\<lambda>_.
      rbind (validate_limits (ci_limits i)) (\<lambda>_.
      case resolve_inputs db i of
        None \<Rightarrow>
          if ci_project_id i \<notin> set (db_projects db) then Inl ErrProjectNotFound
          else Inl (ErrInvalidJob ''plan or repository does not belong to the project'')
      | Some (p, v, r) \<Rightarrow>
        if pl_status p \<noteq> ''READY'' \<and> pl_status p \<noteq> ''APPROVED'' then Inl (ErrPlanNotReady (pl_status p))
        else let branch = (if ci_base_branch i = [] then rp_current_branch r else ci_base_branch i) in
          rbind (validate_base_branch branch) (\<lambda>_.
          rbind (guardE (trim_space (rp_head_sha r) \<noteq> []) (ErrInvalidJob ''repository HEAD is required'')) (\<lambda>_.
          case find (is_active (pv_id v) (ci_repository_id i)) (db_workflows db) of
            Some a \<Rightarrow> Inl (ErrActiveJob (wf_id a))
          | None \<Rightarrow>
            let w = new_workflow e i v branch (rp_head_sha r) in
            rbind (insert_workflow w db) (\<lambda>db1.
            rbind (insert_transition (wf_id w) None ActCreate StReady 1 [] (JObj []) (we_now e) db1) (\<lambda>db2.
            Inr (record_event e (wf_id w) ''workflow.created'' (created_payload w) db2, w)))))))))"

subsection \<open>Transition\<close>

definition input_action :: "transition_input \<Rightarrow> string" where
  "input_action i = to_upper (trim_space (ti_action i))"

definition check_continue :: "wf_job \<Rightarrow> wf_action \<Rightarrow> int \<Rightarrow> wf_error + unit" where
  "check_continue w action extra =
     (if action \<noteq> ActContinueExecution then Inr ()
      else if \<not> is_executor_pause_code (wf_failure_code w)
            \<or> (wf_retry_status w \<noteq> Some StExecuting \<and> wf_retry_status w \<noteq> Some StQueued)
        then Inl (ErrInvalidTransition (wf_status_of w) action)
      else if extra < 1 \<or> extra > 64 \<or> max_executor_turns (wf_limits w) + extra > 128
        then Inl (ErrInvalidJob ''additional_executor_turns must keep max_executor_turns between 1 and 128'')
      else Inr ())"

definition dispatch_payload :: "string \<Rightarrow> int \<Rightarrow> wf_action \<Rightarrow> wf_status \<Rightarrow> json" where
  "dispatch_payload i version action next =
     JObj [(''action'', JStr (action_str action)), (''target_status'', JStr (status_str next)),
           (''workflow_job_id'', JStr i), (''workflow_version'', JInt version)]"

definition dispatch_type :: "wf_action \<Rightarrow> wf_status \<Rightarrow> string option" where
  "dispatch_type action next =
     (if action = ActRetry then dispatch_for_retry next else dispatch_for action)"

definition enqueue_dispatch ::
  "wf_env \<Rightarrow> wf_job \<Rightarrow> wf_action \<Rightarrow> wf_status \<Rightarrow> wf_db \<Rightarrow> wf_error + wf_db \<times> string" where
  "enqueue_dispatch e w action next db =
     (case dispatch_type action next of
        None \<Rightarrow> Inr (db, [])
      | Some t \<Rightarrow>
        (case enqueue_tx (we_new_id e) (we_queue_now e) t
                (Some (dispatch_payload (wf_id w) (wf_version w + 1) action next))
                (max_stage_attempts (wf_limits w)) (we_now e) (db_jobs db) of
           Inl err \<Rightarrow> Inl (WfQueueError err)
         | Inr (q, j) \<Rightarrow> Inr (db\<lparr> db_jobs := q \<rparr>, j_id j)))"

definition failure_after :: "wf_job \<Rightarrow> wf_action \<Rightarrow> transition_input \<Rightarrow> wf_status option \<times> string \<times> string" where
  "failure_after w action i =
     (if action = ActFail then
        (Some (wf_status_of w),
         (let c = trim_space (ti_failure_code i) in if c = [] then ''STAGE_FAILED'' else c),
         trim_space (ti_failure_message i))
      else if action = ActRetry \<or> action = ActRestart \<or> action = ActContinueExecution then (None, [], [])
      else (wf_retry_status w, wf_failure_code w, wf_failure_message w))"

definition apply_transition ::
  "wf_env \<Rightarrow> wf_action \<Rightarrow> transition_input \<Rightarrow> wf_status \<Rightarrow> string \<Rightarrow> wf_job \<Rightarrow> wf_job" where
  "apply_transition e action i next dispatch_id w =
     (let (retry, code, message) = failure_after w action i in
      w\<lparr> wf_status_of := next, wf_version := wf_version w + 1,
         wf_current_dispatch_id := nullable_string dispatch_id, wf_retry_status := retry,
         wf_execution_version := wf_execution_version w + (if action = ActExecutionStarted then 1 else 0),
         wf_revision_count := (if action = ActRestart then 0
            else if action = ActQueueRevision then wf_revision_count w + 1 else wf_revision_count w),
         wf_limits := (wf_limits w)\<lparr> max_executor_turns := max_executor_turns (wf_limits w)
            + (if action = ActContinueExecution then ti_additional_executor_turns i else 0) \<rparr>,
         wf_cancellation_requested := (if action = ActRestart then False
            else if action = ActCancel then True else wf_cancellation_requested w),
         wf_failure_code := nullable_string code, wf_failure_message := nullable_string message,
         wf_updated_at := stored_at (we_now e),
         wf_completed_at := (if is_terminal next then Some (stored_at (we_now e)) else None) \<rparr>)"

definition transitioned_payload ::
  "wf_job \<Rightarrow> wf_action \<Rightarrow> wf_status \<Rightarrow> string \<Rightarrow> json" where
  "transitioned_payload w action next dispatch_id =
     JObj [(''project_id'', JStr (wf_project_id w)), (''from_status'', JStr (status_str (wf_status_of w))),
           (''to_status'', JStr (status_str next)), (''action'', JStr (action_str action)),
           (''version'', JInt (wf_version w + 1)), (''dispatch_job_id'', JStr dispatch_id)]"

definition transition_guards ::
  "wf_job \<Rightarrow> wf_action \<Rightarrow> transition_input \<Rightarrow> wf_error + wf_status \<times> json" where
  "transition_guards w action i =
     rbind (check_continue w action (ti_additional_executor_turns i)) (\<lambda>_.
     case next_status (wf_status_of w) action (wf_retry_status w) of
       None \<Rightarrow> Inl (ErrInvalidTransition (wf_status_of w) action)
     | Some next \<Rightarrow>
       rbind (guardE (\<not> (action = ActQueueRevision \<and> wf_revision_count w \<ge> max_revisions (wf_limits w)))
                ErrRevisionLimit) (\<lambda>_.
       rbind (guardE (\<not> (action = ActFail \<and> trim_space (ti_failure_message i) = []))
                (ErrInvalidJob ''failure_message is required for FAIL'')) (\<lambda>_.
       rbind (safe_details (ti_details i)) (\<lambda>details. Inr (next, details)))))"

definition update_workflow ::
  "wf_env \<Rightarrow> wf_action \<Rightarrow> transition_input \<Rightarrow> wf_status \<Rightarrow> string \<Rightarrow> wf_job \<Rightarrow> wf_db \<Rightarrow> wf_error + wf_db" where
  "update_workflow e action i next dispatch_id w db =
     (let P = (\<lambda>v. wf_id v = wf_id w \<and> wf_version v = wf_version w) in
      if affected P (db_workflows db) \<noteq> 1 then Inl ErrVersionConflict
      else Inr (db\<lparr> db_workflows :=
             update_where P (apply_transition e action i next dispatch_id) (db_workflows db) \<rparr>))"

definition wf_transition ::
  "wf_env \<Rightarrow> string \<Rightarrow> transition_input \<Rightarrow> wf_db \<Rightarrow> wf_error + wf_db \<times> wf_job" where
  "wf_transition e raw_id i db =
     (let job_id = trim_space raw_id; action = action_of_string (input_action i) in
      rbind (guardE (\<not> (job_id = [] \<or> ti_expected_version i < 1 \<or> input_action i = []))
               (ErrInvalidJob ''job ID, expected_version, and action are required'')) (\<lambda>_.
      rbind (load_job db job_id) (\<lambda>w.
      rbind (guardE (wf_version w = ti_expected_version i) ErrVersionConflict) (\<lambda>_.
      rbind (transition_guards w action i) (\<lambda>(next, details).
      rbind (enqueue_dispatch e w action next db) (\<lambda>(db1, new_dispatch).
      let dispatch_id = (if action = ActExecutionStarted \<and> new_dispatch = []
                         then wf_current_dispatch_id w else new_dispatch) in
      rbind (update_workflow e action i next dispatch_id w db1) (\<lambda>db2.
      rbind (insert_transition (wf_id w) (Some (wf_status_of w)) action next (wf_version w + 1)
               dispatch_id details (we_now e) db2) (\<lambda>db3.
      let db4 = record_event e (wf_id w) ''workflow.transitioned''
                  (transitioned_payload w action next dispatch_id) db3 in
      rbind (wf_get db4 (wf_id w)) (\<lambda>w'. Inr (db4, w'))))))))))"

subsection \<open>What a successful operation does\<close>

definition enqueued_dispatch ::
  "wf_env \<Rightarrow> wf_job \<Rightarrow> wf_action \<Rightarrow> wf_status \<Rightarrow> json_text jobs_table \<Rightarrow> json_text jobs_table \<Rightarrow> string \<Rightarrow> bool" where
  "enqueued_dispatch e w action next q q' d =
     (case dispatch_type action next of
        None \<Rightarrow> q' = q \<and> d = []
      | Some t \<Rightarrow> d = we_new_id e \<and> d \<notin> jr_id ` set q \<and>
          (\<exists>r. q' = q @ [r] \<and> jr_id r = d \<and> jr_type r = t \<and> jr_status r = JQueued \<and> jr_attempts r = 0 \<and> jr_last_error r = None
            \<and> jr_payload r = Some (dispatch_payload (wf_id w) (wf_version w + 1) action next)
            \<and> jr_max_attempts r = max_stage_attempts (wf_limits w) \<and> row_ok r))"

lemma trim_dispatch_types:
  "trim_space ''workflow.prepare_workspace'' = ''workflow.prepare_workspace''"
  "trim_space ''workflow.execute'' = ''workflow.execute''"
  "trim_space ''workflow.run_checks'' = ''workflow.run_checks''"
  "trim_space ''workflow.review'' = ''workflow.review''"
  "trim_space ''workflow.publish'' = ''workflow.publish''"
  by (simp_all add: plain_char_def)

definition dispatch_types :: "string list" where
  "dispatch_types = [''workflow.prepare_workspace'', ''workflow.execute'', ''workflow.run_checks'',
     ''workflow.review'', ''workflow.publish'']"

lemma dispatch_for_types: "dispatch_for a = Some t \<Longrightarrow> t \<in> set dispatch_types"
  by (simp add: dispatch_for_def dispatch_types_def split: if_splits)

lemma dispatch_for_retry_types: "dispatch_for_retry s = Some t \<Longrightarrow> t \<in> set dispatch_types"
  by (cases s) (simp_all add: dispatch_for_retry_def dispatch_types_def)

lemma dispatch_type_trimmed:
  assumes "dispatch_type action nxt = Some t"
  shows "trim_space t = t \<and> t \<noteq> []"
proof -
  have "t \<in> set dispatch_types"
    using assms dispatch_for_types dispatch_for_retry_types by (auto simp: dispatch_type_def split: if_splits)
  moreover have "\<forall>t\<in>set dispatch_types. trim_space t = t \<and> t \<noteq> []"
    by (simp add: dispatch_types_def trim_dispatch_types)
  ultimately show ?thesis by blast
qed

lemma enqueue_dispatch_Inr:
  assumes "enqueue_dispatch e w action next db = Inr (db1, d)"
  shows "db1 = db\<lparr> db_jobs := db_jobs db1 \<rparr> \<and> enqueued_dispatch e w action next (db_jobs db) (db_jobs db1) d"
proof (cases "dispatch_type action next")
  case None
  then show ?thesis using assms by (auto simp: enqueue_dispatch_def enqueued_dispatch_def)
next
  case (Some t)
  then obtain q j where q: "enqueue_tx (we_new_id e) (we_queue_now e) t
      (Some (dispatch_payload (wf_id w) (wf_version w + 1) action next))
      (max_stage_attempts (wf_limits w)) (we_now e) (db_jobs db) = Inr (q, j)"
    "db1 = db\<lparr> db_jobs := q \<rparr>" "d = j_id j"
    using assms by (auto simp: enqueue_dispatch_def split: sum.splits)
  note i = enqueue_with_Inr [OF q(1) [unfolded enqueue_tx_def]]
  show ?thesis
    using i q(2,3) Some dispatch_type_trimmed [OF Some]
    by (auto simp: enqueued_dispatch_def new_job_def)
qed

abbreviation action_of :: "transition_input \<Rightarrow> wf_action" where
  "action_of i \<equiv> action_of_string (input_action i)"

definition dispatch_after :: "wf_job \<Rightarrow> wf_action \<Rightarrow> string \<Rightarrow> string" where
  "dispatch_after w action d =
     (if action = ActExecutionStarted \<and> d = [] then wf_current_dispatch_id w else d)"

definition logged :: "wf_env \<Rightarrow> wf_job \<Rightarrow> wf_action \<Rightarrow> wf_status \<Rightarrow> string \<Rightarrow> json \<Rightarrow> int \<Rightarrow> transition_row" where
  "logged e w action next d details sq = \<lparr> tr_sequence = sq, tr_workflow_job_id = wf_id w,
     tr_from_status = Some (wf_status_of w), tr_action = action, tr_to_status = next,
     tr_workflow_version = wf_version w + 1, tr_dispatch_job_id = nullable_string d,
     tr_details = details, tr_created_at = stored_at (we_now e) \<rparr>"

lemma next_sequence_simps [simp]:
  "next_sequence (db\<lparr> db_jobs := q \<rparr>) = next_sequence db"
  "next_sequence (db\<lparr> db_workflows := ws \<rparr>) = next_sequence db"
  "next_sequence (db\<lparr> db_jobs := q, db_workflows := ws \<rparr>) = next_sequence db"
  by (simp_all add: next_sequence_def)

text \<open>Everything a successful \<open>Transition\<close> did: the guards held, at most one dispatch was enqueued, one
  row was rewritten, one history row appended, in one step.\<close>

lemma wf_transition_cases:
  assumes "wf_transition e raw_id i db = Inr (db', w')"
  obtains w nxt details q d evs where
    "lookup_by wf_id (trim_space raw_id) (db_workflows db) = Some w" "trim_space raw_id \<noteq> []"
    "wf_version w = ti_expected_version i"
    "transition_guards w (action_of i) i = Inr (nxt, details)"
    "enqueued_dispatch e w (action_of i) nxt (db_jobs db) q d"
    "\<forall>t\<in>set (db_transitions db). \<not> (tr_workflow_job_id t = wf_id w \<and> tr_workflow_version t = wf_version w + 1)"
    "db' = db\<lparr> db_jobs := q,
       db_workflows := update_where (\<lambda>v. wf_id v = wf_id w \<and> wf_version v = wf_version w)
         (apply_transition e (action_of i) i nxt (dispatch_after w (action_of i) d)) (db_workflows db),
       db_transitions := db_transitions db @
         [logged e w (action_of i) nxt (dispatch_after w (action_of i) d) details (next_sequence db)],
       db_events := evs \<rparr>"
    "w' = apply_transition e (action_of i) i nxt (dispatch_after w (action_of i) d) w"
proof -
  let ?a = "action_of i"
  obtain w nxt details db1 d db2 db3 where s:
    "trim_space raw_id \<noteq> []" "load_job db (trim_space raw_id) = Inr w" "wf_version w = ti_expected_version i"
    "transition_guards w ?a i = Inr (nxt, details)"
    "enqueue_dispatch e w ?a nxt db = Inr (db1, d)"
    "update_workflow e ?a i nxt (dispatch_after w ?a d) w db1 = Inr db2"
    "insert_transition (wf_id w) (Some (wf_status_of w)) ?a nxt (wf_version w + 1)
       (dispatch_after w ?a d) details (we_now e) db2 = Inr db3"
    and fin: "db' = record_event e (wf_id w) ''workflow.transitioned''
      (transitioned_payload w ?a nxt (dispatch_after w ?a d)) db3" "wf_get db' (wf_id w) = Inr w'"
    using assms
    by (auto simp: wf_transition_def Let_def dispatch_after_def [symmetric] rbind_eq_Inr)
  let ?P = "\<lambda>v. wf_id v = wf_id w \<and> wf_version v = wf_version w"
  let ?f = "apply_transition e ?a i nxt (dispatch_after w ?a d)"
  have l: "lookup_by wf_id (trim_space raw_id) (db_workflows db) = Some w"
    using s(2) by (auto simp: load_job_def split: option.splits)
  then have id: "wf_id w = trim_space raw_id" using lookup_by_Some by fast
  define q where "q = db_jobs db1"
  have db1: "db1 = db\<lparr> db_jobs := q \<rparr>" and dq: "enqueued_dispatch e w ?a nxt (db_jobs db) q d"
    using enqueue_dispatch_Inr [OF s(5)] by (simp_all add: q_def)
  have db2: "db2 = db1\<lparr> db_workflows := update_where ?P ?f (db_workflows db1) \<rparr>"
    using s(6) by (auto simp: update_workflow_def Let_def split: if_splits)
  have seq: "next_sequence db2 = next_sequence db" by (simp add: db2 db1 next_sequence_def)
  have db3: "db3 = db2\<lparr> db_transitions := db_transitions db2 @
      [logged e w ?a nxt (dispatch_after w ?a d) details (next_sequence db)] \<rparr>"
    and fresh: "\<forall>t\<in>set (db_transitions db). \<not> (tr_workflow_job_id t = wf_id w \<and> tr_workflow_version t = wf_version w + 1)"
    using s(7) by (auto simp: insert_transition_def logged_def seq db2 db1 split: if_splits)
  have "\<exists>evs. db' = db3\<lparr> db_events := evs \<rparr>"
    using fin(1) by (auto simp: record_event_def intro: exI [of _ "db_events db3"])
  then obtain evs where db': "db' = db3\<lparr> db_events := evs \<rparr>" by blast
  have keep: "wf_id (?f v) = wf_id v" for v by (simp add: apply_transition_def split: prod.splits)
  have "w' = ?f w"
    using fin(2) l by (simp add: wf_get_def load_job_def db' db3 db2 db1 id lookup_by_update_where keep)
  then show thesis using that [OF l s(1,3,4) dq fresh] db' db3 db2 db1 by simp
qed

lemma transition_guards_Inr:
  assumes "transition_guards w a i = Inr (nxt, details)"
  shows "next_status (wf_status_of w) a (wf_retry_status w) = Some nxt"
    "a = ActContinueExecution \<Longrightarrow> 1 \<le> ti_additional_executor_turns i \<and> ti_additional_executor_turns i \<le> 64
       \<and> max_executor_turns (wf_limits w) + ti_additional_executor_turns i \<le> 128"
    "a = ActQueueRevision \<Longrightarrow> wf_revision_count w < max_revisions (wf_limits w)"
    "a = ActFail \<Longrightarrow> trim_space (ti_failure_message i) \<noteq> []"
  using assms
  by (auto simp: transition_guards_def check_continue_def split: option.splits if_splits)

lemma wf_create_cases:
  assumes "wf_create e raw db = Inr (db', w)"
  obtains p v r branch evs where
    "resolve_inputs db (normalize_create raw) = Some (p, v, r)" "pl_status p = ''READY'' \<or> pl_status p = ''APPROVED''"
    "validate_limits (ci_limits (normalize_create raw)) = Inr ()" "validate_base_branch branch = Inr ()"
    "w = new_workflow e (normalize_create raw) v branch (rp_head_sha r)"
    "we_new_id e \<notin> wf_id ` set (db_workflows db)"
    "\<forall>x\<in>set (db_workflows db). \<not> is_active (wf_plan_version_id w) (wf_repository_id w) x"
    "db' = db\<lparr> db_workflows := db_workflows db @
        [w\<lparr> wf_created_at := stored_at (we_now e), wf_updated_at := stored_at (we_now e) \<rparr>],
      db_transitions := db_transitions db @ [\<lparr> tr_sequence = next_sequence db, tr_workflow_job_id = wf_id w,
        tr_from_status = None, tr_action = ActCreate, tr_to_status = StReady, tr_workflow_version = 1,
        tr_dispatch_job_id = [], tr_details = JObj [], tr_created_at = stored_at (we_now e) \<rparr>],
      db_events := evs \<rparr>"
proof -
  let ?i = "normalize_create raw"
  obtain p v r where r: "resolve_inputs db ?i = Some (p, v, r)"
    using assms by (cases "resolve_inputs db ?i")
      (auto simp: wf_create_def Let_def rbind_eq_Inr split: if_splits prod.splits)
  define branch where "branch = (if ci_base_branch ?i = [] then rp_current_branch r else ci_base_branch ?i)"
  define w0 where "w0 = new_workflow e ?i v branch (rp_head_sha r)"
  obtain db1 db2 where s: "pl_status p = ''READY'' \<or> pl_status p = ''APPROVED''"
    "validate_limits (ci_limits ?i) = Inr ()" "validate_base_branch branch = Inr ()"
    "insert_workflow w0 db = Inr db1"
    "insert_transition (wf_id w0) None ActCreate StReady 1 [] (JObj []) (we_now e) db1 = Inr db2"
    "db' = record_event e (wf_id w0) ''workflow.created'' (created_payload w0) db2" "w = w0"
    using assms r
    by (auto simp: wf_create_def Let_def rbind_eq_Inr branch_def [symmetric] w0_def [symmetric]
        split: if_splits option.splits)
  have i: "we_new_id e \<notin> wf_id ` set (db_workflows db)"
    "\<forall>x\<in>set (db_workflows db). \<not> is_active (wf_plan_version_id w0) (wf_repository_id w0) x"
    "db1 = db\<lparr> db_workflows := db_workflows db @
        [w0\<lparr> wf_created_at := stored_at (we_now e), wf_updated_at := stored_at (we_now e) \<rparr>] \<rparr>"
    using s(4) by (auto simp: insert_workflow_def w0_def new_workflow_def split: if_splits)
  have t: "db2 = db1\<lparr> db_transitions := db_transitions db1 @ [\<lparr> tr_sequence = next_sequence db, tr_workflow_job_id = wf_id w0,
        tr_from_status = None, tr_action = ActCreate, tr_to_status = StReady, tr_workflow_version = 1,
        tr_dispatch_job_id = [], tr_details = JObj [], tr_created_at = stored_at (we_now e) \<rparr>] \<rparr>"
    using s(5) i(3) by (auto simp: insert_transition_def nullable_string_def split: if_splits)
  have "\<exists>evs. db' = db2\<lparr> db_events := evs \<rparr>"
    using s(6) by (auto simp: record_event_def intro: exI [of _ "db_events db2"])
  then obtain evs where "db' = db2\<lparr> db_events := evs \<rparr>" by blast
  then show thesis
    using that [OF r s(1-3), of evs] i t s(7) w0_def by simp
qed

subsection \<open>Well-formed databases\<close>

definition wf_row_ok :: "wf_job \<Rightarrow> bool" where
  "wf_row_ok w = (trim_space (wf_id w) = wf_id w \<and> wf_id w \<noteq> [] \<and> 1 \<le> wf_version w
     \<and> validate_limits (wf_limits w) = Inr ()
     \<and> 0 \<le> wf_revision_count w \<and> wf_revision_count w \<le> max_revisions (wf_limits w)
     \<and> 0 \<le> wf_execution_version w
     \<and> (wf_status_of w = StFailed \<longrightarrow> (\<exists>r\<in>failure_statuses. wf_retry_status w = Some r))
     \<and> (wf_status_of w \<noteq> StFailed \<and> wf_status_of w \<noteq> StCancelled \<longrightarrow>
          wf_retry_status w = None \<and> wf_failure_code w = [] \<and> wf_failure_message w = [])
     \<and> (wf_completed_at w \<noteq> None \<longleftrightarrow> is_terminal (wf_status_of w))
     \<and> (wf_cancellation_requested w \<longleftrightarrow> wf_status_of w = StCancelled))"

text \<open>The dispatch of an active stage: a queue row of the stage's type that names the workflow and the
  version at which the stage was entered (EXECUTING keeps the dispatch of QUEUED).\<close>

definition dispatch_row_for :: "wf_job \<Rightarrow> json_text job_row \<Rightarrow> bool" where
  "dispatch_row_for w r = (jr_id r = wf_current_dispatch_id w \<and> trim_space (jr_id r) \<noteq> []
     \<and> Some (jr_type r) = dispatch_for_retry (wf_status_of w)
     \<and> (\<exists>v a s. jr_payload r = Some (dispatch_payload (wf_id w) v a s)
          \<and> (v = wf_version w \<or> wf_status_of w = StExecuting \<and> v = wf_version w - 1)))"

definition dispatch_ok :: "json_text jobs_table \<Rightarrow> wf_job \<Rightarrow> bool" where
  "dispatch_ok q w =
     (if wf_status_of w \<in> failure_statuses then \<exists>r\<in>set q. dispatch_row_for w r
      else wf_current_dispatch_id w = [])"

definition log_of :: "transition_row list \<Rightarrow> string \<Rightarrow> transition_row list" where
  "log_of ts i = filter (\<lambda>t. tr_workflow_job_id t = i) ts"

fun chain_from :: "wf_status option \<Rightarrow> int \<Rightarrow> transition_row list \<Rightarrow> bool" where
  "chain_from s n [] = True"
| "chain_from s n (t # ts) =
     (tr_from_status t = s \<and> tr_workflow_version t = n + 1 \<and> chain_from (Some (tr_to_status t)) (n + 1) ts)"

definition log_ok :: "transition_row list \<Rightarrow> wf_job \<Rightarrow> bool" where
  "log_ok l w = (l \<noteq> [] \<and> chain_from None 0 l \<and> int (length l) = wf_version w
     \<and> tr_to_status (last l) = wf_status_of w)"

text \<open>Since its last approval the workflow has only been published, completed or failed.\<close>

definition approved_since :: "transition_row list \<Rightarrow> bool" where
  "approved_since l =
     (case dropWhile (\<lambda>t. tr_to_status t \<in> {StPublishing, StCompleted, StFailed}) (rev l) of
        [] \<Rightarrow> False
      | t # _ \<Rightarrow> tr_action t = ActApprove \<and> tr_from_status t = Some StWaitingApproval)"

definition needs_approval :: "wf_job \<Rightarrow> bool" where
  "needs_approval w = (wf_status_of w \<in> {StApproved, StPublishing, StCompleted}
     \<or> (wf_status_of w = StFailed \<and> wf_retry_status w = Some StPublishing))"

definition wf_db_ok :: "wf_db \<Rightarrow> bool" where
  "wf_db_ok db =
     (unique_key wf_id (db_workflows db) \<and> queue_ok (db_jobs db)
      \<and> (\<forall>w\<in>set (db_workflows db). wf_row_ok w \<and> dispatch_ok (db_jobs db) w
           \<and> log_ok (log_of (db_transitions db) (wf_id w)) w
           \<and> (needs_approval w \<longrightarrow> approved_since (log_of (db_transitions db) (wf_id w))))
      \<and> (\<forall>w\<in>set (db_workflows db). \<forall>v\<in>set (db_workflows db).
           is_active (wf_plan_version_id w) (wf_repository_id w) v \<and> \<not> is_terminal (wf_status_of w) \<longrightarrow> w = v)
      \<and> tr_workflow_job_id ` set (db_transitions db) \<subseteq> wf_id ` set (db_workflows db)
      \<and> sorted_wrt (<) (map tr_sequence (db_transitions db)))"

definition new_id_ok :: "wf_env \<Rightarrow> bool" where
  "new_id_ok e = (we_new_id e \<noteq> [] \<and> trim_space (we_new_id e) = we_new_id e)"

lemma chain_from_snoc:
  "chain_from s n (l @ [t]) \<longleftrightarrow> chain_from s n l \<and> tr_workflow_version t = n + int (length l) + 1
     \<and> tr_from_status t = (if l = [] then s else Some (tr_to_status (last l)))"
  by (induction l arbitrary: s n) (auto simp: algebra_simps)

lemma log_of_snoc:
  "log_of (ts @ [t]) i = log_of ts i @ (if tr_workflow_job_id t = i then [t] else [])"
  by (simp add: log_of_def)

lemma approved_since_snoc:
  "approved_since (l @ [t]) =
     (if tr_to_status t \<in> {StPublishing, StCompleted, StFailed} then approved_since l
      else tr_action t = ActApprove \<and> tr_from_status t = Some StWaitingApproval)"
  by (simp add: approved_since_def)

lemma foldl_max_ge: "\<forall>t\<in>set ts. tr_sequence t \<le> foldl (\<lambda>m t. max m (tr_sequence t)) k ts"
  and foldl_max_base: "k \<le> foldl (\<lambda>m t. max m (tr_sequence t)) k ts"
proof -
  have "k \<le> foldl (\<lambda>m t. max m (tr_sequence t)) k ts \<and> (\<forall>t\<in>set ts. tr_sequence t \<le> foldl (\<lambda>m t. max m (tr_sequence t)) k ts)"
    by (induction ts arbitrary: k) (auto, meson max.bounded_iff, meson max.bounded_iff)
  then show "\<forall>t\<in>set ts. tr_sequence t \<le> foldl (\<lambda>m t. max m (tr_sequence t)) k ts"
    "k \<le> foldl (\<lambda>m t. max m (tr_sequence t)) k ts" by blast+
qed

lemma next_sequence_sorted:
  assumes "sorted_wrt (<) (map tr_sequence (db_transitions db))" "tr_sequence t = next_sequence db"
  shows "sorted_wrt (<) (map tr_sequence (db_transitions db @ [t]))"
  using assms foldl_max_ge [of "db_transitions db" 0]
  by (auto simp: sorted_wrt_append next_sequence_def)

subsection \<open>A transition keeps the invariant\<close>

lemma apply_transition_simps [simp]:
  "wf_id (apply_transition e a i n d w) = wf_id w"
  "wf_plan_version_id (apply_transition e a i n d w) = wf_plan_version_id w"
  "wf_repository_id (apply_transition e a i n d w) = wf_repository_id w"
  "wf_status_of (apply_transition e a i n d w) = n"
  "wf_version (apply_transition e a i n d w) = wf_version w + 1"
  "wf_current_dispatch_id (apply_transition e a i n d w) = nullable_string d"
  "wf_retry_status (apply_transition e a i n d w) = fst (failure_after w a i)"
  "wf_failure_code (apply_transition e a i n d w) = nullable_string (fst (snd (failure_after w a i)))"
  "wf_failure_message (apply_transition e a i n d w) = nullable_string (snd (snd (failure_after w a i)))"
  "wf_execution_version (apply_transition e a i n d w) = wf_execution_version w + (if a = ActExecutionStarted then 1 else 0)"
  "wf_revision_count (apply_transition e a i n d w) = (if a = ActRestart then 0
     else if a = ActQueueRevision then wf_revision_count w + 1 else wf_revision_count w)"
  "wf_limits (apply_transition e a i n d w) = (wf_limits w)\<lparr> max_executor_turns := max_executor_turns (wf_limits w)
     + (if a = ActContinueExecution then ti_additional_executor_turns i else 0) \<rparr>"
  "wf_cancellation_requested (apply_transition e a i n d w) = (if a = ActRestart then False
     else if a = ActCancel then True else wf_cancellation_requested w)"
  "wf_completed_at (apply_transition e a i n d w) = (if is_terminal n then Some (stored_at (we_now e)) else None)"
  by (simp_all add: apply_transition_def split_beta)

lemma validate_limits_turns:
  assumes "validate_limits l = Inr ()" "0 \<le> k" "max_executor_turns l + k \<le> 128"
  shows "validate_limits (l\<lparr> max_executor_turns := max_executor_turns l + k \<rparr>) = Inr ()"
  using assms by (simp add: validate_limits_def split: if_splits)

lemma next_status_clean:
  assumes "next_status s a r = Some n" "n \<noteq> StFailed" "n \<noteq> StCancelled"
  shows "a \<noteq> ActFail \<and> a \<noteq> ActCancel \<and> (s = StFailed \<longrightarrow> a = ActRetry \<or> a = ActRestart \<or> a = ActContinueExecution)
    \<and> s \<noteq> StCancelled"
  using assms(1)
proof (cases rule: next_status_cases)
  case table
  from transition_table_cases [OF this(2)] table(1) show ?thesis by auto
qed (use assms(2,3) in \<open>auto simp: failure_statuses_def\<close>)

lemma nullable_string_Nil [simp]: "nullable_string [] = []"
  by (simp add: nullable_string_def)

lemma wf_row_ok_transition:
  assumes "wf_row_ok w" "transition_guards w a i = Inr (n, details)"
  shows "wf_row_ok (apply_transition e a i n d w)"
proof -
  note g = transition_guards_Inr [OF assms(2)]
  note t = next_status_target [OF g(1)]
  have live: "\<not> is_terminal (wf_status_of w)" using g(1) next_status_terminal by force
  have lim: "validate_limits (wf_limits w) = Inr ()" using assms(1) by (simp add: wf_row_ok_def)
  have "validate_limits (wf_limits (apply_transition e a i n d w)) = Inr ()"
    using lim g(2) by (auto intro!: validate_limits_turns simp: validate_limits_def split: if_splits)
  moreover have "n = StFailed \<longrightarrow> (\<exists>r\<in>failure_statuses. fst (failure_after w a i) = Some r)"
    using t by (auto simp: failure_after_def)
  moreover have "n \<noteq> StFailed \<and> n \<noteq> StCancelled \<longrightarrow> failure_after w a i = (None, [], [])"
    using next_status_clean [OF g(1)] assms(1) by (auto simp: failure_after_def wf_row_ok_def)
  moreover have "(if a = ActRestart then False else if a = ActCancel then True else wf_cancellation_requested w)
      \<longleftrightarrow> n = StCancelled"
    using t g(1) live assms(1) by (auto simp: wf_row_ok_def is_terminal_def next_status_def split: if_splits)
  moreover have "max_revisions (wf_limits w) \<ge> 0" using lim by (simp add: validate_limits_def split: if_splits)
  ultimately show ?thesis
    using assms(1) g(3) by (auto simp: wf_row_ok_def)
qed

lemma log_ok_transition:
  assumes "log_ok (log_of ts (wf_id w)) w"
  shows "log_ok (log_of (ts @ [logged e w a n d' details sq]) (wf_id w)) (apply_transition e a i n d w)"
  using assms by (auto simp: log_ok_def log_of_snoc chain_from_snoc logged_def)

lemma approved_transition:
  assumes "next_status (wf_status_of w) a (wf_retry_status w) = Some n"
    and "needs_approval w \<longrightarrow> approved_since (log_of ts (wf_id w))"
    and "needs_approval (apply_transition e a i n d w)"
  shows "approved_since (log_of (ts @ [logged e w a n d' details sq]) (wf_id w))"
proof -
  note t = next_status_target [OF assms(1)]
  show ?thesis
  proof (cases "n = StApproved")
    case True
    then show ?thesis using t by (simp add: log_of_snoc logged_def approved_since_snoc)
  next
    case False
    then have "n \<in> {StPublishing, StCompleted, StFailed}"
      using assms(3) by (auto simp: needs_approval_def)
    moreover have "needs_approval w"
      using t assms(3) False by (auto simp: needs_approval_def failure_after_def)
    ultimately show ?thesis
      using assms(2) by (simp add: log_of_snoc logged_def approved_since_snoc)
  qed
qed

lemma dispatch_type_next:
  assumes "next_status s a r = Some n"
  shows "if n \<in> failure_statuses then a = ActExecutionStarted \<and> s = StQueued \<and> n = StExecuting \<and> dispatch_type a n = None
      \<or> a \<noteq> ActExecutionStarted \<and> dispatch_type a n = dispatch_for_retry n \<and> dispatch_type a n \<noteq> None
    else dispatch_type a n = None \<and> a \<noteq> ActExecutionStarted"
  using assms
proof (cases rule: next_status_cases)
  case table
  from transition_table_cases [OF this(2)] show ?thesis
    by (auto simp: dispatch_type_def dispatch_for_def dispatch_for_retry_def failure_statuses_def)
qed (auto simp: dispatch_type_def dispatch_for_def dispatch_for_retry_def failure_statuses_def)

lemma dispatch_ok_transition:
  assumes "dispatch_ok q w" "enqueued_dispatch e w a n q q' d" "new_id_ok e"
    and "next_status (wf_status_of w) a (wf_retry_status w) = Some n"
  shows "dispatch_ok q' (apply_transition e a i n (dispatch_after w a d) w)"
proof (cases "n \<in> failure_statuses")
  case False
  then have "dispatch_type a n = None" "a \<noteq> ActExecutionStarted"
    using dispatch_type_next [OF assms(4)] by auto
  then show ?thesis
    using False assms(2) by (simp add: dispatch_ok_def enqueued_dispatch_def dispatch_after_def)
next
  case True
  from dispatch_type_next [OF assms(4)] True
  consider (started) "a = ActExecutionStarted" "wf_status_of w = StQueued" "n = StExecuting" "dispatch_type a n = None"
    | (new) t where "a \<noteq> ActExecutionStarted" "dispatch_type a n = Some t" "dispatch_for_retry n = Some t"
    by fastforce
  then show ?thesis
  proof cases
    case started
    then have q: "q' = q" "d = []" using assms(2) by (simp_all add: enqueued_dispatch_def)
    from assms(1) started(2) obtain r v b s where "r \<in> set q" "jr_id r = wf_current_dispatch_id w"
      "trim_space (jr_id r) \<noteq> []" "jr_type r = ''workflow.execute''"
      "jr_payload r = Some (dispatch_payload (wf_id w) v b s)" "v = wf_version w"
      by (auto simp: dispatch_ok_def dispatch_row_for_def failure_statuses_def dispatch_for_retry_def)
    then show ?thesis
      using started q by (auto simp: dispatch_ok_def dispatch_row_for_def failure_statuses_def dispatch_for_retry_def
          dispatch_after_def nullable_string_def intro!: bexI [of _ r])
  next
    case new
    then obtain r where "r \<in> set q'" "jr_id r = we_new_id e" "d = we_new_id e" "jr_type r = t"
      "jr_payload r = Some (dispatch_payload (wf_id w) (wf_version w + 1) a n)"
      using assms(2) unfolding enqueued_dispatch_def by (simp, elim conjE exE) (metis in_set_conv_decomp)
    then show ?thesis
      using new True assms(3) by (auto simp: dispatch_ok_def dispatch_row_for_def dispatch_after_def nullable_string_def new_id_ok_def
          intro!: bexI [of _ r])
  qed
qed

lemma dispatch_ok_mono:
  assumes "dispatch_ok q w"
    and "\<And>r. r \<in> set q \<Longrightarrow> \<exists>r'\<in>set q'. jr_id r' = jr_id r \<and> jr_type r' = jr_type r \<and> jr_payload r' = jr_payload r"
  shows "dispatch_ok q' w"
proof (cases "wf_status_of w \<in> failure_statuses")
  case True
  then obtain r where r: "r \<in> set q" "dispatch_row_for w r"
    using assms(1) by (auto simp: dispatch_ok_def)
  from assms(2) [OF r(1)] obtain r' where r': "r' \<in> set q'" "jr_id r' = jr_id r" "jr_type r' = jr_type r"
    "jr_payload r' = jr_payload r" by blast
  then have "dispatch_row_for w r'" using r(2) unfolding dispatch_row_for_def by auto
  then show ?thesis using True r'(1) by (auto simp: dispatch_ok_def)
qed (use assms(1) in \<open>simp add: dispatch_ok_def\<close>)

lemma enqueued_dispatch_queue:
  assumes "enqueued_dispatch e w a n q q' d" "queue_ok q"
  shows "queue_ok q'" "set q \<subseteq> set q'"
  using assms by (auto simp: enqueued_dispatch_def queue_ok_def split: option.splits)

lemma queue_step_keeps_jobs:
  assumes "queue_step q ev q'" "r \<in> set q"
  shows "\<exists>r'\<in>set q'. jr_id r' = jr_id r \<and> jr_type r' = jr_type r \<and> jr_payload r' = jr_payload r"
proof -
  have u: "\<exists>r'\<in>set (update_where P f q). jr_id r' = jr_id r \<and> jr_type r' = jr_type r \<and> jr_payload r' = jr_payload r"
    if "\<And>x. jr_id (f x) = jr_id x \<and> jr_type (f x) = jr_type x \<and> jr_payload (f x) = jr_payload x" for P f
    using that assms(2) by (cases "P r") (force simp: set_update_where)+
  from assms(1) show ?thesis
    by (cases rule: queue_step_shape) (use assms(2) u in \<open>auto simp: lock_row_def fail_row_def requeue_row_def\<close>)
qed

lemma wf_db_ok_transition:
  assumes "wf_db_ok db" "wf_transition e raw_id i db = Inr (db', w')" "new_id_ok e"
  shows "wf_db_ok db'"
proof -
  let ?a = "action_of i"
  obtain w n details q d evs where c:
    "lookup_by wf_id (trim_space raw_id) (db_workflows db) = Some w"
    "transition_guards w ?a i = Inr (n, details)"
    "enqueued_dispatch e w ?a n (db_jobs db) q d"
    "db' = db\<lparr> db_jobs := q,
       db_workflows := update_where (\<lambda>v. wf_id v = wf_id w \<and> wf_version v = wf_version w)
         (apply_transition e ?a i n (dispatch_after w ?a d)) (db_workflows db),
       db_transitions := db_transitions db @
         [logged e w ?a n (dispatch_after w ?a d) details (next_sequence db)],
       db_events := evs \<rparr>"
    using assms(2) by (elim wf_transition_cases)
  let ?f = "apply_transition e ?a i n (dispatch_after w ?a d)"
  let ?t = "logged e w ?a n (dispatch_after w ?a d) details (next_sequence db)"
  have w: "w \<in> set (db_workflows db)" using lookup_by_Some [OF c(1)] by blast
  have next_s: "next_status (wf_status_of w) ?a (wf_retry_status w) = Some n"
    using transition_guards_Inr(1) [OF c(2)] .
  have same: "v = w" if "v \<in> set (db_workflows db)" "wf_id v = wf_id w" for v
    using assms(1) that w unique_keyD unfolding wf_db_ok_def by metis
  then have upd: "db_workflows db' = update_where (\<lambda>v. v = w) ?f (db_workflows db)"
    using c(4) by (auto simp: update_where_def)
  have q: "queue_ok q" "set (db_jobs db) \<subseteq> set q"
    using enqueued_dispatch_queue [OF c(3)] assms(1) by (auto simp: wf_db_ok_def)
  have rows: "wf_row_ok v \<and> dispatch_ok q v \<and> log_ok (log_of (db_transitions db @ [?t]) (wf_id v)) v
      \<and> (needs_approval v \<longrightarrow> approved_since (log_of (db_transitions db @ [?t]) (wf_id v)))"
    if "v \<in> set (db_workflows db')" for v
    using that unfolding upd
  proof (cases rule: in_update_whereE)
    case (changed x)
    then have ok: "wf_row_ok w" "dispatch_ok (db_jobs db) w" "log_ok (log_of (db_transitions db) (wf_id w)) w"
      "needs_approval w \<longrightarrow> approved_since (log_of (db_transitions db) (wf_id w))"
      using assms(1) w by (auto simp: wf_db_ok_def)
    show ?thesis
      using changed wf_row_ok_transition [OF ok(1) c(2)] dispatch_ok_transition [OF ok(2) c(3) assms(3) next_s]
        log_ok_transition [OF ok(3)] approved_transition [OF next_s ok(4)]
      by auto
  next
    case kept
    then have ne: "wf_id v \<noteq> wf_id w" using same by blast
    have "wf_row_ok v" "dispatch_ok (db_jobs db) v" "log_ok (log_of (db_transitions db) (wf_id v)) v"
      "needs_approval v \<longrightarrow> approved_since (log_of (db_transitions db) (wf_id v))"
      using assms(1) kept by (auto simp: wf_db_ok_def)
    moreover have "dispatch_ok q v"
      using calculation(2) q(2) by (elim dispatch_ok_mono) blast
    ultimately show ?thesis using ne by (simp add: log_of_snoc logged_def)
  qed
  have live: "\<not> is_terminal (wf_status_of w)" using next_s next_status_terminal by force
  have active: "x = v" if "x \<in> set (db_workflows db')" "v \<in> set (db_workflows db')"
    "is_active (wf_plan_version_id x) (wf_repository_id x) v" "\<not> is_terminal (wf_status_of x)" for x v
  proof -
    note a = that
    define g where "g = (\<lambda>v. if v = w then ?f v else v)"
    obtain x0 v0 where o: "x0 \<in> set (db_workflows db)" "v0 \<in> set (db_workflows db)" "x = g x0" "v = g v0"
      using a(1,2) unfolding upd set_update_where_image g_def by (elim imageE) blast
    have "is_active (wf_plan_version_id x0) (wf_repository_id x0) v0" "\<not> is_terminal (wf_status_of x0)"
      using a(3,4) live unfolding o(3,4) g_def is_active_def by (auto split: if_splits)
    then have "x0 = v0" using assms(1) o(1,2) unfolding wf_db_ok_def by blast
    then show ?thesis using o by simp
  qed
  have "unique_key wf_id (db_workflows db')"
    using assms(1) unfolding upd wf_db_ok_def by (simp add: unique_key_update_where)
  moreover have ids: "wf_id ` set (db_workflows db') = wf_id ` set (db_workflows db)"
    unfolding upd by (rule image_update_where) simp
  moreover have "sorted_wrt (<) (map tr_sequence (db_transitions db @ [?t]))"
    using assms(1) by (intro next_sequence_sorted) (auto simp: wf_db_ok_def logged_def)
  moreover have "tr_workflow_job_id ` set (db_transitions db @ [?t]) \<subseteq> wf_id ` set (db_workflows db')"
    using assms(1) w unfolding ids by (auto simp: wf_db_ok_def logged_def)
  moreover have "db_transitions db' = db_transitions db @ [?t]" "db_jobs db' = q" using c(4) by simp_all
  ultimately show ?thesis
    using q(1) rows active unfolding wf_db_ok_def by (metis (no_types, lifting))
qed

subsection \<open>Creation, the queue, and reachable databases\<close>

lemma wf_db_ok_create:
  assumes "wf_db_ok db" "wf_create e raw db = Inr (db', w0)" "new_id_ok e"
  shows "wf_db_ok db'"
proof -
  obtain p :: plan_row and v and r :: repository_row and branch evs where c:
    "validate_limits (ci_limits (normalize_create raw)) = Inr ()"
    "w0 = new_workflow e (normalize_create raw) v branch (rp_head_sha r)"
    "we_new_id e \<notin> wf_id ` set (db_workflows db)"
    "\<forall>x\<in>set (db_workflows db). \<not> is_active (wf_plan_version_id w0) (wf_repository_id w0) x"
    "db' = db\<lparr> db_workflows := db_workflows db @
        [w0\<lparr> wf_created_at := stored_at (we_now e), wf_updated_at := stored_at (we_now e) \<rparr>],
      db_transitions := db_transitions db @ [\<lparr> tr_sequence = next_sequence db, tr_workflow_job_id = wf_id w0,
        tr_from_status = None, tr_action = ActCreate, tr_to_status = StReady, tr_workflow_version = 1,
        tr_dispatch_job_id = [], tr_details = JObj [], tr_created_at = stored_at (we_now e) \<rparr>],
      db_events := evs \<rparr>"
    using assms(2) by (elim wf_create_cases)
  define w where "w = w0\<lparr> wf_created_at := stored_at (we_now e), wf_updated_at := stored_at (we_now e) \<rparr>"
  define t where "t = \<lparr> tr_sequence = next_sequence db, tr_workflow_job_id = wf_id w0,
        tr_from_status = None, tr_action = ActCreate, tr_to_status = StReady, tr_workflow_version = 1,
        tr_dispatch_job_id = [], tr_details = JObj [], tr_created_at = stored_at (we_now e) \<rparr>"
  have w: "wf_id w = we_new_id e" "wf_status_of w = StReady" "wf_version w = 1" "wf_row_ok w"
    "wf_current_dispatch_id w = []" "wf_plan_version_id w = wf_plan_version_id w0"
    "wf_repository_id w = wf_repository_id w0" "wf_id w0 = we_new_id e"
    using c(1) assms(3)
    by (auto simp: w_def c(2) new_workflow_def wf_row_ok_def is_terminal_def new_id_ok_def validate_limits_def
        split: if_splits)
  have old: "log_of (db_transitions db) (we_new_id e) = []"
  proof -
    have "tr_workflow_job_id ` set (db_transitions db) \<subseteq> wf_id ` set (db_workflows db)"
      using assms(1) by (simp add: wf_db_ok_def)
    then have "we_new_id e \<notin> tr_workflow_job_id ` set (db_transitions db)" using c(3) by blast
    then have "\<forall>t\<in>set (db_transitions db). tr_workflow_job_id t \<noteq> we_new_id e" by (metis imageI)
    then show ?thesis by (simp add: log_of_def filter_empty_conv)
  qed
  have db': "db_workflows db' = db_workflows db @ [w]" "db_transitions db' = db_transitions db @ [t]"
    "db_jobs db' = db_jobs db"
    using c(5) by (simp_all add: w_def t_def)
  have rows: "wf_row_ok x \<and> dispatch_ok (db_jobs db) x \<and> log_ok (log_of (db_transitions db @ [t]) (wf_id x)) x
      \<and> (needs_approval x \<longrightarrow> approved_since (log_of (db_transitions db @ [t]) (wf_id x)))"
    if "x \<in> set (db_workflows db')" for x
  proof (cases "x = w")
    case True
    then show ?thesis using w old
      by (simp add: dispatch_ok_def failure_statuses_def log_ok_def log_of_snoc t_def needs_approval_def)
  next
    case False
    then have x: "x \<in> set (db_workflows db)" using that db'(1) by simp
    then have "wf_id x \<noteq> wf_id w0" using c(3) w(8) by (metis imageI)
    then show ?thesis using assms(1) x by (auto simp: wf_db_ok_def log_of_snoc t_def)
  qed
  have "x = y" if "x \<in> set (db_workflows db')" "y \<in> set (db_workflows db')"
    "is_active (wf_plan_version_id x) (wf_repository_id x) y" "\<not> is_terminal (wf_status_of x)" for x y
  proof -
    note a = that
    have c': "is_active (wf_plan_version_id y) (wf_repository_id y) x"
      using a(3,4) by (simp add: is_active_def)
    consider "x = w" "y = w" | "x = w" "y \<in> set (db_workflows db)" | "x \<in> set (db_workflows db)" "y = w"
      | "x \<in> set (db_workflows db)" "y \<in> set (db_workflows db)"
      using a(1,2) db'(1) by auto
    then show ?thesis
    proof cases
      case 2
      then show ?thesis using c(4) a(3) w(6,7) by auto
    next
      case 3
      then show ?thesis using c(4) c' w(6,7) by auto
    next
      case 4
      then show ?thesis using assms(1) a(3,4) unfolding wf_db_ok_def by blast
    qed simp
  qed
  moreover have "sorted_wrt (<) (map tr_sequence (db_transitions db @ [t]))"
    using assms(1) by (intro next_sequence_sorted) (auto simp: wf_db_ok_def t_def)
  moreover have "unique_key wf_id (db_workflows db')"
    using assms(1) c(3) w(1) db'(1) by (simp add: wf_db_ok_def)
  moreover have "tr_workflow_job_id ` set (db_transitions db @ [t]) \<subseteq> wf_id ` set (db_workflows db')"
    using assms(1) w(1,8) db'(1) by (auto simp: wf_db_ok_def t_def)
  moreover have "queue_ok (db_jobs db)" using assms(1) by (simp add: wf_db_ok_def)
  ultimately show ?thesis
    using rows db' unfolding wf_db_ok_def by (metis (no_types, lifting))
qed

lemma wf_db_ok_queue:
  assumes "wf_db_ok db" "queue_step (db_jobs db) ev q"
  shows "wf_db_ok (db\<lparr> db_jobs := q \<rparr>)"
proof -
  have "queue_ok q" using assms queue_step_ok by (auto simp: wf_db_ok_def)
  moreover have "dispatch_ok q w" if "dispatch_ok (db_jobs db) w" for w
    using that by (rule dispatch_ok_mono) (rule queue_step_keeps_jobs [OF assms(2)])
  ultimately show ?thesis using assms(1) by (simp add: wf_db_ok_def)
qed

text \<open>Everything that changes these tables: the repository, the queue, and the planning side, which
  owns the tables the repository only reads.\<close>

inductive wf_step :: "wf_db \<Rightarrow> wf_db \<Rightarrow> bool" where
  step_create: "wf_create e raw db = Inr (db', w) \<Longrightarrow> new_id_ok e \<Longrightarrow> wf_step db db'"
| step_transition: "wf_transition e i inp db = Inr (db', w) \<Longrightarrow> new_id_ok e \<Longrightarrow> wf_step db db'"
| step_queue: "queue_step (db_jobs db) ev q \<Longrightarrow> wf_step db (db\<lparr> db_jobs := q \<rparr>)"
| step_planning: "wf_step db (db\<lparr> db_projects := ps, db_plans := pls, db_plan_versions := pvs,
    db_repositories := rs \<rparr>)"

inductive wf_reachable :: "wf_db \<Rightarrow> bool" where
  reach_init: "db_workflows db = [] \<Longrightarrow> db_transitions db = [] \<Longrightarrow> db_jobs db = [] \<Longrightarrow> wf_reachable db"
| reach_step: "wf_reachable db \<Longrightarrow> wf_step db db' \<Longrightarrow> wf_reachable db'"

inductive_cases wf_stepE: "wf_step db db'"

lemma wf_step_ok: "wf_step db db' \<Longrightarrow> wf_db_ok db \<Longrightarrow> wf_db_ok db'"
  by (erule wf_stepE)
    (auto intro: wf_db_ok_create wf_db_ok_transition wf_db_ok_queue, auto simp: wf_db_ok_def)

lemma wf_reachable_ok: "wf_reachable db \<Longrightarrow> wf_db_ok db"
proof (induction rule: wf_reachable.induct)
  case (reach_init db)
  then show ?case by (simp add: wf_db_ok_def unique_key_def)
qed (rule wf_step_ok)

lemma log_sorted:
  assumes "wf_db_ok db"
  shows "sort_key tr_sequence (log_of (db_transitions db) i) = log_of (db_transitions db) i"
proof (rule sort_key_id_if_sorted)
  have "sorted_wrt (<) (map tr_sequence (log_of (db_transitions db) i))"
    using assms unfolding wf_db_ok_def log_of_def
    by (simp add: sorted_wrt_map sorted_wrt_filter)
  then show "sorted (map tr_sequence (log_of (db_transitions db) i))"
    by (simp add: strict_sorted_imp_sorted)
qed

lemma list_transitions_log:
  assumes "wf_db_ok db" "w \<in> set (db_workflows db)"
  shows "list_transitions db (wf_id w) = Inr (log_of (db_transitions db) (wf_id w))"
proof -
  have "lookup_by wf_id (wf_id w) (db_workflows db) = Some w" "trim_space (wf_id w) = wf_id w"
    using assms by (auto simp: wf_db_ok_def wf_row_ok_def lookup_by_unique)
  then show ?thesis
    using log_sorted [OF assms(1)]
    by (simp add: list_transitions_def wf_get_def load_job_def log_of_def)
qed

subsection \<open>Properties\<close>

text \<open>C1: Nothing is published without approval. In every reachable database, the history of a workflow
  that is APPROVED, PUBLISHING or COMPLETED contains a decision APPROVE taken in WAITING_FOR_APPROVAL,
  after which it was only published, retried or failed: no execution, check or review followed it.\<close>
theorem published_only_after_approval:
  assumes "wf_reachable db" and "w \<in> set (db_workflows db)"
    and "wf_status_of w \<in> {StApproved, StPublishing, StCompleted}"
  shows "\<exists>pre t post. list_transitions db (wf_id w) = Inr (pre @ t # post)
    \<and> tr_action t = ActApprove \<and> tr_from_status t = Some StWaitingApproval
    \<and> (\<forall>u\<in>set post. tr_to_status u \<in> {StPublishing, StCompleted, StFailed})"
proof -
  let ?l = "log_of (db_transitions db) (wf_id w)" and ?P = "\<lambda>t. tr_to_status t \<in> {StPublishing, StCompleted, StFailed}"
  have ok: "wf_db_ok db" using assms(1) by (rule wf_reachable_ok)
  then have "approved_since ?l" using assms(2,3) by (auto simp: wf_db_ok_def needs_approval_def)
  then obtain t rest where d: "dropWhile ?P (rev ?l) = t # rest"
    "tr_action t = ActApprove" "tr_from_status t = Some StWaitingApproval"
    by (auto simp: approved_since_def split: list.splits)
  have "rev ?l = takeWhile ?P (rev ?l) @ t # rest" unfolding d(1) [symmetric]
    by (rule takeWhile_dropWhile_id [symmetric])
  then have "?l = rev rest @ t # rev (takeWhile ?P (rev ?l))"
    by (metis append.assoc append_Cons append_Nil rev.simps(2) rev_append rev_rev_ident)
  moreover have "\<forall>u\<in>set (rev (takeWhile ?P (rev ?l))). ?P u" using set_takeWhileD by fastforce
  ultimately show ?thesis
    using list_transitions_log [OF ok assms(2)] d(2,3) by metis
qed

text \<open>C9: State and queue never disagree. In every reachable database, whatever the scheduler has done
  to the jobs meanwhile, a workflow in an active stage points to an existing queue row of that stage's
  type whose payload names this workflow and the version at which the stage was entered; a workflow in
  any other status points to no dispatch.\<close>
theorem active_stage_has_dispatch:
  assumes "wf_reachable db" and "w \<in> set (db_workflows db)"
  shows "if wf_status_of w \<in> failure_statuses
    then \<exists>r\<in>set (db_jobs db). jr_id r = wf_current_dispatch_id w
      \<and> Some (jr_type r) = dispatch_for_retry (wf_status_of w)
      \<and> (\<exists>v a s. jr_payload r = Some (dispatch_payload (wf_id w) v a s)
           \<and> (v = wf_version w \<or> wf_status_of w = StExecuting \<and> v = wf_version w - 1))
    else wf_current_dispatch_id w = []"
proof -
  have "dispatch_ok (db_jobs db) w"
    using wf_reachable_ok [OF assms(1)] assms(2) by (auto simp: wf_db_ok_def)
  then show ?thesis unfolding dispatch_ok_def dispatch_row_for_def by (auto split: if_splits)
qed

text \<open>C0: The history is complete: for every workflow of a reachable database \<open>ListTransitions\<close> returns
  one entry per version, numbered 1 to the current version, each starting in the status where the
  previous one ended, the last ending in the current status.\<close>
theorem history_complete:
  assumes "wf_reachable db" and "w \<in> set (db_workflows db)"
  shows "\<exists>l. list_transitions db (wf_id w) = Inr l \<and> chain_from None 0 l \<and> l \<noteq> []
    \<and> int (length l) = wf_version w \<and> tr_to_status (last l) = wf_status_of w"
proof -
  have ok: "wf_db_ok db" using assms(1) by (rule wf_reachable_ok)
  then have "log_ok (log_of (db_transitions db) (wf_id w)) w" using assms(2) by (auto simp: wf_db_ok_def)
  then show ?thesis using list_transitions_log [OF ok assms(2)] by (auto simp: log_ok_def)
qed

lemma transition_accepts:
  assumes "wf_db_ok db" "dispatch_type (action_of i) n \<noteq> None \<Longrightarrow> we_new_id e \<notin> jr_id ` set (db_jobs db)"
    and "trim_space raw_id \<noteq> []" "1 \<le> ti_expected_version i" "input_action i \<noteq> []"
    and w: "w \<in> set (db_workflows db)" "wf_id w = trim_space raw_id"
      "wf_version w = ti_expected_version i" "transition_guards w (action_of i) i = Inr (n, d)"
  shows "\<exists>r. wf_transition e raw_id i db = Inr r"
proof -
  have ok: "wf_row_ok w" "log_ok (log_of (db_transitions db) (wf_id w)) w" "unique_key wf_id (db_workflows db)"
    using assms(1) w(1) by (auto simp: wf_db_ok_def)
  have l: "load_job db (trim_space raw_id) = Inr w"
    using ok(3) w(1,2) lookup_by_unique by (fastforce simp: load_job_def)
  have q: "\<exists>db1 x. enqueue_dispatch e w (action_of i) n db = Inr (db1, x) \<and> (\<exists>q. db1 = db\<lparr> db_jobs := q \<rparr>)"
  proof (cases "dispatch_type (action_of i) n")
    case None
    then show ?thesis by (auto simp: enqueue_dispatch_def intro: exI [of _ "db_jobs db"])
  next
    case (Some t)
    have "1 \<le> max_stage_attempts (wf_limits w)"
      using ok(1) by (auto simp: wf_row_ok_def validate_limits_def split: if_splits)
    then have "\<exists>q j. enqueue_tx (we_new_id e) (we_queue_now e) t
        (Some (dispatch_payload (wf_id w) (wf_version w + 1) (action_of i) n))
        (max_stage_attempts (wf_limits w)) (we_now e) (db_jobs db) = Inr (q, j)"
      using dispatch_type_trimmed [OF Some] assms(2) Some enqueue_with_succeeds unfolding enqueue_tx_def by (metis option.distinct(1))
    then show ?thesis using Some by (auto simp: enqueue_dispatch_def)
  qed
  then obtain db1 x q where q: "enqueue_dispatch e w (action_of i) n db = Inr (db1, x)" "db1 = db\<lparr> db_jobs := q \<rparr>"
    by blast
  let ?P = "\<lambda>v. wf_id v = wf_id w \<and> wf_version v = wf_version w"
  have "affected ?P (db_workflows db) = 1"
    using ok(3) w(1) by (subst affected_eq1_iff [where k = wf_id and x = "wf_id w"]) auto
  then obtain db2 where u: "update_workflow e (action_of i) i n (dispatch_after w (action_of i) x) w db1 = Inr db2"
    "db_transitions db2 = db_transitions db"
    "db_workflows db2 = update_where ?P (apply_transition e (action_of i) i n (dispatch_after w (action_of i) x)) (db_workflows db)"
    by (auto simp: update_workflow_def q(2))
  have "tr_workflow_version t \<noteq> wf_version w + 1"
    if "t \<in> set (db_transitions db)" "tr_workflow_job_id t = wf_id w" for t
  proof -
    have "chain_from s k l \<Longrightarrow> t \<in> set l \<Longrightarrow> tr_workflow_version t \<le> k + int (length l)" for s k l
      by (induction l arbitrary: s k) fastforce+
    from this [of None 0 "log_of (db_transitions db) (wf_id w)"] show ?thesis
      using that ok(2) by (auto simp: log_ok_def log_of_def)
  qed
  then obtain db3 where t: "insert_transition (wf_id w) (Some (wf_status_of w)) (action_of i) n (wf_version w + 1)
      (dispatch_after w (action_of i) x) d (we_now e) db2 = Inr db3" "db_workflows db3 = db_workflows db2"
    using u(2) by (auto simp: insert_transition_def)
  have "lookup_by wf_id (wf_id w) (db_workflows db2) \<noteq> None"
    using w(1) u(3) by (auto simp: lookup_by_None image_update_where)
  then have "\<exists>w'. wf_get (record_event e (wf_id w) ''workflow.transitioned''
      (transitioned_payload w (action_of i) n (dispatch_after w (action_of i) x)) db3) (wf_id w) = Inr w'"
    using ok(1) t(2) by (auto simp: wf_get_def load_job_def record_event_def wf_row_ok_def)
  then show ?thesis
    using assms(3-5) l w q(1) u(1) t(1)
    by (auto simp: wf_transition_def Let_def dispatch_after_def)
qed

subsection \<open>Which transitions are accepted\<close>

text \<open>The rules of the workflow in their own words: the edges of the pipeline with the action that takes each, and the five actions
  that lead out of it and back. Nothing here is shared with the guards of \<open>wf_transition\<close>.\<close>

definition pipeline_edges :: "(wf_status \<times> string \<times> wf_status) set" where
  "pipeline_edges =
     {(StReady, ''START'', StWorkspacePreparing), (StWorkspacePreparing, ''WORKSPACE_READY'', StQueued),
      (StQueued, ''EXECUTION_STARTED'', StExecuting), (StExecuting, ''EXECUTION_COMPLETED'', StChecking),
      (StChecking, ''CHECKS_COMPLETED'', StReviewing), (StReviewing, ''REVIEW_COMPLETED'', StWaitingApproval),
      (StWaitingApproval, ''APPROVE'', StApproved), (StWaitingApproval, ''REQUEST_REVISION'', StRevisionRequired),
      (StWaitingApproval, ''REJECT'', StRejected), (StRevisionRequired, ''QUEUE_REVISION'', StQueued),
      (StApproved, ''PUBLISH'', StPublishing), (StPublishing, ''PUBLICATION_COMPLETED'', StCompleted)}"

definition work_stages :: "wf_status set" where
  "work_stages = {StWorkspacePreparing, StQueued, StExecuting, StChecking, StReviewing, StPublishing}"

definition may_move :: "wf_job \<Rightarrow> transition_input \<Rightarrow> wf_status \<Rightarrow> bool" where
  "may_move w i n =
     ((wf_status_of w, input_action i, n) \<in> pipeline_edges
        \<and> (input_action i = ''QUEUE_REVISION'' \<longrightarrow> wf_revision_count w < max_revisions (wf_limits w))
    \<or> input_action i = ''CANCEL'' \<and> n = StCancelled \<and> wf_status_of w \<noteq> StCompleted \<and> wf_status_of w \<noteq> StRejected \<and> wf_status_of w \<noteq> StCancelled
    \<or> input_action i = ''FAIL'' \<and> n = StFailed \<and> wf_status_of w \<in> work_stages \<and> trim_space (ti_failure_message i) \<noteq> []
    \<or> input_action i = ''RESTART'' \<and> n = StWorkspacePreparing \<and> wf_status_of w = StFailed
    \<or> input_action i = ''RETRY'' \<and> wf_status_of w = StFailed \<and> wf_retry_status w = Some n \<and> n \<in> work_stages
    \<or> input_action i = ''CONTINUE_EXECUTION'' \<and> n = StQueued \<and> wf_status_of w = StFailed
        \<and> (wf_retry_status w = Some StExecuting \<or> wf_retry_status w = Some StQueued)
        \<and> wf_failure_code w \<in> {''EXECUTOR_BUDGET_EXHAUSTED'', ''EXECUTOR_NO_PROGRESS'', ''EXECUTOR_REPEATED_TOOL_FAILURE'',
            ''EXECUTOR_REPEATED_ACTION'', ''EXECUTOR_TOOL_CALL_LIMIT''}
        \<and> 1 \<le> ti_additional_executor_turns i \<and> ti_additional_executor_turns i \<le> 64
        \<and> max_executor_turns (wf_limits w) + ti_additional_executor_turns i \<le> 128)"

definition details_fit :: "transition_input \<Rightarrow> bool" where
  "details_fit i = (case ti_details i of None \<Rightarrow> True | Some kvs \<Rightarrow> length (marshal (JObj kvs)) \<le> 32768)"

lemma action_names:
  "s = ''START'' \<longleftrightarrow> action_of_string s = ActStart" "s = ''WORKSPACE_READY'' \<longleftrightarrow> action_of_string s = ActWorkspaceReady"
  "s = ''EXECUTION_STARTED'' \<longleftrightarrow> action_of_string s = ActExecutionStarted"
  "s = ''EXECUTION_COMPLETED'' \<longleftrightarrow> action_of_string s = ActExecutionCompleted"
  "s = ''CHECKS_COMPLETED'' \<longleftrightarrow> action_of_string s = ActChecksCompleted"
  "s = ''REVIEW_COMPLETED'' \<longleftrightarrow> action_of_string s = ActReviewCompleted" "s = ''APPROVE'' \<longleftrightarrow> action_of_string s = ActApprove"
  "s = ''REQUEST_REVISION'' \<longleftrightarrow> action_of_string s = ActRequestRevision" "s = ''REJECT'' \<longleftrightarrow> action_of_string s = ActReject"
  "s = ''QUEUE_REVISION'' \<longleftrightarrow> action_of_string s = ActQueueRevision" "s = ''PUBLISH'' \<longleftrightarrow> action_of_string s = ActPublish"
  "s = ''PUBLICATION_COMPLETED'' \<longleftrightarrow> action_of_string s = ActPublicationCompleted" "s = ''CANCEL'' \<longleftrightarrow> action_of_string s = ActCancel"
  "s = ''FAIL'' \<longleftrightarrow> action_of_string s = ActFail" "s = ''RESTART'' \<longleftrightarrow> action_of_string s = ActRestart"
  "s = ''RETRY'' \<longleftrightarrow> action_of_string s = ActRetry" "s = ''CONTINUE_EXECUTION'' \<longleftrightarrow> action_of_string s = ActContinueExecution"
  by (simp_all add: action_of_string_def known_actions_def)

lemma details_fit_iff: "(\<exists>d. safe_details (ti_details i) = Inr d) \<longleftrightarrow> details_fit i"
  by (auto simp: safe_details_def details_fit_def split: option.splits)

lemma guards_accept:
  "(\<exists>d. transition_guards w (action_of i) i = Inr (n, d)) \<longleftrightarrow> may_move w i n \<and> details_fit i"
proof -
  have "(\<exists>d. transition_guards w (action_of i) i = Inr (n, d)) \<longleftrightarrow>
      check_continue w (action_of i) (ti_additional_executor_turns i) = Inr ()
      \<and> next_status (wf_status_of w) (action_of i) (wf_retry_status w) = Some n
      \<and> \<not> (action_of i = ActQueueRevision \<and> max_revisions (wf_limits w) \<le> wf_revision_count w)
      \<and> \<not> (action_of i = ActFail \<and> trim_space (ti_failure_message i) = []) \<and> (\<exists>d. safe_details (ti_details i) = Inr d)"
    by (auto simp: transition_guards_def rbind_eq_Inr split: option.splits)
  also have "\<dots> \<longleftrightarrow> may_move w i n \<and> details_fit i"
    unfolding details_fit_iff may_move_def pipeline_edges_def insert_iff prod.inject empty_iff action_names
    by (cases "action_of i"; cases "wf_status_of w")
      (auto simp: check_continue_def is_executor_pause_code_def next_status_def transition_table_def failure_statuses_def work_stages_def
        is_terminal_def split: option.splits if_splits)
  finally show ?thesis .
qed

text \<open>C0: A transition is accepted exactly when the rules of the workflow allow it: on a well-formed database, with a fresh
  dispatch id, a request leads a workflow to a status exactly when it names the workflow, its current version and an
  action, the rules \<open>may_move\<close> have an edge for the action from the workflow's status to that one (with the revision limit, the
  failure message and the executor budget as conditions of their edges), and its details fit 32 KiB; and then the version has
  gone up by one. The uniqueness constraints of the schema never fire, and the compare-and-swap on the version never misses.\<close>

theorem transition_succeeds_iff:
  assumes "wf_db_ok db" and "new_id_ok e" and "we_new_id e \<notin> jr_id ` set (db_jobs db)"
  shows "(\<exists>db' w'. wf_transition e raw_id i db = Inr (db', w') \<and> wf_status_of w' = n \<and> wf_version w' = ti_expected_version i + 1) \<longleftrightarrow>
    trim_space raw_id \<noteq> [] \<and> 1 \<le> ti_expected_version i \<and> input_action i \<noteq> [] \<and> details_fit i \<and>
    (\<exists>w\<in>set (db_workflows db). wf_id w = trim_space raw_id \<and> wf_version w = ti_expected_version i \<and> may_move w i n)"
    (is "?L \<longleftrightarrow> ?R")
proof
  assume ?L
  then obtain db' w' where t: "wf_transition e raw_id i db = Inr (db', w')" "wf_status_of w' = n" by auto
  then have "1 \<le> ti_expected_version i" "input_action i \<noteq> []"
    by (auto simp: wf_transition_def Let_def)
  moreover have "may_move w i n \<and> details_fit i"
    if "transition_guards w (action_of i) i = Inr (nxt, d)" "w' = apply_transition e (action_of i) i nxt x w" for w nxt d x
    using that t(2) guards_accept by (auto simp: apply_transition_def split: prod.splits)
  ultimately show ?R
    using t by (elim wf_transition_cases) (use lookup_by_Some in fast)
next
  assume ?R
  then obtain w d where w: "w \<in> set (db_workflows db)" "wf_id w = trim_space raw_id" "wf_version w = ti_expected_version i"
    "transition_guards w (action_of i) i = Inr (n, d)" using guards_accept by blast
  then obtain db' w' where t: "wf_transition e raw_id i db = Inr (db', w')"
    using transition_accepts [OF assms(1)] assms(3) \<open>?R\<close> by (metis surj_pair)
  from t show ?L
  proof (rule wf_transition_cases)
    fix v nxt d' x
    assume v: "lookup_by wf_id (trim_space raw_id) (db_workflows db) = Some v" "wf_version v = ti_expected_version i"
      "transition_guards v (action_of i) i = Inr (nxt, d')" "w' = apply_transition e (action_of i) i nxt (dispatch_after v (action_of i) x) v"
    have "v = w" using v(1) w(1,2) assms(1) lookup_by_unique [of wf_id "db_workflows db" w] by (auto simp: wf_db_ok_def)
    then show ?L using t v w(4) by (auto simp: apply_transition_def split: prod.splits)
  qed
qed

text \<open>Budgets hold at all times: in every reachable database a workflow has been revised at most
  max_revisions (at most 20) times since it was last restarted, its executor turns stay between 2 and
  128 however often execution is continued, and its remaining limits stay in their documented ranges;
  a failed workflow remembers a stage to retry, and exactly the terminal statuses have a completion time.\<close>
theorem workflow_budgets:
  assumes "wf_reachable db" and "w \<in> set (db_workflows db)"
  shows "0 \<le> wf_revision_count w \<and> wf_revision_count w \<le> max_revisions (wf_limits w)
    \<and> max_revisions (wf_limits w) \<le> 20
    \<and> 2 \<le> max_executor_turns (wf_limits w) \<and> max_executor_turns (wf_limits w) \<le> 128
    \<and> 1 \<le> max_stage_attempts (wf_limits w) \<and> max_stage_attempts (wf_limits w) \<le> 10
    \<and> 60 \<le> wall_clock_seconds (wf_limits w) \<and> wall_clock_seconds (wf_limits w) \<le> 86400
    \<and> (wf_status_of w = StFailed \<longrightarrow> (\<exists>r\<in>failure_statuses. wf_retry_status w = Some r))
    \<and> (wf_completed_at w \<noteq> None \<longleftrightarrow> is_terminal (wf_status_of w))"
proof -
  have "wf_row_ok w" using wf_reachable_ok [OF assms(1)] assms(2) by (auto simp: wf_db_ok_def)
  moreover have "validate_limits (wf_limits w) = Inr ()" using calculation by (simp add: wf_row_ok_def)
  ultimately show ?thesis by (auto simp: wf_row_ok_def validate_limits_def split: if_splits)
qed

text \<open>C0: One active job: in every reachable database no two workflows that are neither completed,
  rejected nor cancelled work on the same plan version and repository, and \<open>Create\<close> refuses to add a
  second one.\<close>
theorem one_active_workflow:
  assumes "wf_reachable db" and "w \<in> set (db_workflows db)" and "v \<in> set (db_workflows db)"
    and "\<not> is_terminal (wf_status_of w)" and "\<not> is_terminal (wf_status_of v)"
    and "wf_plan_version_id w = wf_plan_version_id v" and "wf_repository_id w = wf_repository_id v"
  shows "w = v \<and> (\<forall>e raw db' x. wf_create e raw db = Inr (db', x) \<longrightarrow>
    \<not> (wf_plan_version_id x = wf_plan_version_id w \<and> wf_repository_id x = wf_repository_id w))"
proof
  have "is_active (wf_plan_version_id w) (wf_repository_id w) v" using assms(5-7) by (simp add: is_active_def)
  then show "w = v" using wf_reachable_ok [OF assms(1)] assms(2-4) unfolding wf_db_ok_def by blast
  have "False" if "wf_create e raw db = Inr (db', x)"
    "wf_plan_version_id x = wf_plan_version_id w" "wf_repository_id x = wf_repository_id w" for e raw db' x
    using that(1)
  proof (rule wf_create_cases)
    assume "\<forall>y\<in>set (db_workflows db). \<not> is_active (wf_plan_version_id x) (wf_repository_id x) y"
    then show False using assms(2,4) that(2,3) by (auto simp: is_active_def)
  qed
  then show "\<forall>e raw db' x. wf_create e raw db = Inr (db', x) \<longrightarrow>
    \<not> (wf_plan_version_id x = wf_plan_version_id w \<and> wf_repository_id x = wf_repository_id w)" by blast
qed

text \<open>A workflow without revisions cannot be created: the limits are defaulted before they are
  validated, so a request for 0 revisions, which the validation message allows, is stored as 3.\<close>
theorem zero_revisions_become_three:
  assumes "wf_create e raw db = Inr (db', w)"
  shows "1 \<le> max_revisions (wf_limits w) \<and> (max_revisions (ci_limits raw) = 0 \<longrightarrow> max_revisions (wf_limits w) = 3)"
  using assms
proof (rule wf_create_cases)
  fix v branch and r :: repository_row
  assume "validate_limits (ci_limits (normalize_create raw)) = Inr ()"
    and "w = new_workflow e (normalize_create raw) v branch (rp_head_sha r)"
  then show ?thesis
    by (auto simp: validate_limits_def new_workflow_def normalize_create_def normalize_limits_def Let_def split: if_splits)
qed

subsection \<open>Witnesses\<close>

definition sample_db0 :: wf_db where
  "sample_db0 = \<lparr> db_projects = [''p''], db_plans = [\<lparr> pl_id = ''pl'', pl_project_id = ''p'',
     pl_status = ''READY'', pl_current_version = 1 \<rparr>],
     db_plan_versions = [\<lparr> pv_id = ''pv'', pv_plan_id = ''pl'', pv_version = 1 \<rparr>],
     db_repositories = [\<lparr> rp_id = ''r'', rp_project_id = ''p'', rp_current_branch = ''main'', rp_head_sha = ''abc'',
       rp_local_path = ''/repo'' \<rparr>],
     db_workflows = [], db_transitions = [], db_jobs = [], db_events = [] \<rparr>"

definition sample_env :: "string \<Rightarrow> wf_env" where
  "sample_env i = \<lparr> we_now = 0, we_queue_now = 0, we_new_id = i, we_recorder_ok = False \<rparr>"

definition no_agent :: agent_selection where
  "no_agent = \<lparr> ag_provider = [], ag_model = [] \<rparr>"

definition sample_create :: create_input where
  "sample_create = \<lparr> ci_project_id = ''p'', ci_plan_id = ''pl'', ci_repository_id = ''r'', ci_base_branch = [],
     ci_agent_settings_version = 0, ci_executor = no_agent, ci_reviewer = no_agent,
     ci_limits = \<lparr> max_revisions = 0, max_stage_attempts = 0, max_executor_turns = 0, max_tool_calls = 0,
       max_consecutive_tool_errors = 0, max_no_progress_turns = 0, wall_clock_seconds = 0 \<rparr> \<rparr>"

definition sample_input :: "string \<Rightarrow> int \<Rightarrow> transition_input" where
  "sample_input a v = \<lparr> ti_expected_version = v, ti_action = a, ti_failure_code = [],
     ti_failure_message = ''x'', ti_details = None, ti_additional_executor_turns = 0 \<rparr>"

definition sample_db1 :: wf_db where
  "sample_db1 = fst (projr (wf_create (sample_env ''w'') sample_create sample_db0))"

definition sample_next :: "string \<Rightarrow> int \<Rightarrow> string \<Rightarrow> wf_db \<Rightarrow> wf_db" where
  "sample_next d k a db =
     (case wf_transition (sample_env d) ''w'' (sample_input a k) db of Inl _ \<Rightarrow> db | Inr (db', _) \<Rightarrow> db')"

definition at_status :: "wf_db \<Rightarrow> wf_status \<Rightarrow> wf_status option \<Rightarrow> int \<Rightarrow> string set \<Rightarrow> bool" where
  "at_status db s retry k ids = (wf_reachable db \<and> jr_id ` set (db_jobs db) \<subseteq> ids
     \<and> (\<exists>w. db_workflows db = [w] \<and> wf_id w = ''w'' \<and> wf_version w = k \<and> wf_status_of w = s
          \<and> wf_retry_status w = retry))"

lemma trim_w [simp]: "trim_space ''w'' = ''w''" "trim_space ''x'' = ''x''"
  by (simp_all add: plain_char_def)

lemma sample_create_succeeds:
  "\<exists>db w. wf_create (sample_env ''w'') sample_create sample_db0 = Inr (db, w) \<and> db_workflows db = [w]
     \<and> wf_id w = ''w'' \<and> wf_version w = 1 \<and> wf_status_of w = StReady \<and> wf_retry_status w = None
     \<and> max_revisions (wf_limits w) = 3 \<and> db_jobs db = []"
  by (simp add: wf_create_def sample_db0_def sample_env_def sample_create_def no_agent_def Let_def normalize_create_def
      normalize_agent_selection_def normalize_limits_def validate_agent_selections_def validate_limits_def
      resolve_inputs_def validate_base_branch_def has_prefix_def has_suffix_def contains_any_def is_control_def
      plain_char_def new_workflow_def insert_workflow_def insert_transition_def next_sequence_def record_event_def
      stored_at_def from_milli_def unix_milli_def)

lemma sample_db1_at: "at_status sample_db1 StReady None 1 {}"
proof -
  obtain db w where c: "wf_create (sample_env ''w'') sample_create sample_db0 = Inr (db, w)" "db_workflows db = [w]"
     "wf_id w = ''w''" "wf_version w = 1" "wf_status_of w = StReady" "wf_retry_status w = None" "db_jobs db = []"
    using sample_create_succeeds by blast
  have "wf_reachable sample_db0" by (rule reach_init) (simp_all add: sample_db0_def)
  then have "wf_reachable db"
    using c(1) by (rule reach_step [OF _ step_create]) (simp add: new_id_ok_def sample_env_def)
  then show ?thesis using c by (simp add: at_status_def sample_db1_def)
qed

lemma enqueued_dispatch_ids:
  "enqueued_dispatch e w a n q q' d \<Longrightarrow> jr_id ` set q' \<subseteq> insert (we_new_id e) (jr_id ` set q)"
  by (cases "dispatch_type a n") (auto simp: enqueued_dispatch_def)

lemma sample_next_at:
  assumes "at_status db s r k ids" "k \<ge> 1" "d \<notin> ids" "d \<noteq> []" "trim_space d = d"
    and "input_action (sample_input a k) \<noteq> []" "action_of_string (input_action (sample_input a k)) = act"
    and "next_status s act r = Some n" "act \<noteq> ActContinueExecution" "act \<noteq> ActQueueRevision"
  shows "at_status (sample_next d k a db) n
     (if act = ActFail then Some s else if act = ActRetry \<or> act = ActRestart then None else r) (k + 1) (insert d ids)"
proof -
  obtain w where w: "db_workflows db = [w]" "wf_id w = ''w''" "wf_version w = k" "wf_status_of w = s" "wf_retry_status w = r"
    and db: "wf_reachable db" "jr_id ` set (db_jobs db) \<subseteq> ids"
    using assms(1) by (auto simp: at_status_def)
  have g: "transition_guards w act (sample_input a k) = Inr (n, JObj [])"
    using assms(8-10) w by (simp add: transition_guards_def check_continue_def safe_details_def sample_input_def)
  have id: "new_id_ok (sample_env d)" "we_new_id (sample_env d) = d"
    using assms(4,5) by (simp_all add: new_id_ok_def sample_env_def)
  have "\<exists>x. wf_transition (sample_env d) ''w'' (sample_input a k) db = Inr x"
    by (rule transition_accepts [OF wf_reachable_ok [OF db(1)], where w = w and n = n])
      (use db(2) id(2) assms(2,3,6,7) w g in \<open>auto simp: sample_input_def\<close>)
  then obtain db' w' where t: "wf_transition (sample_env d) ''w'' (sample_input a k) db = Inr (db', w')" by auto
  have r: "wf_reachable db'" by (rule reach_step [OF db(1) step_transition [OF t id(1)]])
  have p: "at_status db' n (if act = ActFail then Some s else if act = ActRetry \<or> act = ActRestart then None else r)
      (k + 1) (insert d ids)"
    using t
  proof (rule wf_transition_cases, goal_cases)
    case (1 v n' details q d' evs)
    then have "v = w" using w(1) by (auto simp: lookup_by_def split: if_splits)
    then have "n' = n" using 1(4) g assms(7) by simp
    have "jr_id ` set q \<subseteq> insert d ids"
      using enqueued_dispatch_ids [OF 1(5), unfolded id(2)] insert_mono [OF db(2)] by (rule subset_trans)
    moreover have "db_jobs db' = q" "db_workflows db' =
        [apply_transition (sample_env d) act (sample_input a k) n (dispatch_after w act d') w]"
      using 1(7) w(1) assms(7) \<open>v = w\<close> \<open>n' = n\<close> by simp_all
    ultimately show ?case
      using r w(2-5) assms(9) unfolding at_status_def by (simp add: failure_after_def)
  qed
  then show ?thesis by (simp add: sample_next_def t)
qed

text \<open>A run from creation to approval.\<close>

definition sample_queued :: wf_db where
  "sample_queued = sample_next ''b'' 2 ''WORKSPACE_READY'' (sample_next ''a'' 1 ''START'' sample_db1)"

definition sample_reviewing :: wf_db where
  "sample_reviewing = sample_next ''e'' 5 ''CHECKS_COMPLETED'' (sample_next ''d'' 4 ''EXECUTION_COMPLETED''
     (sample_next ''c'' 3 ''EXECUTION_STARTED'' sample_queued))"

definition sample_approved :: wf_db where
  "sample_approved = sample_next ''g'' 7 ''APPROVE'' (sample_next ''f'' 6 ''REVIEW_COMPLETED'' sample_reviewing)"

lemma sample_input_action:
  assumes "list_all upper_ascii a" "trim_space a = a" "a \<noteq> []"
  shows "input_action (sample_input a k) = a"
  using assms by (simp add: input_action_def sample_input_def to_upper_id)

lemmas action_evals = sample_input_action upper_ascii_def plain_char_def action_of_string_def known_actions_def

lemma sample_actions:
  "action_of (sample_input ''START'' k) = ActStart" "input_action (sample_input ''START'' k) \<noteq> []"
  "action_of (sample_input ''WORKSPACE_READY'' k) = ActWorkspaceReady" "input_action (sample_input ''WORKSPACE_READY'' k) \<noteq> []"
  "action_of (sample_input ''EXECUTION_STARTED'' k) = ActExecutionStarted" "input_action (sample_input ''EXECUTION_STARTED'' k) \<noteq> []"
  "action_of (sample_input ''EXECUTION_COMPLETED'' k) = ActExecutionCompleted" "input_action (sample_input ''EXECUTION_COMPLETED'' k) \<noteq> []"
  "action_of (sample_input ''CHECKS_COMPLETED'' k) = ActChecksCompleted" "input_action (sample_input ''CHECKS_COMPLETED'' k) \<noteq> []"
  "action_of (sample_input ''REVIEW_COMPLETED'' k) = ActReviewCompleted" "input_action (sample_input ''REVIEW_COMPLETED'' k) \<noteq> []"
  "action_of (sample_input ''APPROVE'' k) = ActApprove" "input_action (sample_input ''APPROVE'' k) \<noteq> []"
  "action_of (sample_input ''FAIL'' k) = ActFail" "input_action (sample_input ''FAIL'' k) \<noteq> []"
  "action_of (sample_input ''RETRY'' k) = ActRetry" "input_action (sample_input ''RETRY'' k) \<noteq> []"
  by (simp_all add: action_evals)

lemma sample_queued_at: "at_status sample_queued StQueued None 3 {''a'', ''b''}"
proof -
  have "at_status (sample_next ''a'' 1 ''START'' sample_db1) StWorkspacePreparing None 2 {''a''}"
    using sample_next_at [OF sample_db1_at, of "''a''" "''START''" ActStart StWorkspacePreparing]
    by (simp add: sample_actions plain_char_def next_status_def transition_table_def)
  from sample_next_at [OF this, of "''b''" "''WORKSPACE_READY''" ActWorkspaceReady StQueued] show ?thesis
    by (simp add: sample_actions plain_char_def next_status_def transition_table_def sample_queued_def insert_commute)
qed

lemma sample_reviewing_at: "at_status sample_reviewing StReviewing None 6 {''a'', ''b'', ''c'', ''d'', ''e''}"
proof -
  have "at_status (sample_next ''c'' 3 ''EXECUTION_STARTED'' sample_queued) StExecuting None 4 {''c'', ''a'', ''b''}"
    using sample_next_at [OF sample_queued_at, of "''c''" "''EXECUTION_STARTED''" ActExecutionStarted StExecuting]
    by (simp add: sample_actions plain_char_def next_status_def transition_table_def)
  from sample_next_at [OF this, of "''d''" "''EXECUTION_COMPLETED''" ActExecutionCompleted StChecking]
  have "at_status (sample_next ''d'' 4 ''EXECUTION_COMPLETED'' (sample_next ''c'' 3 ''EXECUTION_STARTED'' sample_queued))
      StChecking None 5 {''d'', ''c'', ''a'', ''b''}"
    by (simp add: sample_actions plain_char_def next_status_def transition_table_def)
  from sample_next_at [OF this, of "''e''" "''CHECKS_COMPLETED''" ActChecksCompleted StReviewing] show ?thesis
    by (simp add: sample_actions plain_char_def next_status_def transition_table_def sample_reviewing_def insert_commute)
qed

lemma sample_approved_at: "at_status sample_approved StApproved None 8 {''a'', ''b'', ''c'', ''d'', ''e'', ''f'', ''g''}"
proof -
  from sample_next_at [OF sample_reviewing_at, of "''f''" "''REVIEW_COMPLETED''" ActReviewCompleted StWaitingApproval]
  have "at_status (sample_next ''f'' 6 ''REVIEW_COMPLETED'' sample_reviewing) StWaitingApproval None 7
      {''f'', ''a'', ''b'', ''c'', ''d'', ''e''}"
    by (simp add: sample_actions plain_char_def next_status_def transition_table_def)
  from sample_next_at [OF this, of "''g''" "''APPROVE''" ActApprove StApproved] show ?thesis
    by (simp add: sample_actions plain_char_def next_status_def transition_table_def sample_approved_def insert_commute)
qed

lemma published_only_after_approval_witness:
  "\<exists>w l. db_workflows sample_approved = [w] \<and> wf_status_of w = StApproved
     \<and> list_transitions sample_approved ''w'' = Inr l \<and> (\<exists>t\<in>set l. tr_action t = ActApprove)"
proof -
  obtain w where w: "wf_reachable sample_approved" "db_workflows sample_approved = [w]" "wf_id w = ''w''"
    "wf_status_of w = StApproved"
    using sample_approved_at by (auto simp: at_status_def)
  then show ?thesis using published_only_after_approval [OF w(1), of w] by auto
qed

lemma active_stage_has_dispatch_witness:
  "\<exists>w. db_workflows sample_reviewing = [w] \<and>
     (\<exists>r\<in>set (db_jobs sample_reviewing). jr_id r = wf_current_dispatch_id w \<and> jr_type r = ''workflow.review'')"
proof -
  obtain w where w: "wf_reachable sample_reviewing" "db_workflows sample_reviewing = [w]" "wf_status_of w = StReviewing"
    using sample_reviewing_at by (auto simp: at_status_def)
  then show ?thesis
    using active_stage_has_dispatch [OF w(1), of w] by (auto simp: failure_statuses_def dispatch_for_retry_def)
qed

lemma history_complete_witness:
  "\<exists>l. list_transitions sample_approved ''w'' = Inr l \<and> length l = 8"
proof -
  obtain w where w: "wf_reachable sample_approved" "db_workflows sample_approved = [w]" "wf_id w = ''w''" "wf_version w = 8"
    using sample_approved_at by (auto simp: at_status_def)
  then show ?thesis using history_complete [OF w(1), of w] by auto
qed

lemma transition_succeeds_iff_witness:
  "(\<exists>db' w'. wf_transition (sample_env ''d'') ''w'' (sample_input ''START'' 1) sample_db1 = Inr (db', w')
      \<and> wf_status_of w' = StWorkspacePreparing \<and> wf_version w' = 2)
    \<and> \<not> (\<exists>db' w'. wf_transition (sample_env ''d'') ''w'' (sample_input ''APPROVE'' 1) sample_db1 = Inr (db', w')
      \<and> wf_status_of w' = StApproved \<and> wf_version w' = 2)"
proof -
  obtain w where w: "wf_reachable sample_db1" "db_workflows sample_db1 = [w]" "db_jobs sample_db1 = []"
    "wf_id w = ''w''" "wf_status_of w = StReady" "wf_version w = 1"
    using sample_db1_at by (auto simp: at_status_def)
  have "new_id_ok (sample_env ''d'')" by (simp add: new_id_ok_def sample_env_def plain_char_def)
  note iff = transition_succeeds_iff [OF wf_reachable_ok [OF w(1)] this, of "''w''"]
  have a: "input_action (sample_input ''START'' k) = ''START''" "input_action (sample_input ''APPROVE'' k) = ''APPROVE''" for k
    by (simp_all only: action_names sample_actions)
  show ?thesis
    using iff [of "sample_input ''START'' 1" StWorkspacePreparing] iff [of "sample_input ''APPROVE'' 1" StApproved] w
    by (simp add: a may_move_def pipeline_edges_def) (simp add: sample_input_def details_fit_def plain_char_def)
qed

lemma workflow_budgets_witness:
  "\<exists>w. db_workflows sample_approved = [w] \<and> max_executor_turns (wf_limits w) \<le> 128 \<and> wf_completed_at w = None"
proof -
  obtain w where w: "wf_reachable sample_approved" "db_workflows sample_approved = [w]" "wf_status_of w = StApproved"
    using sample_approved_at by (auto simp: at_status_def)
  then show ?thesis using workflow_budgets [OF w(1), of w] by (auto simp: is_terminal_def)
qed

lemma one_active_workflow_witness:
  "\<exists>w. db_workflows sample_approved = [w] \<and> (\<forall>e raw db' x. wf_create e raw sample_approved = Inr (db', x) \<longrightarrow>
    \<not> (wf_plan_version_id x = wf_plan_version_id w \<and> wf_repository_id x = wf_repository_id w))"
proof -
  obtain w where w: "wf_reachable sample_approved" "db_workflows sample_approved = [w]" "wf_status_of w = StApproved"
    using sample_approved_at by (auto simp: at_status_def)
  then show ?thesis using one_active_workflow [OF w(1), of w w] by (simp add: is_terminal_def)
qed

lemma zero_revisions_become_three_witness:
  "\<exists>db w. wf_create (sample_env ''w'') sample_create sample_db0 = Inr (db, w) \<and> max_revisions (wf_limits w) = 3"
proof -
  obtain db w where c: "wf_create (sample_env ''w'') sample_create sample_db0 = Inr (db, w)"
    using sample_create_succeeds by blast
  then show ?thesis using zero_revisions_become_three [OF c] by (simp add: sample_create_def)
qed

end
