(* ===== verification/Dispatch.thy ===== *)
theory Dispatch
  imports WorkflowRepo
begin

text \<open>The messages between the workflow repository and the stage handlers: how each handler decodes the
  payload of its queue job (workspace/handler.go, execution/handler.go, checks/handler.go,
  reviewer/handler.go, publication/handler.go) and what it decides from the workflow's state before
  it starts any work. \<open>cmd/api/main.go\<close> registers one handler per job type.\<close>

record dispatch_payload_rec =
  dp_workflow_job_id :: string
  dp_workflow_version :: int
  dp_action :: string
  dp_target_status :: string

datatype dispatch_error = DispatchUndecodable | DispatchInvalid

definition payload_fields :: "string list" where
  "payload_fields = [''workflow_job_id'', ''workflow_version'', ''action'', ''target_status'']"

definition decode_fields :: "(string \<times> json) list \<Rightarrow> dispatch_payload_rec option" where
  "decode_fields kvs =
     (case (get_str ''workflow_job_id'' kvs, get_int ''workflow_version'' kvs,
            get_str ''action'' kvs, get_str ''target_status'' kvs) of
        (Some i, Some v, Some a, Some s) \<Rightarrow>
          Some \<lparr> dp_workflow_job_id = i, dp_workflow_version = v, dp_action = a, dp_target_status = s \<rparr>
      | _ \<Rightarrow> None)"

text \<open>Decoding null leaves the zero struct; any other document that is not an object is an error.\<close>

definition unmarshal_payload :: "json_text \<Rightarrow> dispatch_error + dispatch_payload_rec" where
  "unmarshal_payload raw =
     (case raw of
        Some (JObj kvs) \<Rightarrow>
          (case decode_fields kvs of None \<Rightarrow> Inl DispatchUndecodable | Some p \<Rightarrow> Inr p)
      | Some JNull \<Rightarrow> Inr \<lparr> dp_workflow_job_id = [], dp_workflow_version = 0, dp_action = [], dp_target_status = [] \<rparr>
      | _ \<Rightarrow> Inl DispatchUndecodable)"

definition trim_payload :: "dispatch_payload_rec \<Rightarrow> dispatch_payload_rec" where
  "trim_payload p = p\<lparr> dp_workflow_job_id := trim_space (dp_workflow_job_id p) \<rparr>"

definition has_unknown_field :: "json_text \<Rightarrow> bool" where
  "has_unknown_field raw =
     (case raw of Some (JObj kvs) \<Rightarrow> \<not> known_fields payload_fields kvs | _ \<Rightarrow> False)"

definition decode_prepare_payload :: "json_text \<Rightarrow> dispatch_error + dispatch_payload_rec" where
  "decode_prepare_payload raw =
     (if has_unknown_field raw then Inl DispatchUndecodable
      else rbind (unmarshal_payload raw) (\<lambda>p0.
        let p = trim_payload p0 in
        rbind (guardE (\<not> (dp_workflow_job_id p = [] \<or> dp_workflow_version p < 1
                  \<or> dp_target_status p \<noteq> ''WORKSPACE_PREPARING''
                  \<or> (dp_action p \<noteq> ''START'' \<and> dp_action p \<noteq> ''RETRY'' \<and> dp_action p \<noteq> ''RESTART'')))
                DispatchInvalid) (\<lambda>_. Inr p)))"

definition decode_execution_dispatch :: "json_text \<Rightarrow> dispatch_error + dispatch_payload_rec" where
  "decode_execution_dispatch raw =
     rbind (unmarshal_payload raw) (\<lambda>p.
     rbind (guardE (\<not> (dp_workflow_job_id p = [] \<or> dp_workflow_version p < 1
               \<or> dp_target_status p \<noteq> ''QUEUED'')) DispatchInvalid) (\<lambda>_. Inr p))"

definition decode_checks_dispatch :: "json_text \<Rightarrow> dispatch_error + dispatch_payload_rec" where
  "decode_checks_dispatch raw =
     rbind (unmarshal_payload raw) (\<lambda>p0.
     let p = trim_payload p0 in
     rbind (guardE (\<not> (dp_workflow_job_id p = [] \<or> dp_workflow_version p < 1
               \<or> dp_action p \<noteq> ''EXECUTION_COMPLETED'' \<or> dp_target_status p \<noteq> ''CHECKING''))
              DispatchInvalid) (\<lambda>_. Inr p))"

definition decode_review_dispatch :: "json_text \<Rightarrow> dispatch_error + dispatch_payload_rec" where
  "decode_review_dispatch raw =
     rbind (unmarshal_payload raw) (\<lambda>p0.
     let p = trim_payload p0 in
     rbind (guardE (\<not> (dp_workflow_job_id p = [] \<or> dp_workflow_version p < 1
               \<or> dp_action p \<noteq> ''CHECKS_COMPLETED'' \<or> dp_target_status p \<noteq> ''REVIEWING''))
              DispatchInvalid) (\<lambda>_. Inr p))"

definition decode_publish_dispatch :: "json_text \<Rightarrow> dispatch_error + dispatch_payload_rec" where
  "decode_publish_dispatch raw =
     rbind (unmarshal_payload raw) (\<lambda>p.
     rbind (guardE (\<not> (trim_space (dp_workflow_job_id p) = [] \<or> dp_workflow_version p < 1
               \<or> dp_action p \<noteq> ''PUBLISH'' \<or> dp_target_status p \<noteq> ''PUBLISHING''))
              DispatchInvalid) (\<lambda>_. Inr p))"

text \<open>The handler registered for a job type.\<close>

definition decode_for :: "string \<Rightarrow> (json_text \<Rightarrow> dispatch_error + dispatch_payload_rec) option" where
  "decode_for t = map_of
     [(''workflow.prepare_workspace'', decode_prepare_payload),
      (''workflow.execute'', decode_execution_dispatch),
      (''workflow.run_checks'', decode_checks_dispatch),
      (''workflow.review'', decode_review_dispatch),
      (''workflow.publish'', decode_publish_dispatch)] t"

definition accepts :: "string \<Rightarrow> json_text \<Rightarrow> bool" where
  "accepts t raw = (case decode_for t of None \<Rightarrow> False | Some f \<Rightarrow> \<not> isl (f raw))"

subsection \<open>The decision to work\<close>

datatype gate =
  GateFailed wf_error
| GateNotReached
| GateStale
| GateCancelled
| GateNoExecution
| GateUnexpected
| GateProceed wf_job

text \<open>The common beginning of the checks, review and publication handlers: load the workflow; a
  version behind the dispatch is an error, another status means the message is stale and is
  dropped.\<close>

definition stage_gate :: "wf_status \<Rightarrow> wf_db \<Rightarrow> dispatch_payload_rec \<Rightarrow> gate" where
  "stage_gate stage db p =
     (case wf_get db (dp_workflow_job_id p) of
        Inl e \<Rightarrow> GateFailed e
      | Inr w \<Rightarrow>
        if wf_version w < dp_workflow_version p then GateNotReached
        else if wf_status_of w \<noteq> stage then GateStale
        else if wf_cancellation_requested w then GateCancelled
        else if wf_execution_version w < 1 then GateNoExecution
        else GateProceed w)"

definition execution_gate :: "wf_db \<Rightarrow> string \<Rightarrow> dispatch_payload_rec \<Rightarrow> gate" where
  "execution_gate db queue_job_id p =
     (case wf_get db (dp_workflow_job_id p) of
        Inl e \<Rightarrow> GateFailed e
      | Inr w \<Rightarrow>
        if wf_version w < dp_workflow_version p then GateNotReached
        else if wf_status_of w \<noteq> StQueued \<and> wf_status_of w \<noteq> StExecuting then GateStale
        else if wf_cancellation_requested w then GateCancelled
        else if wf_current_dispatch_id w \<noteq> [] \<and> wf_current_dispatch_id w \<noteq> queue_job_id then GateStale
        else GateProceed w)"

definition is_stale_prepare_dispatch :: "wf_job \<Rightarrow> dispatch_payload_rec \<Rightarrow> bool" where
  "is_stale_prepare_dispatch w p =
     (if wf_version w < dp_workflow_version p then False
      else if wf_version w = dp_workflow_version p then wf_status_of w \<noteq> StWorkspacePreparing
      else True)"

definition prepare_gate :: "wf_db \<Rightarrow> dispatch_payload_rec \<Rightarrow> gate" where
  "prepare_gate db p =
     (case wf_get db (dp_workflow_job_id p) of
        Inl e \<Rightarrow> GateFailed e
      | Inr w \<Rightarrow>
        if is_stale_prepare_dispatch w p then GateStale
        else if wf_status_of w \<noteq> StWorkspacePreparing \<or> wf_version w \<noteq> dp_workflow_version p then GateUnexpected
        else GateProceed w)"

subsection \<open>Decoding what the repository wrote\<close>

lemma payload_fold_names:
  "fold_name ''action'' = ''ACTION''" "fold_name ''target_status'' = ''TARGET_STATUS''"
  "fold_name ''workflow_job_id'' = ''WORKFLOW_JOB_ID''" "fold_name ''workflow_version'' = ''WORKFLOW_VERSION''"
  by code_simp+

lemma unmarshal_dispatch_payload:
  assumes "- (2 ^ 63) \<le> v" "v < 2 ^ 63"
  shows "unmarshal_payload (Some (dispatch_payload i v a s)) =
    Inr \<lparr> dp_workflow_job_id = i, dp_workflow_version = v, dp_action = action_str a, dp_target_status = status_str s \<rparr>"
  using assms
  by (simp add: unmarshal_payload_def dispatch_payload_def decode_fields_def get_field_def payload_fold_names)

lemma known_dispatch_payload: "\<not> has_unknown_field (Some (dispatch_payload i v a s))"
  by (simp add: has_unknown_field_def dispatch_payload_def known_fields_def payload_fields_def payload_fold_names)

lemma decode_for_simps [simp]:
  "decode_for ''workflow.prepare_workspace'' = Some decode_prepare_payload"
  "decode_for ''workflow.execute'' = Some decode_execution_dispatch"
  "decode_for ''workflow.run_checks'' = Some decode_checks_dispatch"
  "decode_for ''workflow.review'' = Some decode_review_dispatch"
  "decode_for ''workflow.publish'' = Some decode_publish_dispatch"
  by (simp_all add: decode_for_def)

lemma action_str_simps [simp]:
  "action_str ActStart = ''START''" "action_str ActRestart = ''RESTART''" "action_str ActRetry = ''RETRY''"
  "action_str ActWorkspaceReady = ''WORKSPACE_READY''" "action_str ActQueueRevision = ''QUEUE_REVISION''"
  "action_str ActContinueExecution = ''CONTINUE_EXECUTION''" "action_str ActExecutionCompleted = ''EXECUTION_COMPLETED''"
  "action_str ActChecksCompleted = ''CHECKS_COMPLETED''" "action_str ActPublish = ''PUBLISH''"
  by (simp_all add: action_str_def known_actions_def)

lemma accepts_simps:
  assumes "trim_space i = i" "i \<noteq> []" "1 \<le> v" "v < 2 ^ 63"
  shows "accepts ''workflow.prepare_workspace'' (Some (dispatch_payload i v a s)) \<longleftrightarrow>
      s = StWorkspacePreparing \<and> action_str a \<in> {''START'', ''RETRY'', ''RESTART''}"
    "accepts ''workflow.execute'' (Some (dispatch_payload i v a s)) \<longleftrightarrow> s = StQueued"
    "accepts ''workflow.run_checks'' (Some (dispatch_payload i v a s)) \<longleftrightarrow>
      s = StChecking \<and> action_str a = ''EXECUTION_COMPLETED''"
    "accepts ''workflow.review'' (Some (dispatch_payload i v a s)) \<longleftrightarrow>
      s = StReviewing \<and> action_str a = ''CHECKS_COMPLETED''"
    "accepts ''workflow.publish'' (Some (dispatch_payload i v a s)) \<longleftrightarrow>
      s = StPublishing \<and> action_str a = ''PUBLISH''"
proof -
  have u: "unmarshal_payload (Some (dispatch_payload i v a s)) =
    Inr \<lparr> dp_workflow_job_id = i, dp_workflow_version = v, dp_action = action_str a, dp_target_status = status_str s \<rparr>"
    using assms(3,4) by (intro unmarshal_dispatch_payload) auto
  show "accepts ''workflow.prepare_workspace'' (Some (dispatch_payload i v a s)) \<longleftrightarrow>
      s = StWorkspacePreparing \<and> action_str a \<in> {''START'', ''RETRY'', ''RESTART''}"
    using assms u known_dispatch_payload
    by (cases s) (auto simp: accepts_def decode_prepare_payload_def trim_payload_def guardE_def)
  show "accepts ''workflow.execute'' (Some (dispatch_payload i v a s)) \<longleftrightarrow> s = StQueued"
    using assms u by (cases s) (simp_all add: accepts_def decode_execution_dispatch_def guardE_def)
  show "accepts ''workflow.run_checks'' (Some (dispatch_payload i v a s)) \<longleftrightarrow>
      s = StChecking \<and> action_str a = ''EXECUTION_COMPLETED''"
    using assms u by (cases s) (simp_all add: accepts_def decode_checks_dispatch_def trim_payload_def guardE_def)
  show "accepts ''workflow.review'' (Some (dispatch_payload i v a s)) \<longleftrightarrow>
      s = StReviewing \<and> action_str a = ''CHECKS_COMPLETED''"
    using assms u by (cases s) (simp_all add: accepts_def decode_review_dispatch_def trim_payload_def guardE_def)
  show "accepts ''workflow.publish'' (Some (dispatch_payload i v a s)) \<longleftrightarrow>
      s = StPublishing \<and> action_str a = ''PUBLISH''"
    using assms u by (cases s) (simp_all add: accepts_def decode_publish_dispatch_def guardE_def)
qed

subsection \<open>Do the handlers accept what the repository sends?\<close>

lemma transition_dispatch_row:
  assumes "wf_db_ok db" "new_id_ok e" "wf_transition e raw_id i db = Inr (db', w')"
    and "dispatch_type (action_of i) (wf_status_of w') = Some t"
  shows "\<exists>r\<in>set (db_jobs db'). jr_id r = wf_current_dispatch_id w' \<and> jr_type r = t \<and> jr_status r = JQueued
    \<and> jr_payload r = Some (dispatch_payload (wf_id w') (wf_version w') (action_of i) (wf_status_of w'))"
    "\<exists>s r. next_status s (action_of i) r = Some (wf_status_of w')"
    "wf_id w' \<noteq> [] \<and> trim_space (wf_id w') = wf_id w' \<and> 1 \<le> wf_version w'"
proof -
  let ?a = "action_of i"
  obtain w n details q d evs where c:
    "lookup_by wf_id (trim_space raw_id) (db_workflows db) = Some w"
    "transition_guards w ?a i = Inr (n, details)"
    "enqueued_dispatch e w ?a n (db_jobs db) q d"
    "db_jobs db' = q" "w' = apply_transition e ?a i n (dispatch_after w ?a d) w"
    using assms(3) by (elim wf_transition_cases) simp
  have ok: "wf_row_ok w" using assms(1) lookup_by_Some [OF c(1)] by (auto simp: wf_db_ok_def)
  have t: "dispatch_type ?a n = Some t" using assms(4) c(5) by simp
  then obtain r where r: "r \<in> set q" "jr_id r = we_new_id e" "d = we_new_id e" "jr_type r = t" "jr_status r = JQueued"
    "jr_payload r = Some (dispatch_payload (wf_id w) (wf_version w + 1) ?a n)"
    using c(3) unfolding enqueued_dispatch_def by (simp, elim conjE exE) (metis in_set_conv_decomp)
  have "dispatch_after w ?a d = d" using r(3) assms(2) by (simp add: dispatch_after_def new_id_ok_def)
  then show "\<exists>r\<in>set (db_jobs db'). jr_id r = wf_current_dispatch_id w' \<and> jr_type r = t \<and> jr_status r = JQueued
    \<and> jr_payload r = Some (dispatch_payload (wf_id w') (wf_version w') ?a (wf_status_of w'))"
    using r c(4,5) assms(2) by (intro bexI [of _ r]) (auto simp: nullable_string_def new_id_ok_def)
  show "\<exists>s r. next_status s ?a r = Some (wf_status_of w')"
    using transition_guards_Inr(1) [OF c(2)] c(5) by auto
  show "wf_id w' \<noteq> [] \<and> trim_space (wf_id w') = wf_id w' \<and> 1 \<le> wf_version w'"
    using ok c(5) by (auto simp: wf_row_ok_def)
qed

lemma dispatch_accepted_cases:
  assumes "next_status s a r = Some n" "dispatch_type a n = Some t" "trim_space i = i" "i \<noteq> []" "1 \<le> v" "v < 2 ^ 63"
  shows "accepts t (Some (dispatch_payload i v a n)) \<longleftrightarrow> a \<noteq> ActRetry \<or> n = StWorkspacePreparing \<or> n = StQueued"
  using assms(1)
proof (cases rule: next_status_cases)
  case retry
  then show ?thesis using assms(2) accepts_simps [OF assms(3-6)]
    by (auto simp: dispatch_type_def dispatch_for_retry_def failure_statuses_def)
next
  case table
  from transition_table_cases [OF this(2)] show ?thesis
    using assms(2) accepts_simps [OF assms(3-6)]
    by (auto simp: dispatch_type_def dispatch_for_def)
qed (use assms(2) accepts_simps [OF assms(3-6)] in \<open>auto simp: dispatch_type_def dispatch_for_def\<close>)

text \<open>Producer and consumer agree: whenever a transition other than RETRY enqueues a dispatch, the
  row it leaves in the queue decodes, in the handler registered for its type, to a valid message.\<close>
theorem transition_dispatch_accepted:
  assumes "wf_db_ok db" and "new_id_ok e" and "wf_transition e raw_id i db = Inr (db', w')"
    and "dispatch_type (action_of i) (wf_status_of w') = Some t" and "action_of i \<noteq> ActRetry"
    and "wf_version w' < 2 ^ 63"
  shows "\<exists>r\<in>set (db_jobs db'). jr_id r = wf_current_dispatch_id w' \<and> jr_type r = t \<and> accepts t (jr_payload r)"
proof -
  note d = transition_dispatch_row [OF assms(1-4)]
  then show ?thesis using dispatch_accepted_cases assms(4-6) by metis
qed

text \<open>C17: Retrying a later stage cannot work: after RETRY the workflow is back in its failed stage with a
  fresh dispatch of that stage's type, but the registered handler accepts that dispatch only for
  WORKSPACE_PREPARING and QUEUED; for EXECUTING, CHECKING, REVIEWING and PUBLISHING every attempt of
  the queue job is rejected while decoding, before the handler looks at the workflow.\<close>
theorem retry_dispatch_rejected:
  assumes "wf_db_ok db" and "new_id_ok e" and "wf_transition e raw_id i db = Inr (db', w')"
    and "action_of i = ActRetry" and "wf_version w' < 2 ^ 63"
  shows "\<exists>r\<in>set (db_jobs db'). jr_id r = wf_current_dispatch_id w' \<and> jr_status r = JQueued
    \<and> Some (jr_type r) = dispatch_for_retry (wf_status_of w')
    \<and> (accepts (jr_type r) (jr_payload r) \<longleftrightarrow> wf_status_of w' = StWorkspacePreparing \<or> wf_status_of w' = StQueued)"
proof -
  obtain s r where "next_status s ActRetry r = Some (wf_status_of w')"
    using assms(3,4) by (elim wf_transition_cases) (auto dest: transition_guards_Inr(1))
  then have "dispatch_for_retry (wf_status_of w') \<noteq> None"
    using dispatch_type_next by (auto simp: next_status_def dispatch_for_retry_def failure_statuses_def split: option.splits if_splits)
  then obtain t where t: "dispatch_type (action_of i) (wf_status_of w') = Some t"
    "dispatch_for_retry (wf_status_of w') = Some t"
    using assms(4) by (auto simp: dispatch_type_def)
  note d = transition_dispatch_row [OF assms(1-3) t(1)]
  then show ?thesis using dispatch_accepted_cases assms(4,5) t by (metis (no_types, lifting))
qed

subsection \<open>Witnesses\<close>

definition sample_failed_review :: wf_db where
  "sample_failed_review = sample_next ''f'' 6 ''FAIL'' sample_reviewing"

lemma sample_failed_review_at:
  "at_status sample_failed_review StFailed (Some StReviewing) 7 {''f'', ''a'', ''b'', ''c'', ''d'', ''e''}"
  using sample_next_at [OF sample_reviewing_at, of "''f''" "''FAIL''" ActFail StFailed]
  by (simp add: sample_actions plain_char_def next_status_def failure_statuses_def sample_failed_review_def)

lemma sample_env_id: "d \<noteq> [] \<Longrightarrow> trim_space d = d \<Longrightarrow> new_id_ok (sample_env d)"
  by (simp add: new_id_ok_def sample_env_def)

lemma sample_transition:
  assumes "at_status db s r k ids" "k \<ge> 1" "d \<notin> ids" "d \<noteq> []" "trim_space d = d"
    and "input_action (sample_input a k) \<noteq> []" "action_of (sample_input a k) = act"
    and "next_status s act r = Some n" "act \<noteq> ActContinueExecution" "act \<noteq> ActQueueRevision"
  obtains db' w' where "wf_transition (sample_env d) ''w'' (sample_input a k) db = Inr (db', w')"
    "wf_db_ok db" "wf_status_of w' = n" "wf_version w' = k + 1"
proof -
  obtain w where w: "db_workflows db = [w]" "wf_id w = ''w''" "wf_version w = k" "wf_status_of w = s" "wf_retry_status w = r"
    and db: "wf_reachable db" "jr_id ` set (db_jobs db) \<subseteq> ids"
    using assms(1) by (auto simp: at_status_def)
  have g: "transition_guards w act (sample_input a k) = Inr (n, JObj [])"
    using assms(8-10) w by (simp add: transition_guards_def check_continue_def safe_details_def sample_input_def)
  have "\<exists>x. wf_transition (sample_env d) ''w'' (sample_input a k) db = Inr x"
    by (rule transition_accepts [OF wf_reachable_ok [OF db(1)], where w = w and n = n])
      (use db(2) assms(2,3,6,7) w g in \<open>auto simp: sample_input_def sample_env_def\<close>)
  then obtain db' w' where t: "wf_transition (sample_env d) ''w'' (sample_input a k) db = Inr (db', w')" by auto
  from t have "wf_status_of w' = n \<and> wf_version w' = k + 1"
  proof (rule wf_transition_cases, goal_cases)
    case (1 v n' details q d' evs)
    then have "v = w" using w(1) by (auto simp: lookup_by_def split: if_splits)
    then show ?case using 1(4,8) g assms(7) w(3) by simp
  qed
  then show thesis using that t wf_reachable_ok [OF db(1)] by blast
qed

lemma transition_dispatch_accepted_witness:
  "\<exists>db' w'. wf_transition (sample_env ''a'') ''w'' (sample_input ''START'' 1) sample_db1 = Inr (db', w')
     \<and> (\<exists>r\<in>set (db_jobs db'). accepts ''workflow.prepare_workspace'' (jr_payload r))"
proof -
  obtain db' w' where t: "wf_transition (sample_env ''a'') ''w'' (sample_input ''START'' 1) sample_db1 = Inr (db', w')"
    "wf_db_ok sample_db1" "wf_status_of w' = StWorkspacePreparing" "wf_version w' = 1 + 1"
    by (rule sample_transition [OF sample_db1_at, of "''a''" "''START''" ActStart StWorkspacePreparing])
      (simp_all add: sample_actions plain_char_def next_status_def transition_table_def)
  then show ?thesis
    using transition_dispatch_accepted [OF t(2) sample_env_id t(1)]
    by (auto simp: sample_actions plain_char_def dispatch_type_def dispatch_for_def)
qed

lemma retry_dispatch_rejected_witness:
  "\<exists>db' w'. wf_transition (sample_env ''g'') ''w'' (sample_input ''RETRY'' 7) sample_failed_review = Inr (db', w')
     \<and> wf_status_of w' = StReviewing
     \<and> (\<exists>r\<in>set (db_jobs db'). jr_type r = ''workflow.review'' \<and> \<not> accepts ''workflow.review'' (jr_payload r))"
proof -
  obtain db' w' where t: "wf_transition (sample_env ''g'') ''w'' (sample_input ''RETRY'' 7) sample_failed_review = Inr (db', w')"
    "wf_db_ok sample_failed_review" "wf_status_of w' = StReviewing" "wf_version w' = 7 + 1"
    by (rule sample_transition [OF sample_failed_review_at, of "''g''" "''RETRY''" ActRetry StReviewing])
      (simp_all add: sample_actions plain_char_def next_status_def failure_statuses_def)
  then show ?thesis
    using retry_dispatch_rejected [OF t(2) sample_env_id t(1)]
    by (auto simp: sample_actions plain_char_def dispatch_for_retry_def)
qed

end
