(* ===== verification/Workspace.thy ===== *)
theory Workspace
  imports GoStd
begin

text \<open>The workspaces table and its leases (internal/workspace: repository.go, write_lease.go,
  restart_lease.go, startup_recovery.go, and the statements of reconcile.go). One definition per
  operation; the clock and the fresh lease token are arguments. The lease columns are NULL together
  or set together. A comparison with NULL selects no row.\<close>

datatype ws_status = WsRequested | WsPreparing | WsReady | WsWriteLocked | WsArchived | WsFailed

record ws_row =
  ws_id :: string
  ws_workflow_job_id :: string
  ws_project_id :: string
  ws_repository_id :: string
  ws_path :: string
  ws_base_commit_sha :: string
  ws_head_sha :: string
  ws_status :: ws_status
  ws_dirty :: bool
  ws_lease_owner :: "string option"
  ws_lease_token :: "string option"
  ws_lease_expires_at :: "int option"
  ws_failure_message :: "string option"
  ws_created_at :: int
  ws_updated_at :: int

record workspace =
  w_id :: string
  w_workflow_job_id :: string
  w_project_id :: string
  w_repository_id :: string
  w_path :: string
  w_base_commit_sha :: string
  w_head_sha :: string
  w_status :: ws_status
  w_dirty :: bool
  w_lease_owner :: string
  w_lease_expires_at :: "instant option"
  w_failure_message :: string
  w_created_at :: instant
  w_updated_at :: instant

datatype ws_error =
  WsNotFound | WsInvalid | WsLeaseUnavailable | WsLeaseLost | WsImmutableConflict | WsDbError | WsCaptureFailed

type_synonym ws_table = "ws_row list"
type_synonym lease = "workspace \<times> string"

definition opt_string :: "string option \<Rightarrow> string" where
  "opt_string v = (case v of None \<Rightarrow> [] | Some s \<Rightarrow> s)"

definition scan_workspace :: "ws_row \<Rightarrow> workspace" where
  "scan_workspace r = \<lparr> w_id = ws_id r, w_workflow_job_id = ws_workflow_job_id r,
     w_project_id = ws_project_id r, w_repository_id = ws_repository_id r, w_path = ws_path r,
     w_base_commit_sha = ws_base_commit_sha r, w_head_sha = ws_head_sha r, w_status = ws_status r,
     w_dirty = ws_dirty r, w_lease_owner = opt_string (ws_lease_owner r),
     w_lease_expires_at = map_option from_milli (ws_lease_expires_at r),
     w_failure_message = opt_string (ws_failure_message r),
     w_created_at = from_milli (ws_created_at r), w_updated_at = from_milli (ws_updated_at r) \<rparr>"

subsection \<open>Lookups\<close>

definition safe_id_char :: "char \<Rightarrow> bool" where
  "safe_id_char c = (let n = (of_char c :: nat) in
     (97 \<le> n \<and> n \<le> 122) \<or> (65 \<le> n \<and> n \<le> 90) \<or> (48 \<le> n \<and> n \<le> 57) \<or> n = 45 \<or> n = 95)"

definition validate_identifier :: "string \<Rightarrow> ws_error + unit" where
  "validate_identifier v =
     (if v = [] \<or> length v > 128 then Inl WsInvalid
      else if list_all safe_id_char v then Inr () else Inl WsInvalid)"

definition ws_get_by_id :: "ws_table \<Rightarrow> string \<Rightarrow> ws_error + workspace" where
  "ws_get_by_id t i =
     (case lookup_by ws_id i t of None \<Rightarrow> Inl WsNotFound | Some r \<Rightarrow> Inr (scan_workspace r))"

definition load_by_workflow :: "ws_table \<Rightarrow> string \<Rightarrow> ws_error + workspace" where
  "load_by_workflow t i =
     (case lookup_by ws_workflow_job_id i t of None \<Rightarrow> Inl WsNotFound | Some r \<Rightarrow> Inr (scan_workspace r))"

definition ws_get_by_workflow :: "ws_table \<Rightarrow> string \<Rightarrow> ws_error + workspace" where
  "ws_get_by_workflow t i = load_by_workflow t (trim_space i)"

definition ws_list_project :: "ws_table \<Rightarrow> string \<Rightarrow> workspace list" where
  "ws_list_project t p =
     map scan_workspace (sort_key (\<lambda>r. (- ws_updated_at r, - ws_created_at r))
       (filter (\<lambda>r. ws_project_id r = trim_space p) t))"

text \<open>The row the workflow and its repository are joined to: project, repository, base commit and the
  local path of the source.\<close>

record ws_source =
  src_project_id :: string
  src_repository_id :: string
  src_base_commit_sha :: string
  src_local_path :: string

definition insert_workspace :: "ws_row \<Rightarrow> ws_table \<Rightarrow> ws_error + ws_table" where
  "insert_workspace r t =
     (if ws_id r \<in> ws_id ` set t \<or> ws_workflow_job_id r \<in> ws_workflow_job_id ` set t
         \<or> ws_path r \<in> ws_path ` set t
      then Inl WsDbError else Inr (t @ [r]))"

definition new_workspace :: "string \<Rightarrow> instant \<Rightarrow> string \<Rightarrow> ws_source \<Rightarrow> string \<Rightarrow> ws_row" where
  "new_workspace new_id now wfid s path = \<lparr> ws_id = new_id, ws_workflow_job_id = wfid,
     ws_project_id = src_project_id s, ws_repository_id = src_repository_id s, ws_path = path,
     ws_base_commit_sha = src_base_commit_sha s, ws_head_sha = [], ws_status = WsRequested,
     ws_dirty = False, ws_lease_owner = None, ws_lease_token = None, ws_lease_expires_at = None,
     ws_failure_message = None, ws_created_at = unix_milli now, ws_updated_at = unix_milli now \<rparr>"

definition ensure_for_workflow ::
  "string \<Rightarrow> (string \<Rightarrow> ws_source option) \<Rightarrow> string \<Rightarrow> instant \<Rightarrow> string \<Rightarrow> ws_table
   \<Rightarrow> ws_error + ws_table \<times> workspace \<times> ws_source" where
  "ensure_for_workflow root source new_id now raw t =
     (let wfid = trim_space raw in
      rbind (validate_identifier wfid) (\<lambda>_.
      case source wfid of
        None \<Rightarrow> Inl WsNotFound
      | Some s \<Rightarrow>
        let path = path_join root wfid in
        (case load_by_workflow t wfid of
           Inr w \<Rightarrow>
             if w_project_id w \<noteq> src_project_id s \<or> w_repository_id w \<noteq> src_repository_id s
                \<or> w_base_commit_sha w \<noteq> src_base_commit_sha s \<or> path_clean (w_path w) \<noteq> path
             then Inl WsImmutableConflict else Inr (t, w, s)
         | Inl _ \<Rightarrow>
             let r = new_workspace new_id now wfid s path in
             rbind (insert_workspace r t) (\<lambda>t'.
               Inr (t', (scan_workspace r)\<lparr> w_created_at := now, w_updated_at := now \<rparr>, s)))))"

subsection \<open>Leases\<close>

definition lease_expired :: "instant \<Rightarrow> ws_row \<Rightarrow> bool" where
  "lease_expired now r = (case ws_lease_expires_at r of None \<Rightarrow> False | Some x \<Rightarrow> x \<le> unix_milli now)"

definition lease_live :: "instant \<Rightarrow> ws_row \<Rightarrow> bool" where
  "lease_live now r = (case ws_lease_expires_at r of None \<Rightarrow> False | Some x \<Rightarrow> x > unix_milli now)"

definition take_lease :: "string \<Rightarrow> string \<Rightarrow> instant \<Rightarrow> int \<Rightarrow> ws_row \<Rightarrow> ws_row" where
  "take_lease owner token now ttl r = r\<lparr> ws_lease_owner := Some owner, ws_lease_token := Some token,
     ws_lease_expires_at := Some (unix_milli (now + ttl)), ws_updated_at := unix_milli now \<rparr>"

definition drop_lease :: "instant \<Rightarrow> ws_row \<Rightarrow> ws_row" where
  "drop_lease now r = r\<lparr> ws_lease_owner := None, ws_lease_token := None, ws_lease_expires_at := None,
     ws_updated_at := unix_milli now \<rparr>"

definition no_row :: "ws_table \<Rightarrow> string \<Rightarrow> ws_error" where
  "no_row t i = (if lookup_by ws_id i t = None then WsNotFound else WsLeaseUnavailable)"

definition lease_result :: "string \<Rightarrow> ws_error \<Rightarrow> (ws_table \<times> ws_row) option \<Rightarrow> ws_error + ws_table \<times> lease" where
  "lease_result token e x =
     (case x of None \<Rightarrow> Inl e | Some (t', r) \<Rightarrow> Inr (t', (scan_workspace r, token)))"

definition can_acquire :: "instant \<Rightarrow> string \<Rightarrow> ws_row \<Rightarrow> bool" where
  "can_acquire now owner r = (ws_status r \<in> {WsRequested, WsPreparing, WsFailed}
     \<and> (ws_lease_token r = None \<or> lease_expired now r \<or> ws_lease_owner r = Some owner))"

definition acquire_row :: "string \<Rightarrow> string \<Rightarrow> instant \<Rightarrow> int \<Rightarrow> ws_row \<Rightarrow> ws_row" where
  "acquire_row owner token now ttl r = (take_lease owner token now ttl r)\<lparr>
     ws_status := (if ws_status r \<in> {WsRequested, WsFailed} then WsPreparing else ws_status r),
     ws_failure_message := (if ws_status r = WsFailed then None else ws_failure_message r) \<rparr>"

definition holds_token :: "string \<Rightarrow> string \<Rightarrow> ws_row \<Rightarrow> bool" where
  "holds_token i token r = (ws_id r = i \<and> ws_lease_token r = Some token)"

definition acquire ::
  "string \<Rightarrow> instant \<Rightarrow> string \<Rightarrow> string \<Rightarrow> int \<Rightarrow> ws_table \<Rightarrow> ws_error + ws_table \<times> lease" where
  "acquire token now raw_id raw_owner ttl t =
     (let i = trim_space raw_id; owner = trim_space raw_owner in
      if i = [] \<or> owner = [] \<or> ttl \<le> 0 then Inl WsInvalid
      else lease_result token (no_row t i)
        (update_returning (\<lambda>r. ws_id r = i \<and> can_acquire now owner r)
          (acquire_row owner token now ttl) t))"

definition renew_row :: "instant \<Rightarrow> int \<Rightarrow> ws_row \<Rightarrow> ws_row" where
  "renew_row now ttl r = r\<lparr> ws_lease_expires_at := Some (unix_milli (now + ttl)), ws_updated_at := unix_milli now \<rparr>"

definition renew ::
  "instant \<Rightarrow> string \<Rightarrow> string \<Rightarrow> int \<Rightarrow> ws_table \<Rightarrow> ws_error + ws_table \<times> lease" where
  "renew now i token ttl t =
     (if trim_space i = [] \<or> trim_space token = [] \<or> ttl \<le> 0 then Inl WsInvalid
      else lease_result token WsLeaseLost
        (update_returning (\<lambda>r. holds_token i token r \<and> lease_live now r) (renew_row now ttl) t))"

definition require_one_lease :: "nat \<Rightarrow> ws_error + unit" where
  "require_one_lease n = guardE (n = 1) WsLeaseLost"

definition release :: "instant \<Rightarrow> string \<Rightarrow> string \<Rightarrow> ws_table \<Rightarrow> ws_error + ws_table" where
  "release now i token t =
     (let P = holds_token (trim_space i) (trim_space token) in
      rbind (require_one_lease (affected P t)) (\<lambda>_. Inr (update_where P (drop_lease now) t)))"

definition ready_row :: "instant \<Rightarrow> string \<Rightarrow> bool \<Rightarrow> ws_row \<Rightarrow> ws_row" where
  "ready_row now head dirty r = r\<lparr> ws_status := WsReady, ws_head_sha := head, ws_dirty := dirty,
     ws_failure_message := None, ws_updated_at := unix_milli now \<rparr>"

definition mark_ready ::
  "instant \<Rightarrow> string \<Rightarrow> string \<Rightarrow> string \<Rightarrow> bool \<Rightarrow> ws_table \<Rightarrow> ws_error + ws_table \<times> workspace" where
  "mark_ready now i token raw_head dirty t =
     (let head = trim_space raw_head in
      if head = [] then Inl WsInvalid
      else case update_returning (\<lambda>r. holds_token i token r \<and> lease_live now r) (ready_row now head dirty) t of
        None \<Rightarrow> Inl WsLeaseLost
      | Some (t', r) \<Rightarrow> Inr (t', scan_workspace r))"

definition failed_row :: "instant \<Rightarrow> string \<Rightarrow> ws_row \<Rightarrow> ws_row" where
  "failed_row now message r = r\<lparr> ws_status := WsFailed,
     ws_failure_message := (if blank message then None else Some message), ws_updated_at := unix_milli now \<rparr>"

definition mark_failed :: "instant \<Rightarrow> string \<Rightarrow> string \<Rightarrow> string \<Rightarrow> ws_table \<Rightarrow> ws_error + ws_table" where
  "mark_failed now i token raw_message t =
     (let message = take 2048 (trim_space raw_message);
          P = holds_token i token in
      rbind (require_one_lease (affected P t)) (\<lambda>_. Inr (update_where P (failed_row now message) t)))"

definition can_acquire_write :: "instant \<Rightarrow> string \<Rightarrow> ws_row \<Rightarrow> bool" where
  "can_acquire_write now owner r =
     ((ws_status r = WsReady \<and> ws_lease_token r = None)
      \<or> (ws_status r = WsWriteLocked \<and> lease_expired now r)
      \<or> (ws_status r = WsWriteLocked \<and> ws_lease_owner r = Some owner))"

definition write_row :: "string \<Rightarrow> string \<Rightarrow> instant \<Rightarrow> int \<Rightarrow> ws_row \<Rightarrow> ws_row" where
  "write_row owner token now ttl r = (take_lease owner token now ttl r)\<lparr> ws_status := WsWriteLocked \<rparr>"

definition acquire_write ::
  "string \<Rightarrow> instant \<Rightarrow> string \<Rightarrow> string \<Rightarrow> int \<Rightarrow> ws_table \<Rightarrow> ws_error + ws_table \<times> lease" where
  "acquire_write token now raw_id raw_owner ttl t =
     (let i = trim_space raw_id; owner = trim_space raw_owner in
      if i = [] \<or> owner = [] \<or> ttl \<le> 0 then Inl WsInvalid
      else lease_result token (no_row t i)
        (update_returning (\<lambda>r. ws_id r = i \<and> can_acquire_write now owner r)
          (write_row owner token now ttl) t))"

definition unlock_row :: "instant \<Rightarrow> string \<Rightarrow> bool \<Rightarrow> ws_row \<Rightarrow> ws_row" where
  "unlock_row now head dirty r = (drop_lease now r)\<lparr> ws_status := WsReady, ws_head_sha := head,
     ws_dirty := dirty, ws_failure_message := None \<rparr>"

definition release_write ::
  "instant \<Rightarrow> string \<Rightarrow> string \<Rightarrow> string \<Rightarrow> bool \<Rightarrow> ws_table \<Rightarrow> ws_error + ws_table \<times> workspace" where
  "release_write now i token raw_head dirty t =
     (let head = trim_space raw_head in
      if trim_space i = [] \<or> trim_space token = [] \<or> head = [] then Inl WsInvalid
      else case update_returning (\<lambda>r. ws_status r = WsWriteLocked \<and> holds_token i token r \<and> lease_live now r)
             (unlock_row now head dirty) t of
        None \<Rightarrow> Inl WsLeaseLost
      | Some (t', r) \<Rightarrow> Inr (t', scan_workspace r))"

text \<open>\<open>InspectWrite\<close> reads the Git state of the workspace; \<open>capture\<close> stands for \<open>gitstate.Capture\<close>.\<close>

definition inspect_write ::
  "(string \<Rightarrow> (string \<times> bool) option) \<Rightarrow> instant \<Rightarrow> string \<Rightarrow> ws_table \<Rightarrow> ws_error + workspace" where
  "inspect_write capture now raw_id t =
     rbind (ws_get_by_id t (trim_space raw_id)) (\<lambda>w.
       if w_status w \<noteq> WsWriteLocked
          \<or> (case w_lease_expires_at w of None \<Rightarrow> True | Some x \<Rightarrow> \<not> now < x)
       then Inl WsLeaseLost
       else case capture (w_path w) of
         None \<Rightarrow> Inl WsCaptureFailed
       | Some (head, dirty) \<Rightarrow> Inr (w\<lparr> w_head_sha := head, w_dirty := dirty \<rparr>))"

definition can_acquire_restart :: "instant \<Rightarrow> ws_row \<Rightarrow> bool" where
  "can_acquire_restart now r =
     ((ws_status r \<in> {WsRequested, WsPreparing, WsReady, WsFailed} \<and> (ws_lease_token r = None \<or> lease_expired now r))
      \<or> (ws_status r = WsWriteLocked \<and> lease_expired now r))"

definition restart_row :: "string \<Rightarrow> string \<Rightarrow> instant \<Rightarrow> int \<Rightarrow> ws_row \<Rightarrow> ws_row" where
  "restart_row owner token now ttl r = (take_lease owner token now ttl r)\<lparr> ws_status := WsPreparing,
     ws_head_sha := [], ws_dirty := False, ws_failure_message := None \<rparr>"

definition acquire_restart ::
  "string \<Rightarrow> instant \<Rightarrow> string \<Rightarrow> string \<Rightarrow> int \<Rightarrow> ws_table \<Rightarrow> ws_error + ws_table \<times> lease" where
  "acquire_restart token now raw_id raw_owner ttl t =
     (let i = trim_space raw_id; owner = trim_space raw_owner in
      if i = [] \<or> owner = [] \<or> ttl \<le> 0 then Inl WsInvalid
      else lease_result token (no_row t i)
        (update_returning (\<lambda>r. ws_id r = i \<and> can_acquire_restart now r)
          (restart_row owner token now ttl) t))"

text \<open>SQLite's LIKE folds ASCII case.\<close>

definition is_daemon_owner :: "string \<Rightarrow> bool" where
  "is_daemon_owner o' = has_prefix (map lower_char o') ''local-daemon-''"

definition daemon_leased :: "ws_row \<Rightarrow> bool" where
  "daemon_leased r = (ws_lease_token r \<noteq> None
     \<and> (case ws_lease_owner r of None \<Rightarrow> False | Some o' \<Rightarrow> is_daemon_owner o'))"

definition unlease_row :: "instant \<Rightarrow> ws_row \<Rightarrow> ws_row" where
  "unlease_row now r = (drop_lease now r)\<lparr>
     ws_status := (if ws_status r = WsWriteLocked then WsReady else ws_status r) \<rparr>"

definition recover_daemon_leases :: "instant \<Rightarrow> ws_table \<Rightarrow> ws_table \<times> string list" where
  "recover_daemon_leases now t =
     (update_where daemon_leased (unlease_row now) t,
      map ws_id (filter daemon_leased t))"

definition archive_row :: "instant \<Rightarrow> ws_row \<Rightarrow> ws_row" where
  "archive_row now r = (drop_lease now r)\<lparr> ws_status := WsArchived \<rparr>"

definition archive :: "instant \<Rightarrow> string \<Rightarrow> ws_table \<Rightarrow> ws_error + ws_table \<times> workspace" where
  "archive now raw_id t =
     (let i = trim_space raw_id in
      case update_returning (\<lambda>r. ws_id r = i \<and>
              (ws_lease_token r = None \<or> ws_lease_expires_at r = None \<or> lease_expired now r))
             (archive_row now) t of
        None \<Rightarrow> Inl (no_row t i)
      | Some (t', r) \<Rightarrow> Inr (t', scan_workspace r))"

definition missing_row :: "instant \<Rightarrow> ws_row \<Rightarrow> ws_row" where
  "missing_row now r = (let settled = (ws_status r = WsArchived \<or> ws_status r = WsFailed) in
     (drop_lease now r)\<lparr> ws_status := (if settled then ws_status r else WsFailed),
       ws_failure_message := (if settled then ws_failure_message r
         else Some ''workspace path is missing from managed root'') \<rparr>)"

definition mark_missing :: "instant \<Rightarrow> string \<Rightarrow> ws_table \<Rightarrow> ws_table" where
  "mark_missing now raw_id t =
     update_where (\<lambda>r. ws_id r = trim_space raw_id) (missing_row now) t"

subsection \<open>Runs\<close>

text \<open>A run over the table; the set holds the lease tokens handed out so far, and a new lease gets a
  token outside it (\<open>newID\<close> draws 128 random bits). Events name the operations that end the life of
  a workspace.\<close>

datatype ws_event = WsOther | WsArchivedEv string | WsMissingEv string

inductive ws_step :: "string set \<Rightarrow> ws_table \<Rightarrow> ws_event \<Rightarrow> string set \<Rightarrow> ws_table \<Rightarrow> bool" where
  s_ensure: "ensure_for_workflow root source new_id now i t = Inr (t', w, s) \<Longrightarrow> ws_step T t WsOther T t'"
| s_acquire: "acquire tok now i own ttl t = Inr (t', l) \<Longrightarrow> tok \<notin> T \<Longrightarrow> ws_step T t WsOther (insert tok T) t'"
| s_write: "acquire_write tok now i own ttl t = Inr (t', l) \<Longrightarrow> tok \<notin> T \<Longrightarrow> ws_step T t WsOther (insert tok T) t'"
| s_restart: "acquire_restart tok now i own ttl t = Inr (t', l) \<Longrightarrow> tok \<notin> T \<Longrightarrow> ws_step T t WsOther (insert tok T) t'"
| s_renew: "renew now i tok ttl t = Inr (t', l) \<Longrightarrow> ws_step T t WsOther T t'"
| s_release: "release now i tok t = Inr t' \<Longrightarrow> ws_step T t WsOther T t'"
| s_ready: "mark_ready now i tok head dirty t = Inr (t', w) \<Longrightarrow> ws_step T t WsOther T t'"
| s_failed: "mark_failed now i tok msg t = Inr t' \<Longrightarrow> ws_step T t WsOther T t'"
| s_release_write: "release_write now i tok head dirty t = Inr (t', w) \<Longrightarrow> ws_step T t WsOther T t'"
| s_recover: "recover_daemon_leases now t = (t', ids) \<Longrightarrow> ws_step T t WsOther T t'"
| s_archive: "archive now i t = Inr (t', w) \<Longrightarrow> ws_step T t (WsArchivedEv (trim_space i)) T t'"
| s_missing: "ws_step T t (WsMissingEv (trim_space i)) T (mark_missing now i t)"

inductive ws_run :: "string set \<Rightarrow> ws_table \<Rightarrow> ws_event list \<Rightarrow> string set \<Rightarrow> ws_table \<Rightarrow> bool" where
  wr_refl: "ws_run T t [] T t"
| wr_step: "ws_run T t evs T' t' \<Longrightarrow> ws_step T' t' ev T'' t'' \<Longrightarrow> ws_run T t (evs @ [ev]) T'' t''"

definition lease_columns_ok :: "ws_row \<Rightarrow> bool" where
  "lease_columns_ok r = ((ws_lease_owner r = None \<longleftrightarrow> ws_lease_token r = None)
     \<and> (ws_lease_token r = None \<longleftrightarrow> ws_lease_expires_at r = None))"

definition ws_ok :: "ws_table \<Rightarrow> bool" where
  "ws_ok t = (unique_key ws_id t \<and> unique_key ws_workflow_job_id t \<and> unique_key ws_path t
     \<and> (\<forall>r\<in>set t. lease_columns_ok r))"

text \<open>Every operation but the insertion rewrites the rows it selects and keeps their identity.\<close>

definition keeps_identity :: "(ws_row \<Rightarrow> ws_row) \<Rightarrow> bool" where
  "keeps_identity f = (\<forall>r. ws_id (f r) = ws_id r \<and> ws_workflow_job_id (f r) = ws_workflow_job_id r
     \<and> ws_path (f r) = ws_path r \<and> ws_project_id (f r) = ws_project_id r
     \<and> ws_repository_id (f r) = ws_repository_id r \<and> ws_base_commit_sha (f r) = ws_base_commit_sha r)"

lemma lease_result_Inr:
  "lease_result tok e x = Inr (t', l) \<longleftrightarrow> (\<exists>r. x = Some (t', r) \<and> l = (scan_workspace r, tok))"
  by (auto simp: lease_result_def split: option.splits)

lemmas row_defs = acquire_row_def renew_row_def ready_row_def failed_row_def write_row_def unlock_row_def
  restart_row_def unlease_row_def archive_row_def missing_row_def take_lease_def drop_lease_def

lemma rows_keep_identity:
  "keeps_identity (acquire_row own tok now ttl)" "keeps_identity (renew_row now ttl)"
  "keeps_identity (ready_row now h d)" "keeps_identity (failed_row now m)"
  "keeps_identity (write_row own tok now ttl)" "keeps_identity (unlock_row now h d)"
  "keeps_identity (restart_row own tok now ttl)" "keeps_identity (unlease_row now)"
  "keeps_identity (archive_row now)" "keeps_identity (missing_row now)" "keeps_identity (drop_lease now)"
  by (simp_all add: keeps_identity_def row_defs Let_def)

text \<open>The selected rows of each operation, with the effect on their lease: a new token where the row
  could be leased, or the same or no token.\<close>

definition grants :: "string \<Rightarrow> (ws_row \<Rightarrow> bool) \<Rightarrow> (ws_row \<Rightarrow> ws_row) \<Rightarrow> bool" where
  "grants tok P f = (keeps_identity f \<and> (\<forall>r. P r \<longrightarrow> ws_lease_token (f r) = Some tok \<and> lease_columns_ok (f r)
     \<and> \<not> (ws_status r = WsWriteLocked \<and> ws_lease_owner r = None \<and> ws_lease_expires_at r = None)))"

definition keeps_or_drops :: "ws_event \<Rightarrow> (ws_row \<Rightarrow> bool) \<Rightarrow> (ws_row \<Rightarrow> ws_row) \<Rightarrow> bool" where
  "keeps_or_drops ev P f = (keeps_identity f \<and> (\<forall>r. P r \<longrightarrow>
     (ws_lease_token (f r) = ws_lease_token r \<or> ws_lease_token (f r) = None)
     \<and> (lease_columns_ok r \<longrightarrow> lease_columns_ok (f r))
     \<and> (ws_lease_token r \<noteq> None \<or> ev = WsArchivedEv (ws_id r) \<or> ev = WsMissingEv (ws_id r))))"

lemma lease_expired_some: "lease_expired now r \<Longrightarrow> ws_lease_expires_at r \<noteq> None"
  by (auto simp: lease_expired_def split: option.splits)

lemma lease_ops_grant:
  "acquire tok now i own ttl t = Inr (t', l) \<Longrightarrow> \<exists>P f. t' = update_where P f t \<and> grants tok P f"
  "acquire_write tok now i own ttl t = Inr (t', l) \<Longrightarrow> \<exists>P f. t' = update_where P f t \<and> grants tok P f"
  "acquire_restart tok now i own ttl t = Inr (t', l) \<Longrightarrow> \<exists>P f. t' = update_where P f t \<and> grants tok P f"
proof -
  have g: "grants tok P (acquire_row o' tok now ttl) \<and> grants tok P (restart_row o' tok now ttl)
      \<and> grants tok P (write_row o' tok now ttl)"
    if "\<And>r. P r \<Longrightarrow> ws_status r = WsWriteLocked \<Longrightarrow> ws_lease_owner r \<noteq> None \<or> ws_lease_expires_at r \<noteq> None" for P o'
    using that by (auto simp: grants_def rows_keep_identity row_defs lease_columns_ok_def)
  show "acquire tok now i own ttl t = Inr (t', l) \<Longrightarrow> \<exists>P f. t' = update_where P f t \<and> grants tok P f"
  proof -
    assume "acquire tok now i own ttl t = Inr (t', l)"
    then have "t' = update_where (\<lambda>r. ws_id r = trim_space i \<and> can_acquire now (trim_space own) r)
        (acquire_row (trim_space own) tok now ttl) t"
      by (auto simp: acquire_def Let_def lease_result_Inr split: if_splits elim!: update_returning_Some)
    then show ?thesis using g [of "\<lambda>r. ws_id r = trim_space i \<and> can_acquire now (trim_space own) r"]
      by (auto simp: can_acquire_def)
  qed
  show "acquire_write tok now i own ttl t = Inr (t', l) \<Longrightarrow> \<exists>P f. t' = update_where P f t \<and> grants tok P f"
  proof -
    assume "acquire_write tok now i own ttl t = Inr (t', l)"
    then have "t' = update_where (\<lambda>r. ws_id r = trim_space i \<and> can_acquire_write now (trim_space own) r)
        (write_row (trim_space own) tok now ttl) t"
      by (auto simp: acquire_write_def Let_def lease_result_Inr split: if_splits elim!: update_returning_Some)
    moreover have "grants tok (\<lambda>r. ws_id r = trim_space i \<and> can_acquire_write now (trim_space own) r)
        (write_row (trim_space own) tok now ttl)"
      by (rule g [THEN conjunct2, THEN conjunct2])
        (use lease_expired_some in \<open>auto simp: can_acquire_write_def\<close>)
    ultimately show ?thesis by blast
  qed
  show "acquire_restart tok now i own ttl t = Inr (t', l) \<Longrightarrow> \<exists>P f. t' = update_where P f t \<and> grants tok P f"
  proof -
    assume "acquire_restart tok now i own ttl t = Inr (t', l)"
    then have "t' = update_where (\<lambda>r. ws_id r = trim_space i \<and> can_acquire_restart now r)
        (restart_row (trim_space own) tok now ttl) t"
      by (auto simp: acquire_restart_def Let_def lease_result_Inr split: if_splits elim!: update_returning_Some)
    moreover have "grants tok (\<lambda>r. ws_id r = trim_space i \<and> can_acquire_restart now r)
        (restart_row (trim_space own) tok now ttl)"
      by (rule g [THEN conjunct2, THEN conjunct1])
        (use lease_expired_some in \<open>auto simp: can_acquire_restart_def\<close>)
    ultimately show ?thesis by blast
  qed
qed

lemma holder_rows:
  "ws_lease_token r \<noteq> None \<Longrightarrow> ws_lease_token (renew_row now ttl r) = ws_lease_token r
     \<and> (lease_columns_ok r \<longrightarrow> lease_columns_ok (renew_row now ttl r))"
  "ws_lease_token (ready_row now h d r) = ws_lease_token r \<and> (lease_columns_ok r \<longrightarrow> lease_columns_ok (ready_row now h d r))"
  "ws_lease_token (failed_row now m r) = ws_lease_token r \<and> (lease_columns_ok r \<longrightarrow> lease_columns_ok (failed_row now m r))"
  "ws_lease_token (unlock_row now h d r) = None \<and> lease_columns_ok (unlock_row now h d r)"
  "ws_lease_token (unlease_row now r) = None \<and> lease_columns_ok (unlease_row now r)"
  "ws_lease_token (archive_row now r) = None \<and> lease_columns_ok (archive_row now r)"
  "ws_lease_token (missing_row now r) = None \<and> lease_columns_ok (missing_row now r)"
  "ws_lease_token (drop_lease now r) = None \<and> lease_columns_ok (drop_lease now r)"
  by (auto simp: row_defs lease_columns_ok_def Let_def)

lemma holder_ops_keep:
  "renew now i tok ttl t = Inr (t', l) \<Longrightarrow> \<exists>P f. t' = update_where P f t \<and> keeps_or_drops ev P f"
  "release now i tok t = Inr t' \<Longrightarrow> \<exists>P f. t' = update_where P f t \<and> keeps_or_drops ev P f"
  "mark_ready now i tok h d t = Inr (t', w) \<Longrightarrow> \<exists>P f. t' = update_where P f t \<and> keeps_or_drops ev P f"
  "mark_failed now i tok m t = Inr t' \<Longrightarrow> \<exists>P f. t' = update_where P f t \<and> keeps_or_drops ev P f"
  "release_write now i tok h d t = Inr (t', w) \<Longrightarrow> \<exists>P f. t' = update_where P f t \<and> keeps_or_drops ev P f"
  "recover_daemon_leases now t = (t', ids) \<Longrightarrow> \<exists>P f. t' = update_where P f t \<and> keeps_or_drops ev P f"
  "archive now i t = Inr (t', w) \<Longrightarrow> \<exists>P f. t' = update_where P f t \<and> keeps_or_drops (WsArchivedEv (trim_space i)) P f"
  "\<exists>P f. mark_missing now i t = update_where P f t \<and> keeps_or_drops (WsMissingEv (trim_space i)) P f"
proof -
  have h: "keeps_or_drops ev P (renew_row now ttl)" "keeps_or_drops ev P (ready_row now h' d)"
    "keeps_or_drops ev P (failed_row now m')" "keeps_or_drops ev P (unlock_row now h' d)"
    "keeps_or_drops ev P (unlease_row now)" "keeps_or_drops ev P (drop_lease now)"
    if "\<And>r. P r \<Longrightarrow> ws_lease_token r \<noteq> None" for P h' m'
    using that by (auto simp: keeps_or_drops_def rows_keep_identity holder_rows)
  show "renew now i tok ttl t = Inr (t', l) \<Longrightarrow> \<exists>P f. t' = update_where P f t \<and> keeps_or_drops ev P f"
    using h(1) [of "\<lambda>r. holds_token i tok r \<and> lease_live now r"]
    by (auto simp: renew_def lease_result_Inr holds_token_def split: if_splits elim!: update_returning_Some)
  show "release now i tok t = Inr t' \<Longrightarrow> \<exists>P f. t' = update_where P f t \<and> keeps_or_drops ev P f"
    using h(6) [of "holds_token (trim_space i) (trim_space tok)"]
    by (auto simp: release_def Let_def holds_token_def)
  show "mark_ready now i tok h d t = Inr (t', w) \<Longrightarrow> \<exists>P f. t' = update_where P f t \<and> keeps_or_drops ev P f"
    using h(2) [of "\<lambda>r. holds_token i tok r \<and> lease_live now r" "trim_space h"]
    by (auto simp: mark_ready_def Let_def holds_token_def split: if_splits option.splits elim!: update_returning_Some)
  show "mark_failed now i tok m t = Inr t' \<Longrightarrow> \<exists>P f. t' = update_where P f t \<and> keeps_or_drops ev P f"
    using h(3) [of "holds_token i tok" "take 2048 (trim_space m)"]
    by (auto simp: mark_failed_def Let_def holds_token_def)
  show "release_write now i tok h d t = Inr (t', w) \<Longrightarrow> \<exists>P f. t' = update_where P f t \<and> keeps_or_drops ev P f"
    using h(4) [of "\<lambda>r. ws_status r = WsWriteLocked \<and> holds_token i tok r \<and> lease_live now r" "trim_space h"]
    by (auto simp: release_write_def Let_def holds_token_def split: if_splits option.splits elim!: update_returning_Some)
  show "recover_daemon_leases now t = (t', ids) \<Longrightarrow> \<exists>P f. t' = update_where P f t \<and> keeps_or_drops ev P f"
    using h(5) [of daemon_leased] by (auto simp: recover_daemon_leases_def daemon_leased_def)
  show "archive now i t = Inr (t', w) \<Longrightarrow> \<exists>P f. t' = update_where P f t \<and> keeps_or_drops (WsArchivedEv (trim_space i)) P f"
    by (auto simp: archive_def Let_def keeps_or_drops_def rows_keep_identity holder_rows split: option.splits
        elim!: update_returning_Some intro!: exI [of _ "archive_row now"]
        exI [of _ "\<lambda>r. ws_id r = trim_space i \<and> (ws_lease_token r = None \<or> ws_lease_expires_at r = None \<or> lease_expired now r)"])
  show "\<exists>P f. mark_missing now i t = update_where P f t \<and> keeps_or_drops (WsMissingEv (trim_space i)) P f"
    by (rule exI [of _ "\<lambda>r. ws_id r = trim_space i"], rule exI [of _ "missing_row now"])
      (simp add: mark_missing_def keeps_or_drops_def rows_keep_identity holder_rows)
qed

subsection \<open>Invariant\<close>

lemma ensure_effect:
  assumes "ensure_for_workflow root source new_id now i t = Inr (t', w, s)"
  shows "t' = t \<or> (\<exists>r. t' = t @ [r] \<and> ws_id r \<notin> ws_id ` set t \<and> ws_workflow_job_id r \<notin> ws_workflow_job_id ` set t
     \<and> ws_path r \<notin> ws_path ` set t \<and> ws_lease_token r = None \<and> lease_columns_ok r)"
  using assms
  by (auto simp: ensure_for_workflow_def insert_workspace_def new_workspace_def lease_columns_ok_def Let_def rbind_def
      split: sum.splits option.splits if_splits)

lemma ws_step_effect:
  assumes "ws_step T t ev T' t'"
  obtains (kept) "t' = t" "T' = T" "ev = WsOther"
  | (new) r where "t' = t @ [r]" "T' = T" "ev = WsOther" "ws_id r \<notin> ws_id ` set t"
      "ws_workflow_job_id r \<notin> ws_workflow_job_id ` set t" "ws_path r \<notin> ws_path ` set t"
      "ws_lease_token r = None" "lease_columns_ok r"
  | (grant) P f tok where "t' = update_where P f t" "tok \<notin> T" "T' = insert tok T" "ev = WsOther" "grants tok P f"
  | (holder) P f where "t' = update_where P f t" "T' = T" "keeps_or_drops ev P f"
  using assms
proof cases
  case s_ensure
  then show ?thesis using ensure_effect [OF s_ensure(3)] kept new by blast
next
  case s_acquire
  then show ?thesis using lease_ops_grant(1) grant by blast
next
  case s_write
  then show ?thesis using lease_ops_grant(2) grant by blast
next
  case s_restart
  then show ?thesis using lease_ops_grant(3) grant by blast
next
  case s_renew
  then show ?thesis using holder_ops_keep(1) holder by blast
next
  case s_release
  then show ?thesis using holder_ops_keep(2) holder by blast
next
  case s_ready
  then show ?thesis using holder_ops_keep(3) holder by blast
next
  case s_failed
  then show ?thesis using holder_ops_keep(4) holder by blast
next
  case s_release_write
  then show ?thesis using holder_ops_keep(5) holder by blast
next
  case s_recover
  then show ?thesis using holder_ops_keep(6) holder by blast
next
  case s_archive
  then show ?thesis using holder_ops_keep(7) holder by blast
next
  case s_missing
  then show ?thesis using holder_ops_keep(8) holder by blast
qed

lemma update_keeps_ws_ok:
  assumes "ws_ok t" "keeps_identity f" "\<And>r. r \<in> set t \<Longrightarrow> P r \<Longrightarrow> lease_columns_ok (f r)"
  shows "ws_ok (update_where P f t)"
proof -
  have k: "ws_id (f r) = ws_id r" "ws_workflow_job_id (f r) = ws_workflow_job_id r" "ws_path (f r) = ws_path r" for r
    using assms(2) by (simp_all add: keeps_identity_def)
  have "\<forall>r\<in>set (update_where P f t). lease_columns_ok r"
    by (rule ball_update_where) (use assms(1,3) in \<open>auto simp: ws_ok_def\<close>)
  then show ?thesis
    using assms(1) by (simp add: ws_ok_def unique_key_update_where k)
qed

lemma ws_step_ok: "ws_step T t ev T' t' \<Longrightarrow> ws_ok t \<Longrightarrow> ws_ok t'"
proof (erule ws_step_effect)
  fix r assume "ws_ok t" "t' = t @ [r]" "ws_id r \<notin> ws_id ` set t" "ws_workflow_job_id r \<notin> ws_workflow_job_id ` set t"
    "ws_path r \<notin> ws_path ` set t" "lease_columns_ok r"
  then show "ws_ok t'" by (simp add: ws_ok_def)
next
  fix P f tok assume "ws_ok t" "t' = update_where P f t" "grants tok P f"
  then show "ws_ok t'" using update_keeps_ws_ok [of t f P] by (simp add: grants_def)
next
  fix P f assume "ws_ok t" "t' = update_where P f t" "keeps_or_drops ev P f"
  then show "ws_ok t'" using update_keeps_ws_ok [of t f P] by (simp add: keeps_or_drops_def ws_ok_def)
qed simp

text \<open>C0: every history of workspace operations from an empty table keeps the table well formed: the
  id, the workflow and the path of a workspace are each unique, and the three lease columns are NULL
  together or set together.\<close>

lemma workspace_invariant:
  assumes "ws_run {} [] evs T t"
  shows "ws_ok t"
  using assms
proof (induction "{} :: string set" "[] :: ws_table" evs T t rule: ws_run.induct)
  case wr_refl
  then show ?case by (simp add: ws_ok_def unique_key_def)
next
  case (wr_step evs T' t' ev T'' t'')
  then show ?case using ws_step_ok by blast
qed

subsection \<open>Fencing\<close>

definition held_by :: "string \<Rightarrow> string \<Rightarrow> ws_table \<Rightarrow> bool" where
  "held_by i tok t = (\<exists>r\<in>set t. holds_token i tok r)"

lemma ws_step_not_held:
  assumes "ws_step T t ev T' t'" "tok \<in> T" "\<not> held_by i tok t"
  shows "tok \<in> T' \<and> \<not> held_by i tok t'"
  using assms(1)
proof (cases rule: ws_step_effect)
  case (grant P f new)
  then have "new \<noteq> tok" using assms(2) by auto
  then have "\<not> holds_token i tok (f r)" if "P r" for r
    using grant(5) that by (auto simp: grants_def holds_token_def)
  then show ?thesis using grant assms by (auto simp: held_by_def set_update_where)
next
  case (holder P f)
  then have "\<not> holds_token i tok (f r)" if "r \<in> set t" "P r" for r
    using assms(3) that by (fastforce simp: keeps_or_drops_def keeps_identity_def held_by_def holds_token_def)
  then show ?thesis using holder assms by (auto simp: held_by_def set_update_where)
qed (use assms in \<open>auto simp: held_by_def holds_token_def\<close>)

lemma ws_run_not_held:
  assumes "ws_run T t evs T' t'" "tok \<in> T" "\<not> held_by i tok t"
  shows "tok \<in> T' \<and> \<not> held_by i tok t'"
  using assms by (induction rule: ws_run.induct) (simp, metis ws_step_not_held)

text \<open>A holder's operations all need the row to hold the token.\<close>

lemma not_held_fails:
  assumes "\<not> held_by i tok t" "trim_space i = i" "trim_space tok = tok" "i \<noteq> []" "tok \<noteq> []"
  shows "ttl > 0 \<Longrightarrow> renew now i tok ttl t = Inl WsLeaseLost"
    "release now i tok t = Inl WsLeaseLost"
    "trim_space h \<noteq> [] \<Longrightarrow> mark_ready now i tok h d t = Inl WsLeaseLost"
    "mark_failed now i tok m t = Inl WsLeaseLost"
    "trim_space h \<noteq> [] \<Longrightarrow> release_write now i tok h d t = Inl WsLeaseLost"
proof -
  have n: "\<forall>r\<in>set t. \<not> holds_token i tok r" using assms(1) by (simp add: held_by_def)
  then have a: "affected (holds_token i tok) t = 0" by simp
  have u: "update_returning (\<lambda>r. holds_token i tok r \<and> Q r) f t = None" for Q f using n by simp
  have u': "update_returning (\<lambda>r. Q r \<and> holds_token i tok r \<and> Q' r) f t = None" for Q Q' f using n by simp
  show "ttl > 0 \<Longrightarrow> renew now i tok ttl t = Inl WsLeaseLost"
    using assms(2-5) by (simp add: renew_def lease_result_def u)
  show "release now i tok t = Inl WsLeaseLost"
    using assms(2-5) by (simp add: release_def a require_one_lease_def guardE_def rbind_def)
  show "trim_space h \<noteq> [] \<Longrightarrow> mark_ready now i tok h d t = Inl WsLeaseLost"
    by (simp add: mark_ready_def u)
  show "mark_failed now i tok m t = Inl WsLeaseLost"
    by (simp add: mark_failed_def a require_one_lease_def guardE_def rbind_def Let_def)
  show "trim_space h \<noteq> [] \<Longrightarrow> release_write now i tok h d t = Inl WsLeaseLost"
    using assms(2-5) by (simp add: release_write_def u')
qed

lemma update_returning_grants:
  assumes "update_returning P f t = Some (t', r)" "\<And>r. P r \<Longrightarrow> ws_id r = i"
    "\<And>r. ws_id (f r) = ws_id r \<and> ws_lease_token (f r) = Some tok"
  shows "\<exists>r\<in>set t'. ws_id r = i \<and> ws_lease_token r = Some tok"
  using assms(1)
proof (rule update_returning_Some)
  fix s assume s: "s \<in> set t" "P s" "t' = update_where P f t" "r = f s"
  then have "f s \<in> set t'" by (simp add: set_update_where)
  then show ?thesis using assms(2) [OF s(2)] assms(3) by metis
qed

definition grants_lease :: "string \<Rightarrow> string \<Rightarrow> instant \<Rightarrow> string \<Rightarrow> int \<Rightarrow> ws_table \<Rightarrow> ws_error + ws_table \<times> lease \<Rightarrow> bool" where
  "grants_lease tok i now own ttl t x = (x \<in> {acquire tok now i own ttl t, acquire_write tok now i own ttl t,
     acquire_restart tok now i own ttl t})"

lemma granted_row:
  assumes "grants_lease tok i now own ttl t (Inr (t', l))" "ws_ok t" "trim_space i = i"
  shows "ws_ok t'" "\<exists>r\<in>set t'. ws_id r = i \<and> ws_lease_token r = Some tok"
proof -
  have c: "acquire tok now i own ttl t = Inr (t', l) \<or> acquire_write tok now i own ttl t = Inr (t', l)
      \<or> acquire_restart tok now i own ttl t = Inr (t', l)"
    using assms(1) by (auto simp: grants_lease_def)
  then have "\<exists>P f. t' = update_where P f t \<and> grants tok P f"
    by (elim disjE) (erule lease_ops_grant)+
  then obtain P f where "t' = update_where P f t" "grants tok P f" by blast
  then show "ws_ok t'" using update_keeps_ws_ok [OF assms(2)] by (simp add: grants_def)
  have f: "ws_id (g r) = ws_id r \<and> ws_lease_token (g r) = Some tok"
    if "g \<in> {acquire_row o' tok now ttl, write_row o' tok now ttl, restart_row o' tok now ttl}" for g r o'
    using that by (auto simp: row_defs)
  have "\<exists>Q g r. update_returning (\<lambda>r. ws_id r = i \<and> Q r) g t = Some (t', r)
      \<and> g \<in> {acquire_row (trim_space own) tok now ttl, write_row (trim_space own) tok now ttl,
        restart_row (trim_space own) tok now ttl}"
    using c by (elim disjE) (use assms(3) in \<open>force simp: acquire_def acquire_write_def acquire_restart_def
        Let_def lease_result_Inr split: if_splits\<close>)+
  then obtain Q g r where u: "update_returning (\<lambda>r. ws_id r = i \<and> Q r) g t = Some (t', r)"
      "g \<in> {acquire_row (trim_space own) tok now ttl, write_row (trim_space own) tok now ttl,
        restart_row (trim_space own) tok now ttl}" by blast
  show "\<exists>r\<in>set t'. ws_id r = i \<and> ws_lease_token r = Some tok"
    by (rule update_returning_grants [OF u(1) conjunct1 f [OF u(2)]])
qed

text \<open>C0: leases are fenced. When a lease of a workspace is granted to a new token, an older token is dead
  on that workspace: after any further operations, renewing, releasing, marking the workspace ready or
  failed and releasing the write lock with the old token all fail with the lease lost, and none of them
  changes the table.\<close>

lemma stale_token_is_fenced:
  assumes "ws_ok t" "trim_space i = i" "i \<noteq> []" "trim_space old = old" "old \<noteq> []"
    and "old \<in> T" "new \<notin> T" "grants_lease new i now own ttl t (Inr (t1, l))"
    and "ws_run (insert new T) t1 evs T2 t2"
  shows "(ttl' > 0 \<longrightarrow> renew now' i old ttl' t2 = Inl WsLeaseLost) \<and> release now' i old t2 = Inl WsLeaseLost
    \<and> mark_failed now' i old m t2 = Inl WsLeaseLost
    \<and> (trim_space h \<noteq> [] \<longrightarrow> mark_ready now' i old h d t2 = Inl WsLeaseLost
        \<and> release_write now' i old h d t2 = Inl WsLeaseLost)"
proof -
  note g = granted_row [OF assms(8,1,2)]
  obtain r where r: "r \<in> set t1" "ws_id r = i" "ws_lease_token r = Some new" using g(2) by blast
  have "new \<noteq> old" using assms(6,7) by blast
  have "\<not> holds_token i old s" if "s \<in> set t1" for s
  proof
    assume a: "holds_token i old s"
    have "unique_key ws_id t1" using g(1) by (simp add: ws_ok_def)
    then have "r = s" using unique_keyD [of ws_id t1 r s] r(1,2) that a by (simp add: holds_token_def)
    then show False using a r(3) \<open>new \<noteq> old\<close> by (simp add: holds_token_def)
  qed
  then have "\<not> held_by i old t1" by (simp add: held_by_def)
  then have h: "\<not> held_by i old t2" using ws_run_not_held [OF assms(9)] assms(6) by blast
  show ?thesis using not_held_fails [OF h assms(2,4,3,5)] by simp
qed

subsection \<open>What the operations keep\<close>

definition ws_ids :: "ws_table \<Rightarrow> (string \<times> string) list" where
  "ws_ids t = map (\<lambda>r. (ws_id r, ws_workflow_job_id r)) t"

definition lease_only :: "string \<Rightarrow> string \<Rightarrow> ws_table \<Rightarrow> bool" where
  "lease_only i tok t = (\<forall>r\<in>set t. ws_lease_token r = Some tok \<longrightarrow> ws_id r = i)"

definition unused_token :: "string \<Rightarrow> ws_table \<Rightarrow> bool" where
  "unused_token tok t = (\<forall>r\<in>set t. ws_lease_token r \<noteq> Some tok)"

lemma ws_ids_update: "keeps_identity f \<Longrightarrow> ws_ids (update_where P f t) = ws_ids t"
  by (simp add: ws_ids_def update_where_def keeps_identity_def)

lemma keeps_or_drops_update:
  assumes "keeps_or_drops ev P f" "ws_ok t"
  shows "ws_ok (update_where P f t) \<and> ws_ids (update_where P f t) = ws_ids t
    \<and> (lease_only i tok t \<longrightarrow> lease_only i tok (update_where P f t))"
proof -
  have "ws_ok (update_where P f t)"
    using assms update_keeps_ws_ok [of t f P] by (simp add: keeps_or_drops_def ws_ok_def)
  moreover have "lease_only i tok (update_where P f t)" if "lease_only i tok t"
    using that assms(1) by (fastforce simp: lease_only_def set_update_where keeps_or_drops_def keeps_identity_def)
  ultimately show ?thesis using assms(1) ws_ids_update by (simp add: keeps_or_drops_def)
qed

lemma holder_op_keeps:
  assumes "\<exists>P f. t' = update_where P f t \<and> keeps_or_drops ev P f" "ws_ok t"
  shows "ws_ok t' \<and> ws_ids t' = ws_ids t \<and> (lease_only i tok t \<longrightarrow> lease_only i tok t')"
  using assms keeps_or_drops_update by blast

lemma granted_keeps:
  assumes "grants_lease tok i now own ttl t (Inr (t', l))" "ws_ok t" "unused_token tok t" "trim_space i = i"
  shows "ws_ok t' \<and> ws_ids t' = ws_ids t \<and> lease_only i tok t' \<and> snd l = tok"
proof -
  have c: "acquire tok now i own ttl t = Inr (t', l) \<or> acquire_write tok now i own ttl t = Inr (t', l)
      \<or> acquire_restart tok now i own ttl t = Inr (t', l)"
    using assms(1) by (auto simp: grants_lease_def)
  have form: "\<exists>Q g. t' = update_where (\<lambda>r. ws_id r = i \<and> Q r) g t \<and> keeps_identity g \<and> snd l = tok"
    if "lease_result tok e (update_returning (\<lambda>r. ws_id r = i \<and> Q r) g t) = Inr (t', l)" "keeps_identity g" for e Q g
    by (intro exI [of _ Q] exI [of _ g]) (use that in \<open>auto simp: lease_result_Inr elim!: update_returning_Some\<close>)
  have "\<exists>Q g. t' = update_where (\<lambda>r. ws_id r = i \<and> Q r) g t \<and> keeps_identity g \<and> snd l = tok"
    using c
  proof (elim disjE)
    assume "acquire tok now i own ttl t = Inr (t', l)"
    then show ?thesis
      by (intro form [OF _ rows_keep_identity(1)]) (use assms(4) in \<open>simp add: acquire_def Let_def split: if_splits\<close>)
  next
    assume "acquire_write tok now i own ttl t = Inr (t', l)"
    then show ?thesis
      by (intro form [OF _ rows_keep_identity(5)]) (use assms(4) in \<open>simp add: acquire_write_def Let_def split: if_splits\<close>)
  next
    assume "acquire_restart tok now i own ttl t = Inr (t', l)"
    then show ?thesis
      by (intro form [OF _ rows_keep_identity(7)]) (use assms(4) in \<open>simp add: acquire_restart_def Let_def split: if_splits\<close>)
  qed
  then obtain Q g where q: "t' = update_where (\<lambda>r. ws_id r = i \<and> Q r) g t" "keeps_identity g" "snd l = tok" by blast
  have "lease_only i tok t'"
    using q(2) assms(3) by (auto simp: q(1) lease_only_def set_update_where unused_token_def keeps_identity_def)
  then show ?thesis using q ws_ids_update granted_row(1) [OF assms(1,2,4)] by blast
qed

lemma mark_ready_row:
  assumes "mark_ready now i tok h d t = Inr (t', w)"
  shows "\<exists>r\<in>set t'. ws_id r = i \<and> ws_status r = WsReady \<and> ws_dirty r = d \<and> ws_head_sha r = trim_space h
    \<and> w = scan_workspace r"
proof -
  obtain r where u: "update_returning (\<lambda>r. holds_token i tok r \<and> lease_live now r)
      (ready_row now (trim_space h) d) t = Some (t', r)" "w = scan_workspace r"
    using assms by (auto simp: mark_ready_def Let_def split: if_splits option.splits)
  show ?thesis
    by (rule update_returning_Some [OF u(1)])
      (use u(2) in \<open>auto simp: set_update_where holds_token_def ready_row_def intro!: bexI [where x = r]\<close>)
qed

subsection \<open>The contract of a lease store\<close>

text \<open>What a handler relies on when it defers the release of its lease: whatever happens in between,
  afterwards nobody holds that lease. \<open>ok\<close> is the invariant of the store.\<close>

locale lease_store =
  fixes ok :: "'t \<Rightarrow> bool" and held :: "'i \<Rightarrow> 'k \<Rightarrow> 't \<Rightarrow> bool" and give_back :: "'i \<Rightarrow> 'k \<Rightarrow> 't \<Rightarrow> 'e + 't"
  assumes given_back: "ok t \<Longrightarrow> give_back i k t = Inr t' \<Longrightarrow> \<not> held i k t' \<and> ok t'"
    and not_given_back: "ok t \<Longrightarrow> give_back i k t = Inl e \<Longrightarrow> \<not> held i k t"
begin

definition after_release :: "'i \<Rightarrow> 'k \<Rightarrow> 't \<Rightarrow> 't" where
  "after_release i k t = (case give_back i k t of Inl _ \<Rightarrow> t | Inr t' \<Rightarrow> t')"

lemma after_release_free: "ok t \<Longrightarrow> \<not> held i k (after_release i k t) \<and> ok (after_release i k t)"
  using given_back not_given_back by (auto simp: after_release_def split: sum.splits)

lemma deferred_release:
  assumes "post m w (\<lambda>r w1. ok (table w1) \<and> Q r (clean w1))" "\<And>w1. table (clean w1) = after_release i k (table w1)"
  shows "post (finally_do m clean) w (\<lambda>r w'. Q r w' \<and> \<not> held i k (table w') \<and> ok (table w'))"
  unfolding post_finally by (rule post_mono [OF assms(1)]) (auto simp: assms(2) after_release_free)

end

lemma release_drops:
  assumes "ws_ok t" "release now i tok t = Inr t'"
  shows "\<not> held_by (trim_space i) (trim_space tok) t' \<and> ws_ok t'"
proof -
  have t': "t' = update_where (holds_token (trim_space i) (trim_space tok)) (drop_lease now) t"
    using assms(2) by (auto simp: release_def Let_def)
  have "ws_ok t'" unfolding t'
    by (rule update_keeps_ws_ok [OF assms(1) rows_keep_identity(11)]) (simp add: holder_rows)
  then show ?thesis unfolding t' by (auto simp: held_by_def set_update_where holds_token_def drop_lease_def)
qed

lemma release_refused:
  assumes "ws_ok t" "release now i tok t = Inl e"
  shows "\<not> held_by (trim_space i) (trim_space tok) t"
proof -
  have "affected (holds_token (trim_space i) (trim_space tok)) t \<noteq> 1"
    using assms(2) by (auto simp: release_def Let_def require_one_lease_def guardE_def split: if_splits)
  moreover have "affected (holds_token (trim_space i) (trim_space tok)) t = 1 \<longleftrightarrow>
      (\<exists>r\<in>set t. holds_token (trim_space i) (trim_space tok) r)"
    by (rule affected_eq1_iff [where k = ws_id]) (use assms(1) in \<open>simp_all add: ws_ok_def holds_token_def\<close>)
  ultimately show ?thesis by (simp add: held_by_def)
qed

interpretation ls: lease_store ws_ok "\<lambda>(now, i) tok t. held_by (trim_space i) (trim_space tok) t"
  "\<lambda>(now, i) tok t. release now i tok t"
  by unfold_locales (auto simp: release_drops dest: release_refused)

subsection \<open>Live leases\<close>

lemma refused_when_row_refuses:
  assumes "ws_ok t" "lookup_by ws_id i t = Some r" "\<not> Q r"
  shows "update_returning (\<lambda>s. ws_id s = i \<and> Q s) f t = None"
proof -
  have "s = r" if "s \<in> set t" "ws_id s = i" for s
    using unique_keyD [of ws_id t s r] lookup_by_Some [OF assms(2)] that assms(1) by (simp add: ws_ok_def)
  then show ?thesis using assms(3) by auto
qed

lemma live_not_expired: "lease_live now r \<Longrightarrow> \<not> lease_expired now r"
  by (auto simp: lease_live_def lease_expired_def split: option.splits)

text \<open>C0: a live lease is exclusive. While the lease of a workspace has not expired, a different owner
  can take neither the preparation lease nor the write lock, nobody can restart or archive the
  workspace, and each of these calls reports the lease as unavailable.\<close>

lemma live_lease_is_exclusive:
  assumes "ws_ok t" "lookup_by ws_id (trim_space i) t = Some r" "lease_live now r"
    and "ws_lease_owner r \<noteq> Some (trim_space own)" "trim_space i \<noteq> []" "trim_space own \<noteq> []" "ttl > 0"
  shows "acquire tok now i own ttl t = Inl WsLeaseUnavailable
    \<and> acquire_write tok now i own ttl t = Inl WsLeaseUnavailable
    \<and> acquire_restart tok now i own' ttl t \<in> {Inl WsInvalid, Inl WsLeaseUnavailable}
    \<and> archive now i t = Inl WsLeaseUnavailable"
proof -
  note ref = refused_when_row_refuses [OF assms(1,2)]
  have e: "\<not> lease_expired now r" using live_not_expired assms(3) by blast
  have x: "ws_lease_expires_at r \<noteq> None" using assms(3) by (auto simp: lease_live_def split: option.splits)
  have "lease_columns_ok r" using assms(1) lookup_by_Some [OF assms(2)] by (simp add: ws_ok_def)
  then have k: "ws_lease_token r \<noteq> None" using x by (simp add: lease_columns_ok_def)
  have n: "no_row t (trim_space i) = WsLeaseUnavailable" using assms(2) by (simp add: no_row_def)
  have "\<not> can_acquire now (trim_space own) r" using e k assms(4) by (simp add: can_acquire_def)
  then have a: "acquire tok now i own ttl t = Inl WsLeaseUnavailable"
    using assms(5-7) by (simp add: acquire_def lease_result_def n ref Let_def del: update_returning_None)
  have "\<not> can_acquire_write now (trim_space own) r" using e k assms(4) by (simp add: can_acquire_write_def)
  then have b: "acquire_write tok now i own ttl t = Inl WsLeaseUnavailable"
    using assms(5-7) by (simp add: acquire_write_def lease_result_def n ref Let_def del: update_returning_None)
  have "\<not> can_acquire_restart now r" using e k by (simp add: can_acquire_restart_def)
  then have c: "acquire_restart tok now i own' ttl t \<in> {Inl WsInvalid, Inl WsLeaseUnavailable}"
    by (simp add: acquire_restart_def lease_result_def n ref Let_def del: update_returning_None)
  have "archive now i t = Inl WsLeaseUnavailable"
    using ref [of "\<lambda>r. ws_lease_token r = None \<or> ws_lease_expires_at r = None \<or> lease_expired now r"] e k x
    by (simp add: archive_def n Let_def del: update_returning_None)
  then show ?thesis using a b c by blast
qed

subsection \<open>A released write lock\<close>

definition stuck_row :: "ws_row \<Rightarrow> bool" where
  "stuck_row r = (ws_status r = WsWriteLocked \<and> ws_lease_owner r = None \<and> ws_lease_token r = None
     \<and> ws_lease_expires_at r = None)"

lemma stuck_step:
  assumes "ws_step T t ev T' t'" "r \<in> set t" "stuck_row r" "ev \<notin> {WsArchivedEv (ws_id r), WsMissingEv (ws_id r)}"
  shows "r \<in> set t'"
  using assms(1)
proof (cases rule: ws_step_effect)
  case (grant P f new)
  then have "\<not> P r" using assms(3) by (auto simp: grants_def stuck_row_def)
  then show ?thesis using grant assms(2) by (simp add: set_update_where)
next
  case (holder P f)
  then have "\<not> P r" using assms(3,4) by (auto simp: keeps_or_drops_def stuck_row_def)
  then show ?thesis using holder assms(2) by (simp add: set_update_where)
qed (use assms(2) in auto)

lemma stuck_run:
  assumes "ws_run T t evs T' t'" "r \<in> set t" "stuck_row r"
    "set evs \<inter> {WsArchivedEv (ws_id r), WsMissingEv (ws_id r)} = {}"
  shows "r \<in> set t'"
  using assms
proof (induction rule: ws_run.induct)
  case (wr_step T t evs T' t' ev T'' t'')
  then have "r \<in> set t'" by auto
  then show ?case using stuck_step [OF wr_step.hyps(2)] wr_step.prems by auto
qed simp

lemma ws_run_ok: "ws_run T t evs T' t' \<Longrightarrow> ws_ok t \<Longrightarrow> ws_ok t'"
  by (induction rule: ws_run.induct) (simp, metis ws_step_ok)

lemma stuck_refuses:
  assumes "stuck_row r"
  shows "\<not> can_acquire now own r" "\<not> can_acquire_write now own r" "\<not> can_acquire_restart now r"
  using assms by (auto simp: stuck_row_def can_acquire_def can_acquire_write_def can_acquire_restart_def lease_expired_def)

text \<open>C0: giving a write lock back with the plain \<open>Release\<close> leaves the workspace locked for good. The row
  keeps the status WRITE_LOCKED with no lease; whatever is done afterwards, short of archiving it or
  finding its directory missing, the row stays as it is, and every acquisition (for preparation, for
  writing, for a restart) is refused as unavailable: expiry never frees it, and the recovery of daemon
  leases at start-up does not select it.\<close>

lemma released_write_lock_is_stuck:
  assumes "ws_ok t" "lookup_by ws_id (trim_space i) t = Some r" "ws_status r = WsWriteLocked"
    and "ws_lease_token r = Some (trim_space tok)" "release now i tok t = Inr t1"
    and "ws_run T t1 evs T2 t2"
    and "set evs \<inter> {WsArchivedEv (trim_space i), WsMissingEv (trim_space i)} = {}"
    and "trim_space own \<noteq> []" "trim_space i \<noteq> []" "ttl > 0"
  shows "lookup_by ws_id (trim_space i) t2 = Some (drop_lease now r)
    \<and> acquire tok' now' i own ttl t2 = Inl WsLeaseUnavailable
    \<and> acquire_write tok' now' i own ttl t2 = Inl WsLeaseUnavailable
    \<and> acquire_restart tok' now' i own ttl t2 = Inl WsLeaseUnavailable"
proof -
  let ?i = "trim_space i" and ?r = "drop_lease now r"
  have r: "r \<in> set t" "ws_id r = ?i" using lookup_by_Some [OF assms(2)] by auto
  have t1: "t1 = update_where (holds_token ?i (trim_space tok)) (drop_lease now) t"
    using assms(5) by (auto simp: release_def Let_def)
  have st: "stuck_row ?r" using assms(3) by (simp add: stuck_row_def drop_lease_def)
  have i: "ws_id ?r = ?i" using r by (simp add: drop_lease_def)
  have "?r \<in> set t1" using r assms(4) unfolding t1 by (auto simp: set_update_where holds_token_def)
  then have m: "?r \<in> set t2" using stuck_run [OF assms(6) _ st] assms(7) i by simp
  have "ws_ok t1"
    unfolding t1 by (rule update_keeps_ws_ok [OF assms(1) rows_keep_identity(11)]) (simp add: holder_rows)
  then have ok: "ws_ok t2" using ws_run_ok [OF assms(6)] by simp
  then have l: "lookup_by ws_id ?i t2 = Some ?r"
    using lookup_by_unique [of ws_id t2 ?r] m i by (simp add: ws_ok_def)
  note ref = refused_when_row_refuses [OF ok l]
  have n: "no_row t2 ?i = WsLeaseUnavailable" using l by (simp add: no_row_def)
  have "acquire tok' now' i own ttl t2 = Inl WsLeaseUnavailable"
    using assms(8-10) stuck_refuses(1) [OF st]
    by (simp add: acquire_def lease_result_def n ref Let_def del: update_returning_None)
  moreover have "acquire_write tok' now' i own ttl t2 = Inl WsLeaseUnavailable"
    using assms(8-10) stuck_refuses(2) [OF st]
    by (simp add: acquire_write_def lease_result_def n ref Let_def del: update_returning_None)
  moreover have "acquire_restart tok' now' i own ttl t2 = Inl WsLeaseUnavailable"
    using assms(8-10) stuck_refuses(3) [OF st]
    by (simp add: acquire_restart_def lease_result_def n ref Let_def del: update_returning_None)
  ultimately show ?thesis using l by blast
qed

subsection \<open>Examples\<close>

definition sample_source :: "string \<Rightarrow> ws_source option" where
  "sample_source i = Some \<lparr> src_project_id = ''p1'', src_repository_id = ''r1'',
     src_base_commit_sha = ''abc'', src_local_path = ''/repo'' \<rparr>"

definition sample_ws :: ws_row where
  "sample_ws = \<lparr> ws_id = ''ws1'', ws_workflow_job_id = ''wf1'', ws_project_id = ''p1'',
     ws_repository_id = ''r1'', ws_path = ''/root/wf1'', ws_base_commit_sha = ''abc'', ws_head_sha = ''abc'',
     ws_status = WsWriteLocked, ws_dirty = False, ws_lease_owner = Some ''w1'', ws_lease_token = Some ''t1'',
     ws_lease_expires_at = Some 1000, ws_failure_message = None, ws_created_at = 1, ws_updated_at = 1 \<rparr>"

lemmas trim_samples = trim_space_plain_Cons [of "CHR ''w''" "''s1''"] trim_space_plain_Cons [of "CHR ''t''" "''1''"]
  trim_space_plain_Cons [of "CHR ''t''" "''2''"] trim_space_plain_Cons [of "CHR ''w''" "''1''"]
  trim_space_plain_Cons [of "CHR ''w''" "''2''"] trim_space_plain_Cons [of "CHR ''w''" "''f1''"]

lemma trim_samples' [simp]: "trim_space ''ws1'' = ''ws1''" "trim_space ''t1'' = ''t1''" "trim_space ''t2'' = ''t2''"
  "trim_space ''w1'' = ''w1''" "trim_space ''w2'' = ''w2''" "trim_space ''wf1'' = ''wf1''"
  by (simp_all add: trim_samples plain_char_def)

lemma sample_ok: "ws_ok [sample_ws]"
  by (simp add: ws_ok_def sample_ws_def lease_columns_ok_def unique_key_def)

lemma workspace_invariant_witness:
  "\<exists>t. ws_run {} [] [WsOther] {} t \<and> length t = 1 \<and> ws_ok t"
proof -
  have "\<exists>t' w s. ensure_for_workflow ''/root'' sample_source ''ws1'' 0 ''wf1'' [] = Inr (t', w, s) \<and> length t' = 1"
    by (simp add: ensure_for_workflow_def sample_source_def insert_workspace_def load_by_workflow_def lookup_by_def
        validate_identifier_def safe_id_char_def rbind_def Let_def)
  then obtain t' w s where e: "ensure_for_workflow ''/root'' sample_source ''ws1'' 0 ''wf1'' [] = Inr (t', w, s)" "length t' = 1"
    by blast
  have "ws_run {} [] ([] @ [WsOther]) {} t'" by (rule wr_step [OF wr_refl s_ensure [OF e(1)]])
  then have run: "ws_run {} [] [WsOther] {} t'" by simp
  show ?thesis using run e(2) workspace_invariant [OF run] by blast
qed

text \<open>The write lease of the sample expires at 1000 ms and another worker takes it over at 2000 ms.\<close>

lemma stale_token_is_fenced_witness:
  "\<exists>t1 l. acquire_write ''t2'' 2000000000 ''ws1'' ''w2'' 60000000000 [sample_ws] = Inr (t1, l)
     \<and> release 2000000001 ''ws1'' ''t1'' t1 = Inl WsLeaseLost"
proof -
  have "\<exists>t1 l. acquire_write ''t2'' 2000000000 ''ws1'' ''w2'' 60000000000 [sample_ws] = Inr (t1, l)"
    by (simp add: acquire_write_def lease_result_def update_returning_def can_acquire_write_def sample_ws_def
        lease_expired_def unix_milli_def Let_def)
  then obtain t1 l where a: "acquire_write ''t2'' 2000000000 ''ws1'' ''w2'' 60000000000 [sample_ws] = Inr (t1, l)" by blast
  have g: "grants_lease ''t2'' ''ws1'' 2000000000 ''w2'' 60000000000 [sample_ws] (Inr (t1, l))"
    by (simp add: grants_lease_def a)
  show ?thesis
    using a stale_token_is_fenced [OF sample_ok _ _ _ _ _ _ g wr_refl, of "''t1''" "{''t1''}" 1 2000000001] by simp
qed

lemma live_lease_is_exclusive_witness:
  "acquire_write ''t2'' 500000000 ''ws1'' ''w2'' 60000000000 [sample_ws] = Inl WsLeaseUnavailable
     \<and> archive 500000000 ''ws1'' [sample_ws] = Inl WsLeaseUnavailable"
proof -
  have l: "lookup_by ws_id (trim_space ''ws1'') [sample_ws] = Some sample_ws"
    by (simp add: lookup_by_def sample_ws_def)
  have v: "lease_live 500000000 sample_ws" by (simp add: lease_live_def sample_ws_def unix_milli_def)
  have o': "ws_lease_owner sample_ws \<noteq> Some (trim_space ''w2'')" by (simp add: sample_ws_def)
  show ?thesis
    using live_lease_is_exclusive [OF sample_ok l v o', of 60000000000 "''t2''"] by simp
qed

lemma released_write_lock_is_stuck_witness:
  "\<exists>t1. release 500000000 ''ws1'' ''t1'' [sample_ws] = Inr t1
     \<and> acquire_write ''t2'' 900000000000 ''ws1'' ''w1'' 60000000000 t1 = Inl WsLeaseUnavailable"
proof -
  have l: "lookup_by ws_id (trim_space ''ws1'') [sample_ws] = Some sample_ws"
    by (simp add: lookup_by_def sample_ws_def)
  have s: "ws_status sample_ws = WsWriteLocked" "ws_lease_token sample_ws = Some (trim_space ''t1'')"
    by (simp_all add: sample_ws_def)
  have "\<exists>t1. release 500000000 ''ws1'' ''t1'' [sample_ws] = Inr t1"
    by (simp add: release_def affected_def holds_token_def sample_ws_def require_one_lease_def guardE_def rbind_def Let_def)
  then obtain t1 where r: "release 500000000 ''ws1'' ''t1'' [sample_ws] = Inr t1" by blast
  have "acquire_write ''t2'' 900000000000 ''ws1'' ''w1'' 60000000000 t1 = Inl WsLeaseUnavailable"
    using released_write_lock_is_stuck [OF sample_ok l s r wr_refl, of "''w1''" 60000000000 "''t2''" 900000000000] by simp
  then show ?thesis using r by blast
qed

end
