(* ===== verification/HandlerBase.thy ===== *)
theory HandlerBase
  imports Dispatch Workspace
begin

text \<open>What the stage handlers share: the errors of a superseded call, databases that differ in their activity events only,
  the effect of a transition as a reader sees it, when a FAIL transition is accepted, how a context ends, and the
  renewal of a lease.\<close>

text \<open>The two errors that say that somebody else changed the workflow first.\<close>

definition superseded :: "wf_error \<Rightarrow> bool" where
  "superseded e = (case e of ErrVersionConflict \<Rightarrow> True | ErrInvalidTransition _ _ \<Rightarrow> True | _ \<Rightarrow> False)"

subsection \<open>Databases up to events\<close>

definition same_db :: "wf_db \<Rightarrow> wf_db \<Rightarrow> bool" where
  "same_db db db' = (\<exists>evs. db' = db\<lparr> db_events := evs \<rparr>)"

lemma same_db_events [simp]: "same_db db (db'\<lparr> db_events := evs \<rparr>) \<longleftrightarrow> same_db db db'"
proof
  assume "same_db db (db'\<lparr> db_events := evs \<rparr>)"
  then obtain e' where "db'\<lparr> db_events := evs \<rparr> = db\<lparr> db_events := e' \<rparr>" by (auto simp: same_db_def)
  then have "db' = db\<lparr> db_events := db_events db' \<rparr>"
    by (cases db; cases db') simp
  then show "same_db db db'" unfolding same_db_def by blast
qed (auto simp: same_db_def)

lemma same_db_refl [simp]: "same_db db db"
  unfolding same_db_def by (rule exI [of _ "db_events db"]) simp

lemma same_db_trans: "same_db a b \<Longrightarrow> same_db b c \<Longrightarrow> same_db a c"
  by (auto simp: same_db_def)

lemma same_db_ok: "same_db db db' \<Longrightarrow> wf_db_ok db' = wf_db_ok db"
  by (unfold same_db_def) (elim exE, simp add: wf_db_ok_def)

lemma same_db_get: "same_db db db' \<Longrightarrow> wf_get db' i = wf_get db i"
  by (auto simp: same_db_def wf_get_def load_job_def)

subsection \<open>Transitions\<close>

lemma wf_get_Inr:
  assumes "wf_get db i = Inr w"
  shows "lookup_by wf_id (trim_space i) (db_workflows db) = Some w \<and> w \<in> set (db_workflows db) \<and> wf_id w = trim_space i"
  using assms lookup_by_Some [of wf_id "trim_space i" "db_workflows db" w]
  by (auto simp: wf_get_def load_job_def split: option.splits)

text \<open>What a successful transition shows afterwards.\<close>

lemma transition_shows:
  assumes "wf_transition e i inp db = Inr (db', w')" "wf_get db i = Inr w"
  shows "\<exists>nxt d. next_status (wf_status_of w) (action_of inp) (wf_retry_status w) = Some nxt
    \<and> w' = apply_transition e (action_of inp) inp nxt d w \<and> wf_get db' i = Inr w'"
  using assms(1)
proof (rule wf_transition_cases)
  fix w0 nxt details q d evs
  let ?f = "apply_transition e (action_of inp) inp nxt (dispatch_after w0 (action_of inp) d)"
  assume l: "lookup_by wf_id (trim_space i) (db_workflows db) = Some w0"
    and g: "transition_guards w0 (action_of inp) inp = Inr (nxt, details)"
    and db': "db' = db\<lparr> db_jobs := q,
       db_workflows := update_where (\<lambda>v. wf_id v = wf_id w0 \<and> wf_version v = wf_version w0) ?f (db_workflows db),
       db_transitions := db_transitions db @
         [logged e w0 (action_of inp) nxt (dispatch_after w0 (action_of inp) d) details (next_sequence db)],
       db_events := evs \<rparr>"
    and w': "w' = ?f w0"
  have "w0 = w" using wf_get_Inr [OF assms(2)] l by simp
  moreover have "wf_get db' i = Inr w'"
    using l w' by (simp add: db' wf_get_def load_job_def lookup_by_update_where)
  ultimately show ?thesis using w' transition_guards_Inr(1) [OF g] by blast
qed

lemma input_action_plain:
  "ti_action i = s \<Longrightarrow> trim_space s = s \<Longrightarrow> list_all upper_ascii s \<Longrightarrow> input_action i = s"
  by (simp add: input_action_def to_upper_id)

text \<open>A FAIL transition with a message is accepted in every status that can fail, whatever the code.\<close>

lemma fail_accepted:
  assumes "wf_db_ok db" "wf_get db (wf_id job) = Inr job" "wf_status_of job \<in> failure_statuses"
    and "input_action inp = ''FAIL''" "ti_expected_version inp = wf_version job"
    and "trim_space (ti_failure_message inp) \<noteq> []" "ti_details inp = Some d" "length (marshal (JObj d)) \<le> 32768"
  shows "\<exists>db' w'. wf_transition e (wf_id job) inp db = Inr (db', w')"
proof -
  have w: "job \<in> set (db_workflows db)" "trim_space (wf_id job) = wf_id job" "wf_row_ok job"
    using wf_get_Inr [OF assms(2)] assms(1) by (auto simp: wf_db_ok_def)
  have a: "action_of inp = ActFail" by (simp add: assms(4) action_of_string_def known_actions_def)
  have v: "1 \<le> wf_version job" "wf_id job \<noteq> []" using w(3) by (simp_all add: wf_row_ok_def)
  have "transition_guards job ActFail inp = Inr (StFailed, JObj d)"
    using assms(3,6-8) by (simp add: transition_guards_def check_continue_def next_status_def safe_details_def)
  then have "\<exists>x. wf_transition e (wf_id job) inp db = Inr x"
    by (intro transition_accepts [OF assms(1), where w = job and n = StFailed])
      (use w v a assms(4,5) in \<open>simp_all add: dispatch_type_def dispatch_for_def\<close>)
  then show ?thesis by auto
qed

lemma fail_shows:
  assumes "wf_transition e i inp db = Inr (db', w')" "wf_get db i = Inr w" "input_action inp = ''FAIL''"
  shows "wf_get db' i = Inr w' \<and> wf_status_of w \<in> failure_statuses \<and> wf_status_of w' = StFailed
    \<and> wf_version w' = wf_version w + 1 \<and> wf_retry_status w' = Some (wf_status_of w)
    \<and> wf_failure_code w' = nullable_string (let c = trim_space (ti_failure_code inp) in if c = [] then ''STAGE_FAILED'' else c)
    \<and> wf_failure_message w' = nullable_string (trim_space (ti_failure_message inp))
    \<and> wf_limits w' = wf_limits w \<and> wf_execution_version w' = wf_execution_version w"
proof -
  have a: "action_of inp = ActFail" by (simp add: assms(3) action_of_string_def known_actions_def)
  obtain nxt d where n: "next_status (wf_status_of w) ActFail (wf_retry_status w) = Some nxt"
    "w' = apply_transition e ActFail inp nxt d w" "wf_get db' i = Inr w'"
    using transition_shows [OF assms(1,2)] unfolding a by blast
  have "nxt = StFailed \<and> wf_status_of w \<in> failure_statuses"
    using n(1) by (auto simp: next_status_def split: if_splits)
  then show ?thesis using n(2,3) by (simp add: apply_transition_def failure_after_def Let_def)
qed

subsection \<open>The context and the lease of a stage\<close>

text \<open>How a context ends, and what the cancellation watcher of workflowjob/cancellation.go reports.\<close>

datatype ctx_error = CtxCanceled | CtxDeadline

datatype watch_result = WatchCancelled | WatchFailed string

definition ctx_text :: "ctx_error \<Rightarrow> string" where
  "ctx_text c = (case c of CtxCanceled \<Rightarrow> ''context canceled'' | CtxDeadline \<Rightarrow> ''context deadline exceeded'')"

text \<open>The goroutine that renews the lease stops at the first error.\<close>

fun renew_lease :: "int \<Rightarrow> string \<Rightarrow> string \<Rightarrow> instant list \<Rightarrow> ws_table \<Rightarrow> ws_table \<times> ws_error option" where
  "renew_lease ttl i tok [] t = (t, None)"
| "renew_lease ttl i tok (now # later) t =
     (case renew now i tok ttl t of
        Inl e \<Rightarrow> (t, Some e)
      | Inr (t', _) \<Rightarrow> renew_lease ttl i tok later t')"

text \<open>The row of the workspace while this delivery holds its write lease.\<close>

definition write_held :: "string \<Rightarrow> string \<Rightarrow> ws_table \<Rightarrow> bool" where
  "write_held i tok t = (ws_ok t \<and> (\<exists>r\<in>set t. ws_id r = i \<and> ws_status r = WsWriteLocked \<and> ws_lease_token r = Some tok))"

lemma renew_keeps_held:
  assumes "renew now i tok ttl t = Inr (t', l)" "write_held i tok t"
  shows "write_held i tok t'"
proof -
  have t': "t' = update_where (\<lambda>r. holds_token i tok r \<and> lease_live now r) (renew_row now ttl) t"
    using assms(1) by (auto simp: renew_def lease_result_Inr split: if_splits elim!: update_returning_Some)
  have "lease_columns_ok (renew_row now ttl r)" if "r \<in> set t" "holds_token i tok r \<and> lease_live now r" for r
    using that assms(2) holder_rows(1) by (auto simp: write_held_def ws_ok_def holds_token_def)
  then have "ws_ok t'"
    unfolding t' using assms(2) rows_keep_identity(2) by (intro update_keeps_ws_ok) (auto simp: write_held_def)
  moreover obtain r where r: "r \<in> set t" "ws_id r = i" "ws_status r = WsWriteLocked" "ws_lease_token r = Some tok"
    using assms(2) by (auto simp: write_held_def)
  define r' where "r' = (if holds_token i tok r \<and> lease_live now r then renew_row now ttl r else r)"
  have "r' \<in> set t'" using r(1) by (auto simp: t' set_update_where r'_def)
  moreover have "ws_id r' = i \<and> ws_status r' = WsWriteLocked \<and> ws_lease_token r' = Some tok"
    using r by (simp add: r'_def renew_row_def)
  ultimately show ?thesis by (auto simp: write_held_def)
qed

lemma renew_lease_held: "write_held i tok t \<Longrightarrow> write_held i tok (fst (renew_lease ttl i tok ts t))"
  by (induction ts arbitrary: t) (auto split: sum.splits dest: renew_keeps_held)

end
