(* ===== verification/PrepareHandler.thy ===== *)
theory PrepareHandler
  imports HandlerBase
begin

text \<open>The workspace preparation handler (internal/workspace/handler.go, terminal_failure.go). Its world
  is the workflow database, the workspaces table and the state of Git and the file system, which
  only the worktree manager touches; the manager's three operations are parameters, as they are an
  interface of the handler. Each call site has its own clock reading, fresh id and recorder outcome.
  The text of an error is a parameter: it only reaches stored messages. The database changes during a
  run only by the run itself, so \<open>prepare_handle\<close> is the handler of a workflow that nobody cancels
  meanwhile; \<open>advance_workflow\<close> itself is defined on all databases, and \<open>advance_yields\<close> says what it does when
  somebody has.\<close>

datatype prep_site =
  AtEnsure | AtAcquire | AtPreparing | AtReady | AtRestarted | AtAdvance | AtReadyEvent | AtFailure
| AtRelease | AtTerminal

record snapshot =
  sn_head :: string
  sn_dirty :: bool

record 'g prep_world =
  pw_db :: wf_db
  pw_ws :: ws_table
  pw_git :: 'g

datatype prep_error =
  PrepUnexpectedType | PrepDecode dispatch_error | PrepLoad wf_error | PrepUnexpectedState
| PrepEnsure ws_error | PrepVerify string | PrepReadyDirty | PrepAcquire ws_error | PrepRecord string
| PrepRemove string | PrepPrepare string | PrepNewDirty | PrepPersistReady ws_error
| PrepAdvance wf_error | PrepTerminal prep_error wf_error

record 'g prep_env =
  pe_now :: "prep_site \<Rightarrow> instant"
  pe_queue_now :: "prep_site \<Rightarrow> instant"
  pe_new_id :: "prep_site \<Rightarrow> string"
  pe_recorder_ok :: "prep_site \<Rightarrow> bool"
  pe_cancelled :: "prep_site \<Rightarrow> bool"
  pe_root :: string
  pe_prepare :: "string \<Rightarrow> string \<Rightarrow> string \<Rightarrow> 'g \<Rightarrow> (string + snapshot) \<times> 'g"
  pe_inspect :: "string \<Rightarrow> string \<Rightarrow> 'g \<Rightarrow> string + snapshot"
  pe_remove :: "string \<Rightarrow> string \<Rightarrow> 'g \<Rightarrow> (string + unit) \<times> 'g"
  pe_text :: "prep_error \<Rightarrow> string"

record prep_config =
  ph_owner :: string
  ph_lease_ttl :: int

definition new_prepare_handler :: "string \<Rightarrow> int \<Rightarrow> prep_config option" where
  "new_prepare_handler owner ttl =
     (if trim_space owner = [] \<or> ttl \<le> 0 then None
      else Some \<lparr> ph_owner = trim_space owner, ph_lease_ttl = ttl \<rparr>)"

type_synonym ('g, 'a) prep_step = "('g prep_world, prep_error, 'a) step"

definition record_activity ::
  "'g prep_env \<Rightarrow> prep_site \<Rightarrow> string \<Rightarrow> string \<Rightarrow> json \<Rightarrow> ('g, unit) prep_step" where
  "record_activity E site wfid ty payload w =
     (if pe_recorder_ok E site
      then (Inr (), w\<lparr> pw_db := (pw_db w)\<lparr> db_events := db_events (pw_db w) @
        [\<lparr> ev_job = wfid, ev_type = ty, ev_payload = payload, ev_at = pe_now E site \<rparr>] \<rparr> \<rparr>)
      else (Inl (PrepRecord ty), w))"

definition workspace_source :: "wf_db \<Rightarrow> string \<Rightarrow> ws_source option" where
  "workspace_source db i =
     (case lookup_by wf_id i (db_workflows db) of
        None \<Rightarrow> None
      | Some w \<Rightarrow>
        (case lookup_by rp_id (wf_repository_id w) (db_repositories db) of
           None \<Rightarrow> None
         | Some r \<Rightarrow> Some \<lparr> src_project_id = wf_project_id w, src_repository_id = wf_repository_id w,
             src_base_commit_sha = wf_base_commit_sha w, src_local_path = rp_local_path r \<rparr>))"

definition run_ws ::
  "(ws_error \<Rightarrow> prep_error) \<Rightarrow> (ws_table \<Rightarrow> ws_error + ws_table \<times> 'a) \<Rightarrow> ('g, 'a) prep_step" where
  "run_ws f m w = (case m (pw_ws w) of
     Inl e \<Rightarrow> (Inl (f e), w) | Inr (t, x) \<Rightarrow> (Inr x, w\<lparr> pw_ws := t \<rparr>))"

definition run_git ::
  "(string \<Rightarrow> prep_error) \<Rightarrow> ('g \<Rightarrow> (string + 'a) \<times> 'g) \<Rightarrow> ('g, 'a) prep_step" where
  "run_git f m w = (case m (pw_git w) of
     (Inl e, g) \<Rightarrow> (Inl (f e), w\<lparr> pw_git := g \<rparr>) | (Inr x, g) \<Rightarrow> (Inr x, w\<lparr> pw_git := g \<rparr>))"

definition persist_failure ::
  "'g prep_env \<Rightarrow> string \<Rightarrow> string \<Rightarrow> string \<Rightarrow> string \<Rightarrow> 'g prep_world \<Rightarrow> 'g prep_world" where
  "persist_failure E wfid i tok message w =
     (if pe_cancelled E AtFailure then w
      else let w1 = (case mark_failed (pe_now E AtFailure) i tok message (pw_ws w) of
                       Inl _ \<Rightarrow> w | Inr t \<Rightarrow> w\<lparr> pw_ws := t \<rparr>) in
        snd (record_activity E AtFailure wfid ''workspace.failed''
          (JObj [(''workspace_id'', JStr i), (''error'', JStr message)]) w1))"

definition release_lease :: "'g prep_env \<Rightarrow> string \<Rightarrow> string \<Rightarrow> 'g prep_world \<Rightarrow> 'g prep_world" where
  "release_lease E i tok w =
     (case release (pe_now E AtRelease) i tok (pw_ws w) of
        Inr t \<Rightarrow> w\<lparr> pw_ws := t \<rparr>
      | Inl e \<Rightarrow> if e = WsLeaseLost then w
          else snd (record_activity E AtRelease [] ''workspace.lease_release_failed''
            (JObj [(''workspace_id'', JStr i)]) w))"

definition prep_wf_env :: "'g prep_env \<Rightarrow> prep_site \<Rightarrow> wf_env" where
  "prep_wf_env E site = \<lparr> we_now = pe_now E site, we_queue_now = pe_queue_now E site,
     we_new_id = pe_new_id E site, we_recorder_ok = pe_recorder_ok E site \<rparr>"

definition ready_input :: "wf_job \<Rightarrow> workspace \<Rightarrow> snapshot \<Rightarrow> transition_input" where
  "ready_input job item s = \<lparr> ti_expected_version = wf_version job, ti_action = ''WORKSPACE_READY'',
     ti_failure_code = [], ti_failure_message = [],
     ti_details = Some [(''head_sha'', JStr (sn_head s)), (''workspace_id'', JStr (w_id item))],
     ti_additional_executor_turns = 0 \<rparr>"

definition advance_workflow ::
  "'g prep_env \<Rightarrow> wf_job \<Rightarrow> workspace \<Rightarrow> snapshot \<Rightarrow> ('g, unit) prep_step" where
  "advance_workflow E job item s w =
     (case wf_transition (prep_wf_env E AtAdvance) (wf_id job) (ready_input job item s) (pw_db w) of
        Inr (db, updated) \<Rightarrow>
          record_activity E AtReadyEvent (wf_id job) ''workspace.ready''
            (JObj [(''workspace_id'', JStr (w_id item)), (''path'', JStr (w_path item)),
                   (''head_sha'', JStr (sn_head s)), (''workflow_version'', JInt (wf_version updated))])
            (w\<lparr> pw_db := db \<rparr>)
      | Inl e \<Rightarrow>
          if superseded e \<and> (case wf_get (pw_db w) (wf_id job) of Inl _ \<Rightarrow> False
               | Inr c \<Rightarrow> wf_version c > wf_version job \<and> wf_status_of c \<noteq> StWorkspacePreparing)
          then (Inr (), w) else (Inl (PrepAdvance e), w))"

text \<open>The part of both paths after the lease is taken: prepare the worktree, mark the row, advance. A
  failed or dirty worktree is recorded on the row with the lease's token.\<close>

definition failing_with ::
  "'g prep_env \<Rightarrow> string \<Rightarrow> string \<Rightarrow> string \<Rightarrow> (prep_error \<Rightarrow> string) \<Rightarrow> ('g, 'a) prep_step \<Rightarrow> ('g, 'a) prep_step" where
  "failing_with E wfid i tok msg m w =
     (case m w of (Inl e, w1) \<Rightarrow> (Inl e, persist_failure E wfid i tok (msg e) w1) | (Inr x, w1) \<Rightarrow> (Inr x, w1))"

definition cause :: "'g prep_env \<Rightarrow> prep_error \<Rightarrow> string" where
  "cause E e = (case e of PrepPrepare s \<Rightarrow> s | PrepRemove s \<Rightarrow> s | _ \<Rightarrow> pe_text E e)"

definition require_clean :: "snapshot \<Rightarrow> ('g, snapshot) prep_step" where
  "require_clean s = (if sn_dirty s then fail_with PrepNewDirty else ret s)"

definition prepare_fresh ::
  "prep_config \<Rightarrow> 'g prep_env \<Rightarrow> wf_job \<Rightarrow> workspace \<Rightarrow> ws_source \<Rightarrow> int \<Rightarrow> ('g, unit) prep_step" where
  "prepare_fresh C E job item src attempts =
     sbind (run_ws PrepAcquire (acquire (pe_new_id E AtAcquire) (pe_now E AtAcquire) (w_id item) (ph_owner C) (ph_lease_ttl C)))
       (\<lambda>(_, tok). finally_do
         (sbind (record_activity E AtPreparing (wf_id job) ''workspace.preparing''
             (JObj [(''workspace_id'', JStr (w_id item)), (''repository_id'', JStr (wf_repository_id job)),
                    (''workflow_version'', JInt (wf_version job)), (''queue_attempt'', JInt attempts)])) (\<lambda>_.
          sbind (failing_with E (wf_id job) (w_id item) tok (cause E)
            (sbind (run_git PrepPrepare (pe_prepare E (src_local_path src) (w_path item) (wf_base_commit_sha job)))
               require_clean)) (\<lambda>s.
          sbind (run_ws PrepPersistReady
             (mark_ready (pe_now E AtReady) (w_id item) tok (sn_head s) (sn_dirty s))) (\<lambda>ready.
          advance_workflow E job ready s))))
         (release_lease E (w_id item) tok))"

definition restart_workspace ::
  "prep_config \<Rightarrow> 'g prep_env \<Rightarrow> wf_job \<Rightarrow> workspace \<Rightarrow> ws_source \<Rightarrow> int \<Rightarrow> ('g, unit) prep_step" where
  "restart_workspace C E job item src attempts =
     sbind (run_ws PrepAcquire (acquire_restart (pe_new_id E AtAcquire) (pe_now E AtAcquire) (w_id item) (ph_owner C) (ph_lease_ttl C)))
       (\<lambda>(_, tok). finally_do
         (sbind (record_activity E AtPreparing (wf_id job) ''workspace.restarting''
             (JObj [(''workspace_id'', JStr (w_id item)), (''repository_id'', JStr (wf_repository_id job)),
                    (''base_commit_sha'', JStr (wf_base_commit_sha job)),
                    (''workflow_version'', JInt (wf_version job)), (''queue_attempt'', JInt attempts)])) (\<lambda>_.
          sbind (failing_with E (wf_id job) (w_id item) tok (cause E)
            (run_git PrepRemove (pe_remove E (src_local_path src) (w_path item)))) (\<lambda>_.
          sbind (failing_with E (wf_id job) (w_id item) tok (cause E)
            (sbind (run_git PrepPrepare (pe_prepare E (src_local_path src) (w_path item) (wf_base_commit_sha job)))
               require_clean)) (\<lambda>s.
          sbind (run_ws PrepPersistReady
             (mark_ready (pe_now E AtReady) (w_id item) tok (sn_head s) (sn_dirty s))) (\<lambda>ready.
          sbind (record_activity E AtRestarted (wf_id job) ''workspace.restarted''
             (JObj [(''workspace_id'', JStr (w_id item)), (''head_sha'', JStr (sn_head s)),
                    (''workflow_version'', JInt (wf_version job))])) (\<lambda>_.
          advance_workflow E job ready s))))))
         (release_lease E (w_id item) tok))"

definition verify_ready ::
  "'g prep_env \<Rightarrow> wf_job \<Rightarrow> workspace \<Rightarrow> ('g, unit) prep_step" where
  "verify_ready E job item w =
     (case pe_inspect E (w_path item) (wf_base_commit_sha job) (pw_git w) of
        Inl e \<Rightarrow> (Inl (PrepVerify e), w)
      | Inr s \<Rightarrow> if sn_dirty s then (Inl PrepReadyDirty, w) else advance_workflow E job item s w)"

definition prepare_workspace ::
  "prep_config \<Rightarrow> 'g prep_env \<Rightarrow> wf_job \<Rightarrow> dispatch_payload_rec \<Rightarrow> int \<Rightarrow> ('g, unit) prep_step" where
  "prepare_workspace C E job p attempts w =
     sbind (run_ws PrepEnsure (ensure_for_workflow (pe_root E) (workspace_source (pw_db w))
         (pe_new_id E AtEnsure) (pe_now E AtEnsure) (wf_id job)))
       (\<lambda>(item, src).
          if dp_action p = ''RESTART'' then restart_workspace C E job item src attempts
          else if w_status item = WsReady then verify_ready E job item
          else prepare_fresh C E job item src attempts) w"

definition prepare_handle :: "prep_config \<Rightarrow> 'g prep_env \<Rightarrow> json_text job \<Rightarrow> ('g, unit) prep_step" where
  "prepare_handle C E j w =
     (if j_type j \<noteq> ''workflow.prepare_workspace'' then (Inl PrepUnexpectedType, w)
      else case decode_prepare_payload (j_payload j) of
        Inl e \<Rightarrow> (Inl (PrepDecode e), w)
      | Inr p \<Rightarrow>
        (case prepare_gate (pw_db w) p of
           GateFailed e \<Rightarrow> (Inl (PrepLoad e), w)
         | GateStale \<Rightarrow> (Inr (), w)
         | GateProceed job \<Rightarrow> prepare_workspace C E job p (j_attempts j) w
         | _ \<Rightarrow> (Inl PrepUnexpectedState, w)))"

definition bounded_failure_message :: "string \<Rightarrow> string" where
  "bounded_failure_message text =
     take 2048 (if trim_space text = [] then ''workspace preparation failed'' else trim_space text)"

definition terminal_details :: "json_text job \<Rightarrow> (string \<times> json) list" where
  "terminal_details j = [(''attempt'', JInt (j_attempts j)), (''max_attempts'', JInt (j_max_attempts j)),
     (''queue_job_id'', JStr (j_id j))]"

definition terminal_input :: "wf_job \<Rightarrow> json_text job \<Rightarrow> string \<Rightarrow> transition_input" where
  "terminal_input job j message = \<lparr> ti_expected_version = wf_version job, ti_action = ''FAIL'',
     ti_failure_code = ''WORKSPACE_PREPARATION_FAILED'', ti_failure_message = message,
     ti_details = Some (terminal_details j),
     ti_additional_executor_turns = 0 \<rparr>"

definition prepare_handle_durable ::
  "prep_config \<Rightarrow> 'g prep_env \<Rightarrow> json_text job \<Rightarrow> ('g, unit) prep_step" where
  "prepare_handle_durable C E j w =
     (case prepare_handle C E j w of
        (Inr x, w1) \<Rightarrow> (Inr x, w1)
      | (Inl e, w1) \<Rightarrow>
        if pe_cancelled E AtTerminal \<or> j_max_attempts j < 1 \<or> j_attempts j < j_max_attempts j then (Inl e, w1)
        else case decode_prepare_payload (j_payload j) of
          Inl _ \<Rightarrow> (Inl e, w1)
        | Inr p \<Rightarrow>
          (case wf_get (pw_db w1) (dp_workflow_job_id p) of
             Inl _ \<Rightarrow> (Inl e, w1)
           | Inr job \<Rightarrow>
             if wf_status_of job \<noteq> StWorkspacePreparing \<or> wf_version job \<noteq> dp_workflow_version p then (Inl e, w1)
             else case wf_transition (prep_wf_env E AtTerminal) (wf_id job)
                 (terminal_input job j (bounded_failure_message (pe_text E e))) (pw_db w1) of
               Inr (db, _) \<Rightarrow> (Inl e, w1\<lparr> pw_db := db \<rparr>)
             | Inl e' \<Rightarrow> if superseded e' then (Inl e, w1) else (Inl (PrepTerminal e e'), w1)))"

subsection \<open>What a run leaves behind\<close>

text \<open>\<open>advanced\<close>: the workflow took the WORKSPACE_READY transition, with a clean snapshot.\<close>

definition advanced :: "'g prep_env \<Rightarrow> wf_job \<Rightarrow> wf_db \<Rightarrow> wf_db \<Rightarrow> bool" where
  "advanced E job db db' = (\<exists>item s db1 db2 upd. \<not> sn_dirty s \<and> same_db db db1 \<and> same_db db2 db'
     \<and> wf_transition (prep_wf_env E AtAdvance) (wf_id job) (ready_input job item s) db1 = Inr (db2, upd))"

lemma advanced_events [simp]: "advanced E job db (db'\<lparr> db_events := evs \<rparr>) \<longleftrightarrow> advanced E job db db'"
  by (simp add: advanced_def)

lemma post_record:
  "post (record_activity E site i ty p) w (\<lambda>r w'. pw_ws w' = pw_ws w \<and> same_db (pw_db w) (pw_db w') \<and> pw_git w' = pw_git w)"
  by (simp add: post_def record_activity_def)

lemma record_activity_keeps:
  "pw_ws (snd (record_activity E site i ty p w)) = pw_ws w \<and> same_db (pw_db w) (pw_db (snd (record_activity E site i ty p w)))"
  by (simp add: record_activity_def)

definition outcome :: "'g prep_env \<Rightarrow> wf_job \<Rightarrow> wf_db \<Rightarrow> prep_error + unit \<Rightarrow> wf_db \<Rightarrow> bool" where
  "outcome E job db r db' = (advanced E job db db' \<or> (r \<noteq> Inr () \<and> same_db db db'))"

lemma post_advance:
  assumes "same_db db (pw_db w)" "wf_get db (wf_id job) = Inr job" "\<not> sn_dirty s"
  shows "post (advance_workflow E job item s) w (\<lambda>r w'. pw_ws w' = pw_ws w \<and> outcome E job db r (pw_db w'))"
proof (cases "wf_transition (prep_wf_env E AtAdvance) (wf_id job) (ready_input job item s) (pw_db w)")
  case (Inr x)
  obtain db2 upd where x: "x = (db2, upd)" by fastforce
  have "advanced E job db d" if "same_db db2 d" for d
    unfolding advanced_def using assms(1,3) Inr x that by blast
  then show ?thesis
    using Inr x by (simp add: advance_workflow_def post_def record_activity_def outcome_def)
next
  case (Inl e)
  have "wf_get (pw_db w) (wf_id job) = Inr job" using same_db_get [OF assms(1)] assms(2) by simp
  then show ?thesis
    using Inl assms(1) by (simp add: advance_workflow_def post_def outcome_def)
qed

lemma record_same_db [simp]:
  "same_db db (pw_db (snd (record_activity E site i' ty p w))) \<longleftrightarrow> same_db db (pw_db w)"
  by (simp add: record_activity_def)

text \<open>\<open>in_lease\<close> holds between taking the lease and giving it back.\<close>

definition in_lease :: "wf_db \<Rightarrow> (string \<times> string) list \<Rightarrow> string \<Rightarrow> string \<Rightarrow> 'g prep_world \<Rightarrow> bool" where
  "in_lease db ids i tok w = (ws_ok (pw_ws w) \<and> ws_ids (pw_ws w) = ids \<and> lease_only i tok (pw_ws w))"

lemma in_lease_record [simp]:
  "in_lease db ids i tok (snd (record_activity E site i' ty p w)) = in_lease db ids i tok w"
  by (simp add: in_lease_def record_activity_def)

lemma persist_failure_keeps:
  assumes "in_lease db ids i tok w"
  shows "in_lease db ids i tok (persist_failure E wfid i' tok' m w)
     \<and> same_db (pw_db w) (pw_db (persist_failure E wfid i' tok' m w))"
proof -
  define w1 where "w1 = (case mark_failed (pe_now E AtFailure) i' tok' m (pw_ws w) of
    Inl _ \<Rightarrow> w | Inr t \<Rightarrow> w\<lparr> pw_ws := t \<rparr>)"
  have l: "in_lease db ids i tok w1 \<and> pw_db w1 = pw_db w"
  proof (cases "mark_failed (pe_now E AtFailure) i' tok' m (pw_ws w)")
    case (Inr t)
    have "ws_ok t \<and> ws_ids t = ws_ids (pw_ws w) \<and> (lease_only i tok (pw_ws w) \<longrightarrow> lease_only i tok t)"
      using holder_op_keeps [OF holder_ops_keep(4) [OF Inr]] assms by (simp add: in_lease_def)
    then show ?thesis using Inr assms by (simp add: w1_def in_lease_def)
  qed (use assms in \<open>simp add: w1_def\<close>)
  have "persist_failure E wfid i' tok' m w = (if pe_cancelled E AtFailure then w else
    snd (record_activity E AtFailure wfid ''workspace.failed'' (JObj [(''workspace_id'', JStr i'), (''error'', JStr m)]) w1))"
    by (simp add: persist_failure_def w1_def)
  then show ?thesis
    using l assms by simp
qed

lemma post_failing_with:
  assumes "post m w (\<lambda>r w'. in_lease db ids i tok w' \<and> same_db db (pw_db w') \<and> (case r of Inl _ \<Rightarrow> True | Inr x \<Rightarrow> Q x w'))"
  shows "post (failing_with E wfid i' tok' msg m) w
    (\<lambda>r w'. in_lease db ids i tok w' \<and> same_db db (pw_db w') \<and> (case r of Inl _ \<Rightarrow> True | Inr x \<Rightarrow> Q x w'))"
  using assms persist_failure_keeps same_db_trans
  by (fastforce simp: post_def failing_with_def split: prod.splits sum.splits)

lemma post_run_git:
  "post (run_git f m) w (\<lambda>r w'. pw_ws w' = pw_ws w \<and> pw_db w' = pw_db w)"
  by (simp add: post_def run_git_def split: prod.splits sum.splits)

subsection \<open>The two paths under the lease\<close>

definition has_ready :: "string \<Rightarrow> ws_table \<Rightarrow> bool" where
  "has_ready i t = (\<exists>r\<in>set t. ws_id r = i \<and> ws_status r = WsReady)"

lemma has_ready_update:
  assumes "\<And>r. ws_id (f r) = ws_id r" "\<And>r. ws_status (f r) = ws_status r"
  shows "has_ready i (update_where P f t) = has_ready i t"
  by (induction t) (use assms in \<open>auto simp: has_ready_def\<close>)

lemma outcome_events [simp]: "outcome E job db r (db'\<lparr> db_events := evs \<rparr>) = outcome E job db r db'"
  by (simp add: outcome_def)

lemma outcome_record [simp]:
  "outcome E job db r (pw_db (snd (record_activity E site i ty p w))) = outcome E job db r (pw_db w)"
  by (simp add: record_activity_def)

lemma has_ready_record [simp]:
  "pw_ws (snd (record_activity E site i' ty p w)) = pw_ws w"
  by (simp add: record_activity_def)

definition body_post ::
  "'g prep_env \<Rightarrow> wf_job \<Rightarrow> wf_db \<Rightarrow> (string \<times> string) list \<Rightarrow> string \<Rightarrow> string
   \<Rightarrow> prep_error + unit \<Rightarrow> 'g prep_world \<Rightarrow> bool" where
  "body_post E job db ids i tok r w = (in_lease db ids i tok w \<and> outcome E job db r (pw_db w)
     \<and> (r = Inr () \<longrightarrow> has_ready i (pw_ws w)))"

lemma body_post_failed: "in_lease db ids i tok w \<Longrightarrow> same_db db (pw_db w) \<Longrightarrow> body_post E job db ids i tok (Inl e) w"
  by (simp add: body_post_def outcome_def)

lemma post_record_body:
  assumes "in_lease db ids i tok w" "same_db db (pw_db w)"
    "\<And>w'. pw_ws w' = pw_ws w \<Longrightarrow> in_lease db ids i tok w' \<Longrightarrow> same_db db (pw_db w')
       \<Longrightarrow> post (f ()) w' (body_post E job db ids i tok)"
  shows "post (sbind (record_activity E site i' ty p) f) w (body_post E job db ids i tok)"
  by (rule post_bindI [OF post_record])
    (use assms same_db_trans in \<open>auto simp: in_lease_def intro!: body_post_failed\<close>)

lemma post_git_clean:
  assumes "in_lease db ids i tok w" "same_db db (pw_db w)"
    "\<And>s w'. \<not> sn_dirty s \<Longrightarrow> in_lease db ids i tok w' \<Longrightarrow> same_db db (pw_db w')
       \<Longrightarrow> post (f s) w' (body_post E job db ids i tok)"
  shows "post (sbind (failing_with E wfid i' tok' msg (sbind (run_git PrepPrepare m) require_clean)) f) w
    (body_post E job db ids i tok)"
proof -
  have "post (sbind (run_git PrepPrepare m) require_clean) w
    (\<lambda>r w'. in_lease db ids i tok w' \<and> same_db db (pw_db w') \<and> (case r of Inl _ \<Rightarrow> True | Inr s \<Rightarrow> \<not> sn_dirty s))"
    by (rule post_bindI [OF post_run_git]) (use assms(1,2) in \<open>auto simp: in_lease_def require_clean_def\<close>)
  from post_failing_with [OF this] show ?thesis
    by (rule post_bindI) (auto intro: body_post_failed assms(3))
qed

lemma post_git_remove:
  assumes "in_lease db ids i tok w" "same_db db (pw_db w)"
    "\<And>w'. in_lease db ids i tok w' \<Longrightarrow> same_db db (pw_db w') \<Longrightarrow> post (f ()) w' (body_post E job db ids i tok)"
  shows "post (sbind (failing_with E wfid i' tok' msg (run_git PrepRemove m)) f) w (body_post E job db ids i tok)"
proof -
  have "post (run_git PrepRemove m) w
    (\<lambda>r w'. in_lease db ids i tok w' \<and> same_db db (pw_db w') \<and> (case r of Inl _ \<Rightarrow> True | Inr x \<Rightarrow> True))"
    by (rule post_mono [OF post_run_git]) (use assms(1,2) in \<open>auto simp: in_lease_def split: sum.splits\<close>)
  from post_failing_with [OF this] show ?thesis
    by (rule post_bindI) (auto intro: body_post_failed assms(3))
qed

lemma post_mark_ready:
  assumes "in_lease db ids i tok w" "same_db db (pw_db w)"
    "\<And>x w'. in_lease db ids i tok w' \<Longrightarrow> same_db db (pw_db w') \<Longrightarrow> has_ready i (pw_ws w')
       \<Longrightarrow> post (f x) w' (body_post E job db ids i tok)"
  shows "post (sbind (run_ws PrepPersistReady (mark_ready now i tok h d)) f) w (body_post E job db ids i tok)"
proof (cases "mark_ready now i tok h d (pw_ws w)")
  case (Inl e)
  then show ?thesis using assms(1,2) by (simp add: post_def sbind_def run_ws_def body_post_failed)
next
  case (Inr x)
  obtain t ws where x: "x = (t, ws)" by fastforce
  have k: "ws_ok t \<and> ws_ids t = ws_ids (pw_ws w) \<and> (lease_only i tok (pw_ws w) \<longrightarrow> lease_only i tok t)"
    using holder_op_keeps [OF holder_ops_keep(3) [OF Inr [unfolded x]]] assms(1) by (simp add: in_lease_def)
  have "post (f ws) (w\<lparr> pw_ws := t \<rparr>) (body_post E job db ids i tok)"
    by (rule assms(3)) (use assms(1,2) k mark_ready_row [OF Inr [unfolded x]] in \<open>auto simp: in_lease_def has_ready_def\<close>)
  then show ?thesis using Inr x by (simp add: post_def sbind_def run_ws_def)
qed

lemma post_advance_body:
  assumes "in_lease db ids i tok w" "same_db db (pw_db w)" "has_ready i (pw_ws w)"
    "wf_get db (wf_id job) = Inr job" "\<not> sn_dirty s"
  shows "post (advance_workflow E job item s) w (body_post E job db ids i tok)"
  by (rule post_mono [OF post_advance [OF assms(2,4,5)]])
    (use assms(1,3) in \<open>simp add: body_post_def in_lease_def\<close>)

lemma release_lease_table:
  "pw_ws (release_lease E i tok w) = ls.after_release (pe_now E AtRelease, i) tok (pw_ws w)"
  by (simp add: release_lease_def ls.after_release_def split: sum.splits)

lemma release_lease_keeps:
  assumes "body_post E job db ids i tok r w" "trim_space i = i" "trim_space tok = tok"
  shows "body_post E job db ids i tok r (release_lease E i tok w) \<and> unused_token tok (pw_ws (release_lease E i tok w))"
proof -
  have l: "in_lease db ids i tok w" using assms(1) by (simp add: body_post_def)
  have b: "body_post E job db ids i tok r (release_lease E i tok w)"
  proof (cases "release (pe_now E AtRelease) i tok (pw_ws w)")
    case (Inl e)
    then show ?thesis using assms(1) by (simp add: release_lease_def body_post_def)
  next
    case (Inr t)
    have k: "ws_ok t \<and> ws_ids t = ws_ids (pw_ws w) \<and> (lease_only i tok (pw_ws w) \<longrightarrow> lease_only i tok t)"
      using holder_op_keeps [OF holder_ops_keep(2) [OF Inr]] l by (simp add: in_lease_def)
    have "t = update_where (holds_token (trim_space i) (trim_space tok)) (drop_lease (pe_now E AtRelease)) (pw_ws w)"
      using Inr by (auto simp: release_def Let_def)
    then have "has_ready i t = has_ready i (pw_ws w)"
      by (simp add: has_ready_update drop_lease_def)
    then show ?thesis using Inr assms(1) k by (simp add: release_lease_def body_post_def in_lease_def)
  qed
  have "\<not> held_by (trim_space i) (trim_space tok) (pw_ws (release_lease E i tok w))"
    unfolding release_lease_table using ls.after_release_free [of "pw_ws w" "(pe_now E AtRelease, i)" tok] l
    by (simp add: in_lease_def)
  then show ?thesis using b assms(2,3)
    by (auto simp: body_post_def in_lease_def lease_only_def held_by_def holds_token_def unused_token_def)
qed

lemma post_leased:
  assumes "ws_ok (pw_ws w)" "unused_token tok (pw_ws w)" "ws_ids (pw_ws w) = ids" "same_db db (pw_db w)"
    and "trim_space i = i" "trim_space tok = tok"
    and "\<And>x. m (pw_ws w) = Inr x \<Longrightarrow> grants_lease tok i now own ttl (pw_ws w) (Inr x)"
    and "\<And>w'. in_lease db ids i tok w' \<Longrightarrow> same_db db (pw_db w') \<Longrightarrow> post (body tok) w' (body_post E job db ids i tok)"
  shows "post (sbind (run_ws PrepAcquire m) (\<lambda>(_, k). finally_do (body k) (release_lease E i k))) w
    (\<lambda>r w'. body_post E job db ids i tok r w' \<and> unused_token tok (pw_ws w'))"
proof (cases "m (pw_ws w)")
  case (Inl e)
  have "in_lease db ids i tok w" using assms(1-3) by (simp add: in_lease_def lease_only_def unused_token_def)
  then show ?thesis using Inl assms(2,4) by (simp add: post_def sbind_def run_ws_def body_post_failed)
next
  case (Inr x)
  obtain t v k where x: "x = (t, v, k)" by (cases x) auto
  have g: "ws_ok t \<and> ws_ids t = ws_ids (pw_ws w) \<and> lease_only i tok t \<and> snd (v, k) = tok"
    by (rule granted_keeps [OF assms(7) [OF Inr, unfolded x] assms(1,2,5)])
  let ?w = "w\<lparr> pw_ws := t \<rparr>"
  have "post (body tok) ?w (body_post E job db ids i tok)"
    by (rule assms(8)) (use g assms(3,4) in \<open>simp_all add: in_lease_def\<close>)
  then have "post (finally_do (body tok) (release_lease E i tok)) ?w
      (\<lambda>r w'. body_post E job db ids i tok r w' \<and> unused_token tok (pw_ws w'))"
    unfolding post_finally by (rule post_mono) (rule release_lease_keeps [OF _ assms(5,6)])
  then show ?thesis using Inr x g by (simp add: post_def sbind_def run_ws_def)
qed

lemma post_prepare_fresh:
  assumes "ws_ok (pw_ws w)" "unused_token (pe_new_id E AtAcquire) (pw_ws w)" "ws_ids (pw_ws w) = ids"
    "same_db db (pw_db w)" "trim_space (w_id item) = w_id item"
    "trim_space (pe_new_id E AtAcquire) = pe_new_id E AtAcquire" "wf_get db (wf_id job) = Inr job"
  shows "post (prepare_fresh C E job item src n) w (\<lambda>r w'. body_post E job db ids (w_id item) (pe_new_id E AtAcquire) r w'
    \<and> unused_token (pe_new_id E AtAcquire) (pw_ws w'))"
  unfolding prepare_fresh_def
  by (rule post_leased [where now = "pe_now E AtAcquire" and own = "ph_owner C" and ttl = "ph_lease_ttl C", OF assms(1-6)])
    (auto simp: grants_lease_def intro!: post_record_body post_git_clean post_mark_ready post_advance_body assms(7))

lemma post_restart:
  assumes "ws_ok (pw_ws w)" "unused_token (pe_new_id E AtAcquire) (pw_ws w)" "ws_ids (pw_ws w) = ids"
    "same_db db (pw_db w)" "trim_space (w_id item) = w_id item"
    "trim_space (pe_new_id E AtAcquire) = pe_new_id E AtAcquire" "wf_get db (wf_id job) = Inr job"
  shows "post (restart_workspace C E job item src n) w (\<lambda>r w'. body_post E job db ids (w_id item) (pe_new_id E AtAcquire) r w'
    \<and> unused_token (pe_new_id E AtAcquire) (pw_ws w'))"
  unfolding restart_workspace_def
  by (rule post_leased [where now = "pe_now E AtAcquire" and own = "ph_owner C" and ttl = "ph_lease_ttl C", OF assms(1-6)])
    (auto simp: grants_lease_def intro!: post_record_body post_git_remove post_git_clean post_mark_ready
      post_advance_body assms(7))

definition ids_trimmed :: "ws_table \<Rightarrow> bool" where
  "ids_trimmed t = (\<forall>r\<in>set t. trim_space (ws_id r) = ws_id r)"

text \<open>What the run needs: well-formed tables, a fresh lease token, trimmed ids.\<close>

definition prep_ready :: "'g prep_env \<Rightarrow> 'g prep_world \<Rightarrow> bool" where
  "prep_ready E w = (ws_ok (pw_ws w) \<and> wf_db_ok (pw_db w) \<and> ids_trimmed (pw_ws w)
     \<and> unused_token (pe_new_id E AtAcquire) (pw_ws w)
     \<and> trim_space (pe_new_id E AtAcquire) = pe_new_id E AtAcquire
     \<and> trim_space (pe_new_id E AtEnsure) = pe_new_id E AtEnsure)"

definition has_ready_workspace :: "string \<Rightarrow> ws_table \<Rightarrow> bool" where
  "has_ready_workspace wfid t = (\<exists>r\<in>set t. ws_workflow_job_id r = wfid \<and> ws_status r = WsReady)"

definition handled :: "'g prep_env \<Rightarrow> wf_job \<Rightarrow> wf_db \<Rightarrow> prep_error + unit \<Rightarrow> 'g prep_world \<Rightarrow> bool" where
  "handled E job db r w = (ws_ok (pw_ws w) \<and> unused_token (pe_new_id E AtAcquire) (pw_ws w)
     \<and> outcome E job db r (pw_db w) \<and> (r = Inr () \<longrightarrow> has_ready_workspace (wf_id job) (pw_ws w)))"

lemma handledI:
  assumes "body_post E job db ids i tok r w" "unused_token (pe_new_id E AtAcquire) (pw_ws w)" "(i, wf_id job) \<in> set ids"
  shows "handled E job db r w"
proof -
  have ok: "ws_ok (pw_ws w)" "ws_ids (pw_ws w) = ids" using assms(1) by (simp_all add: body_post_def in_lease_def)
  then obtain r' where r': "r' \<in> set (pw_ws w)" "ws_id r' = i" "ws_workflow_job_id r' = wf_id job"
    using assms(3) by (auto simp: ws_ids_def)
  have "has_ready_workspace (wf_id job) (pw_ws w)" if ready: "has_ready i (pw_ws w)"
  proof -
    obtain x where x: "x \<in> set (pw_ws w)" "ws_id x = i" "ws_status x = WsReady" using ready by (auto simp: has_ready_def)
    have "x = r'" using unique_keyD [of ws_id "pw_ws w" x r'] ok x r' by (simp add: ws_ok_def)
    then show ?thesis using x r' by (auto simp: has_ready_workspace_def)
  qed
  then show ?thesis using assms(1,2) ok by (simp add: handled_def body_post_def)
qed

lemma ensure_gives:
  assumes "ensure_for_workflow root source new_id now i t = Inr (t', item, src)" "trim_space i = i"
    and "ws_ok t" "ids_trimmed t" "unused_token tok t" "trim_space new_id = new_id"
  shows "ws_ok t' \<and> (w_id item, i) \<in> set (ws_ids t') \<and> trim_space (w_id item) = w_id item \<and> unused_token tok t'
    \<and> (w_status item = WsReady \<longrightarrow> has_ready (w_id item) t')"
proof -
  have "ws_ok t'" using ws_step_ok [OF s_ensure [OF assms(1)] assms(3)] .
  moreover have "(w_id item, i) \<in> set (ws_ids t') \<and> trim_space (w_id item) = w_id item \<and> unused_token tok t'
    \<and> (w_status item = WsReady \<longrightarrow> has_ready (w_id item) t')"
  proof (cases "load_by_workflow t i")
    case (Inl e)
    then obtain s where s: "t' = t @ [new_workspace new_id now i s (path_join root i)]"
        "item = (scan_workspace (new_workspace new_id now i s (path_join root i)))\<lparr> w_created_at := now, w_updated_at := now \<rparr>"
      using assms(1,2)
      by (auto simp: ensure_for_workflow_def insert_workspace_def Let_def split: option.splits if_splits)
    then show ?thesis using assms(5,6)
      by (simp add: ws_ids_def new_workspace_def scan_workspace_def unused_token_def)
  next
    case (Inr v)
    then have "t' = t" "item = v"
      using assms(1,2) by (auto simp: ensure_for_workflow_def Let_def split: option.splits if_splits)
    moreover obtain r where "lookup_by ws_workflow_job_id i t = Some r" "v = scan_workspace r"
      using Inr by (auto simp: load_by_workflow_def split: option.splits)
    ultimately show ?thesis using lookup_by_Some [of ws_workflow_job_id i t r] assms(4,5)
      by (auto simp: ws_ids_def scan_workspace_def ids_trimmed_def has_ready_def)
  qed
  ultimately show ?thesis by blast
qed

lemma post_prepare_workspace:
  assumes "prep_ready E w" "wf_get (pw_db w) (wf_id job) = Inr job" "trim_space (wf_id job) = wf_id job"
  shows "post (prepare_workspace C E job p n) w (handled E job (pw_db w))"
proof (cases "ensure_for_workflow (pe_root E) (workspace_source (pw_db w)) (pe_new_id E AtEnsure)
    (pe_now E AtEnsure) (wf_id job) (pw_ws w)")
  case (Inl e)
  then show ?thesis using assms(1)
    by (simp add: prepare_workspace_def post_def sbind_def run_ws_def handled_def outcome_def prep_ready_def)
next
  case (Inr x)
  obtain t item src where x: "x = (t, item, src)" by (cases x) auto
  let ?w = "w\<lparr> pw_ws := t \<rparr>" and ?tok = "pe_new_id E AtAcquire" and ?ids = "ws_ids t"
  have e: "ws_ok t" "(w_id item, wf_id job) \<in> set ?ids" "trim_space (w_id item) = w_id item" "unused_token ?tok t"
    "w_status item = WsReady \<longrightarrow> has_ready (w_id item) t"
    using ensure_gives [OF Inr [unfolded x] assms(3), of ?tok] assms(1) by (auto simp: prep_ready_def)
  have tok: "trim_space ?tok = ?tok" using assms(1) by (simp add: prep_ready_def)
  let ?Q = "handled E job (pw_db w)"
  have fin: "post m ?w ?Q"
    if "post m ?w (\<lambda>r w'. body_post E job (pw_db w) ?ids (w_id item) ?tok r w' \<and> unused_token ?tok (pw_ws w'))"
    for m
    by (rule post_mono [OF that]) (use e(2) handledI in blast)
  have a: "post (prepare_fresh C E job item src n) ?w ?Q"
    by (rule fin [OF post_prepare_fresh]) (use e tok assms(2) in simp_all)
  have b: "post (restart_workspace C E job item src n) ?w ?Q"
    by (rule fin [OF post_restart]) (use e tok assms(2) in simp_all)
  have c: "post (verify_ready E job item) ?w ?Q" if "w_status item = WsReady"
  proof -
    have l: "in_lease (pw_db w) ?ids (w_id item) ?tok ?w"
      using e by (simp add: in_lease_def lease_only_def unused_token_def)
    have "post (advance_workflow E job item s) ?w ?Q" if "\<not> sn_dirty s" for s
    proof (rule fin)
      have "post (advance_workflow E job item s) ?w
          (\<lambda>r w'. pw_ws w' = t \<and> outcome E job (pw_db w) r (pw_db w'))"
        using post_advance [of "pw_db w" ?w job s E item] assms(2) that by simp
      then show "post (advance_workflow E job item s) ?w
          (\<lambda>r w'. body_post E job (pw_db w) ?ids (w_id item) ?tok r w' \<and> unused_token ?tok (pw_ws w'))"
        by (rule post_mono)
          (use l e \<open>w_status item = WsReady\<close> in \<open>simp add: body_post_def in_lease_def\<close>)
    qed
    then show ?thesis using e
      by (auto simp: verify_ready_def post_def handled_def outcome_def split: sum.splits)
  qed
  show ?thesis using Inr x a b c
    by (simp add: prepare_workspace_def post_def sbind_def run_ws_def split: if_splits)
qed

subsection \<open>The handler\<close>

definition moved_on :: "wf_db \<Rightarrow> wf_job \<Rightarrow> bool" where
  "moved_on db job = (\<exists>v. wf_get db (wf_id job) = Inr v \<and> wf_status_of v = StQueued \<and> wf_version v = wf_version job + 1)"

lemma ready_input_action: "input_action (ready_input job item s) = ''WORKSPACE_READY''"
  by (rule input_action_plain) (simp_all add: ready_input_def plain_char_def upper_ascii_def)

lemma terminal_input_action: "input_action (terminal_input job j m) = ''FAIL''"
  by (rule input_action_plain) (simp_all add: terminal_input_def plain_char_def upper_ascii_def)

lemma action_of_inputs [simp]:
  "action_of (ready_input job item s) = ActWorkspaceReady" "action_of (terminal_input job j m) = ActFail"
  by (simp_all add: ready_input_action terminal_input_action action_of_string_def known_actions_def)

lemma advanced_moved:
  assumes "advanced E job db db'" "wf_get db (wf_id job) = Inr job" "wf_status_of job = StWorkspacePreparing"
  shows "moved_on db' job"
proof -
  obtain item s db1 db2 upd where a: "same_db db db1" "same_db db2 db'"
    "wf_transition (prep_wf_env E AtAdvance) (wf_id job) (ready_input job item s) db1 = Inr (db2, upd)"
    using assms(1) by (auto simp: advanced_def)
  have g: "wf_get db1 (wf_id job) = Inr job" using same_db_get [OF a(1)] assms(2) by simp
  obtain nxt d where n: "next_status StWorkspacePreparing ActWorkspaceReady (wf_retry_status job) = Some nxt"
    "upd = apply_transition (prep_wf_env E AtAdvance) ActWorkspaceReady (ready_input job item s) nxt d job"
    "wf_get db2 (wf_id job) = Inr upd"
    using transition_shows [OF a(3) g] assms(3) by auto
  have "nxt = StQueued" using n(1) by (simp add: next_status_def transition_table_def)
  then show ?thesis using n(2,3) same_db_get [OF a(2)] by (simp add: moved_on_def)
qed

lemma prepare_gate_proceeds:
  assumes "prepare_gate db p = GateProceed job"
  shows "wf_get db (dp_workflow_job_id p) = Inr job \<and> wf_status_of job = StWorkspacePreparing
    \<and> wf_version job = dp_workflow_version p"
  using assms by (auto simp: prepare_gate_def split: sum.splits if_splits)

lemma handle_handled:
  assumes "prep_ready E w" "j_type j = ''workflow.prepare_workspace''" "decode_prepare_payload (j_payload j) = Inr p"
    "prepare_gate (pw_db w) p = GateProceed job" "prepare_handle C E j w = (r, w')"
  shows "handled E job (pw_db w) r w' \<and> wf_get (pw_db w) (wf_id job) = Inr job"
proof -
  note g = prepare_gate_proceeds [OF assms(4)]
  have t: "trim_space (wf_id job) = wf_id job" "wf_get (pw_db w) (wf_id job) = Inr job"
    using g wf_get_Inr [of "pw_db w" "dp_workflow_job_id p" job] by (auto simp: wf_get_def)
  have "prepare_workspace C E job p (j_attempts j) w = (r, w')"
    using assms(2-5) by (simp add: prepare_handle_def)
  then show ?thesis using postD [OF post_prepare_workspace [OF assms(1) t(2,1)]] t(2) by blast
qed

text \<open>An undisturbed run, whatever the recorder, Git and the clock do, leaves no lease of its own behind and keeps the
  workspaces table well formed; if it reports success, the workflow's workspace is READY and the
  workflow has moved on to QUEUED with the next version; if it reports an error, the workflow either
  is exactly as it was or has moved on to QUEUED (only the activity record was lost).\<close>

lemma undisturbed_preparation:
  assumes "prep_ready E w" "j_type j = ''workflow.prepare_workspace''" "decode_prepare_payload (j_payload j) = Inr p"
    and "prepare_gate (pw_db w) p = GateProceed job" "prepare_handle C E j w = (r, w')"
  shows "ws_ok (pw_ws w') \<and> unused_token (pe_new_id E AtAcquire) (pw_ws w')
    \<and> (r = Inr () \<longrightarrow> has_ready_workspace (wf_id job) (pw_ws w') \<and> moved_on (pw_db w') job)
    \<and> (r \<noteq> Inr () \<longrightarrow> same_db (pw_db w) (pw_db w') \<or> moved_on (pw_db w') job)"
proof -
  note h = handle_handled [OF assms]
  have "wf_status_of job = StWorkspacePreparing" using prepare_gate_proceeds [OF assms(4)] by blast
  then have "advanced E job (pw_db w) (pw_db w') \<Longrightarrow> moved_on (pw_db w') job"
    using advanced_moved h by blast
  then show ?thesis using h by (auto simp: handled_def outcome_def)
qed

text \<open>Another actor was faster: it moved the workflow to another status and a later version since the run read it
  (a cancellation, for instance). Then the run changes nothing and reports success.\<close>

lemma advance_yields:
  assumes "wf_db_ok (pw_db w)" "wf_get (pw_db w) (wf_id job) = Inr c" "1 \<le> wf_version job" "wf_version job < wf_version c"
    "wf_status_of c \<noteq> StWorkspacePreparing"
  shows "advance_workflow E job item s w = (Inr (), w)"
proof -
  have i: "trim_space (wf_id job) \<noteq> []" using wf_get_Inr [OF assms(2)] assms(1) by (auto simp: wf_db_ok_def wf_row_ok_def)
  have "input_action (ready_input job item s) \<noteq> []" by (simp add: ready_input_action)
  moreover have "ti_expected_version (ready_input job item s) = wf_version job" by (simp add: ready_input_def)
  ultimately have "wf_transition (prep_wf_env E AtAdvance) (wf_id job) (ready_input job item s) (pw_db w) = Inl ErrVersionConflict"
    using assms i by (simp add: wf_transition_def wf_get_def Let_def)
  then show ?thesis using assms by (simp add: advance_workflow_def superseded_def)
qed

text \<open>C0: redelivery is harmless. When the handler has succeeded and the queue delivers the same message
  again, under any clock, recorder and Git, it reports success and changes nothing.\<close>

theorem preparation_is_idempotent:
  assumes "prep_ready E w" "j_type j = ''workflow.prepare_workspace''" "decode_prepare_payload (j_payload j) = Inr p"
    and "prepare_gate (pw_db w) p = GateProceed job" "prepare_handle C E j w = (Inr (), w')"
  shows "prepare_handle C' E' j w' = (Inr (), w')"
proof -
  note h = handle_handled [OF assms]
  note g = prepare_gate_proceeds [OF assms(4)]
  have "moved_on (pw_db w') job"
    using h g advanced_moved by (auto simp: handled_def outcome_def)
  moreover have "wf_id job = trim_space (dp_workflow_job_id p)" using wf_get_Inr g by blast
  ultimately obtain v where "wf_get (pw_db w') (dp_workflow_job_id p) = Inr v" "wf_version v = wf_version job + 1"
    by (auto simp: moved_on_def wf_get_def)
  then have "prepare_gate (pw_db w') p = GateStale"
    using g by (simp add: prepare_gate_def is_stale_prepare_dispatch_def)
  then show ?thesis using assms(2,3) by (simp add: prepare_handle_def)
qed

lemma bounded_message_not_blank: "trim_space (bounded_failure_message t) \<noteq> []"
proof (cases "trim_space t = []")
  case True
  have "trim_space ''workspace preparation failed'' = ''workspace preparation failed''"
    by (rule trim_space_plain) (simp_all add: plain_char_def)
  then have "trim_space (take 2048 ''workspace preparation failed'') \<noteq> []" by (rule take_not_blank) simp_all
  then show ?thesis using True by (simp add: bounded_failure_message_def)
next
  case False
  then show ?thesis using take_not_blank [of "trim_space t" 2048] by (simp add: bounded_failure_message_def)
qed

lemma bounded_message_length: "length (bounded_failure_message t) \<le> 2048"
  by (simp add: bounded_failure_message_def)

lemma terminal_accepted:
  assumes "wf_db_ok db" "wf_get db (wf_id job) = Inr job" "wf_status_of job = StWorkspacePreparing"
    and "length (marshal (JObj (terminal_details j))) \<le> 32768" "trim_space m \<noteq> []"
  shows "\<exists>db' w'. wf_transition e (wf_id job) (terminal_input job j m) db = Inr (db', w')"
  by (rule fail_accepted [OF assms(1,2), where d = "terminal_details j"])
    (use assms(3-5) in \<open>simp_all add: failure_statuses_def terminal_input_action del: marshal.simps,
       simp_all add: terminal_input_def\<close>)

definition failed_preparing :: "wf_db \<Rightarrow> wf_job \<Rightarrow> bool" where
  "failed_preparing db job = (\<exists>v. wf_get db (wf_id job) = Inr v \<and> wf_status_of v = StFailed
     \<and> wf_version v = wf_version job + 1 \<and> wf_retry_status v = Some StWorkspacePreparing
     \<and> wf_failure_code v = ''WORKSPACE_PREPARATION_FAILED'' \<and> wf_failure_message v \<noteq> []
     \<and> length (wf_failure_message v) \<le> 2048)"

lemma terminal_fails:
  assumes "wf_transition e (wf_id job) (terminal_input job j (bounded_failure_message t)) db = Inr (db', w')"
    and "wf_get db (wf_id job) = Inr job" "wf_status_of job = StWorkspacePreparing"
  shows "failed_preparing db' job"
proof -
  have c: "trim_space ''WORKSPACE_PREPARATION_FAILED'' = ''WORKSPACE_PREPARATION_FAILED''"
    by (rule trim_space_plain) (simp_all add: plain_char_def)
  have l: "length (trim_space (bounded_failure_message t)) \<le> 2048"
    using trim_space_length bounded_message_length order.trans by blast
  show ?thesis
    using fail_shows [OF assms(1,2) terminal_input_action] assms(3) bounded_message_not_blank [of t] l
    by (simp add: failed_preparing_def terminal_input_def c nullable_string_def)
qed

text \<open>C0: a preparation that keeps failing never leaves its workflow stranded. On the last attempt of the
  queue job (attempts have reached max_attempts) and with no shutdown under way, \<open>HandleDurable\<close>
  leaves the workflow either moved on to QUEUED or in FAILED, with the code
  WORKSPACE_PREPARATION_FAILED, a message of 1 to 2048 bytes and WORKSPACE_PREPARING as the stage to
  retry, so that RETRY and RESTART are possible. On an earlier attempt a failure leaves the workflow
  in WORKSPACE_PREPARING for the next delivery, or moved on.\<close>

theorem preparation_never_strands:
  assumes "prep_ready E w" "j_type j = ''workflow.prepare_workspace''" "decode_prepare_payload (j_payload j) = Inr p"
    and "prepare_gate (pw_db w) p = GateProceed job" "\<not> pe_cancelled E AtTerminal" "1 \<le> j_max_attempts j"
    and "length (marshal (JObj (terminal_details j))) \<le> 32768"
    and "prepare_handle_durable C E j w = (r, w')"
  shows "(j_max_attempts j \<le> j_attempts j \<longrightarrow> moved_on (pw_db w') job \<or> failed_preparing (pw_db w') job)
    \<and> (j_attempts j < j_max_attempts j \<longrightarrow> moved_on (pw_db w') job \<or> same_db (pw_db w) (pw_db w') \<and> r \<noteq> Inr ())"
proof -
  obtain r1 w1 where h1: "prepare_handle C E j w = (r1, w1)" by fastforce
  note h = handle_handled [OF assms(1-4) h1]
  note g = prepare_gate_proceeds [OF assms(4)]
  have m: "advanced E job (pw_db w) (pw_db w1) \<Longrightarrow> moved_on (pw_db w1) job" using advanced_moved h g by blast
  have id: "wf_id job = trim_space (dp_workflow_job_id p)" using wf_get_Inr g by blast
  show ?thesis
  proof (cases "moved_on (pw_db w1) job")
    case True
    then obtain v where v: "wf_get (pw_db w1) (dp_workflow_job_id p) = Inr v" "wf_status_of v = StQueued"
      using id by (auto simp: moved_on_def wf_get_def)
    then have "w' = w1" using assms(3,8) h1
      by (cases r1) (auto simp: prepare_handle_durable_def split: if_splits)
    then show ?thesis using True by simp
  next
    case False
    then have s: "same_db (pw_db w) (pw_db w1)" and "r1 \<noteq> Inr ()"
      using h m by (auto simp: handled_def outcome_def)
    then obtain e where e: "r1 = Inl e" by (cases r1) auto
    have ok: "wf_db_ok (pw_db w1)" "wf_get (pw_db w1) (wf_id job) = Inr job" "wf_get (pw_db w1) (dp_workflow_job_id p) = Inr job"
      using same_db_ok [OF s] same_db_get [OF s] assms(1) h g by (simp_all add: prep_ready_def)
    let ?inp = "terminal_input job j (bounded_failure_message (pe_text E e))"
    obtain db' v where t: "wf_transition (prep_wf_env E AtTerminal) (wf_id job) ?inp (pw_db w1) = Inr (db', v)"
      using terminal_accepted [OF ok(1,2), of j "bounded_failure_message (pe_text E e)" "prep_wf_env E AtTerminal"]
        assms(7) g bounded_message_not_blank by auto
    have "failed_preparing db' job" using terminal_fails [OF t ok(2)] g by blast
    moreover have "w' = (if j_attempts j < j_max_attempts j then w1 else w1\<lparr> pw_db := db' \<rparr>) \<and> r = Inl e"
      using assms(3,5,6,8) h1 e ok(3) g t by (simp add: prepare_handle_durable_def split: if_splits)
    ultimately show ?thesis using s by simp
  qed
qed

subsection \<open>A first preparation\<close>

lemma update_returning_snoc:
  "\<forall>r\<in>set t. \<not> P r \<Longrightarrow> P r0 \<Longrightarrow> update_returning P f (t @ [r0]) = Some (t @ [f r0], f r0)"
  by (induction t) (simp_all add: update_returning_def split: option.splits)

text \<open>Nothing stands in the way of the first preparation of a workflow: its workspace does not exist yet,
  Git checks out a clean tree, the recorder works, the lease outlives the checkout.\<close>

definition first_run :: "prep_config \<Rightarrow> 'g prep_env \<Rightarrow> wf_job \<Rightarrow> dispatch_payload_rec \<Rightarrow> 'g prep_world \<Rightarrow> snapshot \<Rightarrow> bool" where
  "first_run C E job p w s =
     ((\<forall>r\<in>set (pw_ws w). ws_workflow_job_id r \<noteq> wf_id job \<and> ws_id r \<noteq> pe_new_id E AtEnsure
         \<and> ws_path r \<noteq> path_join (pe_root E) (wf_id job))
      \<and> validate_identifier (wf_id job) = Inr () \<and> pe_new_id E AtEnsure \<noteq> []
      \<and> (\<exists>r\<in>set (db_repositories (pw_db w)). rp_id r = wf_repository_id job)
      \<and> dp_action p \<noteq> ''RESTART'' \<and> trim_space (ph_owner C) \<noteq> [] \<and> ph_lease_ttl C > 0
      \<and> (\<forall>src path g. fst (pe_prepare E src path (wf_base_commit_sha job) g) = Inr s)
      \<and> \<not> sn_dirty s \<and> trim_space (sn_head s) \<noteq> [] \<and> (\<forall>site. pe_recorder_ok E site)
      \<and> unix_milli (pe_now E AtReady) < unix_milli (pe_now E AtAcquire + ph_lease_ttl C)
      \<and> pe_new_id E AtAdvance \<notin> jr_id ` set (db_jobs (pw_db w))
      \<and> length (marshal (JObj [(''head_sha'', JStr (sn_head s)), (''workspace_id'', JStr (pe_new_id E AtEnsure))])) \<le> 32768)"

lemma post_run_ws:
  "post (run_ws f m) w Q = (case m (pw_ws w) of Inl e \<Rightarrow> Q (Inl (f e)) w | Inr (t, x) \<Rightarrow> Q (Inr x) (w\<lparr> pw_ws := t \<rparr>))"
  by (simp add: post_def run_ws_def split: sum.splits prod.splits)

lemma post_record_ok:
  "pe_recorder_ok E site \<Longrightarrow> post (record_activity E site i ty p) w Q \<longleftrightarrow>
     Q (Inr ()) (w\<lparr> pw_db := (pw_db w)\<lparr> db_events := db_events (pw_db w) @
        [\<lparr> ev_job = i, ev_type = ty, ev_payload = p, ev_at = pe_now E site \<rparr>] \<rparr> \<rparr>)"
  by (simp add: post_def record_activity_def)

lemma post_clean_checkout:
  "fst (m (pw_git w)) = Inr s \<Longrightarrow> \<not> sn_dirty s \<Longrightarrow>
     post (failing_with E wfid i tok msg (sbind (run_git PrepPrepare m) require_clean)) w Q
     \<longleftrightarrow> Q (Inr s) (w\<lparr> pw_git := snd (m (pw_git w)) \<rparr>)"
  by (cases "m (pw_git w)") (simp add: post_def failing_with_def sbind_def run_git_def require_clean_def)

lemma ready_accepted:
  assumes "wf_db_ok db" "wf_get db (wf_id job) = Inr job" "wf_status_of job = StWorkspacePreparing"
    and "length (marshal (JObj (the (ti_details (ready_input job item s))))) \<le> 32768" "we_new_id e \<notin> jr_id ` set (db_jobs db)"
  shows "\<exists>db' w'. wf_transition e (wf_id job) (ready_input job item s) db = Inr (db', w')"
proof -
  have w: "job \<in> set (db_workflows db)" "trim_space (wf_id job) = wf_id job" "wf_row_ok job"
    using wf_get_Inr [OF assms(2)] assms(1) by (auto simp: wf_db_ok_def)
  have a: "input_action (ready_input job item s) \<noteq> []" by (simp add: ready_input_action)
  have v: "ti_expected_version (ready_input job item s) = wf_version job" "1 \<le> wf_version job" "wf_id job \<noteq> []"
    using w(3) by (simp_all add: ready_input_def wf_row_ok_def)
  have d: "ti_details (ready_input job item s) = Some (the (ti_details (ready_input job item s)))"
    by (simp add: ready_input_def)
  have "safe_details (ti_details (ready_input job item s)) = Inr (JObj (the (ti_details (ready_input job item s))))"
    by (subst d) (use assms(4) in \<open>simp add: safe_details_def\<close>)
  then have "transition_guards job ActWorkspaceReady (ready_input job item s)
      = Inr (StQueued, JObj (the (ti_details (ready_input job item s))))"
    using assms(3) by (simp add: transition_guards_def check_continue_def next_status_def transition_table_def)
  then have "\<exists>x. wf_transition e (wf_id job) (ready_input job item s) db = Inr x"
    by (intro transition_accepts [OF assms(1), where w = job and n = StQueued]) (use w v a assms(5) in simp_all)
  then show ?thesis by auto
qed

lemma first_run_succeeds:
  assumes "prep_ready E w" "j_type j = ''workflow.prepare_workspace''" "decode_prepare_payload (j_payload j) = Inr p"
    and "prepare_gate (pw_db w) p = GateProceed job" "first_run C E job p w s"
  shows "\<exists>w'. prepare_handle C E j w = (Inr (), w')"
proof -
  note g = prepare_gate_proceeds [OF assms(4)]
  let ?wf = "wf_id job" and ?new = "pe_new_id E AtEnsure" and ?tok = "pe_new_id E AtAcquire"
  have wf: "trim_space ?wf = ?wf" "wf_get (pw_db w) ?wf = Inr job"
    using g wf_get_Inr [of "pw_db w" "dp_workflow_job_id p" job] by (auto simp: wf_get_def)
  have tr: "trim_space ?new = ?new" using assms(1) by (simp add: prep_ready_def)
  have f: "\<forall>r\<in>set (pw_ws w). ws_workflow_job_id r \<noteq> ?wf" "\<forall>r\<in>set (pw_ws w). ws_id r \<noteq> ?new"
    "\<forall>r\<in>set (pw_ws w). ws_path r \<noteq> path_join (pe_root E) ?wf" "validate_identifier ?wf = Inr ()" "?new \<noteq> []"
    "\<exists>r\<in>set (db_repositories (pw_db w)). rp_id r = wf_repository_id job" "dp_action p \<noteq> ''RESTART''"
    "trim_space (ph_owner C) \<noteq> []" "ph_lease_ttl C > 0"
    "\<forall>src path g. fst (pe_prepare E src path (wf_base_commit_sha job) g) = Inr s" "\<not> sn_dirty s"
    "trim_space (sn_head s) \<noteq> []" "\<forall>site. pe_recorder_ok E site"
    "unix_milli (pe_now E AtReady) < unix_milli (pe_now E AtAcquire + ph_lease_ttl C)"
    "pe_new_id E AtAdvance \<notin> jr_id ` set (db_jobs (pw_db w))"
    "length (marshal (JObj [(''head_sha'', JStr (sn_head s)), (''workspace_id'', JStr ?new)])) \<le> 32768"
    using assms(5) unfolding first_run_def by blast+
  obtain r where r: "lookup_by rp_id (wf_repository_id job) (db_repositories (pw_db w)) = Some r"
    using f(6) lookup_by_None [of rp_id "wf_repository_id job" "db_repositories (pw_db w)"] by force
  define src where "src = \<lparr> src_project_id = wf_project_id job, src_repository_id = wf_repository_id job,
    src_base_commit_sha = wf_base_commit_sha job, src_local_path = rp_local_path r \<rparr>"
  have src: "workspace_source (pw_db w) ?wf = Some src"
    using wf_get_Inr [OF wf(2)] wf(1) r by (simp add: workspace_source_def src_def)
  define row where "row = new_workspace ?new (pe_now E AtEnsure) ?wf src (path_join (pe_root E) ?wf)"
  define item where "item = (scan_workspace row)\<lparr> w_created_at := pe_now E AtEnsure, w_updated_at := pe_now E AtEnsure \<rparr>"
  have row: "ws_id row = ?new" "ws_status row = WsRequested" "ws_lease_token row = None" "w_id item = ?new"
    "w_status item = WsRequested"
    by (simp_all add: row_def item_def new_workspace_def scan_workspace_def)
  have "lookup_by ws_workflow_job_id ?wf (pw_ws w) = None"
    unfolding lookup_by_None using f(1) by auto
  then have "load_by_workflow (pw_ws w) ?wf = Inl WsNotFound" by (simp add: load_by_workflow_def)
  moreover have "insert_workspace row (pw_ws w) = Inr (pw_ws w @ [row])"
    using f(1-3) by (auto simp: insert_workspace_def row_def new_workspace_def)
  ultimately have ens: "ensure_for_workflow (pe_root E) (workspace_source (pw_db w)) ?new (pe_now E AtEnsure) ?wf (pw_ws w)
      = Inr (pw_ws w @ [row], item, src)"
    using f(4) src wf(1) by (simp add: ensure_for_workflow_def Let_def row_def item_def)
  note no = f(2)
  define row2 where "row2 = acquire_row (trim_space (ph_owner C)) ?tok (pe_now E AtAcquire) (ph_lease_ttl C) row"
  have acq: "acquire ?tok (pe_now E AtAcquire) ?new (ph_owner C) (ph_lease_ttl C) (pw_ws w @ [row])
      = Inr (pw_ws w @ [row2], scan_workspace row2, ?tok)"
    using f(5,8,9) tr no row by (simp add: acquire_def Let_def lease_result_def update_returning_snoc can_acquire_def row2_def)
  have row2: "ws_id row2 = ?new" "ws_lease_token row2 = Some ?tok"
    "ws_lease_expires_at row2 = Some (unix_milli (pe_now E AtAcquire + ph_lease_ttl C))"
    using row by (simp_all add: row2_def acquire_row_def take_lease_def)
  define row3 where "row3 = Workspace.ready_row (pe_now E AtReady) (trim_space (sn_head s)) (sn_dirty s) row2"
  have rdy: "mark_ready (pe_now E AtReady) ?new ?tok (sn_head s) (sn_dirty s) (pw_ws w @ [row2])
      = Inr (pw_ws w @ [row3], scan_workspace row3)"
    using f(12,14) no row2
    by (simp add: mark_ready_def Let_def update_returning_snoc holds_token_def lease_live_def row3_def)
  have clean: "sn_dirty s = False" using f(11) by simp
  have row3: "w_id (scan_workspace row3) = ?new"
    using row2 by (simp add: row3_def Workspace.ready_row_def scan_workspace_def)
  have "post (prepare_handle C E j) w (\<lambda>r w'. r = Inr ())"
  proof -
    have "\<exists>db' v. wf_transition (prep_wf_env E AtAdvance) ?wf (ready_input job (scan_workspace row3) s)
        ((pw_db w)\<lparr> db_events := evs \<rparr>) = Inr (db', v)" for evs
      by (rule ready_accepted)
        (use assms(1) f(15,16) wf g row3 same_db_ok [of "pw_db w" "(pw_db w)\<lparr> db_events := evs \<rparr>"]
          same_db_get [of "pw_db w" "(pw_db w)\<lparr> db_events := evs \<rparr>"]
          in \<open>simp_all add: prep_ready_def prep_wf_env_def ready_input_def del: marshal.simps\<close>)
    then have adv: "post (advance_workflow E job (scan_workspace row3) s) w1 (\<lambda>r w'. r = Inr ())"
      if same: "same_db (pw_db w) (pw_db w1)" for w1
    proof -
      obtain evs where "pw_db w1 = (pw_db w)\<lparr> db_events := evs \<rparr>" using same by (auto simp: same_db_def)
      then show ?thesis
        using \<open>\<And>evs. \<exists>db' v. wf_transition (prep_wf_env E AtAdvance) ?wf (ready_input job (scan_workspace row3) s)
          ((pw_db w)\<lparr> db_events := evs \<rparr>) = Inr (db', v)\<close> [of evs] f(13)
        by (auto simp: post_def advance_workflow_def record_activity_def)
    qed
    have "post (prepare_fresh C E job item src (j_attempts j)) (w\<lparr> pw_ws := pw_ws w @ [row] \<rparr>) (\<lambda>r w'. r = Inr ())"
      unfolding prepare_fresh_def
      by (simp add: post_sbind post_finally post_run_ws acq row(4) post_record_ok f(13)
          post_clean_checkout [where s = s] f(10,11) rdy [unfolded clean] adv)
    then show ?thesis
      using assms(2-4) f(7) row(5)
      by (simp add: prepare_handle_def post_def prepare_workspace_def sbind_def run_ws_def ens)
  qed
  then show ?thesis by (auto simp: post_def split: prod.splits)
qed

text \<open>C0: a first preparation that nothing stands in the way of succeeds: the handler creates the workspace,
  takes and gives back its lease, marks it READY and moves the workflow on to QUEUED.\<close>

theorem first_preparation_succeeds:
  assumes "prep_ready E w" "j_type j = ''workflow.prepare_workspace''" "decode_prepare_payload (j_payload j) = Inr p"
    and "prepare_gate (pw_db w) p = GateProceed job" "first_run C E job p w s"
  shows "\<exists>w'. prepare_handle C E j w = (Inr (), w') \<and> has_ready_workspace (wf_id job) (pw_ws w')
    \<and> moved_on (pw_db w') job"
proof -
  obtain w' where h: "prepare_handle C E j w = (Inr (), w')" using first_run_succeeds [OF assms] by blast
  note k = handle_handled [OF assms(1-4) h]
  have "wf_status_of job = StWorkspacePreparing" using prepare_gate_proceeds [OF assms(4)] by blast
  then show ?thesis using h k advanced_moved by (auto simp: handled_def outcome_def)
qed

subsection \<open>Examples\<close>

definition sample_preparing :: wf_db where
  "sample_preparing = sample_next ''a'' 1 ''START'' sample_db1"

lemma sample_preparing_at: "at_status sample_preparing StWorkspacePreparing None 2 {''a''}"
  using sample_next_at [OF sample_db1_at, of "''a''" "''START''" ActStart StWorkspacePreparing]
  by (simp add: sample_actions plain_char_def next_status_def transition_table_def sample_preparing_def)

definition sample_prep_env :: "bool \<Rightarrow> unit prep_env" where
  "sample_prep_env works = \<lparr> pe_now = (\<lambda>_. 0), pe_queue_now = (\<lambda>_. 0),
     pe_new_id = (\<lambda>site. case site of AtEnsure \<Rightarrow> ''ws1'' | AtAcquire \<Rightarrow> ''t1'' | _ \<Rightarrow> ''b''),
     pe_recorder_ok = (\<lambda>_. True), pe_cancelled = (\<lambda>_. False), pe_root = ''/root'',
     pe_prepare = (\<lambda>_ _ _ g. (if works then Inr \<lparr> sn_head = ''abc'', sn_dirty = False \<rparr> else Inl ''no git'', g)),
     pe_inspect = (\<lambda>_ base _. Inr \<lparr> sn_head = base, sn_dirty = False \<rparr>),
     pe_remove = (\<lambda>_ _ g. (Inr (), g)), pe_text = (\<lambda>_. ''no git'') \<rparr>"

definition sample_prep_world :: "unit prep_world" where
  "sample_prep_world = \<lparr> pw_db = sample_preparing, pw_ws = [], pw_git = () \<rparr>"

definition sample_prep_job :: "json_text job" where
  "sample_prep_job = new_job ''a'' 0 ''workflow.prepare_workspace''
     (Some (dispatch_payload ''w'' 2 ActStart StWorkspacePreparing)) 3 0"

definition sample_prep_config :: prep_config where
  "sample_prep_config = \<lparr> ph_owner = ''w1'', ph_lease_ttl = 60000000000 \<rparr>"

definition sample_prep_payload :: dispatch_payload_rec where
  "sample_prep_payload = \<lparr> dp_workflow_job_id = ''w'', dp_workflow_version = 2, dp_action = ''START'',
     dp_target_status = ''WORKSPACE_PREPARING'' \<rparr>"

lemma sample_prep_decodes: "decode_prepare_payload (j_payload (sample_prep_job\<lparr> j_attempts := n \<rparr>)) = Inr sample_prep_payload"
  using unmarshal_dispatch_payload [of 2 "''w''" ActStart StWorkspacePreparing]
    known_dispatch_payload [of "''w''" 2 ActStart StWorkspacePreparing]
  by (simp add: decode_prepare_payload_def sample_prep_job_def new_job_def trim_payload_def sample_prep_payload_def)

lemma sample_prep_facts:
  "prep_ready (sample_prep_env works) sample_prep_world"
  "j_type (sample_prep_job\<lparr> j_attempts := n \<rparr>) = ''workflow.prepare_workspace''"
  "\<exists>job. prepare_gate (pw_db sample_prep_world) sample_prep_payload = GateProceed job"
proof -
  show "prep_ready (sample_prep_env works) sample_prep_world"
    using sample_preparing_at wf_reachable_ok
    by (auto simp: prep_ready_def sample_prep_world_def ws_ok_def unique_key_def ids_trimmed_def unused_token_def
        sample_prep_env_def at_status_def)
  show "j_type (sample_prep_job\<lparr> j_attempts := n \<rparr>) = ''workflow.prepare_workspace''"
    by (simp add: sample_prep_job_def new_job_def)
  obtain w where "db_workflows sample_preparing = [w]" "wf_id w = ''w''" "wf_version w = 2"
    "wf_status_of w = StWorkspacePreparing"
    using sample_preparing_at by (auto simp: at_status_def)
  then show "\<exists>job. prepare_gate (pw_db sample_prep_world) sample_prep_payload = GateProceed job"
    by (simp add: prepare_gate_def sample_prep_world_def sample_prep_payload_def wf_get_def load_job_def lookup_by_def
        is_stale_prepare_dispatch_def)
qed

lemma undisturbed_preparation_example:
  "\<exists>r w' job. prepare_handle sample_prep_config (sample_prep_env True) (sample_prep_job\<lparr> j_attempts := 1 \<rparr>) sample_prep_world = (r, w')
     \<and> ws_ok (pw_ws w') \<and> unused_token ''t1'' (pw_ws w') \<and> (r = Inr () \<longrightarrow> moved_on (pw_db w') job)"
proof -
  obtain job where g: "prepare_gate (pw_db sample_prep_world) sample_prep_payload = GateProceed job"
    using sample_prep_facts(3) by blast
  obtain r w' where h: "prepare_handle sample_prep_config (sample_prep_env True) (sample_prep_job\<lparr> j_attempts := 1 \<rparr>)
      sample_prep_world = (r, w')" by fastforce
  have "pe_new_id (sample_prep_env True) AtAcquire = ''t1''" by (simp add: sample_prep_env_def)
  then show ?thesis
    using undisturbed_preparation [OF sample_prep_facts(1,2) sample_prep_decodes g h] h by auto
qed

text \<open>The sample workflow keeps the repository it was created for.\<close>

lemma sample_db1_repository:
  "\<exists>w. db_workflows sample_db1 = [w] \<and> wf_repository_id w = ''r'' \<and> db_repositories sample_db1 = db_repositories sample_db0"
proof -
  obtain db w where "wf_create (sample_env ''w'') sample_create sample_db0 = Inr (db, w)" "db_workflows db = [w]"
    using sample_create_succeeds by blast
  moreover from this(1) have "wf_repository_id w = ''r'' \<and> db_repositories db = db_repositories sample_db0"
  proof (rule wf_create_cases, goal_cases)
    case (1 p v r branch evs)
    have "trim_space ''r'' = ''r''" by (simp add: plain_char_def)
    then show ?case using 1(5,8) by (simp add: new_workflow_def normalize_create_def sample_create_def)
  qed
  ultimately show ?thesis by (simp add: sample_db1_def)
qed

lemma sample_preparing_repository:
  "\<exists>w. db_workflows sample_preparing = [w] \<and> wf_repository_id w = ''r'' \<and> db_repositories sample_preparing = db_repositories sample_db0"
proof -
  obtain w where w: "db_workflows sample_db1 = [w]" "wf_repository_id w = ''r''"
    "db_repositories sample_db1 = db_repositories sample_db0"
    using sample_db1_repository by blast
  obtain db' w' where t: "wf_transition (sample_env ''a'') ''w'' (sample_input ''START'' 1) sample_db1 = Inr (db', w')"
    by (rule sample_transition [OF sample_db1_at, of "''a''" "''START''" ActStart StWorkspacePreparing])
      (simp_all add: sample_actions plain_char_def next_status_def transition_table_def)
  from t have "\<exists>w. db_workflows db' = [w] \<and> wf_repository_id w = ''r'' \<and> db_repositories db' = db_repositories sample_db0"
  proof (rule wf_transition_cases, goal_cases)
    case (1 v n' details q d' evs)
    then show ?case using w by (simp add: apply_transition_def split: prod.splits)
  qed
  then show ?thesis using t by (simp add: sample_preparing_def sample_next_def)
qed

lemma sample_prep_first:
  "\<exists>job. prepare_gate (pw_db sample_prep_world) sample_prep_payload = GateProceed job
     \<and> first_run sample_prep_config (sample_prep_env True) job sample_prep_payload sample_prep_world
         \<lparr> sn_head = ''abc'', sn_dirty = False \<rparr>"
proof -
  obtain job where g: "prepare_gate (pw_db sample_prep_world) sample_prep_payload = GateProceed job"
    using sample_prep_facts(3) by blast
  have "job \<in> set (db_workflows sample_preparing)" "wf_id job = ''w''"
    using prepare_gate_proceeds [OF g] wf_get_Inr [of sample_preparing "''w''" job]
    by (simp_all add: sample_prep_world_def sample_prep_payload_def)
  then have job: "wf_repository_id job = ''r''" "wf_id job = ''w''" "db_repositories sample_preparing = db_repositories sample_db0"
    "''b'' \<notin> jr_id ` set (db_jobs sample_preparing)"
    using sample_preparing_repository sample_preparing_at by (auto simp: at_status_def)
  have "length (marshal (JObj [(''head_sha'', JStr ''abc''), (''workspace_id'', JStr ''ws1'')])) \<le> 32768"
    using length_quote_json [of "''head_sha''"] length_quote_json [of "''abc''"]
      length_quote_json [of "''workspace_id''"] length_quote_json [of "''ws1''"] by simp
  then have "first_run sample_prep_config (sample_prep_env True) job sample_prep_payload sample_prep_world
         \<lparr> sn_head = ''abc'', sn_dirty = False \<rparr>"
    using job unfolding first_run_def
    by (simp add: sample_prep_env_def sample_prep_world_def sample_prep_payload_def sample_prep_config_def
        sample_db0_def validate_identifier_def safe_id_char_def plain_char_def unix_milli_def del: marshal.simps)
  then show ?thesis using g by blast
qed

lemma first_preparation_succeeds_witness:
  "\<exists>w' (job :: wf_job). prepare_handle sample_prep_config (sample_prep_env True) (sample_prep_job\<lparr> j_attempts := 1 \<rparr>) sample_prep_world
     = (Inr (), w') \<and> has_ready_workspace (wf_id job) (pw_ws w')"
proof -
  obtain job where j: "prepare_gate (pw_db sample_prep_world) sample_prep_payload = GateProceed job"
     "first_run sample_prep_config (sample_prep_env True) job sample_prep_payload sample_prep_world
         \<lparr> sn_head = ''abc'', sn_dirty = False \<rparr>"
    using sample_prep_first by blast
  from first_preparation_succeeds [OF sample_prep_facts(1,2) sample_prep_decodes [of 1] j]
  obtain w' where "prepare_handle sample_prep_config (sample_prep_env True) (sample_prep_job\<lparr> j_attempts := 1 \<rparr>)
      sample_prep_world = (Inr (), w')" "has_ready_workspace (wf_id job) (pw_ws w')" by (elim exE conjE)
  then show ?thesis by (intro exI conjI)
qed

lemma preparation_is_idempotent_witness:
  "\<exists>w'. prepare_handle sample_prep_config (sample_prep_env True) (sample_prep_job\<lparr> j_attempts := 1 \<rparr>) sample_prep_world = (Inr (), w')
     \<and> prepare_handle sample_prep_config (sample_prep_env False) (sample_prep_job\<lparr> j_attempts := 1 \<rparr>) w' = (Inr (), w')"
proof -
  obtain job where j: "prepare_gate (pw_db sample_prep_world) sample_prep_payload = GateProceed job"
     "first_run sample_prep_config (sample_prep_env True) job sample_prep_payload sample_prep_world
         \<lparr> sn_head = ''abc'', sn_dirty = False \<rparr>"
    using sample_prep_first by blast
  obtain w' where h: "prepare_handle sample_prep_config (sample_prep_env True) (sample_prep_job\<lparr> j_attempts := 1 \<rparr>)
      sample_prep_world = (Inr (), w')"
    using first_run_succeeds [OF sample_prep_facts(1,2) sample_prep_decodes [of 1] j] by (elim exE)
  show ?thesis
    by (intro exI conjI) (rule h, rule preparation_is_idempotent [OF sample_prep_facts(1,2) sample_prep_decodes [of 1] j(1) h])
qed

lemma preparation_never_strands_witness:
  "\<exists>r w' job. prepare_handle_durable sample_prep_config (sample_prep_env False) (sample_prep_job\<lparr> j_attempts := 3 \<rparr>) sample_prep_world = (r, w')
     \<and> (moved_on (pw_db w') job \<or> failed_preparing (pw_db w') job)"
proof -
  let ?j = "sample_prep_job\<lparr> j_attempts := 3 \<rparr>"
  obtain job where g: "prepare_gate (pw_db sample_prep_world) sample_prep_payload = GateProceed job"
    using sample_prep_facts(3) by blast
  obtain r w' where h: "prepare_handle_durable sample_prep_config (sample_prep_env False) ?j sample_prep_world = (r, w')" by fastforce
  have m: "length (marshal (JObj (terminal_details ?j))) \<le> 32768"
    using length_quote_json [of "''attempt''"] length_quote_json [of "''max_attempts''"]
      length_quote_json [of "''queue_job_id''"] length_quote_json [of "''a''"]
    by (simp add: terminal_details_def sample_prep_job_def new_job_def show_int_def show_nat.simps)
  have c: "\<not> pe_cancelled (sample_prep_env False) AtTerminal" "1 \<le> j_max_attempts ?j" "j_max_attempts ?j \<le> j_attempts ?j"
    by (simp_all add: sample_prep_env_def sample_prep_job_def new_job_def)
  show ?thesis
    using preparation_never_strands [OF sample_prep_facts(1,2) sample_prep_decodes g c(1,2) m h] c(3) h by blast
qed

end
