(* ===== verification/ExecutionRepo.thy ===== *)
theory ExecutionRepo
  imports WorkflowRepo
begin

text \<open>The execution repository (internal/execution: repository.go, iterations.go): executions, their tool
  runs, patch checkpoints and executor iterations. A row is what the scan functions read: NULL text
  is the empty string, instants are kept to the millisecond. The ids and the clock are arguments;
  \<open>refs_ok\<close> says whether the rows an execution refers to in other tables exist. The floating-point
  cost estimate of the usage is left out.\<close>

datatype ex_status = ExPending | ExRunning | ExCompleted | ExFailed | ExCancelled

record usage =
  us_input_tokens :: int
  us_output_tokens :: int
  us_cached_input_tokens :: int
  us_total_tokens :: int
  us_attempt_count :: int
  us_fallback_used :: bool
  us_final_provider :: string
  us_final_model :: string
  us_estimated_input_tokens :: int
  us_estimated_tokens_spent :: int
  us_validation_attempts :: int
  us_validation_error_count :: int
  us_repair_used :: bool
  us_redaction_count :: int

record execution =
  ex_id :: string
  ex_workflow_job_id :: string
  ex_workflow_version :: int
  ex_execution_version :: int
  ex_plan_version_id :: string
  ex_workspace_id :: string
  ex_base_commit_sha :: string
  ex_agent_settings_version :: int
  ex_provider :: string
  ex_model :: string
  ex_usage :: usage
  ex_status_of :: ex_status
  ex_tool_calls :: int
  ex_failure_code :: string
  ex_failure_message :: string
  ex_started_at :: "instant option"
  ex_completed_at :: "instant option"
  ex_created_at :: instant
  ex_updated_at :: instant

record tool_run =
  tl_id :: string
  tl_execution_id :: string
  tl_sequence :: int
  tl_tool :: string
  tl_status :: ex_status
  tl_input :: json
  tl_output :: json
  tl_error_code :: string
  tl_error_message :: string
  tl_started_at :: "instant option"
  tl_completed_at :: "instant option"
  tl_created_at :: instant
  tl_updated_at :: instant

record checkpoint =
  cp_id :: string
  cp_execution_id :: string
  cp_sequence :: int
  cp_base_commit_sha :: string
  cp_workspace_head_sha :: string
  cp_patch_checksum :: string
  cp_patch_bytes :: nat
  cp_changed_files :: "string list"
  cp_patch_text :: string
  cp_artifact_key :: string
  cp_created_at :: instant

record iteration =
  it_id :: string
  it_execution_id :: string
  it_sequence :: int
  it_provider :: string
  it_model :: string
  it_status :: ex_status
  it_action_type :: string
  it_tool :: string
  it_action :: json
  it_result :: json
  it_usage :: usage
  it_error_code :: string
  it_error_message :: string
  it_started_at :: instant
  it_completed_at :: "instant option"
  it_created_at :: instant
  it_updated_at :: instant

record ex_db =
  xd_executions :: "execution list"
  xd_tool_runs :: "tool_run list"
  xd_checkpoints :: "checkpoint list"
  xd_iterations :: "iteration list"

datatype ex_error = ExNotFound | ExInvalid | ExToolCallLimit | ExDbError

record ex_input =
  xi_workflow_job_id :: string
  xi_workflow_version :: int
  xi_execution_version :: int
  xi_plan_version_id :: string
  xi_workspace_id :: string
  xi_base_commit_sha :: string
  xi_agent_settings_version :: int
  xi_provider :: string
  xi_model :: string

definition no_usage :: usage where
  "no_usage = \<lparr> us_input_tokens = 0, us_output_tokens = 0, us_cached_input_tokens = 0, us_total_tokens = 0,
     us_attempt_count = 0, us_fallback_used = False, us_final_provider = [], us_final_model = [],
     us_estimated_input_tokens = 0, us_estimated_tokens_spent = 0, us_validation_attempts = 0,
     us_validation_error_count = 0, us_repair_used = False, us_redaction_count = 0 \<rparr>"

definition cut :: "nat \<Rightarrow> string \<Rightarrow> string" where
  "cut n s = (if length s > n then take n s else s)"

subsection \<open>Executions\<close>

definition ex_get :: "ex_db \<Rightarrow> string \<Rightarrow> ex_error + execution" where
  "ex_get db i = (case lookup_by ex_id (trim_space i) (xd_executions db) of
     None \<Rightarrow> Inl ExNotFound | Some e \<Rightarrow> Inr e)"

definition get_by_version :: "ex_db \<Rightarrow> string \<Rightarrow> int \<Rightarrow> ex_error + execution" where
  "get_by_version db i v =
     (case find (\<lambda>e. ex_workflow_job_id e = trim_space i \<and> ex_execution_version e = v) (xd_executions db) of
        None \<Rightarrow> Inl ExNotFound | Some e \<Rightarrow> Inr e)"

definition list_workflow :: "ex_db \<Rightarrow> string \<Rightarrow> execution list" where
  "list_workflow db i =
     sort_key (\<lambda>e. - ex_execution_version e) (filter (\<lambda>e. ex_workflow_job_id e = trim_space i) (xd_executions db))"

definition normalize_ex_input :: "ex_input \<Rightarrow> ex_input" where
  "normalize_ex_input i = i\<lparr> xi_workflow_job_id := trim_space (xi_workflow_job_id i),
     xi_plan_version_id := trim_space (xi_plan_version_id i), xi_workspace_id := trim_space (xi_workspace_id i),
     xi_base_commit_sha := trim_space (xi_base_commit_sha i), xi_provider := trim_space (xi_provider i),
     xi_model := trim_space (xi_model i) \<rparr>"

definition ex_input_ok :: "ex_input \<Rightarrow> bool" where
  "ex_input_ok i = (\<not> (xi_workflow_job_id i = [] \<or> xi_plan_version_id i = [] \<or> xi_workspace_id i = []
     \<or> xi_base_commit_sha i = [] \<or> xi_workflow_version i < 1 \<or> xi_execution_version i < 1
     \<or> xi_agent_settings_version i < 1))"

definition new_execution :: "string \<Rightarrow> instant \<Rightarrow> ex_input \<Rightarrow> execution" where
  "new_execution new_id now i = \<lparr> ex_id = new_id, ex_workflow_job_id = xi_workflow_job_id i,
     ex_workflow_version = xi_workflow_version i, ex_execution_version = xi_execution_version i,
     ex_plan_version_id = xi_plan_version_id i, ex_workspace_id = xi_workspace_id i,
     ex_base_commit_sha = xi_base_commit_sha i, ex_agent_settings_version = xi_agent_settings_version i,
     ex_provider = xi_provider i, ex_model = xi_model i, ex_usage = no_usage, ex_status_of = ExPending,
     ex_tool_calls = 0, ex_failure_code = [], ex_failure_message = [], ex_started_at = None,
     ex_completed_at = None, ex_created_at = now, ex_updated_at = now \<rparr>"

definition insert_execution :: "(ex_input \<Rightarrow> bool) \<Rightarrow> ex_input \<Rightarrow> execution \<Rightarrow> ex_db \<Rightarrow> ex_error + ex_db" where
  "insert_execution refs_ok i e db =
     (if ex_id e \<in> ex_id ` set (xd_executions db) \<or> \<not> refs_ok i
         \<or> (\<exists>x\<in>set (xd_executions db). ex_workflow_job_id x = ex_workflow_job_id e
              \<and> ex_execution_version x = ex_execution_version e)
      then Inl ExDbError
      else Inr (db\<lparr> xd_executions := xd_executions db @
        [e\<lparr> ex_created_at := stored_at (ex_created_at e), ex_updated_at := stored_at (ex_updated_at e) \<rparr>] \<rparr>))"

definition create_or_get ::
  "string \<Rightarrow> instant \<Rightarrow> (ex_input \<Rightarrow> bool) \<Rightarrow> ex_input \<Rightarrow> ex_db \<Rightarrow> ex_error + ex_db \<times> execution \<times> bool" where
  "create_or_get new_id now refs_ok raw db =
     (let i = normalize_ex_input raw in
      if \<not> ex_input_ok i then Inl ExInvalid
      else case get_by_version db (xi_workflow_job_id i) (xi_execution_version i) of
        Inr e \<Rightarrow> Inr (db, e, False)
      | Inl _ \<Rightarrow>
        (case insert_execution refs_ok i (new_execution new_id now i) db of
           Inr db' \<Rightarrow> Inr (db', new_execution new_id now i, True)
         | Inl err \<Rightarrow>
           (case get_by_version db (xi_workflow_job_id i) (xi_execution_version i) of
              Inr e \<Rightarrow> Inr (db, e, False) | Inl _ \<Rightarrow> Inl err)))"

text \<open>The UPDATE ... RETURNING statements on one execution.\<close>

definition update_execution ::
  "(execution \<Rightarrow> bool) \<Rightarrow> (execution \<Rightarrow> execution) \<Rightarrow> ex_db \<Rightarrow> ex_error + ex_db \<times> execution" where
  "update_execution P f db =
     (case update_returning P f (xd_executions db) of
        None \<Rightarrow> Inl ExNotFound
      | Some (t, e) \<Rightarrow> Inr (db\<lparr> xd_executions := t \<rparr>, e))"

definition start_row :: "instant \<Rightarrow> execution \<Rightarrow> execution" where
  "start_row now e = e\<lparr> ex_status_of := ExRunning,
     ex_started_at := Some (case ex_started_at e of None \<Rightarrow> stored_at now | Some t \<Rightarrow> t),
     ex_updated_at := stored_at now \<rparr>"

definition ex_start :: "instant \<Rightarrow> string \<Rightarrow> ex_db \<Rightarrow> ex_error + ex_db \<times> execution" where
  "ex_start now i = update_execution (\<lambda>e. ex_id e = i \<and> ex_status_of e \<in> {ExPending, ExRunning}) (start_row now)"

definition add_usage :: "usage \<Rightarrow> usage \<Rightarrow> usage" where
  "add_usage t i = \<lparr> us_input_tokens = us_input_tokens t + us_input_tokens i,
     us_output_tokens = us_output_tokens t + us_output_tokens i,
     us_cached_input_tokens = us_cached_input_tokens t + us_cached_input_tokens i,
     us_total_tokens = us_total_tokens t + us_total_tokens i,
     us_attempt_count = us_attempt_count t + us_attempt_count i,
     us_fallback_used = (us_fallback_used t \<or> us_fallback_used i),
     us_final_provider = us_final_provider i, us_final_model = us_final_model i,
     us_estimated_input_tokens = us_estimated_input_tokens t + us_estimated_input_tokens i,
     us_estimated_tokens_spent = us_estimated_tokens_spent t + us_estimated_tokens_spent i,
     us_validation_attempts = us_validation_attempts t + us_validation_attempts i,
     us_validation_error_count = us_validation_error_count t + us_validation_error_count i,
     us_repair_used = (us_repair_used t \<or> us_repair_used i),
     us_redaction_count = us_redaction_count t + us_redaction_count i \<rparr>"

definition aggregate_usage :: "ex_db \<Rightarrow> string \<Rightarrow> usage" where
  "aggregate_usage db i =
     (let t = foldl add_usage no_usage
                (map it_usage (filter (\<lambda>x. it_execution_id x = trim_space i) (xd_iterations db))) in
      if us_total_tokens t = 0 then t\<lparr> us_total_tokens := us_input_tokens t + us_output_tokens t \<rparr> else t)"

definition complete_row_ex :: "instant \<Rightarrow> usage \<Rightarrow> execution \<Rightarrow> execution" where
  "complete_row_ex now u e = e\<lparr> ex_status_of := ExCompleted, ex_usage := u, ex_completed_at := Some (stored_at now),
     ex_updated_at := stored_at now, ex_failure_code := [], ex_failure_message := [] \<rparr>"

definition ex_complete :: "instant \<Rightarrow> string \<Rightarrow> ex_db \<Rightarrow> ex_error + ex_db \<times> execution" where
  "ex_complete now i db =
     update_execution (\<lambda>e. ex_id e = i \<and> ex_status_of e \<in> {ExPending, ExRunning, ExCompleted})
       (complete_row_ex now (aggregate_usage db i)) db"

definition fail_row_ex :: "instant \<Rightarrow> string \<Rightarrow> string \<Rightarrow> execution \<Rightarrow> execution" where
  "fail_row_ex now code message e = e\<lparr> ex_status_of := ExFailed, ex_failure_code := nullable_string code,
     ex_failure_message := nullable_string (cut 2048 message), ex_completed_at := Some (stored_at now),
     ex_updated_at := stored_at now \<rparr>"

definition ex_fail :: "instant \<Rightarrow> string \<Rightarrow> string \<Rightarrow> string \<Rightarrow> ex_db \<Rightarrow> ex_db" where
  "ex_fail now i code message db =
     db\<lparr> xd_executions := update_where (\<lambda>e. ex_id e = i) (fail_row_ex now code message) (xd_executions db) \<rparr>"

definition ex_cancel :: "instant \<Rightarrow> string \<Rightarrow> string \<Rightarrow> ex_db \<Rightarrow> ex_db" where
  "ex_cancel now i message db =
     db\<lparr> xd_executions := update_where (\<lambda>e. ex_id e = i \<and> ex_status_of e \<in> {ExPending, ExRunning})
       (\<lambda>e. e\<lparr> ex_status_of := ExCancelled, ex_failure_code := ''CANCELLED'',
          ex_failure_message := nullable_string (cut 2048 message), ex_completed_at := Some (stored_at now),
          ex_updated_at := stored_at now \<rparr>) (xd_executions db) \<rparr>"

subsection \<open>Tool runs\<close>

definition new_tool_run :: "string \<Rightarrow> instant \<Rightarrow> string \<Rightarrow> int \<Rightarrow> string \<Rightarrow> json \<Rightarrow> tool_run" where
  "new_tool_run new_id now i sq tool input = \<lparr> tl_id = new_id, tl_execution_id = i, tl_sequence = sq,
     tl_tool = tool, tl_status = ExRunning, tl_input = input, tl_output = JObj [], tl_error_code = [],
     tl_error_message = [], tl_started_at = Some now, tl_completed_at = None, tl_created_at = now,
     tl_updated_at = now \<rparr>"

definition insert_tool_run :: "tool_run \<Rightarrow> ex_db \<Rightarrow> ex_error + ex_db" where
  "insert_tool_run t db =
     (if tl_id t \<in> tl_id ` set (xd_tool_runs db)
         \<or> (\<exists>x\<in>set (xd_tool_runs db). tl_execution_id x = tl_execution_id t \<and> tl_sequence x = tl_sequence t)
      then Inl ExDbError
      else Inr (db\<lparr> xd_tool_runs := xd_tool_runs db @
        [t\<lparr> tl_started_at := map_option stored_at (tl_started_at t), tl_created_at := stored_at (tl_created_at t),
           tl_updated_at := stored_at (tl_updated_at t) \<rparr>] \<rparr>))"

definition start_tool ::
  "string \<Rightarrow> instant \<Rightarrow> string \<Rightarrow> string \<Rightarrow> json \<Rightarrow> int \<Rightarrow> ex_db \<Rightarrow> ex_error + ex_db \<times> tool_run" where
  "start_tool new_id now i tool input max_calls db =
     (case lookup_by ex_id i (xd_executions db) of
        None \<Rightarrow> Inl ExNotFound
      | Some e \<Rightarrow>
        if max_calls > 0 \<and> ex_tool_calls e \<ge> max_calls then Inl ExToolCallLimit
        else let t = new_tool_run new_id now i (ex_tool_calls e + 1) tool input in
          rbind (insert_tool_run t db) (\<lambda>db1.
          Inr (db1\<lparr> xd_executions := update_where (\<lambda>e. ex_id e = i)
                 (\<lambda>x. x\<lparr> ex_tool_calls := ex_tool_calls e + 1, ex_updated_at := stored_at now \<rparr>)
                 (xd_executions db1) \<rparr>, t)))"

definition complete_tool :: "instant \<Rightarrow> string \<Rightarrow> json \<Rightarrow> ex_db \<Rightarrow> ex_db" where
  "complete_tool now i output db = db\<lparr> xd_tool_runs := update_where (\<lambda>t. tl_id t = i)
     (\<lambda>t. t\<lparr> tl_status := ExCompleted, tl_output := output, tl_completed_at := Some (stored_at now),
        tl_updated_at := stored_at now \<rparr>) (xd_tool_runs db) \<rparr>"

definition fail_tool :: "instant \<Rightarrow> string \<Rightarrow> string \<Rightarrow> string \<Rightarrow> ex_db \<Rightarrow> ex_db" where
  "fail_tool now i code message db = db\<lparr> xd_tool_runs := update_where (\<lambda>t. tl_id t = i)
     (\<lambda>t. t\<lparr> tl_status := ExFailed, tl_error_code := nullable_string code,
        tl_error_message := nullable_string (cut 1024 message), tl_completed_at := Some (stored_at now),
        tl_updated_at := stored_at now \<rparr>) (xd_tool_runs db) \<rparr>"

definition list_tool_runs :: "ex_db \<Rightarrow> string \<Rightarrow> tool_run list" where
  "list_tool_runs db i = sort_key tl_sequence (filter (\<lambda>t. tl_execution_id t = i) (xd_tool_runs db))"

subsection \<open>Checkpoints\<close>

definition max_of :: "int list \<Rightarrow> int" where
  "max_of xs = foldl max 0 xs"

definition next_checkpoint :: "ex_db \<Rightarrow> string \<Rightarrow> int" where
  "next_checkpoint db i = max_of (map cp_sequence (filter (\<lambda>c. cp_execution_id c = i) (xd_checkpoints db))) + 1"

definition list_checkpoints :: "ex_db \<Rightarrow> string \<Rightarrow> checkpoint list" where
  "list_checkpoints db i = sort_key cp_sequence (filter (\<lambda>c. cp_execution_id c = i) (xd_checkpoints db))"

definition latest_checkpoint :: "ex_db \<Rightarrow> string \<Rightarrow> ex_error + checkpoint" where
  "latest_checkpoint db i =
     (let items = list_checkpoints db i in if items = [] then Inl ExNotFound else Inr (last items))"

definition insert_checkpoint :: "checkpoint \<Rightarrow> ex_db \<Rightarrow> ex_error + ex_db" where
  "insert_checkpoint c db =
     (if cp_id c \<in> cp_id ` set (xd_checkpoints db) \<or> cp_execution_id c \<notin> ex_id ` set (xd_executions db)
         \<or> (\<exists>x\<in>set (xd_checkpoints db). cp_execution_id x = cp_execution_id c
              \<and> (cp_sequence x = cp_sequence c \<or> cp_patch_checksum x = cp_patch_checksum c))
      then Inl ExDbError
      else Inr (db\<lparr> xd_checkpoints := xd_checkpoints db @ [c\<lparr> cp_created_at := stored_at (cp_created_at c) \<rparr>] \<rparr>))"

text \<open>\<open>sha256\<close> is the hexadecimal digest of crypto/sha256.\<close>

definition save_checkpoint ::
  "(string \<Rightarrow> string) \<Rightarrow> string \<Rightarrow> instant \<Rightarrow> string \<Rightarrow> string \<Rightarrow> string \<Rightarrow> string \<Rightarrow> string list \<Rightarrow> string
   \<Rightarrow> ex_db \<Rightarrow> ex_error + ex_db \<times> checkpoint" where
  "save_checkpoint sha256 new_id now i base head patch changed key db =
     (let c = \<lparr> cp_id = new_id, cp_execution_id = i, cp_sequence = next_checkpoint db i,
            cp_base_commit_sha = base, cp_workspace_head_sha = head,
            cp_patch_checksum = ''sha256:'' @ sha256 patch, cp_patch_bytes = length patch,
            cp_changed_files = changed, cp_patch_text = patch, cp_artifact_key = trim_space key,
            cp_created_at = now \<rparr> in
      case insert_checkpoint c db of
        Inr db' \<Rightarrow> Inr (db', c)
      | Inl err \<Rightarrow>
        (case latest_checkpoint db i of
           Inr old \<Rightarrow> if cp_patch_checksum old = cp_patch_checksum c then Inr (db, old) else Inl err
         | Inl _ \<Rightarrow> Inl err))"

subsection \<open>Iterations\<close>

record iteration_input =
  ii_provider :: string
  ii_model :: string
  ii_action_type :: string
  ii_tool :: string
  ii_action :: json
  ii_usage :: usage

definition next_iteration :: "ex_db \<Rightarrow> string \<Rightarrow> int" where
  "next_iteration db i = max_of (map it_sequence (filter (\<lambda>x. it_execution_id x = i) (xd_iterations db))) + 1"

definition insert_iteration :: "iteration \<Rightarrow> ex_db \<Rightarrow> ex_error + ex_db" where
  "insert_iteration x db =
     (if it_id x \<in> it_id ` set (xd_iterations db) \<or> it_execution_id x \<notin> ex_id ` set (xd_executions db)
         \<or> (\<exists>y\<in>set (xd_iterations db). it_execution_id y = it_execution_id x \<and> it_sequence y = it_sequence x)
      then Inl ExDbError
      else Inr (db\<lparr> xd_iterations := xd_iterations db @
        [x\<lparr> it_started_at := stored_at (it_started_at x), it_created_at := stored_at (it_created_at x),
           it_updated_at := stored_at (it_updated_at x) \<rparr>] \<rparr>))"

definition begin_iteration ::
  "string \<Rightarrow> instant \<Rightarrow> string \<Rightarrow> iteration_input \<Rightarrow> ex_db \<Rightarrow> ex_error + ex_db \<times> iteration" where
  "begin_iteration new_id now raw inp db =
     (let i = trim_space raw; provider = trim_space (ii_provider inp); model = trim_space (ii_model inp);
          ty = trim_space (ii_action_type inp); tool = trim_space (ii_tool inp) in
      if i = [] \<or> provider = [] \<or> model = [] \<or> (ty \<noteq> ''tool'' \<and> ty \<noteq> ''finish'') then Inl ExInvalid
      else if ty = ''tool'' \<and> tool = [] then Inl ExInvalid
      else let x = \<lparr> it_id = new_id, it_execution_id = i, it_sequence = next_iteration db i,
             it_provider = provider, it_model = model, it_status = ExRunning, it_action_type = ty,
             it_tool = tool, it_action = ii_action inp, it_result = JObj [], it_usage = ii_usage inp,
             it_error_code = [], it_error_message = [], it_started_at = now, it_completed_at = None,
             it_created_at = now, it_updated_at = now \<rparr> in
        rbind (insert_iteration x db) (\<lambda>db'. Inr (db', x)))"

definition update_iteration ::
  "string \<Rightarrow> (iteration \<Rightarrow> iteration) \<Rightarrow> ex_db \<Rightarrow> ex_error + ex_db" where
  "update_iteration i f db =
     (let P = (\<lambda>x. it_id x = trim_space i \<and> it_status x = ExRunning) in
      if affected P (xd_iterations db) \<noteq> 1 then Inl ExNotFound
      else Inr (db\<lparr> xd_iterations := update_where P f (xd_iterations db) \<rparr>))"

definition complete_iteration :: "instant \<Rightarrow> string \<Rightarrow> json \<Rightarrow> ex_db \<Rightarrow> ex_error + ex_db" where
  "complete_iteration now i result =
     update_iteration i (\<lambda>x. x\<lparr> it_status := ExCompleted, it_result := result,
       it_completed_at := Some (stored_at now), it_updated_at := stored_at now \<rparr>)"

definition fail_iteration :: "instant \<Rightarrow> string \<Rightarrow> string \<Rightarrow> string \<Rightarrow> ex_db \<Rightarrow> ex_error + ex_db" where
  "fail_iteration now i code message =
     update_iteration i (\<lambda>x. x\<lparr> it_status := ExFailed, it_error_code := trim_space code,
       it_error_message := cut 1024 (trim_space message), it_completed_at := Some (stored_at now),
       it_updated_at := stored_at now \<rparr>)"

definition list_iterations :: "ex_db \<Rightarrow> string \<Rightarrow> iteration list" where
  "list_iterations db i = sort_key it_sequence (filter (\<lambda>x. it_execution_id x = trim_space i) (xd_iterations db))"

definition recover_running_iterations :: "instant \<Rightarrow> string \<Rightarrow> ex_db \<Rightarrow> ex_db" where
  "recover_running_iterations now i db =
     db\<lparr> xd_iterations := update_where (\<lambda>x. it_execution_id x = trim_space i \<and> it_status x = ExRunning)
       (\<lambda>x. x\<lparr> it_status := ExFailed, it_error_code := ''INTERRUPTED'',
          it_error_message := ''executor iteration was interrupted before completion'',
          it_completed_at := Some (stored_at now), it_updated_at := stored_at now \<rparr>) (xd_iterations db) \<rparr>"

subsection \<open>Runs\<close>

text \<open>A history of repository calls. \<open>lim\<close> is the tool-call budget that the handler passes for an
  execution, its workflow's limit.\<close>

inductive ex_step :: "(string \<Rightarrow> int) \<Rightarrow> ex_db \<Rightarrow> ex_db \<Rightarrow> bool" for lim where
  x_create: "create_or_get new_id now refs_ok inp db = Inr (db', e, b) \<Longrightarrow> ex_step lim db db'"
| x_start: "ex_start now i db = Inr (db', e) \<Longrightarrow> ex_step lim db db'"
| x_complete: "ex_complete now i db = Inr (db', e) \<Longrightarrow> ex_step lim db db'"
| x_fail: "ex_step lim db (ex_fail now i code m db)"
| x_cancel: "ex_step lim db (ex_cancel now i m db)"
| x_start_tool: "start_tool new_id now i tool input (lim i) db = Inr (db', t) \<Longrightarrow> ex_step lim db db'"
| x_complete_tool: "ex_step lim db (complete_tool now i out db)"
| x_fail_tool: "ex_step lim db (fail_tool now i code m db)"
| x_checkpoint: "save_checkpoint sha new_id now i base head patch changed key db = Inr (db', c) \<Longrightarrow> ex_step lim db db'"
| x_begin: "begin_iteration new_id now i inp db = Inr (db', x) \<Longrightarrow> ex_step lim db db'"
| x_complete_it: "complete_iteration now i res db = Inr db' \<Longrightarrow> ex_step lim db db'"
| x_fail_it: "fail_iteration now i code m db = Inr db' \<Longrightarrow> ex_step lim db db'"
| x_recover: "ex_step lim db (recover_running_iterations now i db)"

inductive ex_run :: "(string \<Rightarrow> int) \<Rightarrow> ex_db \<Rightarrow> ex_db \<Rightarrow> bool" for lim where
  xr_refl: "ex_run lim db db"
| xr_step: "ex_run lim db db' \<Longrightarrow> ex_step lim db' db'' \<Longrightarrow> ex_run lim db db''"

definition empty_ex_db :: ex_db where
  "empty_ex_db = \<lparr> xd_executions = [], xd_tool_runs = [], xd_checkpoints = [], xd_iterations = [] \<rparr>"

subsection \<open>Numbering\<close>

text \<open>The children of an execution are numbered 1, 2, 3, ... in the order they were inserted.\<close>

definition seqs :: "('a \<Rightarrow> string) \<Rightarrow> ('a \<Rightarrow> int) \<Rightarrow> string \<Rightarrow> 'a list \<Rightarrow> int list" where
  "seqs g k i t = map k (filter (\<lambda>x. g x = i) t)"

definition numbered :: "int list \<Rightarrow> bool" where
  "numbered xs = (xs = map int [1..<Suc (length xs)])"

lemma seqs_Nil [simp]: "seqs g k i [] = []"
  by (simp add: seqs_def)

lemma seqs_snoc [simp]: "seqs g k i (t @ [x]) = (if g x = i then seqs g k i t @ [k x] else seqs g k i t)"
  by (simp add: seqs_def)

lemma seqs_update [simp]:
  "(\<And>x. g (f x) = g x) \<Longrightarrow> (\<And>x. k (f x) = k x) \<Longrightarrow> seqs g k i (update_where P f t) = seqs g k i t"
  by (induction t) (auto simp: seqs_def)

lemma seqs_absent: "i \<notin> g ` set t \<Longrightarrow> seqs g k i t = []"
  by (auto simp: seqs_def filter_empty_conv)

lemma numbered_Nil [simp]: "numbered []"
  by (simp add: numbered_def)

lemma numbered_snoc [simp]: "numbered (xs @ [n]) \<longleftrightarrow> numbered xs \<and> n = int (length xs) + 1"
  by (auto simp: numbered_def)

lemma max_of_snoc [simp]: "max_of (xs @ [x]) = max (max_of xs) x"
  by (simp add: max_of_def)

lemma numbered_max: "numbered xs \<Longrightarrow> max_of xs = int (length xs)"
proof (induction xs rule: rev_induct)
  case (snoc x xs)
  then show ?case by simp
qed (simp add: max_of_def)

lemma numbered_set: "numbered xs \<Longrightarrow> n \<in> set xs \<longleftrightarrow> 1 \<le> n \<and> n \<le> int (length xs)"
proof (induction xs rule: rev_induct)
  case (snoc x xs)
  then show ?case by auto
qed simp

definition ex_children_ok :: "(string \<Rightarrow> int) \<Rightarrow> ex_db \<Rightarrow> execution \<Rightarrow> bool" where
  "ex_children_ok lim db e =
     (let runs = seqs tl_execution_id tl_sequence (ex_id e) (xd_tool_runs db);
          cps = filter (\<lambda>c. cp_execution_id c = ex_id e) (xd_checkpoints db) in
      numbered runs \<and> ex_tool_calls e = int (length runs) \<and> (0 < lim (ex_id e) \<longrightarrow> ex_tool_calls e \<le> lim (ex_id e))
      \<and> numbered (seqs cp_execution_id cp_sequence (ex_id e) (xd_checkpoints db))
      \<and> distinct (map cp_patch_checksum cps)
      \<and> numbered (seqs it_execution_id it_sequence (ex_id e) (xd_iterations db)))"

definition ex_db_ok :: "(string \<Rightarrow> int) \<Rightarrow> ex_db \<Rightarrow> bool" where
  "ex_db_ok lim db =
     (unique_key ex_id (xd_executions db)
      \<and> unique_key (\<lambda>e. (ex_workflow_job_id e, ex_execution_version e)) (xd_executions db)
      \<and> unique_key tl_id (xd_tool_runs db) \<and> unique_key cp_id (xd_checkpoints db) \<and> unique_key it_id (xd_iterations db)
      \<and> tl_execution_id ` set (xd_tool_runs db) \<subseteq> ex_id ` set (xd_executions db)
      \<and> cp_execution_id ` set (xd_checkpoints db) \<subseteq> ex_id ` set (xd_executions db)
      \<and> it_execution_id ` set (xd_iterations db) \<subseteq> ex_id ` set (xd_executions db)
      \<and> (\<forall>e\<in>set (xd_executions db). ex_children_ok lim db e))"

text \<open>Updates that keep the keys keep the invariant.\<close>

lemma ok_update_executions:
  assumes "ex_db_ok lim db" "\<And>e. ex_id (f e) = ex_id e" "\<And>e. ex_workflow_job_id (f e) = ex_workflow_job_id e"
    "\<And>e. ex_execution_version (f e) = ex_execution_version e" "\<And>e. ex_tool_calls (f e) = ex_tool_calls e"
  shows "ex_db_ok lim (db\<lparr> xd_executions := update_where P f (xd_executions db) \<rparr>)"
proof -
  have c: "\<forall>e\<in>set (update_where P f (xd_executions db)). ex_children_ok lim db e"
    by (rule ball_update_where) (use assms in \<open>auto simp: ex_db_ok_def ex_children_ok_def\<close>)
  have same: "ex_children_ok lim (db\<lparr> xd_executions := t \<rparr>) = ex_children_ok lim db" for t
    by (simp add: ex_children_ok_def fun_eq_iff)
  show ?thesis
    using assms(1) c by (simp add: ex_db_ok_def same unique_key_update_where image_update_where assms(2-4))
qed

lemma ok_update_tool_runs:
  assumes "ex_db_ok lim db" "\<And>t. tl_id (f t) = tl_id t" "\<And>t. tl_execution_id (f t) = tl_execution_id t"
    "\<And>t. tl_sequence (f t) = tl_sequence t"
  shows "ex_db_ok lim (db\<lparr> xd_tool_runs := update_where P f (xd_tool_runs db) \<rparr>)"
proof -
  have same: "ex_children_ok lim (db\<lparr> xd_tool_runs := update_where P f (xd_tool_runs db) \<rparr>) = ex_children_ok lim db"
    by (simp add: ex_children_ok_def fun_eq_iff assms(2-4))
  show ?thesis
    using assms(1) by (simp add: ex_db_ok_def same unique_key_update_where image_update_where assms(2-4))
qed

lemma ok_update_iterations:
  assumes "ex_db_ok lim db" "\<And>t. it_id (f t) = it_id t" "\<And>t. it_execution_id (f t) = it_execution_id t"
    "\<And>t. it_sequence (f t) = it_sequence t"
  shows "ex_db_ok lim (db\<lparr> xd_iterations := update_where P f (xd_iterations db) \<rparr>)"
proof -
  have same: "ex_children_ok lim (db\<lparr> xd_iterations := update_where P f (xd_iterations db) \<rparr>) = ex_children_ok lim db"
    by (simp add: ex_children_ok_def fun_eq_iff assms(2-4))
  show ?thesis
    using assms(1) by (simp add: ex_db_ok_def same unique_key_update_where image_update_where assms(2-4))
qed

text \<open>The insertions.\<close>

lemma ok_create:
  assumes "ex_db_ok lim db" "create_or_get new_id now refs_ok inp db = Inr (db', e, b)"
  shows "ex_db_ok lim db'"
proof (cases "db' = db")
  case False
  let ?i = "normalize_ex_input inp"
  let ?e = "new_execution new_id now ?i"
  have ins: "insert_execution refs_ok ?i ?e db = Inr db'"
    using assms(2) False by (auto simp: create_or_get_def Let_def split: if_splits sum.splits)
  let ?r = "?e\<lparr> ex_created_at := stored_at (ex_created_at ?e), ex_updated_at := stored_at (ex_updated_at ?e) \<rparr>"
  have new: "new_id \<notin> ex_id ` set (xd_executions db)"
    "(ex_workflow_job_id ?e, ex_execution_version ?e) \<notin> (\<lambda>e. (ex_workflow_job_id e, ex_execution_version e)) ` set (xd_executions db)"
    and db': "db' = db\<lparr> xd_executions := xd_executions db @ [?r] \<rparr>"
    using ins by (auto simp: insert_execution_def new_execution_def split: if_splits)
  have same: "ex_children_ok lim (db\<lparr> xd_executions := t \<rparr>) = ex_children_ok lim db" for t
    by (simp add: ex_children_ok_def fun_eq_iff)
  have none: "new_id \<notin> tl_execution_id ` set (xd_tool_runs db)" "new_id \<notin> cp_execution_id ` set (xd_checkpoints db)"
    "new_id \<notin> it_execution_id ` set (xd_iterations db)"
    using assms(1) new(1) unfolding ex_db_ok_def by blast+
  have "filter (\<lambda>c. cp_execution_id c = new_id) (xd_checkpoints db) = []"
    using none(2) by (auto simp: filter_empty_conv)
  then have "ex_children_ok lim db ?r"
    using seqs_absent [OF none(1)] seqs_absent [OF none(2)] seqs_absent [OF none(3)]
    by (simp add: ex_children_ok_def new_execution_def Let_def)
  then show ?thesis
    using assms(1) new unfolding db' by (auto simp: ex_db_ok_def same new_execution_def)
qed (use assms(1) in simp)

lemma ok_start_tool:
  assumes ok: "ex_db_ok lim db" and st: "start_tool new_id now i tool input (lim i) db = Inr (db', t)"
  shows "ex_db_ok lim db'"
proof -
  obtain e where e: "lookup_by ex_id i (xd_executions db) = Some e"
    and lim: "\<not> (lim i > 0 \<and> ex_tool_calls e \<ge> lim i)"
    using st by (auto simp: start_tool_def split: option.splits if_splits)
  let ?t = "new_tool_run new_id now i (ex_tool_calls e + 1) tool input"
  let ?r = "?t\<lparr> tl_started_at := map_option stored_at (tl_started_at ?t), tl_created_at := stored_at (tl_created_at ?t),
       tl_updated_at := stored_at (tl_updated_at ?t) \<rparr>"
  let ?f = "\<lambda>x. x\<lparr> ex_tool_calls := ex_tool_calls e + 1, ex_updated_at := stored_at now \<rparr>"
  have new: "new_id \<notin> tl_id ` set (xd_tool_runs db)"
    and db': "db' = db\<lparr> xd_tool_runs := xd_tool_runs db @ [?r],
        xd_executions := update_where (\<lambda>e. ex_id e = i) ?f (xd_executions db) \<rparr>"
    using st e lim by (auto simp: start_tool_def insert_tool_run_def rbind_def Let_def new_tool_run_def split: if_splits)
  have ei: "e \<in> set (xd_executions db)" "ex_id e = i" using lookup_by_Some [OF e] by auto
  have u: "unique_key ex_id (xd_executions db)" using ok by (simp add: ex_db_ok_def)
  have kids: "ex_children_ok lim db e" using ok ei by (simp add: ex_db_ok_def)
  have "\<forall>x\<in>set (update_where (\<lambda>e. ex_id e = i) ?f (xd_executions db)). ex_children_ok lim db' x"
  proof
    fix x assume "x \<in> set (update_where (\<lambda>e. ex_id e = i) ?f (xd_executions db))"
    then show "ex_children_ok lim db' x"
    proof (cases rule: in_update_whereE)
      case (changed s)
      then have "s = e" using unique_keyD [OF u changed(1) ei(1)] ei(2) by simp
      then show ?thesis
        using kids lim ei changed(3) by (auto simp: ex_children_ok_def db' new_tool_run_def Let_def)
    next
      case kept
      then have "ex_children_ok lim db x" using ok by (simp add: ex_db_ok_def)
      then show ?thesis using kept by (auto simp: ex_children_ok_def db' new_tool_run_def Let_def)
    qed
  qed
  then show ?thesis
    using ok new ei
    by (auto simp: ex_db_ok_def db' unique_key_update_where image_update_where new_tool_run_def)
qed

lemma ok_checkpoint:
  assumes ok: "ex_db_ok lim db" and st: "save_checkpoint sha new_id now i base head patch changed key db = Inr (db', c)"
  shows "ex_db_ok lim db'"
proof (cases "db' = db")
  case False
  have ins: "insert_checkpoint c db = Inr db'" and c: "cp_execution_id c = i" "cp_sequence c = next_checkpoint db i"
    using st False by (auto simp: save_checkpoint_def Let_def split: if_splits sum.splits)
  let ?r = "c\<lparr> cp_created_at := stored_at (cp_created_at c) \<rparr>"
  have new: "cp_id c \<notin> cp_id ` set (xd_checkpoints db)" "i \<in> ex_id ` set (xd_executions db)"
    "\<forall>x\<in>set (xd_checkpoints db). cp_execution_id x = i \<longrightarrow> cp_patch_checksum x \<noteq> cp_patch_checksum c"
    and db': "db' = db\<lparr> xd_checkpoints := xd_checkpoints db @ [?r] \<rparr>"
    using ins c by (auto simp: insert_checkpoint_def split: if_splits)
  have "\<forall>e\<in>set (xd_executions db). ex_children_ok lim db' e"
  proof
    fix e assume "e \<in> set (xd_executions db)"
    then have e: "ex_children_ok lim db e" using ok by (simp add: ex_db_ok_def)
    show "ex_children_ok lim db' e"
    proof (cases "ex_id e = i")
      case True
      have n: "numbered (seqs cp_execution_id cp_sequence i (xd_checkpoints db))"
        using e True by (simp add: ex_children_ok_def Let_def)
      have "next_checkpoint db i = int (length (seqs cp_execution_id cp_sequence i (xd_checkpoints db))) + 1"
        using numbered_max [OF n] by (simp add: next_checkpoint_def seqs_def)
      then show ?thesis using e True c new(3) by (auto simp: ex_children_ok_def db' Let_def)
    qed (use e c in \<open>auto simp: ex_children_ok_def db' Let_def\<close>)
  qed
  then show ?thesis using ok new c by (auto simp: ex_db_ok_def db')
qed (use ok in simp)

lemma ok_begin_iteration:
  assumes ok: "ex_db_ok lim db" and st: "begin_iteration new_id now i inp db = Inr (db', x)"
  shows "ex_db_ok lim db'"
proof -
  have ins: "insert_iteration x db = Inr db'" and x: "it_sequence x = next_iteration db (it_execution_id x)"
    using st by (auto simp: begin_iteration_def Let_def rbind_def split: if_splits sum.splits)
  let ?i = "it_execution_id x"
  let ?r = "x\<lparr> it_started_at := stored_at (it_started_at x), it_created_at := stored_at (it_created_at x),
       it_updated_at := stored_at (it_updated_at x) \<rparr>"
  have new: "it_id x \<notin> it_id ` set (xd_iterations db)" "?i \<in> ex_id ` set (xd_executions db)"
    and db': "db' = db\<lparr> xd_iterations := xd_iterations db @ [?r] \<rparr>"
    using ins by (auto simp: insert_iteration_def split: if_splits)
  have "\<forall>e\<in>set (xd_executions db). ex_children_ok lim db' e"
  proof
    fix e assume "e \<in> set (xd_executions db)"
    then have e: "ex_children_ok lim db e" using ok by (simp add: ex_db_ok_def)
    show "ex_children_ok lim db' e"
    proof (cases "ex_id e = ?i")
      case True
      have n: "numbered (seqs it_execution_id it_sequence ?i (xd_iterations db))"
        using e True by (simp add: ex_children_ok_def Let_def)
      have "next_iteration db ?i = int (length (seqs it_execution_id it_sequence ?i (xd_iterations db))) + 1"
        using numbered_max [OF n] by (simp add: next_iteration_def seqs_def)
      then show ?thesis using e True x by (auto simp: ex_children_ok_def db' Let_def)
    qed (use e in \<open>auto simp: ex_children_ok_def db' Let_def\<close>)
  qed
  then show ?thesis using ok new by (auto simp: ex_db_ok_def db')
qed

lemma ok_update_iteration:
  assumes "ex_db_ok lim db" "update_iteration i f db = Inr db'" "\<And>t. it_id (f t) = it_id t"
    "\<And>t. it_execution_id (f t) = it_execution_id t" "\<And>t. it_sequence (f t) = it_sequence t"
  shows "ex_db_ok lim db'"
  using assms(2) ok_update_iterations [OF assms(1,3-5)] by (auto simp: update_iteration_def Let_def split: if_splits)

lemma ok_update_execution:
  assumes "ex_db_ok lim db" "update_execution P f db = Inr (db', x)" "\<And>e. ex_id (f e) = ex_id e"
    "\<And>e. ex_workflow_job_id (f e) = ex_workflow_job_id e" "\<And>e. ex_execution_version (f e) = ex_execution_version e"
    "\<And>e. ex_tool_calls (f e) = ex_tool_calls e"
  shows "ex_db_ok lim db'"
proof -
  have "db' = db\<lparr> xd_executions := update_where P f (xd_executions db) \<rparr>"
    using assms(2) by (auto simp: update_execution_def split: option.splits elim!: update_returning_Some)
  then show ?thesis using ok_update_executions [OF assms(1,3-6)] by simp
qed

lemma ok_step:
  assumes "ex_step lim db db'" "ex_db_ok lim db"
  shows "ex_db_ok lim db'"
  using assms
proof cases
  case x_create then show ?thesis using ok_create assms(2) by blast
next
  case x_start then show ?thesis unfolding ex_start_def by (rule ok_update_execution [OF assms(2)]) (simp_all add: start_row_def)
next
  case x_complete then show ?thesis unfolding ex_complete_def
    by (rule ok_update_execution [OF assms(2)]) (simp_all add: complete_row_ex_def)
next
  case x_fail then show ?thesis unfolding ex_fail_def
    by (simp, intro ok_update_executions [OF assms(2)]) (simp_all add: fail_row_ex_def)
next
  case x_cancel then show ?thesis unfolding ex_cancel_def
    by (simp, intro ok_update_executions [OF assms(2)]) simp_all
next
  case x_start_tool then show ?thesis using ok_start_tool [OF assms(2)] by blast
next
  case x_complete_tool then show ?thesis unfolding complete_tool_def
    by (simp, intro ok_update_tool_runs [OF assms(2)]) simp_all
next
  case x_fail_tool then show ?thesis unfolding fail_tool_def
    by (simp, intro ok_update_tool_runs [OF assms(2)]) simp_all
next
  case x_checkpoint then show ?thesis using ok_checkpoint [OF assms(2)] by blast
next
  case x_begin then show ?thesis using ok_begin_iteration [OF assms(2)] by blast
next
  case x_complete_it then show ?thesis unfolding complete_iteration_def
    by (rule ok_update_iteration [OF assms(2)]) simp_all
next
  case x_fail_it then show ?thesis unfolding fail_iteration_def
    by (rule ok_update_iteration [OF assms(2)]) simp_all
next
  case x_recover then show ?thesis unfolding recover_running_iterations_def
    by (simp, intro ok_update_iterations [OF assms(2)]) simp_all
qed

lemma ok_run:
  assumes "ex_run lim db db'" "ex_db_ok lim db"
  shows "ex_db_ok lim db'"
  using assms by (induction rule: ex_run.induct) (auto intro: ok_step)

lemma empty_ok: "ex_db_ok lim empty_ex_db"
  by (simp add: ex_db_ok_def empty_ex_db_def unique_key_def)

lemma sorted_numbered: "numbered xs \<Longrightarrow> sorted xs"
  by (induction xs rule: rev_induct) (auto simp: sorted_append numbered_set)

lemma sort_numbered: "numbered (map k xs) \<Longrightarrow> sort_key k xs = xs"
  by (simp add: sort_key_id_if_sorted sorted_numbered)

subsection \<open>What no history changes\<close>

definition snapshot_of :: "execution \<Rightarrow> string \<times> string \<times> int \<times> int \<times> string \<times> string \<times> string \<times> int \<times> string \<times> string" where
  "snapshot_of e = (ex_id e, ex_workflow_job_id e, ex_workflow_version e, ex_execution_version e,
     ex_plan_version_id e, ex_workspace_id e, ex_base_commit_sha e, ex_agent_settings_version e,
     ex_provider e, ex_model e)"

definition ended :: "execution \<Rightarrow> bool" where
  "ended e = (ex_status_of e \<in> {ExFailed, ExCancelled})"

text \<open>Every row of the table continues in the new table: the same snapshot, and ended if it was.\<close>

definition continues :: "ex_db \<Rightarrow> ex_db \<Rightarrow> bool" where
  "continues db db' = (\<forall>e\<in>set (xd_executions db). \<exists>e'\<in>set (xd_executions db').
     snapshot_of e' = snapshot_of e \<and> (ended e \<longrightarrow> ended e'))"

lemma continues_refl: "continues db db"
  by (auto simp: continues_def)

lemma continues_trans:
  assumes "continues a b" "continues b c" shows "continues a c"
  unfolding continues_def
proof
  fix e assume "e \<in> set (xd_executions a)"
  then obtain x where x: "x \<in> set (xd_executions b)" "snapshot_of x = snapshot_of e" "ended e \<longrightarrow> ended x"
    using assms(1) unfolding continues_def by blast
  then obtain y where y: "y \<in> set (xd_executions c)" "snapshot_of y = snapshot_of x" "ended x \<longrightarrow> ended y"
    using assms(2) unfolding continues_def by blast
  show "\<exists>y\<in>set (xd_executions c). snapshot_of y = snapshot_of e \<and> (ended e \<longrightarrow> ended y)"
    using x y by (intro bexI [of _ y]) auto
qed

lemma continues_same: "xd_executions db' = xd_executions db \<Longrightarrow> continues db db'"
  by (auto simp: continues_def)

lemma continues_snoc: "xd_executions db' = xd_executions db @ t \<Longrightarrow> continues db db'"
  by (auto simp: continues_def)

lemma continues_update:
  assumes "xd_executions db' = update_where P f (xd_executions db)" "\<And>e. snapshot_of (f e) = snapshot_of e"
    "\<And>e. P e \<Longrightarrow> ended e \<Longrightarrow> ended (f e)"
  shows "continues db db'"
  unfolding continues_def
proof
  fix e assume e: "e \<in> set (xd_executions db)"
  then have "(if P e then f e else e) \<in> set (xd_executions db')"
    unfolding assms(1) set_update_where_image by (rule imageI)
  then show "\<exists>e'\<in>set (xd_executions db'). snapshot_of e' = snapshot_of e \<and> (ended e \<longrightarrow> ended e')"
    by (rule bexI [rotated]) (simp add: assms(2,3))
qed

lemma update_execution_table:
  "update_execution P f db = Inr (db', x) \<Longrightarrow> xd_executions db' = update_where P f (xd_executions db)"
  by (auto simp: update_execution_def split: option.splits elim!: update_returning_Some)

lemma step_continues:
  assumes "ex_step lim db db'"
  shows "continues db db'"
  using assms
proof cases
  case (x_create new_id now refs_ok inp e b)
  show ?thesis
  proof (cases "db' = db")
    case False
    then have "insert_execution refs_ok (normalize_ex_input inp) (new_execution new_id now (normalize_ex_input inp)) db = Inr db'"
      using x_create by (auto simp: create_or_get_def Let_def split: if_splits sum.splits)
    then show ?thesis by (auto simp: insert_execution_def split: if_splits intro!: continues_snoc)
  qed (simp add: continues_refl)
next
  case x_start then show ?thesis unfolding ex_start_def
    by (auto dest!: update_execution_table simp: snapshot_of_def start_row_def ended_def elim!: continues_update)
next
  case x_complete then show ?thesis unfolding ex_complete_def
    by (auto dest!: update_execution_table simp: snapshot_of_def complete_row_ex_def ended_def elim!: continues_update)
next
  case (x_fail now i code m)
  have "xd_executions db' = update_where (\<lambda>e. ex_id e = i) (fail_row_ex now code m) (xd_executions db)"
    by (simp add: x_fail ex_fail_def)
  then show ?thesis by (rule continues_update) (auto simp: snapshot_of_def fail_row_ex_def ended_def)
next
  case (x_cancel now i m)
  let ?f = "\<lambda>e. e\<lparr> ex_status_of := ExCancelled, ex_failure_code := ''CANCELLED'',
     ex_failure_message := nullable_string (cut 2048 m), ex_completed_at := Some (stored_at now),
     ex_updated_at := stored_at now \<rparr>"
  have "xd_executions db' =
      update_where (\<lambda>e. ex_id e = i \<and> ex_status_of e \<in> {ExPending, ExRunning}) ?f (xd_executions db)"
    by (simp add: x_cancel ex_cancel_def)
  then show ?thesis by (rule continues_update) (auto simp: snapshot_of_def ended_def)
next
  case (x_start_tool new_id now i tool input t)
  then obtain n where "xd_executions db' = update_where (\<lambda>e. ex_id e = i)
      (\<lambda>x. x\<lparr> ex_tool_calls := n, ex_updated_at := stored_at now \<rparr>) (xd_executions db)"
    by (auto simp: start_tool_def insert_tool_run_def rbind_def Let_def split: option.splits if_splits)
  then show ?thesis by (rule continues_update) (auto simp: snapshot_of_def ended_def)
next
  case x_checkpoint then show ?thesis
    by (auto simp: save_checkpoint_def insert_checkpoint_def Let_def split: if_splits sum.splits intro!: continues_same)
next
  case x_begin then show ?thesis
    by (auto simp: begin_iteration_def insert_iteration_def rbind_def Let_def split: if_splits sum.splits intro!: continues_same)
qed (auto simp: complete_tool_def fail_tool_def complete_iteration_def fail_iteration_def update_iteration_def
  recover_running_iterations_def Let_def split: if_splits intro!: continues_same)

lemma run_continues: "ex_run lim db db' \<Longrightarrow> continues db db'"
  by (induction rule: ex_run.induct) (auto intro: continues_refl continues_trans step_continues)

subsection \<open>Properties\<close>

lemma numbered_upt: "numbered (map k xs) \<Longrightarrow> map k xs = map int [1..<Suc (length xs)]"
  by (simp only: numbered_def length_map)

lemma snapshot_key:
  assumes "ex_db_ok lim db" "e \<in> set (xd_executions db)" "e' \<in> set (xd_executions db)" "ex_id e' = ex_id e"
  shows "e' = e"
  using assms unique_keyD unfolding ex_db_ok_def by metis

lemma get_by_version_unique:
  assumes "ex_db_ok lim db" "e \<in> set (xd_executions db)" "ex_workflow_job_id e = trim_space i"
  shows "get_by_version db i (ex_execution_version e) = Inr e"
proof -
  have "unique_key (\<lambda>e. (ex_workflow_job_id e, ex_execution_version e)) (xd_executions db)"
    using assms(1) by (simp add: ex_db_ok_def)
  then have "find (\<lambda>x. ex_workflow_job_id x = trim_space i \<and> ex_execution_version x = ex_execution_version e)
      (xd_executions db) = Some e"
    by (rule find_unique) (use assms in auto)
  then show ?thesis by (simp add: get_by_version_def)
qed

definition demo_execution_input :: ex_input where
  "demo_execution_input = \<lparr> xi_workflow_job_id = ''w'', xi_workflow_version = 3, xi_execution_version = 1,
     xi_plan_version_id = ''p'', xi_workspace_id = ''s'', xi_base_commit_sha = ''c0'', xi_agent_settings_version = 1,
     xi_provider = ''x'', xi_model = ''m'' \<rparr>"

definition demo_execution :: execution where
  "demo_execution = new_execution ''e'' 0 demo_execution_input"

definition demo_ex_db :: ex_db where
  "demo_ex_db = empty_ex_db\<lparr> xd_executions := [demo_execution] \<rparr>"

lemma demo_ex_run: "ex_run lim empty_ex_db demo_ex_db"
proof -
  have "normalize_ex_input demo_execution_input = demo_execution_input"
    by (simp add: normalize_ex_input_def demo_execution_input_def plain_char_def)
  then have "create_or_get ''e'' 0 (\<lambda>_. True) demo_execution_input empty_ex_db = Inr (demo_ex_db, demo_execution, True)"
    by (simp add: create_or_get_def Let_def ex_input_ok_def demo_execution_input_def get_by_version_def
      insert_execution_def demo_execution_def new_execution_def demo_ex_db_def empty_ex_db_def stored_at_def
      unix_milli_def from_milli_def plain_char_def)
  then show ?thesis by (rule xr_step [OF xr_refl x_create])
qed

text \<open>C18: in every history of repository calls, the tool runs, checkpoints and iterations of an execution are
  listed with the numbers 1, 2, 3, ... without gap or repetition; the tool-call counter of the row is the
  number of its runs and never passes the budget; no patch is checkpointed twice.\<close>
theorem execution_history_is_numbered:
  assumes "ex_run lim empty_ex_db db" "e \<in> set (xd_executions db)" "trim_space (ex_id e) = ex_id e"
  shows "map tl_sequence (list_tool_runs db (ex_id e)) = map int [1..<Suc (nat (ex_tool_calls e))]
    \<and> (0 < lim (ex_id e) \<longrightarrow> ex_tool_calls e \<le> lim (ex_id e))
    \<and> map cp_sequence (list_checkpoints db (ex_id e)) = map int [1..<Suc (length (list_checkpoints db (ex_id e)))]
    \<and> distinct (map cp_patch_checksum (list_checkpoints db (ex_id e)))
    \<and> map it_sequence (list_iterations db (ex_id e)) = map int [1..<Suc (length (list_iterations db (ex_id e)))]"
proof -
  have "ex_children_ok lim db e"
    using ok_run [OF assms(1) empty_ok] assms(2) by (simp add: ex_db_ok_def)
  then have n: "numbered (map tl_sequence (filter (\<lambda>t. tl_execution_id t = ex_id e) (xd_tool_runs db)))"
    "numbered (map cp_sequence (filter (\<lambda>t. cp_execution_id t = ex_id e) (xd_checkpoints db)))"
    "numbered (map it_sequence (filter (\<lambda>t. it_execution_id t = ex_id e) (xd_iterations db)))"
    "distinct (map cp_patch_checksum (filter (\<lambda>t. cp_execution_id t = ex_id e) (xd_checkpoints db)))"
    "ex_tool_calls e = int (length (filter (\<lambda>t. tl_execution_id t = ex_id e) (xd_tool_runs db)))"
    "0 < lim (ex_id e) \<longrightarrow> ex_tool_calls e \<le> lim (ex_id e)"
    by (auto simp: ex_children_ok_def seqs_def Let_def)
  show ?thesis
    unfolding list_tool_runs_def list_checkpoints_def list_iterations_def assms(3)
      sort_numbered [OF n(1)] sort_numbered [OF n(2)] sort_numbered [OF n(3)] n(5) nat_int
    using numbered_upt [OF n(1)] numbered_upt [OF n(2)] numbered_upt [OF n(3)] n(4,5,6) by (simp del: upt_Suc)
qed

lemma execution_history_is_numbered_witness:
  "map tl_sequence (list_tool_runs demo_ex_db (ex_id demo_execution)) = []"
proof -
  have "demo_execution \<in> set (xd_executions demo_ex_db)" by (simp add: demo_ex_db_def)
  moreover have "trim_space (ex_id demo_execution) = ex_id demo_execution" by code_simp
  moreover have "ex_tool_calls demo_execution = 0" by (simp add: demo_execution_def new_execution_def)
  ultimately show ?thesis
    using execution_history_is_numbered [OF demo_ex_run [of "\<lambda>_. 5"], of demo_execution] by simp
qed

text \<open>An execution is created once. Whatever happens in between, a redelivered dispatch of the same
  workflow and execution version gets the execution it had, with the plan version, workspace, base commit,
  agent settings, provider and model that were pinned then, whatever it asks for now, and adds nothing.\<close>
theorem execution_snapshot_is_pinned:
  assumes "ex_run lim empty_ex_db db1" "e \<in> set (xd_executions db1)" "ex_run lim db1 db2"
    "ex_input_ok (normalize_ex_input inp)" "trim_space (xi_workflow_job_id inp) = ex_workflow_job_id e"
    "xi_execution_version inp = ex_execution_version e"
  shows "\<exists>e'. create_or_get new_id now refs_ok inp db2 = Inr (db2, e', False) \<and> snapshot_of e' = snapshot_of e"
proof -
  have ok: "ex_db_ok lim db2" using ok_run [OF assms(3) ok_run [OF assms(1) empty_ok]] .
  obtain e' where e': "e' \<in> set (xd_executions db2)" "snapshot_of e' = snapshot_of e"
    using run_continues [OF assms(3)] assms(2) unfolding continues_def by blast
  have k: "ex_workflow_job_id e' = trim_space (xi_workflow_job_id inp)" "ex_execution_version e' = xi_execution_version inp"
    using e'(2) assms(5,6) by (auto simp: snapshot_of_def)
  have "get_by_version db2 (trim_space (xi_workflow_job_id inp)) (xi_execution_version inp) = Inr e'"
    using get_by_version_unique [OF ok e'(1), of "trim_space (xi_workflow_job_id inp)"] k by simp
  then have "create_or_get new_id now refs_ok inp db2 = Inr (db2, e', False)"
    using assms(4) by (simp add: create_or_get_def Let_def normalize_ex_input_def)
  then show ?thesis using e'(2) by blast
qed

lemma execution_snapshot_is_pinned_witness:
  "\<exists>e'. create_or_get ''f'' 9 (\<lambda>_. True) (demo_execution_input\<lparr> xi_model := ''other'' \<rparr>) demo_ex_db = Inr (demo_ex_db, e', False)
    \<and> snapshot_of e' = snapshot_of demo_execution"
proof (rule execution_snapshot_is_pinned [OF demo_ex_run [of "\<lambda>_. 5"] _ xr_refl])
  show "ex_input_ok (normalize_ex_input (demo_execution_input\<lparr> xi_model := ''other'' \<rparr>))"
    by (simp add: normalize_ex_input_def demo_execution_input_def ex_input_ok_def plain_char_def)
  show "trim_space (xi_workflow_job_id (demo_execution_input\<lparr> xi_model := ''other'' \<rparr>)) = ex_workflow_job_id demo_execution"
    by (simp add: demo_execution_input_def demo_execution_def new_execution_def plain_char_def)
qed (simp_all add: demo_ex_db_def demo_execution_def new_execution_def demo_execution_input_def)

text \<open>An execution that FAILED or was CANCELLED is over: no history brings it back to PENDING, RUNNING or
  COMPLETED, and starting or completing it is refused.\<close>
theorem ended_execution_never_resumes:
  assumes "ex_run lim empty_ex_db db1" "e \<in> set (xd_executions db1)" "ended e" "ex_run lim db1 db2"
  shows "(\<forall>x\<in>set (xd_executions db2). ex_id x = ex_id e \<longrightarrow> ex_status_of x \<in> {ExFailed, ExCancelled})
    \<and> ex_start now (ex_id e) db2 = Inl ExNotFound \<and> ex_complete now (ex_id e) db2 = Inl ExNotFound"
proof -
  have ok: "ex_db_ok lim db2" using ok_run [OF assms(4) ok_run [OF assms(1) empty_ok]] .
  obtain e' where e': "e' \<in> set (xd_executions db2)" "ex_id e' = ex_id e" "ended e'"
    using run_continues [OF assms(4)] assms(2,3) unfolding continues_def snapshot_of_def by (metis prod.inject)
  have all: "\<forall>x\<in>set (xd_executions db2). ex_id x = ex_id e \<longrightarrow> ex_status_of x \<in> {ExFailed, ExCancelled}"
    using snapshot_key [OF ok e'(1)] e'(2,3) by (auto simp: ended_def)
  have upd: "update_execution (\<lambda>x. ex_id x = ex_id e \<and> ex_status_of x \<in> S) f db2 = Inl ExNotFound"
    if "ExFailed \<notin> S" "ExCancelled \<notin> S" for S f
  proof -
    have "update_returning (\<lambda>x. ex_id x = ex_id e \<and> ex_status_of x \<in> S) f (xd_executions db2) = None"
      unfolding update_returning_None using all that by fastforce
    then show ?thesis by (simp only: update_execution_def option.case)
  qed
  show ?thesis
  proof (intro conjI)
    show "ex_start now (ex_id e) db2 = Inl ExNotFound" unfolding ex_start_def by (rule upd) auto
    show "ex_complete now (ex_id e) db2 = Inl ExNotFound" unfolding ex_complete_def by (rule upd) auto
  qed (rule all)
qed

lemma ended_execution_never_resumes_witness:
  "ex_start 9 ''e'' (ex_fail 5 ''e'' ''X'' ''m'' demo_ex_db) = Inl ExNotFound"
proof -
  let ?db = "ex_fail 5 ''e'' ''X'' ''m'' demo_ex_db"
  let ?e = "fail_row_ex 5 ''X'' ''m'' demo_execution"
  have r: "ex_run (\<lambda>_. 5) empty_ex_db ?db" by (rule xr_step [OF demo_ex_run x_fail])
  have "?e \<in> set (xd_executions ?db)"
    by (simp add: ex_fail_def demo_ex_db_def demo_execution_def new_execution_def)
  moreover have "ended ?e" by (simp add: ended_def fail_row_ex_def)
  moreover have "ex_id ?e = ''e''" by (simp add: fail_row_ex_def demo_execution_def new_execution_def)
  ultimately show ?thesis using ended_execution_never_resumes [OF r _ _ xr_refl, of ?e 9] by simp
qed

text \<open>Saving a patch checkpoint appends it with the next number when its checksum is new, hands back the
  latest checkpoint when that one already holds the same patch, and fails only when an earlier, superseded
  checkpoint does.\<close>
theorem checkpoint_is_saved_once:
  assumes "ex_run lim empty_ex_db db" "i \<in> ex_id ` set (xd_executions db)" "new_id \<notin> cp_id ` set (xd_checkpoints db)"
  shows "case save_checkpoint digest new_id now i base head patch changed key db of
      Inr (db', c) \<Rightarrow> cp_patch_checksum c = ''sha256:'' @ digest patch \<and>
        (if cp_patch_checksum c \<in> cp_patch_checksum ` set (list_checkpoints db i)
         then db' = db \<and> c = last (list_checkpoints db i)
         else cp_sequence c = int (length (list_checkpoints db i)) + 1 \<and> cp_patch_text c = patch
           \<and> list_checkpoints db' i = list_checkpoints db i @ [c\<lparr> cp_created_at := stored_at now \<rparr>])
    | Inl err \<Rightarrow> ''sha256:'' @ digest patch \<in> cp_patch_checksum ` set (butlast (list_checkpoints db i))"
proof -
  let ?sum = "''sha256:'' @ digest patch"
  let ?L = "filter (\<lambda>c. cp_execution_id c = i) (xd_checkpoints db)"
  have ok: "ex_db_ok lim db" using ok_run [OF assms(1) empty_ok] .
  have n: "numbered (map cp_sequence ?L)"
    using ok assms(2) by (auto simp: ex_db_ok_def ex_children_ok_def seqs_def Let_def)
  have l: "list_checkpoints db i = ?L" by (simp add: list_checkpoints_def sort_numbered [OF n])
  have nx: "next_checkpoint db i = int (length ?L) + 1" using numbered_max [OF n] by (simp add: next_checkpoint_def)
  have fresh: "\<forall>x\<in>set (xd_checkpoints db). cp_execution_id x = i \<longrightarrow> cp_sequence x \<noteq> next_checkpoint db i"
  proof (intro ballI impI)
    fix x assume "x \<in> set (xd_checkpoints db)" "cp_execution_id x = i"
    then have "cp_sequence x \<in> set (map cp_sequence ?L)" by simp
    then have "cp_sequence x \<le> int (length ?L)" using numbered_set [OF n] by (metis length_map)
    then show "cp_sequence x \<noteq> next_checkpoint db i" using nx by simp
  qed
  define c where "c = \<lparr> cp_id = new_id, cp_execution_id = i, cp_sequence = next_checkpoint db i,
     cp_base_commit_sha = base, cp_workspace_head_sha = head, cp_patch_checksum = ?sum, cp_patch_bytes = length patch,
     cp_changed_files = changed, cp_patch_text = patch, cp_artifact_key = trim_space key, cp_created_at = now \<rparr>"
  have c: "cp_id c = new_id" "cp_execution_id c = i" "cp_sequence c = next_checkpoint db i" "cp_patch_checksum c = ?sum"
    "cp_created_at c = now" "cp_patch_text c = patch" by (simp_all add: c_def)
  have dup: "(\<exists>x\<in>set (xd_checkpoints db). cp_execution_id x = i
      \<and> (cp_sequence x = next_checkpoint db i \<or> cp_patch_checksum x = ?sum)) \<longleftrightarrow> ?sum \<in> cp_patch_checksum ` set ?L"
    using fresh by (fastforce simp: image_iff)
  have ins: "insert_checkpoint c db = (if ?sum \<in> cp_patch_checksum ` set ?L then Inl ExDbError
      else Inr (db\<lparr> xd_checkpoints := xd_checkpoints db @ [c\<lparr> cp_created_at := stored_at now \<rparr>] \<rparr>))"
    using assms(2,3) by (simp only: insert_checkpoint_def c dup) simp
  have save: "save_checkpoint digest new_id now i base head patch changed key db = (case insert_checkpoint c db of
        Inr db' \<Rightarrow> Inr (db', c)
      | Inl err \<Rightarrow> (case latest_checkpoint db i of
           Inr old \<Rightarrow> if cp_patch_checksum old = ?sum then Inr (db, old) else Inl err
         | Inl _ \<Rightarrow> Inl err))"
    unfolding save_checkpoint_def Let_def c_def by (simp only: checkpoint.simps)
  show ?thesis
  proof (cases "?sum \<in> cp_patch_checksum ` set ?L")
    case False
    then have "save_checkpoint digest new_id now i base head patch changed key db =
        Inr (db\<lparr> xd_checkpoints := xd_checkpoints db @ [c\<lparr> cp_created_at := stored_at now \<rparr>] \<rparr>, c)"
      by (simp add: save ins)
    moreover have "list_checkpoints (db\<lparr> xd_checkpoints := xd_checkpoints db @ [c\<lparr> cp_created_at := stored_at now \<rparr>] \<rparr>) i
        = ?L @ [c\<lparr> cp_created_at := stored_at now \<rparr>]"
      using n nx c by (simp add: list_checkpoints_def sort_numbered)
    ultimately show ?thesis using False nx c by (simp add: l)
  next
    case True
    have ne: "?L \<noteq> []"
    proof
      assume "?L = []"
      then show False using True by (simp only: list.set image_empty empty_iff)
    qed
    then have late: "latest_checkpoint db i = Inr (last ?L)" by (simp add: latest_checkpoint_def l)
    show ?thesis
    proof (cases "cp_patch_checksum (last ?L) = ?sum")
      case same: True
      then show ?thesis using True c by (simp add: save ins late l)
    next
      case False
      have "set ?L = insert (last ?L) (set (butlast ?L))"
        using append_butlast_last_id [OF ne] by (metis list.simps(15) rotate1.simps(2) set_rotate1)
      then have "?sum \<in> cp_patch_checksum ` set (butlast ?L)" using True False by auto
      then show ?thesis using True False by (simp add: save ins late l)
    qed
  qed
qed

lemma checkpoint_is_saved_once_witness:
  "case save_checkpoint (\<lambda>s. s) ''k'' 7 ''e'' ''c0'' ''c0'' ''diff'' [''f''] [] demo_ex_db of
      Inr (db', c) \<Rightarrow> cp_sequence c = 1 | Inl err \<Rightarrow> False"
proof -
  have "''e'' \<in> ex_id ` set (xd_executions demo_ex_db)" "''k'' \<notin> cp_id ` set (xd_checkpoints demo_ex_db)"
    by (simp_all add: demo_ex_db_def demo_execution_def new_execution_def empty_ex_db_def)
  from checkpoint_is_saved_once [OF demo_ex_run [of "\<lambda>_. 5"] this, 
    where digest = "\<lambda>s. s" and now = 7 and base = "''c0''" and head = "''c0''" and patch = "''diff''"
      and changed = "[''f'']" and key = "[]"]
  show ?thesis by (auto simp: list_checkpoints_def demo_ex_db_def empty_ex_db_def split: sum.splits)
qed

end
