(* ===== verification/Paths.thy ===== *)
theory Paths
  imports GoStd
begin

text \<open>The laws of \<open>filepath.Clean\<close>, \<open>filepath.Join\<close> and \<open>filepath.Rel\<close> that the path checks rely on: cleaning is
  idempotent, a cleaned relative path climbs only at its front, and joining a path that does not climb
  stays below its base.\<close>

abbreviation slash :: char where "slash \<equiv> CHR ''/''"

text \<open>A normal component names an entry of a directory.\<close>

definition normal_part :: "string \<Rightarrow> bool" where
  "normal_part p = (p \<noteq> [] \<and> p \<noteq> ''.'' \<and> p \<noteq> ''..'' \<and> slash \<notin> set p)"

definition climbing :: "string list \<Rightarrow> bool" where
  "climbing ps = (\<exists>k ns. ps = replicate k ''..'' @ ns \<and> list_all normal_part ns)"

lemma normal_simps [simp]: "\<not> normal_part []" "\<not> normal_part ''.''" "\<not> normal_part ''..''"
  by (simp_all add: normal_part_def)

subsection \<open>Splitting and joining\<close>

lemma split_char_not_Nil [simp]: "split_char c s \<noteq> []"
  by (induction s) (auto split: list.splits)

lemma split_char_noslash: "p \<in> set (split_char c s) \<Longrightarrow> c \<notin> set p"
proof (induction s arbitrary: p)
  case (Cons d s)
  then show ?case by (auto split: if_splits list.splits)
qed simp

lemma split_char_plain: "c \<notin> set p \<Longrightarrow> split_char c p = [p]"
  by (induction p) auto

lemma split_char_append: "split_char c (a @ c # b) = split_char c a @ split_char c b"
  by (induction a) (auto split: list.splits)

lemma split_join:
  assumes "ps \<noteq> []" "\<forall>p\<in>set ps. c \<notin> set p"
  shows "split_char c (join_with [c] ps) = ps"
  using assms
proof (induction ps rule: induct_list012)
  case (3 p q ps)
  then show ?case using split_char_append [of c p] by (simp add: split_char_plain)
qed (auto simp: split_char_plain)

lemma hd_join: "ps \<noteq> [] \<Longrightarrow> hd ps \<noteq> [] \<Longrightarrow> hd (join_with sep ps) = hd (hd ps)"
  by (induction ps rule: induct_list012) auto

lemma join_not_Nil: "ps \<noteq> [] \<Longrightarrow> hd ps \<noteq> [] \<Longrightarrow> join_with sep ps \<noteq> []"
  by (induction ps rule: induct_list012) auto

subsection \<open>Cleaning\<close>

lemma clean_normal:
  "list_all normal_part ns \<Longrightarrow> clean_parts r acc (xs @ ns) = clean_parts r acc xs @ ns"
proof (induction r acc xs rule: clean_parts.induct)
  case (1 rooted acc)
  then show ?case
  proof (induction ns arbitrary: acc)
    case (Cons n ns)
    have "n \<noteq> []" "n \<noteq> ''.''" "n \<noteq> ''..''" using Cons.prems by auto
    then show ?case using Cons by simp
  qed simp
next
  case (2 rooted acc p ps)
  then show ?case by (auto split: list.splits)
qed

lemma clean_skips: "clean_parts r acc ([] # xs) = clean_parts r acc xs"
  by simp

lemma dot_parts [simp]: "path_parts ''.'' = []" "path_parts [] = []"
  by (simp_all add: path_parts_def is_rooted_def)

lemma climbing_normal [simp]: "list_all normal_part ns \<Longrightarrow> climbing ns"
  unfolding climbing_def by (rule exI [of _ 0]) simp

lemma clean_climbing_aux:
  assumes "\<forall>p\<in>set ps. slash \<notin> set p" "acc = rev ns @ replicate k ''..''" "list_all normal_part ns" "r \<longrightarrow> k = 0"
  shows "\<exists>k' ns'. clean_parts r acc ps = replicate k' ''..'' @ ns' \<and> list_all normal_part ns' \<and> (r \<longrightarrow> k' = 0)"
  using assms
proof (induction ps arbitrary: acc ns k)
  case Nil
  then show ?case by (intro exI [of _ k] exI [of _ ns]) (simp add: rev_replicate)
next
  case (Cons p ps)
  consider (skip) "p = [] \<or> p = ''.''" | (up) "p = ''..''" | (normal) "normal_part p"
    using Cons.prems(1) by (auto simp: normal_part_def)
  then show ?case
  proof cases
    case skip
    then have "clean_parts r acc (p # ps) = clean_parts r acc ps" by auto
    then show ?thesis using Cons.IH [OF _ Cons.prems(2-4)] Cons.prems(1) by simp
  next
    case up
    show ?thesis
    proof (cases ns rule: rev_cases)
      case (snoc ms m)
      then have m: "normal_part m" "list_all normal_part ms" using Cons.prems(3) by auto
      then have "m \<noteq> ''..''" by auto
      then have "clean_parts r acc (p # ps) = clean_parts r (rev ms @ replicate k ''..'') ps"
        using up snoc Cons.prems(2) by simp
      then show ?thesis using Cons.IH [of "rev ms @ replicate k ''..''" ms k] Cons.prems m by simp
    next
      case Nil
      show ?thesis
      proof (cases k)
        case 0
        then have e: "clean_parts r acc (p # ps) = (if r then clean_parts r [] ps else clean_parts r [p] ps)"
          using up Nil Cons.prems(2) by simp
        show ?thesis
        proof (cases r)
          case True
          then show ?thesis using e Cons.IH [of "[]" "[]" 0] Cons.prems by simp
        next
          case False
          then show ?thesis using e up Cons.IH [of "[p]" "[]" 1] Cons.prems by simp
        qed
      next
        case (Suc j)
        then have "clean_parts r acc (p # ps) = clean_parts r (rev [] @ replicate (Suc k) ''..'') ps"
          using up Nil Cons.prems(2) by simp
        moreover have "\<forall>p\<in>set ps. slash \<notin> set p" "r \<longrightarrow> Suc k = 0" using Cons.prems Suc by auto
        ultimately show ?thesis
          using Cons.IH [of "rev [] @ replicate (Suc k) ''..''" "[]" "Suc k"] by (simp add: list_all_def del: clean_parts.simps)
      qed
    qed
  next
    case normal
    then have "p \<noteq> []" "p \<noteq> ''.''" "p \<noteq> ''..''" by auto
    then have "clean_parts r acc (p # ps) = clean_parts r (rev (ns @ [p]) @ replicate k ''..'') ps"
      using Cons.prems(2) by simp
    then show ?thesis using Cons.IH [of "rev (ns @ [p]) @ replicate k ''..''" "ns @ [p]" k] Cons.prems normal by simp
  qed
qed

lemma path_parts_shape:
  obtains k ns where "path_parts s = replicate k ''..'' @ ns" "list_all normal_part ns" "is_rooted s \<longrightarrow> k = 0"
  using clean_climbing_aux [of "split_char slash s" "[]" "[]" 0 "is_rooted s"]
  by (auto simp: path_parts_def dest: split_char_noslash)

lemma climbing_parts: "climbing (path_parts s)"
  unfolding climbing_def by (metis path_parts_shape)

lemma rooted_parts: "is_rooted s \<Longrightarrow> list_all normal_part (path_parts s)"
  by (metis path_parts_shape replicate_0 self_append_conv2)

lemma clean_replicate:
  "clean_parts False (replicate k ''..'') (replicate j ''..'' @ ns) = clean_parts False (replicate (k + j) ''..'') ns"
proof (induction j arbitrary: k)
  case (Suc j)
  have "clean_parts False (replicate k ''..'') (''..'' # replicate j ''..'' @ ns) =
      clean_parts False (replicate (Suc k) ''..'') (replicate j ''..'' @ ns)"
    by (cases k) simp_all
  then show ?case using Suc [of "Suc k"] by simp
qed simp

lemma clean_climbing: "climbing ps \<Longrightarrow> clean_parts False [] ps = ps"
proof -
  assume "climbing ps"
  then obtain k ns where ps: "ps = replicate k ''..'' @ ns" "list_all normal_part ns" by (auto simp: climbing_def)
  have "clean_parts False [] ps = clean_parts False [] (replicate k ''..'') @ ns"
    using ps clean_normal by metis
  also have "clean_parts False [] (replicate k ''..'') = replicate k ''..''"
    using clean_replicate [of 0 k "[]"] by (simp add: rev_replicate)
  finally show ?thesis using ps by simp
qed

lemma normal_noslash: "list_all normal_part ns \<Longrightarrow> \<forall>p\<in>set ns. slash \<notin> set p"
  by (auto simp: list_all_iff normal_part_def)

lemma climbing_noslash: "climbing ps \<Longrightarrow> \<forall>p\<in>set ps. slash \<notin> set p"
  using normal_noslash by (fastforce simp: climbing_def)

lemma climbing_hd: "climbing ps \<Longrightarrow> ps \<noteq> [] \<Longrightarrow> hd ps \<noteq> [] \<and> hd ps \<noteq> ''.'' \<and> slash \<notin> set (hd ps)"
proof -
  assume c: "climbing ps" "ps \<noteq> []"
  then obtain k ns where ps: "ps = replicate k ''..'' @ ns" "list_all normal_part ns" by (auto simp: climbing_def)
  show ?thesis
  proof (cases k)
    case 0
    then show ?thesis using ps c(2) by (cases ns) (auto simp: normal_part_def)
  qed (simp add: ps)
qed

lemma join_relative:
  assumes "climbing ps" "ps \<noteq> []"
  shows "\<not> is_rooted (join_with [slash] ps)" "path_parts (join_with [slash] ps) = ps"
proof -
  have h: "hd ps \<noteq> []" "slash \<notin> set (hd ps)" using climbing_hd [OF assms] by auto
  have "hd (join_with [slash] ps) = hd (hd ps)" using hd_join [OF assms(2) h(1)] .
  moreover have "hd (hd ps) \<in> set (hd ps)" using h(1) by simp
  ultimately show r: "\<not> is_rooted (join_with [slash] ps)" using h(2) unfolding is_rooted_def by metis
  show "path_parts (join_with [slash] ps) = ps"
    using r split_join [OF assms(2) climbing_noslash [OF assms(1)]] clean_climbing [OF assms(1)] by (simp add: path_parts_def)
qed

lemma path_parts_clean [simp]: "path_parts (path_clean s) = path_parts s"
proof (cases "is_rooted s")
  case True
  let ?ps = "path_parts s"
  have n: "list_all normal_part ?ps" using rooted_parts [OF True] .
  have r: "is_rooted (slash # x)" for x by (simp add: is_rooted_def)
  show ?thesis
  proof (cases "?ps = []")
    case False
    have "split_char slash (slash # join_with [slash] ?ps) = [] # ?ps"
      using split_join [OF False normal_noslash [OF n]] by simp
    then show ?thesis using True clean_normal [OF n, of True "[]" "[]"] by (simp add: path_clean_def path_parts_def [of "slash # _"] r)
  qed (simp add: path_clean_def True path_parts_def [of "slash # _"] is_rooted_def)
next
  case False
  show ?thesis
  proof (cases "path_parts s = []")
    case True
    then have "path_clean s = ''.''" using False by (simp add: path_clean_def)
    then show ?thesis using True by simp
  next
    case ne: False
    then show ?thesis using False join_relative(2) [OF climbing_parts ne] by (simp add: path_clean_def)
  qed
qed

lemma rooted_clean [simp]: "is_rooted (path_clean s) = is_rooted s"
proof (cases "is_rooted s")
  case False
  then show ?thesis
    using join_relative(1) [OF climbing_parts [of s]] by (simp add: path_clean_def) (simp add: is_rooted_def)
qed (simp add: path_clean_def is_rooted_def)

lemma path_clean_idem [simp]: "path_clean (path_clean s) = path_clean s"
  by (simp add: path_clean_def [of "path_clean s"]) (simp add: path_clean_def)

lemma path_clean_not_Nil [simp]: "path_clean s \<noteq> []"
proof (cases "is_rooted s")
  case False
  then show ?thesis
    using join_not_Nil [of "path_parts s"] climbing_hd [OF climbing_parts [of s]] by (auto simp: path_clean_def)
qed (simp add: path_clean_def)

subsection \<open>Staying below a base\<close>

text \<open>A relative path that is neither \<open>.\<close> nor climbs.\<close>

definition inside_path :: "string \<Rightarrow> bool" where
  "inside_path p = (\<not> is_rooted p \<and> path_clean p \<noteq> ''.'' \<and> path_clean p \<noteq> ''..'' \<and> \<not> has_prefix (path_clean p) ''../'')"

lemma inside_parts:
  assumes "inside_path p"
  shows "path_parts p \<noteq> []" "list_all normal_part (path_parts p)" "path_clean p = join_with [slash] (path_parts p)"
proof -
  show ne: "path_parts p \<noteq> []" using assms by (auto simp: inside_path_def path_clean_def)
  show c: "path_clean p = join_with [slash] (path_parts p)"
    using assms ne by (simp add: inside_path_def path_clean_def)
  obtain k ns where s: "path_parts p = replicate k ''..'' @ ns" "list_all normal_part ns"
    by (rule path_parts_shape)
  have "k = 0"
  proof (rule ccontr)
    assume "k \<noteq> 0"
    then obtain j where k: "k = Suc j" by (cases k) auto
    then have "path_parts p = ''..'' # replicate j ''..'' @ ns" using s by simp
    then have "path_clean p = ''..'' \<or> has_prefix (path_clean p) ''../''"
      unfolding c by (cases "replicate j ''..'' @ ns") (auto simp: has_prefix_def)
    then show False using assms by (auto simp: inside_path_def)
  qed
  then show "list_all normal_part (path_parts p)" using s by simp
qed

lemma strip_common_append: "strip_common xs (xs @ ys) = ([], ys)"
proof (induction xs)
  case Nil
  show ?case by (cases ys) auto
qed simp

lemma parts_join:
  assumes "inside_path p" "root \<noteq> []"
  shows "path_parts (path_join root (path_clean p)) = path_parts root @ path_parts p"
proof -
  note i = inside_parts [OF assms(1)]
  have r: "is_rooted (root @ slash # x) = is_rooted root" for x using assms(2) by (simp add: is_rooted_def)
  have "split_char slash (path_clean p) = path_parts p"
    unfolding i(3) by (rule split_join [OF i(1) normal_noslash [OF i(2)]])
  then have "path_parts (root @ slash # path_clean p) = path_parts root @ path_parts p"
    using clean_normal [OF i(2)] by (simp add: path_parts_def [of "root @ _"] r split_char_append) (simp add: path_parts_def)
  then show ?thesis using assms(2) by (simp add: path_join_def)
qed

lemma rel_join:
  assumes "inside_path p" "root \<noteq> []"
  shows "path_rel_parts root (path_join root (path_clean p)) = path_parts p"
  using parts_join [OF assms] by (simp add: path_rel_parts_def strip_common_append)

end
