(* ===== verification/WorkTree.thy ===== *)
theory WorkTree
  imports Paths Prelude Json
begin

text \<open>A workspace directory as the operating system shows it to the program: a finite tree, keyed by the
  components below the workspace root (the empty path is the root itself). A lookup that would go through
  a symbolic link or another non-directory does not stay in the tree. Only absence, wrong kinds of node
  and links are modelled as failures; permissions, full disks and concurrent changes by other
  processes are not.\<close>

datatype node = Dir | File string | Link | Special

type_synonym tree = "(string list \<times> node) list"

datatype lookup = Missing | NotDir | Outside | Found node

fun walk_to :: "tree \<Rightarrow> string list \<Rightarrow> string list \<Rightarrow> lookup" where
  "walk_to t pre [] = (case map_of t pre of None \<Rightarrow> Missing | Some n \<Rightarrow> Found n)"
| "walk_to t pre (c # cs) =
     (case map_of t pre of
        None \<Rightarrow> Missing
      | Some Dir \<Rightarrow> walk_to t (pre @ [c]) cs
      | Some Link \<Rightarrow> Outside
      | Some _ \<Rightarrow> NotDir)"

text \<open>\<open>os.Lstat\<close>: links in the middle are followed (out of the tree), a link at the end is not.\<close>

definition lstat :: "tree \<Rightarrow> string list \<Rightarrow> lookup" where
  "lstat t p = walk_to t [] p"

definition put_node :: "string list \<Rightarrow> node \<Rightarrow> tree \<Rightarrow> tree" where
  "put_node p n t = (p, n) # filter (\<lambda>(q, _). q \<noteq> p) t"

definition remove_node :: "string list \<Rightarrow> tree \<Rightarrow> tree" where
  "remove_node p t = filter (\<lambda>(q, _). q \<noteq> p) t"

text \<open>\<open>os.MkdirAll\<close>: \<open>None\<close> when something that is not a directory is in the way.\<close>

fun mkdir_all :: "string list \<Rightarrow> string list \<Rightarrow> tree \<Rightarrow> tree option" where
  "mkdir_all pre [] t =
     (case map_of t pre of None \<Rightarrow> Some (put_node pre Dir t) | Some Dir \<Rightarrow> Some t | Some _ \<Rightarrow> None)"
| "mkdir_all pre (c # cs) t =
     (case map_of t pre of
        None \<Rightarrow> mkdir_all (pre @ [c]) cs (put_node pre Dir t)
      | Some Dir \<Rightarrow> mkdir_all (pre @ [c]) cs t
      | Some _ \<Rightarrow> None)"

text \<open>A tree is closed when the parent of every entry is a directory.\<close>

definition tree_ok :: "tree \<Rightarrow> bool" where
  "tree_ok t = (map_of t [] = Some Dir \<and> (\<forall>p c n. map_of t (p @ [c]) = Some n \<longrightarrow> map_of t p = Some Dir))"

lemma map_of_remove [simp]: "map_of (remove_node p t) = (map_of t)(p := None)"
proof (induction t)
  case (Cons x t)
  then show ?case by (cases x) (auto simp: remove_node_def fun_eq_iff)
qed (simp add: remove_node_def)

lemma map_of_put [simp]: "map_of (put_node p n t) = (map_of t)(p \<mapsto> n)"
  using map_of_remove [of p t] by (simp add: put_node_def remove_node_def)

lemma walk_to_Found:
  "walk_to t pre p = Found n \<longleftrightarrow>
    map_of t (pre @ p) = Some n \<and> (\<forall>i<length p. map_of t (pre @ take i p) = Some Dir)"
proof (induction p arbitrary: pre)
  case Nil
  then show ?case by (simp split: option.splits)
next
  case (Cons c cs)
  have "(\<forall>i<length (c # cs). map_of t (pre @ take i (c # cs)) = Some Dir) \<longleftrightarrow>
      map_of t pre = Some Dir \<and> (\<forall>i<length cs. map_of t ((pre @ [c]) @ take i cs) = Some Dir)"
    by (auto simp: less_Suc_eq_0_disj all_conj_distrib)
  then show ?case using Cons [of "pre @ [c]"] by (auto split: option.splits node.splits)
qed

lemma lstat_Found:
  "lstat t p = Found n \<longleftrightarrow> map_of t p = Some n \<and> (\<forall>i<length p. map_of t (take i p) = Some Dir)"
  unfolding lstat_def using walk_to_Found [of t "[]" p n] by simp

lemma tree_ok_prefix:
  assumes "tree_ok t" "map_of t (p @ q) = Some n" "q \<noteq> []"
  shows "map_of t p = Some Dir"
  using assms(2,3)
proof (induction q arbitrary: n rule: rev_induct)
  case (snoc c q)
  then have "map_of t ((p @ q) @ [c]) = Some n" by simp
  then have d: "map_of t (p @ q) = Some Dir" using assms(1) unfolding tree_ok_def by blast
  then show ?case using snoc.IH by (cases "q = []") auto
qed simp

text \<open>In a closed tree the parents need no check.\<close>

lemma lstat_ok:
  assumes "tree_ok t"
  shows "lstat t p = Found n \<longleftrightarrow> map_of t p = Some n"
proof -
  have "map_of t (take i p) = Some Dir" if "map_of t p = Some n" "i < length p" for i
    using tree_ok_prefix [OF assms, of "take i p" "drop i p" n] that by simp
  then show ?thesis unfolding lstat_Found by blast
qed

lemma tree_ok_put:
  assumes "tree_ok t" "p = q @ [c]" "map_of t q = Some Dir" "map_of t p = None \<or> n = Dir \<or> (\<exists>x. map_of t p = Some (File x))"
  shows "tree_ok (put_node p n t)"
proof -
  have kids: "map_of t (p @ [d]) = None" if "n \<noteq> Dir" for d
  proof (cases "map_of t (p @ [d])")
    case (Some m)
    then have "map_of t p = Some Dir" using assms(1) unfolding tree_ok_def by blast
    then show ?thesis using that assms(4) by auto
  qed simp
  have par: "map_of t r = Some Dir" if "map_of t (r @ [d]) = Some m" for r d m
    using that assms(1) unfolding tree_ok_def by blast
  show ?thesis
    unfolding tree_ok_def
  proof (intro conjI allI impI)
    show "map_of (put_node p n t) [] = Some Dir" using assms(1,2) by (simp add: tree_ok_def)
    fix r d m assume m: "map_of (put_node p n t) (r @ [d]) = Some m"
    show "map_of (put_node p n t) r = Some Dir"
    proof (cases "r = p")
      case True
      then show ?thesis using m kids [of d] by (cases "n = Dir") auto
    next
      case False
      then show ?thesis using m par [of r d m] assms(2,3) by (cases "r @ [d] = p") auto
    qed
  qed
qed

lemma tree_ok_remove:
  assumes "tree_ok t" "map_of t p = Some (File x)" "p \<noteq> []"
  shows "tree_ok (remove_node p t)"
proof -
  have par: "map_of t r = Some Dir" if "map_of t (r @ [d]) = Some m" for r d m
    using that assms(1) unfolding tree_ok_def by blast
  show ?thesis
    unfolding tree_ok_def
  proof (intro conjI allI impI)
    show "map_of (remove_node p t) [] = Some Dir" using assms(1,3) by (simp add: tree_ok_def)
    fix r d m assume "map_of (remove_node p t) (r @ [d]) = Some m"
    then have "map_of t (r @ [d]) = Some m" by (simp split: if_splits)
    then have "map_of t r = Some Dir" by (rule par)
    then show "map_of (remove_node p t) r = Some Dir" using assms(2) by auto
  qed
qed

subsection \<open>Directories on the way\<close>

lemma mkdir_all_spec:
  assumes "mkdir_all pre cs t = Some t'"
  shows "map_of t' = (\<lambda>p. if map_of t p = None \<and> (\<exists>i\<le>length cs. p = pre @ take i cs) then Some Dir else map_of t p)"
    and "\<forall>i\<le>length cs. map_of t (pre @ take i cs) \<in> {None, Some Dir}"
proof -
  have "map_of t' = (\<lambda>p. if map_of t p = None \<and> (\<exists>i\<le>length cs. p = pre @ take i cs) then Some Dir else map_of t p)
    \<and> (\<forall>i\<le>length cs. map_of t (pre @ take i cs) \<in> {None, Some Dir})"
    using assms
  proof (induction pre cs t rule: mkdir_all.induct)
    case (1 pre t)
    then show ?case by (auto simp: fun_eq_iff split: option.splits node.splits)
  next
    case (2 pre c cs t)
    let ?t = "if map_of t pre = None then put_node pre Dir t else t"
    have rec: "mkdir_all (pre @ [c]) cs ?t = Some t'" and d: "map_of t pre \<in> {None, Some Dir}"
      using 2(3) by (auto split: option.splits node.splits)
    have m: "map_of ?t = (map_of t)(pre \<mapsto> Dir)" using d by (auto simp: fun_eq_iff)
    have ih: "map_of t' = (\<lambda>p. if map_of ?t p = None \<and> (\<exists>i\<le>length cs. p = (pre @ [c]) @ take i cs) then Some Dir else map_of ?t p)
      \<and> (\<forall>i\<le>length cs. map_of ?t ((pre @ [c]) @ take i cs) \<in> {None, Some Dir})"
      using 2(1,2) rec d by (cases "map_of t pre") auto
    have shift: "(\<exists>i\<le>length (c # cs). p = pre @ take i (c # cs)) \<longleftrightarrow> p = pre \<or> (\<exists>i\<le>length cs. p = pre @ c # take i cs)" for p
    proof
      assume "\<exists>i\<le>length (c # cs). p = pre @ take i (c # cs)"
      then obtain i where "i \<le> length (c # cs)" "p = pre @ take i (c # cs)" by blast
      then show "p = pre \<or> (\<exists>i\<le>length cs. p = pre @ c # take i cs)" by (cases i) auto
    next
      assume "p = pre \<or> (\<exists>i\<le>length cs. p = pre @ c # take i cs)"
      then show "\<exists>i\<le>length (c # cs). p = pre @ take i (c # cs)"
        by (metis Suc_le_mono append_Nil2 le0 length_Cons take0 take_Suc_Cons)
    qed
    have "map_of t' p = (if map_of t p = None \<and> (\<exists>i\<le>length (c # cs). p = pre @ take i (c # cs)) then Some Dir else map_of t p)" for p
      using ih d unfolding shift m by (auto simp: fun_eq_iff)
    moreover have "map_of t (pre @ take i (c # cs)) \<in> {None, Some Dir}" if "i \<le> length (c # cs)" for i
      using that d ih unfolding m by (cases i) auto
    ultimately show ?case by (simp add: fun_eq_iff del: length_Cons)
  qed
  then show "map_of t' = (\<lambda>p. if map_of t p = None \<and> (\<exists>i\<le>length cs. p = pre @ take i cs) then Some Dir else map_of t p)"
    "\<forall>i\<le>length cs. map_of t (pre @ take i cs) \<in> {None, Some Dir}" by blast+
qed

end
