(* ===== verification/GitState.thy ===== *)
theory GitState
  imports WorkTree "HOL-Library.List_Lexorder" "HOL-Library.Char_ord"
begin

text \<open>The Git inspection of a workspace (internal/gitstate). The git program is a parameter: what it prints
  for a command line run in a workspace tree, with its exit status. SHA-256 (in hexadecimal) is a
  parameter as well. Strings are ordered by their bytes.\<close>

datatype git_result = GitOut string | GitExit int string | GitNotRun string

type_synonym git_cmd = "string \<Rightarrow> string list \<Rightarrow> tree \<Rightarrow> git_result"

datatype git_error = PatchTooLarge | GitError string

record git_snapshot =
  gs_head :: string
  gs_changed_files :: "string list"
  gs_patch :: string
  gs_checksum :: string
  gs_dirty :: bool

definition default_max_patch_bytes :: int where
  "default_max_patch_bytes = 32 * 1024 * 1024"

definition checksum :: "(string \<Rightarrow> string) \<Rightarrow> string \<Rightarrow> string" where
  "checksum sha256 patch = ''sha256:'' @ sha256 patch"

definition wrap_git :: "string \<Rightarrow> git_error + 'a \<Rightarrow> git_error + 'a" where
  "wrap_git ctx r = (case r of Inl (GitError m) \<Rightarrow> Inl (GitError (ctx @ '': '' @ m)) | _ \<Rightarrow> r)"

definition clean_root :: "string \<Rightarrow> tree \<Rightarrow> git_error + string" where
  "clean_root raw t =
     (let root = path_clean (trim_space raw) in
      if root = [] \<or> \<not> is_rooted root then Inl (GitError ''absolute Git workspace path is required'')
      else case lstat t [] of
        Found Dir \<Rightarrow> Inr root
      | Found _ \<Rightarrow> Inl (GitError ''Git workspace path is not a directory'')
      | _ \<Rightarrow> Inl (GitError ''inspect Git workspace''))"

definition git_failure :: "string list \<Rightarrow> string \<Rightarrow> string \<Rightarrow> git_error" where
  "git_failure args why output =
     GitError (''git '' @ join_with '' '' args @ '': '' @ why @ '': '' @ trim_space output)"

definition run_allow_exit_code :: "git_cmd \<Rightarrow> string \<Rightarrow> int \<Rightarrow> string list \<Rightarrow> tree \<Rightarrow> git_error + string" where
  "run_allow_exit_code git root accepted args t =
     (case git root args t of
        GitOut s \<Rightarrow> Inr s
      | GitExit c s \<Rightarrow> if c = accepted then Inr s else Inl (git_failure args (''exit status '' @ show_int c) s)
      | GitNotRun why \<Rightarrow> Inl (git_failure args why []))"

definition git_run :: "git_cmd \<Rightarrow> string \<Rightarrow> string list \<Rightarrow> tree \<Rightarrow> git_error + string" where
  "git_run git raw args t =
     rbind (clean_root raw t) (\<lambda>root.
       case git root args t of
         GitOut s \<Rightarrow> Inr s
       | GitExit c s \<Rightarrow> Inl (git_failure args (''exit status '' @ show_int c) s)
       | GitNotRun why \<Rightarrow> Inl (git_failure args why []))"

definition run_allow_exit :: "git_cmd \<Rightarrow> string \<Rightarrow> int \<Rightarrow> string list \<Rightarrow> tree \<Rightarrow> git_error + string" where
  "run_allow_exit git raw accepted args t =
     rbind (clean_root raw t) (\<lambda>root. run_allow_exit_code git root accepted args t)"

text \<open>What follows the last occurrence of a separator.\<close>

fun after_last :: "string \<Rightarrow> string \<Rightarrow> string option" where
  "after_last sub [] = None"
| "after_last sub (c # s) =
     (case after_last sub s of
        Some r \<Rightarrow> Some r
      | None \<Rightarrow> if has_prefix (c # s) sub then Some (drop (length sub) (c # s)) else None)"

definition escapes_root :: "string \<Rightarrow> bool" where
  "escapes_root clean = (clean = ''..'' \<or> has_prefix clean ''../'')"

definition status_path :: "string \<Rightarrow> string" where
  "status_path line =
     (let path = trim_space (drop 3 line) in
      case after_last '' -> '' path of None \<Rightarrow> path | Some r \<Rightarrow> r)"

fun status_paths :: "string list \<Rightarrow> git_error + string list" where
  "status_paths [] = Inr []"
| "status_paths (line # ls) =
     (if length line < 4 then status_paths ls
      else let path = status_path line in
        if path = [] \<or> is_rooted path \<or> escapes_root (path_clean path)
        then Inl (GitError (''unsafe changed workspace path '' @ path))
        else rbind (status_paths ls) (\<lambda>ps. Inr (path_clean path # ps)))"

definition newline :: char where "newline = CHR 0x0A"

definition changed_files :: "git_cmd \<Rightarrow> string \<Rightarrow> tree \<Rightarrow> git_error + string list" where
  "changed_files git root t =
     rbind (wrap_git ''read workspace status'' (git_run git root [''status'', ''--porcelain=v1'', ''--untracked-files=all''] t))
       (\<lambda>out. rbind (status_paths (split_char newline out)) (\<lambda>ps. Inr (sort (remdups ps))))"

fun untracked_paths :: "string list \<Rightarrow> git_error + string list" where
  "untracked_paths [] = Inr []"
| "untracked_paths (raw # rs) =
     (let path = trim_space raw in
      if path = [] then untracked_paths rs
      else let clean = path_clean path in
        if is_rooted clean \<or> escapes_root clean
        then Inl (GitError (''unsafe untracked workspace path '' @ path))
        else rbind (untracked_paths rs) (\<lambda>ps. Inr (clean # ps)))"

definition untracked_files :: "git_cmd \<Rightarrow> string \<Rightarrow> tree \<Rightarrow> git_error + string list" where
  "untracked_files git root t =
     rbind (wrap_git ''read untracked workspace files''
              (git_run git root [''ls-files'', ''--others'', ''--exclude-standard'', ''-z''] t))
       (\<lambda>out. rbind (untracked_paths (split_char (CHR 0x00) out)) (\<lambda>ps. Inr (sort ps)))"

fun untracked_patches :: "git_cmd \<Rightarrow> string \<Rightarrow> tree \<Rightarrow> string list \<Rightarrow> git_error + string" where
  "untracked_patches git root t [] = Inr []"
| "untracked_patches git root t (p # ps) =
     rbind (wrap_git (''read untracked workspace diff '' @ p)
         (run_allow_exit_code git root 1
            [''diff'', ''--no-index'', ''--binary'', ''--no-ext-diff'', ''--no-color'', ''/dev/null'', p] t)) (\<lambda>d.
     rbind (untracked_patches git root t ps) (\<lambda>ds. Inr (d @ ds)))"

definition capture :: "git_cmd \<Rightarrow> (string \<Rightarrow> string) \<Rightarrow> string \<Rightarrow> int \<Rightarrow> tree \<Rightarrow> git_error + git_snapshot" where
  "capture git sha256 raw max_bytes t =
     rbind (clean_root raw t) (\<lambda>root.
     let limit = (if max_bytes \<le> 0 then default_max_patch_bytes else max_bytes) in
     rbind (wrap_git ''read workspace HEAD'' (git_run git root [''rev-parse'', ''HEAD''] t)) (\<lambda>head.
     rbind (changed_files git root t) (\<lambda>changed.
     rbind (untracked_files git root t) (\<lambda>untracked.
     rbind (wrap_git ''read tracked workspace diff''
              (git_run git root [''diff'', ''HEAD'', ''--binary'', ''--no-ext-diff'', ''--no-color''] t)) (\<lambda>tracked.
     rbind (untracked_patches git root t untracked) (\<lambda>more.
     let patch = tracked @ more in
     rbind (guardE (\<not> int (length patch) > limit) PatchTooLarge) (\<lambda>_.
     Inr \<lparr> gs_head = trim_space head, gs_changed_files = changed, gs_patch = patch,
           gs_checksum = checksum sha256 patch, gs_dirty = (length changed > 0) \<rparr>)))))))"

subsection \<open>Properties\<close>

lemma status_paths_safe:
  "status_paths ls = Inr ps \<Longrightarrow> \<forall>p\<in>set ps. path_clean p = p \<and> \<not> is_rooted p \<and> \<not> escapes_root p"
  by (induction ls arbitrary: ps) (auto simp: Let_def rbind_def split: if_splits sum.splits)

lemma untracked_paths_safe:
  "untracked_paths rs = Inr ps \<Longrightarrow> \<forall>p\<in>set ps. path_clean p = p \<and> \<not> is_rooted p \<and> \<not> escapes_root p"
  by (induction rs arbitrary: ps) (auto simp: Let_def rbind_def split: if_splits sum.splits)

lemma changed_files_safe:
  assumes "changed_files git root t = Inr ps"
  shows "sorted ps" "distinct ps" "\<forall>p\<in>set ps. path_clean p = p \<and> \<not> is_rooted p \<and> \<not> escapes_root p"
  using assms status_paths_safe by (auto simp: changed_files_def rbind_def split: sum.splits)

lemma untracked_files_safe:
  assumes "untracked_files git root t = Inr ps"
  shows "\<forall>p\<in>set ps. path_clean p = p \<and> \<not> is_rooted p \<and> \<not> escapes_root p"
  using assms untracked_paths_safe by (auto simp: untracked_files_def rbind_def split: sum.splits)

lemma safe_parts:
  assumes "path_clean p = p" "\<not> is_rooted p" "\<not> escapes_root p"
  shows "list_all normal_part (path_parts p)"
proof (cases "p = ''.''")
  case False
  then have "inside_path p" using assms by (simp add: inside_path_def escapes_root_def)
  then show ?thesis by (rule inside_parts(2))
qed simp

text \<open>Whatever git prints, a captured snapshot lists its changed files sorted and without repetition, each as a
  clean relative path whose components never climb out of the workspace; it is dirty exactly when a file
  changed; its patch fits the limit and its checksum is that of the patch.\<close>
theorem captured_paths_are_safe:
  assumes "capture git sha256 root max_bytes t = Inr s"
  shows "sorted (gs_changed_files s) \<and> distinct (gs_changed_files s)
    \<and> (\<forall>p\<in>set (gs_changed_files s). path_clean p = p \<and> \<not> is_rooted p \<and> list_all normal_part (path_parts p))
    \<and> (gs_dirty s \<longleftrightarrow> gs_changed_files s \<noteq> [])
    \<and> int (length (gs_patch s)) \<le> (if max_bytes \<le> 0 then default_max_patch_bytes else max_bytes)
    \<and> gs_checksum s = checksum sha256 (gs_patch s)
    \<and> is_rooted (path_clean (trim_space root)) \<and> lstat t [] = Found Dir"
proof -
  obtain r changed where r: "clean_root root t = Inr r" "changed_files git r t = Inr changed"
    "gs_changed_files s = changed" "gs_dirty s = (changed \<noteq> [])" "gs_checksum s = checksum sha256 (gs_patch s)"
    "int (length (gs_patch s)) \<le> (if max_bytes \<le> 0 then default_max_patch_bytes else max_bytes)"
    using assms by (auto simp: capture_def rbind_def Let_def guardE_def split: sum.splits if_splits)
  have "is_rooted (path_clean (trim_space root)) \<and> lstat t [] = Found Dir"
    using r(1) by (auto simp: clean_root_def Let_def split: if_splits lookup.splits node.splits)
  moreover have "\<forall>p\<in>set changed. path_clean p = p \<and> \<not> is_rooted p \<and> list_all normal_part (path_parts p)"
    using changed_files_safe(3) [OF r(2)] safe_parts by blast
  ultimately show ?thesis
    using changed_files_safe(1,2) [OF r(2)] r(3-6) by blast
qed

definition demo_git :: git_cmd where
  "demo_git root args t =
     (if args = [''rev-parse'', ''HEAD''] then GitOut ''c0''
      else if hd args = ''status'' then GitOut (''?? b'' @ [newline] @ '' M a'') else GitOut [])"

definition demo_tree :: tree where
  "demo_tree = [([], Dir), ([''a''], File ''alpha''), ([''b''], File ''beta''), ([''.git''], File ''gitdir'')]"

lemma demo_root: "clean_root ''/w'' demo_tree = Inr ''/w''"
  by (simp add: clean_root_def plain_char_def path_clean_def path_parts_def is_rooted_def lstat_def demo_tree_def)

lemma demo_changed: "changed_files demo_git ''/w'' demo_tree = Inr [''a'', ''b'']"
proof -
  have "status_path ''?? b'' = ''b''" "status_path '' M a'' = ''a''"
    by (simp_all add: status_path_def Let_def plain_char_def has_prefix_def)
  moreover have "path_clean ''a'' = ''a''" "path_clean ''b'' = ''b''"
    by (simp_all add: path_clean_def path_parts_def is_rooted_def)
  ultimately have "status_paths [''?? b'', '' M a''] = Inr [''b'', ''a'']"
    by (simp add: rbind_def is_rooted_def escapes_root_def has_prefix_def)
  moreover have "split_char newline (''?? b'' @ [newline] @ '' M a'') = [''?? b'', '' M a'']"
    by (simp add: newline_def)
  moreover have "sort (remdups [''b'', ''a'']) = [''a'', ''b'']" by code_simp
  ultimately show ?thesis
    using demo_root by (simp add: changed_files_def git_run_def wrap_git_def rbind_def demo_git_def)
qed

lemma demo_capture: "capture demo_git (\<lambda>s. s) ''/w'' 0 demo_tree =
  Inr \<lparr> gs_head = ''c0'', gs_changed_files = [''a'', ''b''], gs_patch = [], gs_checksum = ''sha256:'', gs_dirty = True \<rparr>"
  using demo_root demo_changed
  by (simp add: capture_def Let_def rbind_def wrap_git_def git_run_def demo_git_def untracked_files_def guardE_def
      default_max_patch_bytes_def checksum_def plain_char_def)

lemma captured_paths_are_safe_witness: "sorted [''a'', ''b''] \<and> checksum (\<lambda>s. s) [] = ''sha256:''"
  using captured_paths_are_safe [OF demo_capture] by simp

end
