(* ===== verification/Tools.thy ===== *)
theory Tools
  imports GitState
begin

text \<open>The executor's tools over its workspace (internal/execution/tools.go, safe_file_unix.go): the path guard,
  the policy check, and the seven tools. Operating-system error texts are shortened to what the code adds
  to them. A tool returns what \<open>RecordedTools\<close> stores and hands to the model.\<close>

record tool_policy =
  tp_allowed_tools :: "string list"
  tp_workspace_write :: bool
  tp_max_file_bytes :: int
  tp_max_patch_bytes :: int

datatype tool_err =
  ToolNotAllowed | UnsafePath | SizeLimit | ToolInvalid | ToolCallLimit | ToolOther string

datatype tool_call =
  FileRead string
| FileSearch string int
| FileCreate string string
| FilePatch string string string
| FileDelete string
| GitStatus
| GitDiff

record tool_env =
  te_root :: string
  te_policy :: tool_policy
  te_git :: git_cmd
  te_sha256 :: "string \<Rightarrow> string"

subsection \<open>The path guard\<close>

definition rel_string :: "string list \<Rightarrow> string" where
  "rel_string ps = (if ps = [] then ''.'' else join_with [slash] ps)"

text \<open>The components below the root, in order: absent ones may pass, links and special files never.\<close>

fun reject_links :: "tree \<Rightarrow> string list \<Rightarrow> string list \<Rightarrow> bool \<Rightarrow> tool_err + unit" where
  "reject_links t pre [] allow_missing = Inr ()"
| "reject_links t pre (c # cs) allow_missing =
     (case lstat t (pre @ [c]) of
        Missing \<Rightarrow>
          if allow_missing then (if cs \<noteq> [] then reject_links t (pre @ [c]) cs allow_missing else Inr ())
          else Inl (ToolOther ''inspect guarded path'')
      | NotDir \<Rightarrow> Inl (ToolOther ''inspect guarded path'')
      | Outside \<Rightarrow> Inl UnsafePath
      | Found Link \<Rightarrow> Inl UnsafePath
      | Found Special \<Rightarrow> Inl UnsafePath
      | Found _ \<Rightarrow> reject_links t (pre @ [c]) cs allow_missing)"

definition reject_symlink_escape :: "tree \<Rightarrow> string list \<Rightarrow> bool \<Rightarrow> tool_err + unit" where
  "reject_symlink_escape t parts allow_missing =
     (if lstat t [] \<noteq> Found Dir then Inl UnsafePath else reject_links t [] parts allow_missing)"

definition resolve :: "string \<Rightarrow> string \<Rightarrow> bool \<Rightarrow> tree \<Rightarrow> tool_err + string list" where
  "resolve raw_root raw allow_missing t =
     (let root = path_clean (trim_space raw_root); requested = trim_space raw in
      if root = [] \<or> requested = [] \<or> CHR 0x00 \<in> set requested \<or> is_rooted requested then Inl UnsafePath
      else let clean = path_clean requested in
        if clean = ''.'' \<or> clean = ''..'' \<or> has_prefix clean ''../'' then Inl UnsafePath
        else if clean = ''.git'' \<or> has_prefix clean ''.git/'' then Inl UnsafePath
        else let candidate = path_join root clean; relative = path_rel_parts root candidate in
          if rel_string relative = ''..'' \<or> has_prefix (rel_string relative) ''../'' then Inl UnsafePath
          else rbind (reject_symlink_escape t relative allow_missing) (\<lambda>_. Inr relative))"

definition allow :: "tool_policy \<Rightarrow> string \<Rightarrow> bool \<Rightarrow> tool_err + unit" where
  "allow p tool write =
     (if tool \<notin> set (tp_allowed_tools p) then Inl ToolNotAllowed
      else if write \<and> \<not> tp_workspace_write p then Inl ToolNotAllowed else Inr ())"

subsection \<open>Files\<close>

text \<open>Opening without following links: only a regular file passes.\<close>

definition open_regular :: "tree \<Rightarrow> string list \<Rightarrow> tool_err + string" where
  "open_regular t p =
     (case lstat t p of
        Found (File s) \<Rightarrow> Inr s
      | Found Dir \<Rightarrow> Inl UnsafePath
      | Found Special \<Rightarrow> Inl UnsafePath
      | _ \<Rightarrow> Inl (ToolOther ''open''))"

definition tool_read :: "tool_env \<Rightarrow> string \<Rightarrow> tree \<Rightarrow> tool_err + string" where
  "tool_read E path t =
     rbind (allow (te_policy E) ''file_read'' False) (\<lambda>_.
     rbind (resolve (te_root E) path False t) (\<lambda>p.
     rbind (open_regular t p) (\<lambda>content.
     if int (length content) > tp_max_file_bytes (te_policy E) then Inl SizeLimit else Inr content)))"

text \<open>\<open>bufio.ScanLines\<close> with the default buffer: a line of 64 KiB ends the scan.\<close>

definition drop_cr :: "string \<Rightarrow> string" where
  "drop_cr l = (if l \<noteq> [] \<and> last l = CHR 0x0D then butlast l else l)"

definition scan_lines :: "string \<Rightarrow> string list" where
  "scan_lines s =
     (let ls = split_char newline s; raw = (if last ls = [] then butlast ls else ls)
      in map drop_cr (takeWhile (\<lambda>l. length l < 65536) raw))"

definition match_lines :: "string \<Rightarrow> string \<Rightarrow> string \<Rightarrow> string list" where
  "match_lines query path content =
     (let ls = scan_lines content in
      map (\<lambda>i. path @ '':'' @ show_nat (i + 1)) (filter (\<lambda>i. contains_sub (ls ! i) query) [0..<length ls]))"

text \<open>\<open>filepath.WalkDir\<close> visits the entries in the lexical order of their components.\<close>

definition walk_order :: "tree \<Rightarrow> (string list \<times> node) list" where
  "walk_order t = sort_key fst t"

definition searchable :: "tree \<Rightarrow> int \<Rightarrow> string list \<Rightarrow> node \<Rightarrow> bool" where
  "searchable t max_file p n =
     (\<not> (p \<noteq> [] \<and> hd p = ''.git'' \<and> map_of t [''.git''] = Some Dir)
      \<and> (case n of File s \<Rightarrow> int (length s) \<le> max_file | _ \<Rightarrow> False))"

definition tool_search :: "tool_env \<Rightarrow> string \<Rightarrow> int \<Rightarrow> tree \<Rightarrow> tool_err + string list" where
  "tool_search E raw_query raw_max t =
     rbind (allow (te_policy E) ''file_search'' False) (\<lambda>_.
     if lstat t [] \<noteq> Found Dir then Inl UnsafePath
     else let query = trim_space raw_query in
       if query = [] then Inl ToolInvalid
       else let max_results = (if raw_max < 1 \<or> raw_max > 200 then 50 else raw_max);
            files = filter (\<lambda>(p, n). searchable t (tp_max_file_bytes (te_policy E)) p n) (walk_order t) in
         Inr (take (nat max_results)
           (concat (map (\<lambda>(p, n). case n of File s \<Rightarrow> match_lines query (rel_string p) s | _ \<Rightarrow> []) files))))"

definition tool_create :: "tool_env \<Rightarrow> string \<Rightarrow> string \<Rightarrow> tree \<Rightarrow> tool_err + tree" where
  "tool_create E path content t =
     rbind (allow (te_policy E) ''file_create'' True) (\<lambda>_.
     if int (length content) > tp_max_file_bytes (te_policy E) then Inl SizeLimit
     else rbind (resolve (te_root E) path True t) (\<lambda>p.
     case lstat t p of
       Found _ \<Rightarrow> Inl (ToolOther ''file already exists'')
     | NotDir \<Rightarrow> Inl (ToolOther ''lstat'')
     | Outside \<Rightarrow> Inl (ToolOther ''lstat'')
     | Missing \<Rightarrow>
       (case mkdir_all [] (butlast p) t of
          None \<Rightarrow> Inl (ToolOther ''mkdir'')
        | Some t1 \<Rightarrow>
          rbind (reject_symlink_escape t1 (butlast p) False) (\<lambda>_.
          Inr (put_node p (File content) t1)))))"

text \<open>\<open>bytes.Count\<close> (of the empty text: one more than the characters, so one exactly for empty content) and
  the replacement of the first occurrence.\<close>

function count_sub :: "string \<Rightarrow> string \<Rightarrow> nat" where
  "count_sub sub s =
     (if sub = [] then length s + 1
      else if s = [] then 0
      else if has_prefix s sub then 1 + count_sub sub (drop (length sub) s)
      else count_sub sub (tl s))"
  by pat_completeness auto
termination by (relation "measure (length \<circ> snd)") auto

declare count_sub.simps [simp del]

fun replace_first :: "string \<Rightarrow> string \<Rightarrow> string \<Rightarrow> string" where
  "replace_first sub r [] = (if sub = [] then r else [])"
| "replace_first sub r (c # s) =
     (if has_prefix (c # s) sub then r @ drop (length sub) (c # s) else c # replace_first sub r s)"

definition tool_patch :: "tool_env \<Rightarrow> string \<Rightarrow> string \<Rightarrow> string \<Rightarrow> tree \<Rightarrow> tool_err + tree" where
  "tool_patch E path expected replacement t =
     rbind (allow (te_policy E) ''file_patch'' True) (\<lambda>_.
     if int (length expected + length replacement) > tp_max_patch_bytes (te_policy E) then Inl SizeLimit
     else rbind (resolve (te_root E) path False t) (\<lambda>p.
     rbind (open_regular t p) (\<lambda>content.
     if int (length content) > tp_max_file_bytes (te_policy E) then Inl SizeLimit
     else if count_sub expected content \<noteq> 1
       then Inl (ToolOther ''patch expected text must occur exactly once'')
     else let updated = replace_first expected replacement content in
       if int (length updated) > tp_max_file_bytes (te_policy E) then Inl SizeLimit
       else rbind (reject_symlink_escape t p False) (\<lambda>_.
         case lstat t p of
           Found (File _) \<Rightarrow> Inr (put_node p (File updated) t)
         | _ \<Rightarrow> Inl UnsafePath))))"

definition tool_delete :: "tool_env \<Rightarrow> string \<Rightarrow> tree \<Rightarrow> tool_err + tree" where
  "tool_delete E path t =
     rbind (allow (te_policy E) ''file_delete'' True) (\<lambda>_.
     rbind (resolve (te_root E) path False t) (\<lambda>p.
     case lstat t p of
       Found (File _) \<Rightarrow> Inr (remove_node p t)
     | Found _ \<Rightarrow> Inl UnsafePath
     | _ \<Rightarrow> Inl (ToolOther ''lstat'')))"

subsection \<open>Git\<close>

definition toolset_git :: "tool_env \<Rightarrow> string list \<Rightarrow> tree \<Rightarrow> tool_err + string" where
  "toolset_git E args t =
     (let r = te_git E (te_root E) args t;
          out = (case r of GitOut s \<Rightarrow> s | GitExit _ s \<Rightarrow> s | GitNotRun _ \<Rightarrow> []);
          limit = tp_max_patch_bytes (te_policy E) in
      if int (length out) > limit \<and> limit > 0 then Inl SizeLimit
      else case r of
        GitOut s \<Rightarrow> Inr s
      | GitExit c s \<Rightarrow> Inl (ToolOther (''git '' @ join_with '' '' args @ '': exit status '' @ show_int c @ '': '' @ trim_space s))
      | GitNotRun why \<Rightarrow> Inl (ToolOther (''git '' @ join_with '' '' args @ '': '' @ why @ '': '')))"

definition tool_git_status :: "tool_env \<Rightarrow> tree \<Rightarrow> tool_err + string" where
  "tool_git_status E t =
     rbind (allow (te_policy E) ''git_status'' False) (\<lambda>_.
     toolset_git E [''status'', ''--porcelain=v1'', ''--untracked-files=all''] t)"

definition tool_git_diff :: "tool_env \<Rightarrow> tree \<Rightarrow> tool_err + string" where
  "tool_git_diff E t =
     rbind (allow (te_policy E) ''git_diff'' False) (\<lambda>_.
     case capture (te_git E) (te_sha256 E) (te_root E) (tp_max_patch_bytes (te_policy E)) t of
       Inl PatchTooLarge \<Rightarrow> Inl SizeLimit
     | Inl (GitError m) \<Rightarrow> Inl (ToolOther m)
     | Inr s \<Rightarrow> Inr (gs_patch s))"

text \<open>One tool call on the workspace.\<close>

definition changed_json :: json where
  "changed_json = JObj [(''changed'', JBool True)]"

definition run_tool :: "tool_env \<Rightarrow> tool_call \<Rightarrow> tree \<Rightarrow> (tool_err + json) \<times> tree" where
  "run_tool E c t =
     (let text = (\<lambda>r. (rbind r (\<lambda>s. Inr (JStr s)), t));
          write = (\<lambda>r. case r of Inl e \<Rightarrow> (Inl e, t) | Inr t' \<Rightarrow> (Inr changed_json, t')) in
      case c of
        FileRead path \<Rightarrow> text (tool_read E path t)
      | FileSearch query n \<Rightarrow> (rbind (tool_search E query n t) (\<lambda>ms. Inr (JArr (map JStr ms))), t)
      | FileCreate path content \<Rightarrow> write (tool_create E path content t)
      | FilePatch path expected replacement \<Rightarrow> write (tool_patch E path expected replacement t)
      | FileDelete path \<Rightarrow> write (tool_delete E path t)
      | GitStatus \<Rightarrow> text (tool_git_status E t)
      | GitDiff \<Rightarrow> text (tool_git_diff E t))"

subsection \<open>What the guard lets through\<close>

definition unlinked :: "tree \<Rightarrow> string list \<Rightarrow> bool" where
  "unlinked t p = (\<forall>i. map_of t (take i p) \<notin> {Some Link, Some Special})"

lemma join_git:
  assumes "list_all normal_part ps" "ps \<noteq> []" "hd ps = ''.git''"
  shows "join_with [slash] ps = ''.git'' \<or> has_prefix (join_with [slash] ps) ''.git/''"
proof (cases ps)
  case (Cons p qs)
  then show ?thesis using assms by (cases qs) (auto simp: has_prefix_def)
qed (use assms in simp)

lemma resolve_spec:
  assumes "resolve root raw am t = Inr p"
  shows "p = path_parts (trim_space raw)" "p \<noteq> []" "list_all normal_part p" "hd p \<noteq> ''.git''"
    "reject_symlink_escape t p am = Inr ()"
proof -
  let ?root = "path_clean (trim_space root)" and ?r = "trim_space raw"
  have i: "inside_path ?r"
    using assms by (auto simp: resolve_def Let_def inside_path_def split: if_splits)
  have g: "\<not> (path_clean ?r = ''.git'' \<or> has_prefix (path_clean ?r) ''.git/'')"
    using assms by (auto simp: resolve_def Let_def split: if_splits)
  have rel: "path_rel_parts ?root (path_join ?root (path_clean ?r)) = path_parts ?r"
    using rel_join [OF i path_clean_not_Nil] .
  then show p: "p = path_parts ?r" "reject_symlink_escape t p am = Inr ()"
    using assms by (auto simp: resolve_def Let_def rbind_def split: if_splits sum.splits)
  show "p \<noteq> []" "list_all normal_part p" using inside_parts [OF i] p by auto
  then show "hd p \<noteq> ''.git''" using join_git [of p] g inside_parts(3) [OF i] p by auto
qed

lemma shift_prefixes:
  "(\<forall>i\<in>{1..length (c # cs)}. P (pre @ take i (c # cs))) \<longleftrightarrow>
   P (pre @ [c]) \<and> (\<forall>i\<in>{1..length cs}. P ((pre @ [c]) @ take i cs))"
proof
  assume all: "\<forall>i\<in>{1..length (c # cs)}. P (pre @ take i (c # cs))"
  have "P (pre @ take (Suc i) (c # cs))" if "i \<le> length cs" for i using all that by (simp del: take_Suc_Cons)
  from this [of 0] this show "P (pre @ [c]) \<and> (\<forall>i\<in>{1..length cs}. P ((pre @ [c]) @ take i cs))" by simp
next
  assume r: "P (pre @ [c]) \<and> (\<forall>i\<in>{1..length cs}. P ((pre @ [c]) @ take i cs))"
  show "\<forall>i\<in>{1..length (c # cs)}. P (pre @ take i (c # cs))"
  proof
    fix i assume "i \<in> {1..length (c # cs)}"
    then obtain j where "i = Suc j" "j \<le> length cs" by (cases i) auto
    then show "P (pre @ take i (c # cs))" using r by (cases j) auto
  qed
qed

lemma reject_links_ok:
  assumes "tree_ok t" "reject_links t pre cs am = Inr ()"
  shows "\<forall>i\<in>{1..length cs}. map_of t (pre @ take i cs) \<notin> {Some Link, Some Special}"
  using assms(2)
proof (induction cs arbitrary: pre)
  case (Cons c cs)
  have here: "map_of t (pre @ [c]) \<notin> {Some Link, Some Special}"
  proof
    assume "map_of t (pre @ [c]) \<in> {Some Link, Some Special}"
    then have "lstat t (pre @ [c]) = Found Link \<or> lstat t (pre @ [c]) = Found Special"
      using lstat_ok [OF assms(1)] by auto
    then show False using Cons.prems by auto
  qed
  moreover have "\<forall>i\<in>{1..length cs}. map_of t ((pre @ [c]) @ take i cs) \<notin> {Some Link, Some Special}"
    using Cons.prems Cons.IH [of "pre @ [c]"]
    by (cases "cs = []") (auto split: lookup.splits node.splits if_splits)
  ultimately show ?case by (rule shift_prefixes [THEN iffD2, OF conjI])
qed simp

lemma resolve_unlinked:
  assumes "tree_ok t" "resolve root raw am t = Inr p"
  shows "unlinked t p"
  unfolding unlinked_def
proof
  fix i
  have r: "reject_links t [] p am = Inr ()" and d: "map_of t [] = Some Dir"
    using resolve_spec(5) [OF assms(2)] assms(1) by (auto simp: reject_symlink_escape_def tree_ok_def split: if_splits)
  from reject_links_ok [OF assms(1) r]
  have all: "\<forall>j\<in>{1..length p}. map_of t (take j p) \<notin> {Some Link, Some Special}" by simp
  show "map_of t (take i p) \<notin> {Some Link, Some Special}"
  proof (cases "i = 0")
    case False
    have "min i (length p) \<in> {1..length p}" using False resolve_spec(2) [OF assms(2)] by (cases p) auto
    then have "map_of t (take (min i (length p)) p) \<notin> {Some Link, Some Special}" using all by blast
    moreover have "take (min i (length p)) p = take i p" by (simp add: min_def)
    ultimately show ?thesis by simp
  qed (simp add: d)
qed

text \<open>The write tools, each as the change it makes.\<close>

lemma create_spec:
  assumes "tree_ok t" "tool_create E path content t = Inr t'"
  obtains p t1 where "resolve (te_root E) path True t = Inr p" "map_of t p = None"
    "mkdir_all [] (butlast p) t = Some t1" "t' = put_node p (File content) t1" "tp_workspace_write (te_policy E)"
    "int (length content) \<le> tp_max_file_bytes (te_policy E)"
proof -
  from assms(2) obtain p t1 where p: "resolve (te_root E) path True t = Inr p" "lstat t p = Missing"
    "mkdir_all [] (butlast p) t = Some t1" "t' = put_node p (File content) t1" "tp_workspace_write (te_policy E)"
    "int (length content) \<le> tp_max_file_bytes (te_policy E)"
    by (auto simp: tool_create_def rbind_def allow_def split: sum.splits if_splits lookup.splits option.splits)
  have "map_of t p = None"
    using p(2) lstat_ok [OF assms(1), of p] by (cases "map_of t p") auto
  then show ?thesis using p that by blast
qed

lemma patch_spec:
  assumes "tree_ok t" "tool_patch E path expected replacement t = Inr t'"
  obtains p old where "resolve (te_root E) path False t = Inr p" "map_of t p = Some (File old)"
    "count_sub expected old = 1" "t' = put_node p (File (replace_first expected replacement old)) t"
    "tp_workspace_write (te_policy E)" "int (length (replace_first expected replacement old)) \<le> tp_max_file_bytes (te_policy E)"
proof -
  from assms(2) obtain p old where p: "resolve (te_root E) path False t = Inr p" "lstat t p = Found (File old)"
    "count_sub expected old = 1" "t' = put_node p (File (replace_first expected replacement old)) t"
    "tp_workspace_write (te_policy E)" "int (length (replace_first expected replacement old)) \<le> tp_max_file_bytes (te_policy E)"
    by (auto simp: tool_patch_def rbind_def allow_def open_regular_def Let_def
        split: sum.splits if_splits lookup.splits node.splits)
  then show ?thesis using that lstat_ok [OF assms(1)] by blast
qed

lemma delete_spec:
  assumes "tree_ok t" "tool_delete E path t = Inr t'"
  obtains p x where "resolve (te_root E) path False t = Inr p" "map_of t p = Some (File x)" "t' = remove_node p t"
    "tp_workspace_write (te_policy E)"
proof -
  from assms(2) obtain p x where p: "resolve (te_root E) path False t = Inr p" "lstat t p = Found (File x)"
    "t' = remove_node p t" "tp_workspace_write (te_policy E)"
    by (auto simp: tool_delete_def rbind_def allow_def split: sum.splits if_splits lookup.splits node.splits)
  then show ?thesis using that lstat_ok [OF assms(1)] by blast
qed

lemma run_tool_cases:
  assumes "run_tool E c t = (r, t')"
  obtains (same) "t' = t"
  | (create) path content where "tool_create E path content t = Inr t'" "r = Inr changed_json"
  | (patch) path expected replacement where "tool_patch E path expected replacement t = Inr t'" "r = Inr changed_json"
  | (delete) path where "tool_delete E path t = Inr t'" "r = Inr changed_json"
  using assms by (cases c) (auto simp: run_tool_def Let_def split: sum.splits)

subsection \<open>Properties\<close>

definition may_change :: "tree \<Rightarrow> string list \<Rightarrow> bool" where
  "may_change t p = (p \<noteq> [] \<and> list_all normal_part p \<and> hd p \<noteq> ''.git'' \<and> unlinked t p)"

lemma unlinked_take: "unlinked t p \<Longrightarrow> unlinked t (take i p)"
  by (simp add: unlinked_def)

lemma may_change_resolved:
  "tree_ok t \<Longrightarrow> resolve root raw am t = Inr p \<Longrightarrow> may_change t p"
  unfolding may_change_def by (intro conjI) (erule resolve_spec resolve_unlinked | assumption)+

lemma may_change_take: "may_change t p \<Longrightarrow> take i p \<noteq> [] \<Longrightarrow> may_change t (take i p)"
  by (auto simp: may_change_def unlinked_take list_all_iff dest: in_set_takeD)

lemma mkdir_all_parent:
  assumes "tree_ok t" "mkdir_all [] q t = Some t1"
  shows "tree_ok t1" "map_of t1 q = Some Dir"
proof -
  note m = mkdir_all_spec [OF assms(2), simplified]
  show q: "map_of t1 q = Some Dir" using m(1) m(2) [rule_format, of "length q"] by auto
  have par: "map_of t r = Some Dir" if "map_of t (r @ [d]) = Some k" for r d k
    using that assms(1) unfolding tree_ok_def by blast
  have pre: "map_of t1 r = Some Dir" if "r @ [d] = take i q" "i \<le> length q" for r d i
  proof -
    have "r = take (i - 1) q" using that by (metis butlast_snoc butlast_take)
    moreover have "i - 1 \<le> length q" using that(2) by simp
    ultimately show ?thesis using m(1) m(2) [rule_format, of "i - 1"] by auto
  qed
  show "tree_ok t1"
    unfolding tree_ok_def
  proof (intro conjI allI impI)
    show "map_of t1 [] = Some Dir" using assms(1) m(1) by (simp add: tree_ok_def)
    fix r d k assume k: "map_of t1 (r @ [d]) = Some k"
    show "map_of t1 r = Some Dir"
    proof (cases "map_of t (r @ [d])")
      case None
      then obtain i where "i \<le> length q" "r @ [d] = take i q" using k m(1) by (auto split: if_splits)
      then show ?thesis by (metis pre)
    next
      case (Some j)
      then show ?thesis using par [OF Some] m(1) by simp
    qed
  qed
qed

lemma create_effect:
  assumes "tree_ok t" "tool_create E path content t = Inr t'"
  shows "tree_ok t'" "map_of t' p \<noteq> map_of t p \<Longrightarrow> may_change t p"
proof -
  from create_spec [OF assms] obtain q t1 where q: "resolve (te_root E) path True t = Inr q" "map_of t q = None"
    "mkdir_all [] (butlast q) t = Some t1" "t' = put_node q (File content) t1"
    by metis
  note m = mkdir_all_spec [OF q(3), simplified]
  have may: "may_change t q" using may_change_resolved [OF assms(1) q(1)] .
  then have split: "q = butlast q @ [last q]" by (simp add: may_change_def)
  have new: "map_of t1 q = None"
  proof -
    have "q \<noteq> take i (butlast q)" for i
    proof
      assume "q = take i (butlast q)"
      then have "length q \<le> length (butlast q)" by (metis length_take min.cobounded1)
      then show False using split by (metis length_append_singleton not_less_eq_eq order_refl)
    qed
    then show ?thesis using m(1) q(2) by auto
  qed
  show "tree_ok t'"
    unfolding q(4) by (rule tree_ok_put [OF mkdir_all_parent(1) [OF assms(1) q(3)] split mkdir_all_parent(2) [OF assms(1) q(3)]])
      (simp add: new)
  show "may_change t p" if ch: "map_of t' p \<noteq> map_of t p"
  proof (cases "p = q")
    case False
    then have "map_of t1 p \<noteq> map_of t p" using ch q(4) by simp
    then obtain i where i: "p = take i (butlast q)" "map_of t p = None" using m(1) by (auto split: if_splits)
    moreover have "map_of t [] = Some Dir" using assms(1) by (simp add: tree_ok_def)
    ultimately have "p \<noteq> []" by (metis option.distinct(1))
    moreover have "p = take (min i (length q - 1)) q" using i(1) by (simp add: butlast_conv_take)
    ultimately show ?thesis using may_change_take [OF may] by metis
  qed (use may in simp)
qed

lemma run_tool_effect:
  assumes "tree_ok t" "run_tool E c t = (r, t')"
  shows "tree_ok t' \<and> (\<forall>p. map_of t' p \<noteq> map_of t p \<longrightarrow> may_change t p)"
  using assms(2)
proof (cases rule: run_tool_cases)
  case same
  then show ?thesis using assms(1) by simp
next
  case create
  then show ?thesis using create_effect [OF assms(1)] by blast
next
  case (patch path expected replacement)
  from patch_spec [OF assms(1) patch(1)] obtain p old where p: "resolve (te_root E) path False t = Inr p"
    "map_of t p = Some (File old)" "t' = put_node p (File (replace_first expected replacement old)) t" by metis
  then have may: "may_change t p" using may_change_resolved [OF assms(1)] by blast
  then have "p = butlast p @ [last p]" by (simp add: may_change_def)
  moreover from this have "map_of t (butlast p) = Some Dir" using assms(1) p(2) unfolding tree_ok_def by metis
  ultimately have "tree_ok t'" unfolding p(3) using p(2) by (intro tree_ok_put [OF assms(1)]) auto
  then show ?thesis using p may by auto
next
  case (delete path)
  from delete_spec [OF assms(1) delete(1)] obtain p x where p: "resolve (te_root E) path False t = Inr p"
    "map_of t p = Some (File x)" "t' = remove_node p t" by metis
  then have may: "may_change t p" using may_change_resolved [OF assms(1)] by blast
  then have "tree_ok t'" unfolding p(3) using p(2) by (intro tree_ok_remove [OF assms(1)]) (auto simp: may_change_def)
  then show ?thesis using p may by auto
qed

text \<open>C0: whatever the model asks for, a tool of the executor changes only entries below the workspace root,
  outside the root's \<open>.git\<close>, on paths that pass through no symbolic link, device, pipe or socket; a tool
  that fails changes nothing, and neither does any tool under a read-only policy.\<close>
theorem tools_stay_in_workspace:
  assumes "tree_ok t" "run_tool E c t = (r, t')"
  shows "tree_ok t' \<and> (isl r \<longrightarrow> t' = t) \<and> (\<not> tp_workspace_write (te_policy E) \<longrightarrow> t' = t)
    \<and> (\<forall>p. map_of t' p \<noteq> map_of t p \<longrightarrow>
         p \<noteq> [] \<and> list_all normal_part p \<and> hd p \<noteq> ''.git''
         \<and> (\<forall>i. map_of t (take i p) \<notin> {Some Link, Some Special}))"
proof -
  have eff: "tree_ok t' \<and> (\<forall>p. map_of t' p \<noteq> map_of t p \<longrightarrow> may_change t p)"
    using run_tool_effect [OF assms] .
  have "isl r \<longrightarrow> t' = t"
    using assms(2) by (cases rule: run_tool_cases) auto
  moreover have "\<not> tp_workspace_write (te_policy E) \<longrightarrow> t' = t"
    using assms(2)
    by (cases rule: run_tool_cases)
      (auto elim: create_spec [OF assms(1)] patch_spec [OF assms(1)] delete_spec [OF assms(1)])
  ultimately show ?thesis using eff unfolding may_change_def unlinked_def by blast
qed

text \<open>A run of tools: \<open>confined\<close> composes, because no tool makes or removes a link or a special file.\<close>

definition confined :: "tree \<Rightarrow> tree \<Rightarrow> bool" where
  "confined t t' = (tree_ok t' \<and> (\<forall>p. map_of t' p \<noteq> map_of t p \<longrightarrow> may_change t p)
     \<and> (\<forall>p k. k \<in> {Link, Special} \<longrightarrow> map_of t' p = Some k \<longleftrightarrow> map_of t p = Some k))"

lemma confined_refl: "tree_ok t \<Longrightarrow> confined t t"
  by (simp add: confined_def)

lemma confined_trans:
  assumes "confined t u" "confined u v" shows "confined t v"
proof -
  have links: "map_of u p = Some k \<longleftrightarrow> map_of t p = Some k" if "k \<in> {Link, Special}" for p k
    using assms(1) that unfolding confined_def by blast
  have "may_change u p \<Longrightarrow> may_change t p" for p
    using links by (auto simp: may_change_def unlinked_def)
  moreover have "map_of u p \<noteq> map_of t p \<or> map_of v p \<noteq> map_of u p" if "map_of v p \<noteq> map_of t p" for p
    using that by auto
  ultimately show ?thesis using assms unfolding confined_def by metis
qed

lemma no_new_links:
  assumes "tree_ok t" "run_tool E c t = (r, t')"
  shows "map_of t' p = map_of t p \<or> map_of t' p \<notin> {Some Link, Some Special}"
  using assms(2)
proof (cases rule: run_tool_cases)
  case create
  then show ?thesis
    by (auto elim!: create_spec [OF assms(1)] dest!: mkdir_all_spec(1) split: if_splits)
next
  case patch
  then show ?thesis by (auto elim!: patch_spec [OF assms(1)] split: if_splits)
next
  case delete
  then show ?thesis by (auto elim!: delete_spec [OF assms(1)] split: if_splits)
qed simp

lemma run_tool_confined:
  assumes "tree_ok t" "run_tool E c t = (r, t')"
  shows "confined t t'"
proof -
  have ok: "tree_ok t'" and may: "\<And>p. map_of t' p \<noteq> map_of t p \<Longrightarrow> may_change t p"
    using run_tool_effect [OF assms] by blast+
  have "map_of t' p = Some k \<longleftrightarrow> map_of t p = Some k" if "k \<in> {Link, Special}" for p k
  proof (cases "map_of t' p = map_of t p")
    case False
    then have "may_change t p" by (rule may)
    then have "map_of t (take (length p) p) \<notin> {Some Link, Some Special}" unfolding may_change_def unlinked_def by blast
    then show ?thesis using no_new_links [OF assms, of p] False that by auto
  qed simp
  then show ?thesis using ok may by (simp add: confined_def)
qed

lemma reject_links_found:
  "\<forall>i\<in>{1..length cs}. \<exists>n. lstat t (pre @ take i cs) = Found n \<and> n \<notin> {Link, Special}
   \<Longrightarrow> reject_links t pre cs am = Inr ()"
proof (induction cs arbitrary: pre)
  case (Cons c cs)
  note all = shift_prefixes [THEN iffD1, OF Cons.prems]
  then obtain n where "lstat t (pre @ [c]) = Found n" "n \<notin> {Link, Special}" by blast
  then show ?case using Cons.IH [of "pre @ [c]"] all by (cases n) auto
qed simp

lemma resolve_again:
  assumes "resolve root raw am t = Inr p" "tree_ok t'" "map_of t' p = Some (File s)"
  shows "resolve root raw am' t' = Inr p"
proof -
  have "\<exists>n. lstat t' ([] @ take i p) = Found n \<and> n \<notin> {Link, Special}" if "i \<in> {1..length p}" for i
  proof (cases "i = length p")
    case False
    then have "map_of t' (take i p) = Some Dir"
      using tree_ok_prefix [OF assms(2), of "take i p" "drop i p"] assms(3) that by simp
    then show ?thesis using lstat_ok [OF assms(2)] by auto
  qed (use assms(3) lstat_ok [OF assms(2)] in auto)
  then have "reject_links t' [] p am' = Inr ()" by (intro reject_links_found) blast
  then have "reject_symlink_escape t' p am' = Inr ()"
    using assms(2) lstat_ok [OF assms(2)] by (simp add: reject_symlink_escape_def tree_ok_def)
  moreover have "path_rel_parts (path_clean (trim_space root)) (path_join (path_clean (trim_space root)) (path_clean (trim_space raw))) = p"
    using assms(1) by (auto simp: resolve_def Let_def rbind_def split: if_splits sum.splits)
  ultimately show ?thesis
    using assms(1) unfolding resolve_def Let_def by (auto simp: rbind_def split: if_splits sum.splits)
qed

lemma read_resolved:
  assumes "resolve (te_root E) path am t = Inr p" "tree_ok t'" "map_of t' p = Some (File s)"
    "''file_read'' \<in> set (tp_allowed_tools (te_policy E))" "int (length s) \<le> tp_max_file_bytes (te_policy E)"
  shows "tool_read E path t' = Inr s"
proof -
  have "lstat t' p = Found (File s)" using assms(3) lstat_ok [OF assms(2)] by simp
  then show ?thesis
    using resolve_again [OF assms(1-3)] assms(4,5) by (simp add: tool_read_def allow_def rbind_def open_regular_def)
qed

definition demo_policy :: tool_policy where
  "demo_policy = \<lparr> tp_allowed_tools = [''file_read'', ''file_search'', ''file_create'', ''file_patch'', ''file_delete''],
     tp_workspace_write = True, tp_max_file_bytes = 100, tp_max_patch_bytes = 100 \<rparr>"

definition demo_tools :: tool_env where
  "demo_tools = \<lparr> te_root = ''/w'', te_policy = demo_policy, te_git = demo_git, te_sha256 = (\<lambda>s. s) \<rparr>"

lemma demo_tree_ok: "tree_ok demo_tree"
  by (auto simp: tree_ok_def demo_tree_def append_eq_Cons_conv split: if_splits)

lemma demo_resolve:
  assumes "plain_char c" "c \<noteq> CHR ''.''" "c \<noteq> slash" "reject_symlink_escape t [[c]] am = Inr ()"
  shows "resolve ''/w'' [c] am t = Inr [[c]]"
proof -
  have "path_clean ''/w'' = ''/w''" by (simp add: path_clean_def path_parts_def is_rooted_def)
  moreover have "path_clean [c] = [c]" "path_parts [c] = [[c]]" "\<not> is_rooted [c]"
    using assms(2,3) by (simp_all add: path_clean_def path_parts_def is_rooted_def)
  moreover have i: "inside_path [c]"
    using calculation assms(2) by (simp add: inside_path_def has_prefix_def)
  moreover have "path_rel_parts ''/w'' (path_join ''/w'' [c]) = [[c]]"
    using rel_join [OF i, of "''/w''"] calculation by simp
  moreover have "c \<noteq> CHR 0x00" using assms(1) by (auto simp: plain_char_def)
  ultimately show ?thesis
    using assms by (simp add: resolve_def Let_def rbind_def rel_string_def has_prefix_def plain_char_def)
qed

lemma demo_create: "tool_create demo_tools ''x'' ''hi'' demo_tree = Inr (put_node [''x''] (File ''hi'') demo_tree)"
proof -
  have r: "resolve ''/w'' ''x'' True demo_tree = Inr [''x'']"
    by (rule demo_resolve) (simp_all add: plain_char_def reject_symlink_escape_def lstat_def demo_tree_def)
  have "reject_symlink_escape demo_tree [] False = Inr ()" "lstat demo_tree [''x''] = Missing"
    "mkdir_all [] [] demo_tree = Some demo_tree"
    by (simp_all add: reject_symlink_escape_def lstat_def demo_tree_def)
  then show ?thesis
    by (simp add: tool_create_def demo_tools_def demo_policy_def allow_def rbind_def r)
qed

lemma tools_stay_in_workspace_witness:
  "tree_ok (snd (run_tool demo_tools (FileCreate ''x'' ''hi'') demo_tree))"
  using tools_stay_in_workspace [OF demo_tree_ok surjective_pairing] by blast

text \<open>A file the executor creates reads back byte for byte.\<close>
theorem created_file_reads_back:
  assumes "tree_ok t" "tool_create E path content t = Inr t'" "''file_read'' \<in> set (tp_allowed_tools (te_policy E))"
  shows "tool_read E path t' = Inr content"
proof -
  from create_spec [OF assms(1,2)] obtain p t1 where p: "resolve (te_root E) path True t = Inr p"
    "t' = put_node p (File content) t1" "int (length content) \<le> tp_max_file_bytes (te_policy E)" by metis
  show ?thesis
    by (rule read_resolved [OF p(1) create_effect(1) [OF assms(1,2)] _ assms(3) p(3)]) (simp add: p(2))
qed

lemma created_file_reads_back_witness:
  "tool_read demo_tools ''x'' (put_node [''x''] (File ''hi'') demo_tree) = Inr ''hi''"
  by (rule created_file_reads_back [OF demo_tree_ok demo_create]) (simp add: demo_tools_def demo_policy_def)

lemma prefix_split: "has_prefix s p \<Longrightarrow> s = p @ drop (length p) s"
  unfolding has_prefix_def by (metis append_take_drop_id)

lemma replace_first_spec:
  "count_sub sub s \<noteq> 0 \<Longrightarrow> \<exists>a b. s = a @ sub @ b \<and> replace_first sub r s = a @ r @ b
     \<and> (\<forall>a' b'. s = a' @ sub @ b' \<longrightarrow> length a \<le> length a')"
proof (induction s)
  case Nil
  then have "sub = []" by (subst (asm) count_sub.simps) (auto split: if_splits)
  then show ?case by simp
next
  case (Cons c s)
  show ?case
  proof (cases "has_prefix (c # s) sub")
    case True
    then show ?thesis
      using prefix_split [OF True] by (intro exI [of _ "[]"] exI [of _ "drop (length sub) (c # s)"]) simp
  next
    case False
    then have ne: "sub \<noteq> []" by (auto simp: has_prefix_def)
    then have "count_sub sub (c # s) = count_sub sub s"
      using False by (subst count_sub.simps) simp
    then obtain a b where ab: "s = a @ sub @ b" "replace_first sub r s = a @ r @ b"
      "\<forall>a' b'. s = a' @ sub @ b' \<longrightarrow> length a \<le> length a'" using Cons by auto
    have "length (c # a) \<le> length a'" if "c # s = a' @ sub @ b'" for a' b'
    proof (cases a')
      case Nil
      then have "has_prefix (c # s) sub" using that by (simp add: has_prefix_def)
      then show ?thesis using False by simp
    next
      case (Cons d a'')
      then show ?thesis using that ab(3) by simp
    qed
    then show ?thesis using ab False by (intro exI [of _ "c # a"] exI [of _ b]) auto
  qed
qed

text \<open>A successful patch replaces the first occurrence of the expected text in one existing regular file, and
  nothing else; the file stays within its size limit and reads back as patched.\<close>
theorem patch_replaces_expected_text:
  assumes "tree_ok t" "tool_patch E path expected replacement t = Inr t'"
    "''file_read'' \<in> set (tp_allowed_tools (te_policy E))"
  shows "\<exists>a b. map_of t (path_parts (trim_space path)) = Some (File (a @ expected @ b))
    \<and> (\<forall>a' b'. a @ expected @ b = a' @ expected @ b' \<longrightarrow> length a \<le> length a')
    \<and> map_of t' = (map_of t)(path_parts (trim_space path) \<mapsto> File (a @ replacement @ b))
    \<and> int (length (a @ replacement @ b)) \<le> tp_max_file_bytes (te_policy E)
    \<and> tool_read E path t' = Inr (a @ replacement @ b)"
proof -
  from patch_spec [OF assms(1,2)] obtain p old where p: "resolve (te_root E) path False t = Inr p" "map_of t p = Some (File old)"
    "count_sub expected old = 1" "t' = put_node p (File (replace_first expected replacement old)) t"
    "int (length (replace_first expected replacement old)) \<le> tp_max_file_bytes (te_policy E)" by metis
  obtain a b where ab: "old = a @ expected @ b" "replace_first expected replacement old = a @ replacement @ b"
    "\<forall>a' b'. old = a' @ expected @ b' \<longrightarrow> length a \<le> length a'"
    using replace_first_spec [of expected old replacement] p(3) by auto
  have split: "p = butlast p @ [last p]" using resolve_spec(2) [OF p(1)] by simp
  then have "map_of t (butlast p) = Some Dir" using assms(1) p(2) unfolding tree_ok_def by metis
  then have ok: "tree_ok t'" unfolding p(4) using split p(2) by (intro tree_ok_put [OF assms(1)]) auto
  have "tool_read E path t' = Inr (replace_first expected replacement old)"
    by (rule read_resolved [OF p(1) ok _ assms(3) p(5)]) (simp add: p(4))
  then show ?thesis
    using p ab resolve_spec(1) [OF p(1)] by (intro exI [of _ a] exI [of _ b]) auto
qed

lemma demo_patch: "tool_patch demo_tools ''a'' ''ph'' ''f'' demo_tree = Inr (put_node [''a''] (File ''alfa'') demo_tree)"
proof -
  have r: "resolve ''/w'' ''a'' False demo_tree = Inr [''a'']"
    by (rule demo_resolve) (simp_all add: plain_char_def reject_symlink_escape_def lstat_def demo_tree_def)
  have "reject_symlink_escape demo_tree [''a''] False = Inr ()" "lstat demo_tree [''a''] = Found (File ''alpha'')"
    by (simp_all add: reject_symlink_escape_def lstat_def demo_tree_def)
  moreover have "count_sub ''ph'' ''alpha'' = 1" by (simp add: count_sub.simps has_prefix_def)
  moreover have "replace_first ''ph'' ''f'' ''alpha'' = ''alfa''" by (simp add: has_prefix_def)
  ultimately show ?thesis
    by (simp add: tool_patch_def demo_tools_def demo_policy_def allow_def rbind_def r open_regular_def)
qed

lemma patch_replaces_expected_text_witness:
  "tool_read demo_tools ''a'' (put_node [''a''] (File ''alfa'') demo_tree) = Inr ''alfa''"
proof -
  have "''file_read'' \<in> set (tp_allowed_tools (te_policy demo_tools))" by (simp add: demo_tools_def demo_policy_def)
  from patch_replaces_expected_text [OF demo_tree_ok demo_patch this] obtain x where
    x: "map_of (put_node [''a''] (File ''alfa'') demo_tree) = (map_of demo_tree)(path_parts (trim_space ''a'') \<mapsto> File x)"
    "tool_read demo_tools ''a'' (put_node [''a''] (File ''alfa'') demo_tree) = Inr x" by blast
  have "path_parts (trim_space ''a'') = [''a'']" by (simp add: plain_char_def path_parts_def is_rooted_def)
  then have "map_of (put_node [''a''] (File ''alfa'') demo_tree) [''a''] = Some (File x)" using x(1) by simp
  then show ?thesis using x(2) by simp
qed

text \<open>C0: a search answers with at most 200 matches (50 when the requested number is out of range), and each
  names a line of a regular file of the workspace, outside a \<open>.git\<close> directory and within the size limit, that
  contains the trimmed query.\<close>
theorem search_reports_real_matches:
  assumes "tool_search E query n t = Inr ms"
  shows "int (length ms) \<le> (if n < 1 \<or> n > 200 then 50 else n)
    \<and> (\<forall>m\<in>set ms. \<exists>p content i. (p, File content) \<in> set t \<and> \<not> (p \<noteq> [] \<and> hd p = ''.git'' \<and> map_of t [''.git''] = Some Dir)
        \<and> int (length content) \<le> tp_max_file_bytes (te_policy E) \<and> i < length (scan_lines content)
        \<and> contains_sub (scan_lines content ! i) (trim_space query) \<and> m = rel_string p @ '':'' @ show_nat (i + 1))"
proof -
  let ?limit = "if n < 1 \<or> n > 200 then 50 else n" and ?max = "tp_max_file_bytes (te_policy E)"
  let ?files = "filter (\<lambda>(p, n). searchable t ?max p n) (walk_order t)"
  have ms: "ms = take (nat ?limit)
      (concat (map (\<lambda>(p, n). case n of File s \<Rightarrow> match_lines (trim_space query) (rel_string p) s | _ \<Rightarrow> []) ?files))"
    using assms by (auto simp: tool_search_def rbind_def Let_def split: sum.splits if_splits)
  have "int (length ms) \<le> ?limit" unfolding ms by auto
  moreover have "\<exists>p content i. (p, File content) \<in> set t \<and> \<not> (p \<noteq> [] \<and> hd p = ''.git'' \<and> map_of t [''.git''] = Some Dir)
      \<and> int (length content) \<le> ?max \<and> i < length (scan_lines content)
      \<and> contains_sub (scan_lines content ! i) (trim_space query) \<and> m = rel_string p @ '':'' @ show_nat (i + 1)"
    if m: "m \<in> set ms" for m
  proof -
    have "m \<in> set (concat (map (\<lambda>(p, n). case n of File s \<Rightarrow> match_lines (trim_space query) (rel_string p) s | _ \<Rightarrow> []) ?files))"
      using m ms by (metis in_set_takeD)
    then obtain p k where pk: "(p, k) \<in> set t" "searchable t ?max p k"
      "m \<in> set (case k of File s \<Rightarrow> match_lines (trim_space query) (rel_string p) s | _ \<Rightarrow> [])"
      by (auto simp: walk_order_def)
    then obtain content where c: "k = File content" "m \<in> set (match_lines (trim_space query) (rel_string p) content)"
      by (cases k) auto
    then show ?thesis
      using pk(1,2) by (auto simp: searchable_def match_lines_def Let_def)
  qed
  ultimately show ?thesis by blast
qed

lemma search_reports_real_matches_witness:
  "tool_search demo_tools ''x'' 7 [([], Dir)] = Inr [] \<and> int (length ([] :: string list)) \<le> 7"
proof -
  have "tool_search demo_tools ''x'' 7 [([], Dir)] = Inr []"
    by (simp add: tool_search_def allow_def demo_tools_def demo_policy_def rbind_def lstat_def walk_order_def
        searchable_def plain_char_def)
  then show ?thesis using search_reports_real_matches by fastforce
qed

end
