(* ===== verification/ContextSelector.thy ===== *)
theory ContextSelector
  imports Tools
begin

text \<open>What the executor shows the model of the repository (internal/execution/context_selector.go): the plan's
  requirement, criteria and constraints, the list of repository files, and the start of a few of them. The
  plan_versions row is the one the execution pins; \<open>decode\<close> is the document a JSON text decodes to.\<close>

record plan_row =
  pr_id :: string
  pr_requirement :: string
  pr_criteria :: string
  pr_constraints :: string

record exec_context =
  ec_requirement :: string
  ec_criteria :: "string list"
  ec_constraints :: "string list"
  ec_repository_files :: "string list"
  ec_selected_files :: "(string \<times> string) list"
  ec_git_status :: string
  ec_truncated :: bool

abbreviation default_context_bytes :: int where "default_context_bytes \<equiv> 65536"
abbreviation default_file_bytes :: nat where "default_file_bytes \<equiv> 8192"
abbreviation default_context_files :: nat where "default_context_files \<equiv> 8"
abbreviation context_scan_limit :: nat where "context_scan_limit \<equiv> 400"

definition bound_text :: "nat \<Rightarrow> string \<Rightarrow> string" where
  "bound_text limit s = (if limit > 0 \<and> length s > limit then take limit s else s)"

definition base_name :: "string \<Rightarrow> string" where
  "base_name path = last (split_char slash path)"

definition file_ext :: "string \<Rightarrow> string" where
  "file_ext path =
     (let b = base_name path in
      if CHR ''.'' \<in> set b then CHR ''.'' # rev (takeWhile (\<lambda>c. c \<noteq> CHR ''.'') (rev b)) else [])"

definition unsafe_context_file :: "string \<Rightarrow> bool" where
  "unsafe_context_file path =
     (let lower = to_lower path; base = to_lower (base_name path) in
      if has_prefix base ''.env'' \<or> contains_sub base ''credential'' \<or> contains_sub base ''secret''
         \<or> has_suffix base ''.pem'' \<or> has_suffix base ''.key'' \<or> has_suffix base ''.p12''
      then True
      else contains_sub lower ''/.git/'' \<or> has_prefix lower ''.git/'')"

definition skipped_dirs :: "string list" where
  "skipped_dirs = [''.git'', ''.orkoda'', ''node_modules'', ''vendor'', ''dist'', ''build'']"

text \<open>The walk skips the subtree of a directory with one of these names; links are never followed.\<close>

definition context_entry :: "string list \<times> node \<Rightarrow> bool" where
  "context_entry e =
     (case e of (p, n) \<Rightarrow> p \<noteq> [] \<and> (n \<noteq> Dir \<and> n \<noteq> Link) \<and> \<not> list_ex (\<lambda>c. c \<in> set skipped_dirs) (butlast p)
        \<and> \<not> unsafe_context_file (rel_string p))"

definition collect_context_files :: "tree \<Rightarrow> nat \<Rightarrow> string + string list" where
  "collect_context_files t limit =
     (if lstat t [] \<noteq> Found Dir then Inl ''scan executor context files: unsafe workspace root''
      else Inr (sort (take limit (map (\<lambda>e. rel_string (fst e)) (filter context_entry (walk_order t))))))"

definition context_priority :: "string \<Rightarrow> nat" where
  "context_priority path =
     (if to_lower (base_name path) \<in> {''readme.md'', ''go.mod'', ''package.json'', ''bun.lock'', ''makefile''} then 0
      else let ext = to_lower (file_ext path) in
        if ext \<in> {''.go'', ''.ts'', ''.tsx'', ''.js'', ''.jsx''} then 1
        else if ext \<in> {''.md'', ''.json'', ''.toml'', ''.yaml'', ''.yml''} then 2 else 3)"

definition prioritize_context_files :: "string list \<Rightarrow> string list" where
  "prioritize_context_files files = sort_key context_priority files"

fun select_files ::
  "tree \<Rightarrow> nat \<Rightarrow> (string \<times> string) list \<Rightarrow> bool \<Rightarrow> string list \<Rightarrow> (string \<times> string) list \<times> bool" where
  "select_files t remaining selected truncated [] = (selected, truncated)"
| "select_files t remaining selected truncated (f # fs) =
     (if length selected \<ge> default_context_files \<or> remaining = 0 then (selected, True)
      else case open_regular t (split_char slash f) of
        Inl _ \<Rightarrow> select_files t remaining selected truncated fs
      | Inr content \<Rightarrow>
        if length content > default_file_bytes then select_files t remaining selected truncated fs
        else let value = take remaining content in
          select_files t (remaining - length value) (selected @ [(f, value)])
            (truncated \<or> length content > remaining) fs)"

definition context_select ::
  "(string \<Rightarrow> json_text) \<Rightarrow> plan_row list \<Rightarrow> string \<Rightarrow> string \<Rightarrow> tree \<Rightarrow> string + exec_context" where
  "context_select decode plans plan_id git_status t =
     (case lookup_by pr_id plan_id plans of
        None \<Rightarrow> Inl ''invalid execution: plan version is missing''
      | Some pv \<Rightarrow>
        (case map_option (dec_elem (dec_list dec_string []) []) (decode (pr_criteria pv)) of
           Some (Some criteria) \<Rightarrow>
             (case map_option (dec_elem (dec_list dec_string []) []) (decode (pr_constraints pv)) of
                Some (Some constraints) \<Rightarrow>
                  rbind (collect_context_files t context_scan_limit) (\<lambda>files.
                  let requirement = trim_space (pr_requirement pv); status = bound_text 8192 git_status;
                      left = default_context_bytes - int (length requirement) - int (length (pr_criteria pv))
                               - int (length (pr_constraints pv)) - int (length status);
                      (selected, truncated) =
                        select_files t (nat left) [] (left < 0) (prioritize_context_files files) in
                  Inr \<lparr> ec_requirement = requirement, ec_criteria = criteria, ec_constraints = constraints,
                        ec_repository_files = files, ec_selected_files = selected, ec_git_status = status,
                        ec_truncated = truncated \<rparr>)
              | _ \<Rightarrow> Inl ''decode execution constraints'')
         | _ \<Rightarrow> Inl ''decode execution acceptance criteria''))"

text \<open>The JSON document of the context, as \<open>json.Marshal\<close> builds it (map keys are sorted).\<close>

definition context_json :: "exec_context \<Rightarrow> json" where
  "context_json c = JObj
     [(''requirement'', JStr (ec_requirement c)), (''acceptance_criteria'', JArr (map JStr (ec_criteria c))),
      (''constraints'', JArr (map JStr (ec_constraints c))),
      (''repository_files'', JArr (map JStr (ec_repository_files c))),
      (''selected_files'', JObj (map (\<lambda>(k, v). (k, JStr v)) (sort_key fst (ec_selected_files c)))),
      (''git_status'', JStr (ec_git_status c)), (''truncated'', JBool (ec_truncated c))]"

subsection \<open>Properties\<close>

definition selected_bytes :: "(string \<times> string) list \<Rightarrow> nat" where
  "selected_bytes xs = sum_list (map (\<lambda>(_, v). length v) xs)"

definition shown_ok :: "tree \<Rightarrow> string list \<Rightarrow> string \<times> string \<Rightarrow> bool" where
  "shown_ok t files x = (fst x \<in> set files \<and>
     (\<exists>content. lstat t (split_char slash (fst x)) = Found (File content) \<and> length content \<le> default_file_bytes
        \<and> prefix (snd x) content))"

lemma open_regular_Inr: "open_regular t p = Inr s \<longleftrightarrow> lstat t p = Found (File s)"
  by (auto simp: open_regular_def split: lookup.splits node.splits)

lemma select_files_ok:
  assumes "select_files t remaining selected truncated fs = (out, tr)" "set fs \<subseteq> set files"
    "\<forall>x\<in>set selected. shown_ok t files x" "length selected \<le> default_context_files"
  shows "(\<forall>x\<in>set out. shown_ok t files x) \<and> length out \<le> default_context_files
    \<and> selected_bytes out \<le> selected_bytes selected + remaining"
  using assms
proof (induction t remaining selected truncated fs rule: select_files.induct)
  case (1 t remaining selected truncated)
  then show ?case by simp
next
  case (2 t remaining selected truncated f fs)
  show ?case
  proof (cases "length selected \<ge> default_context_files \<or> remaining = 0")
    case True
    then show ?thesis using "2.prems" by auto
  next
    case more: False
    show ?thesis
    proof (cases "open_regular t (split_char slash f)")
      case (Inl e)
      then show ?thesis using more "2.prems" "2.IH"(1) [OF more Inl] by simp
    next
      case (Inr content)
      show ?thesis
      proof (cases "length content > default_file_bytes")
        case True
        then show ?thesis using more Inr "2.prems" "2.IH"(2) [OF more Inr True] by simp
      next
        case False
        let ?v = "take remaining content"
        have "shown_ok t files (f, ?v)"
          using "2.prems"(2) Inr False by (auto simp: shown_ok_def open_regular_Inr take_is_prefix)
        then have ok: "\<forall>x\<in>set (selected @ [(f, ?v)]). shown_ok t files x" using "2.prems"(3) by auto
        have rec: "select_files t (remaining - length ?v) (selected @ [(f, ?v)]) (truncated \<or> length content > remaining) fs = (out, tr)"
          using "2.prems"(1) more Inr False by (auto simp: Let_def)
        from "2.IH"(3) [OF more Inr False refl rec _ ok] show ?thesis
          using "2.prems"(2) more by (auto simp: selected_bytes_def)
      qed
    qed
  qed
qed

text \<open>A selection that is not marked as cut leaves no readable file out and cuts none.\<close>

lemma select_files_all:
  "select_files t remaining selected truncated fs = (out, tr) \<Longrightarrow> \<not> tr \<Longrightarrow>
     \<not> truncated \<and> set selected \<subseteq> set out
     \<and> (\<forall>f\<in>set fs. \<forall>content. lstat t (split_char slash f) = Found (File content) \<longrightarrow> length content \<le> default_file_bytes
          \<longrightarrow> (f, content) \<in> set out)"
proof (induction t remaining selected truncated fs rule: select_files.induct)
  case (2 t remaining selected truncated f fs)
  have more: "\<not> (length selected \<ge> default_context_files \<or> remaining = 0)"
    using "2.prems" by (auto split: if_splits)
  show ?case
  proof (cases "open_regular t (split_char slash f)")
    case (Inl e)
    have "lstat t (split_char slash f) \<noteq> Found (File content)" for content using Inl open_regular_Inr by (metis Inr_Inl_False)
    then show ?thesis using more "2.prems" "2.IH"(1) [OF more Inl] Inl by simp
  next
    case (Inr content)
    have only: "lstat t (split_char slash f) = Found (File c) \<longleftrightarrow> c = content" for c using Inr open_regular_Inr by auto
    show ?thesis
    proof (cases "length content > default_file_bytes")
      case True
      then show ?thesis using more Inr "2.prems" "2.IH"(2) [OF more Inr True] only by simp
    next
      case False
      have rec: "select_files t (remaining - length (take remaining content)) (selected @ [(f, take remaining content)])
          (truncated \<or> length content > remaining) fs = (out, tr)"
        using "2.prems"(1) more Inr False by (auto simp: Let_def)
      from "2.IH"(3) [OF more Inr False refl rec "2.prems"(2)] show ?thesis using only by auto
    qed
  qed
qed simp

subsection \<open>What may be shown\<close>

text \<open>The rule in its own words: names of credentials, keys and environment files, and what lies below a \<open>.git\<close> directory, are
  never shown, nor is anything below a directory of dependencies or build results.\<close>

definition sensitive_name :: "string \<Rightarrow> bool" where
  "sensitive_name f =
     (let b = to_lower (last (split_char (CHR ''/'') f)) in
      prefix ''.env'' b \<or> sublist ''credential'' b \<or> sublist ''secret'' b
      \<or> suffix ''.pem'' b \<or> suffix ''.key'' b \<or> suffix ''.p12'' b
      \<or> sublist ''/.git/'' (to_lower f) \<or> prefix ''.git/'' (to_lower f))"

definition repository_file :: "tree \<Rightarrow> string \<Rightarrow> bool" where
  "repository_file t f =
     (\<exists>(p, n)\<in>set t. f = join_with ''/'' p \<and> p \<noteq> [] \<and> n \<noteq> Dir \<and> n \<noteq> Link
        \<and> set (butlast p) \<inter> {''.git'', ''.orkoda'', ''node_modules'', ''vendor'', ''dist'', ''build''} = {}
        \<and> \<not> sensitive_name f)"

lemma unsafe_iff: "unsafe_context_file f \<longleftrightarrow> sensitive_name f"
  by (auto simp: unsafe_context_file_def sensitive_name_def base_name_def has_prefix_iff has_suffix_iff contains_sub_iff Let_def)

lemma entry_iff: "context_entry (p, n) \<and> f = rel_string p \<longleftrightarrow> f = join_with ''/'' p \<and> p \<noteq> [] \<and> n \<noteq> Dir \<and> n \<noteq> Link
    \<and> set (butlast p) \<inter> {''.git'', ''.orkoda'', ''node_modules'', ''vendor'', ''dist'', ''build''} = {} \<and> \<not> sensitive_name f"
  by (auto simp: context_entry_def rel_string_def unsafe_iff list_ex_iff skipped_dirs_def)

lemma listed_files:
  assumes "collect_context_files t limit = Inr files"
  shows "sorted files \<and> length files \<le> limit \<and> (\<forall>f\<in>set files. repository_file t f)
    \<and> (length files < limit \<longrightarrow> (\<forall>f. repository_file t f \<longrightarrow> f \<in> set files))"
proof -
  let ?all = "map (\<lambda>e. rel_string (fst e)) (filter context_entry (walk_order t))"
  have f: "files = sort (take limit ?all)" using assms by (auto simp: collect_context_files_def split: if_splits)
  have all: "f \<in> set ?all \<longleftrightarrow> repository_file t f" for f
  proof -
    have "f \<in> set ?all \<longleftrightarrow> (\<exists>(p, n)\<in>set t. context_entry (p, n) \<and> f = rel_string p)" by (force simp: walk_order_def)
    then show ?thesis by (simp only: entry_iff repository_file_def)
  qed
  have "length files < limit \<Longrightarrow> set files = set ?all" using f by (simp add: take_all_iff)
  moreover have "set files \<subseteq> set ?all" using f by (auto dest: in_set_takeD)
  ultimately show ?thesis using all f by (metis length_sort length_take min.cobounded2 sorted_sort subsetD)
qed


definition demo_plan :: plan_row where
  "demo_plan = \<lparr> pr_id = ''p'', pr_requirement = ''r'', pr_criteria = ''[]'', pr_constraints = ''[]'' \<rparr>"

definition demo_files :: tree where
  "demo_files = [([], Dir), ([''a''], File ''x''), ([''b.key''], File ''y'')]"

lemma demo_context: "context_select (\<lambda>_. Some (JArr [])) [demo_plan] ''p'' ''s'' demo_files =
  Inr \<lparr> ec_requirement = ''r'', ec_criteria = [], ec_constraints = [], ec_repository_files = [''a''],
    ec_selected_files = [(''a'', ''x'')], ec_git_status = ''s'', ec_truncated = False \<rparr>"
proof -
  have u: "\<not> unsafe_context_file ''a''" "unsafe_context_file ''b.key''" by code_simp+
  have f: "collect_context_files demo_files 400 = Inr [''a'']"
    using u by (simp add: collect_context_files_def demo_files_def lstat_def walk_order_def context_entry_def rel_string_def skipped_dirs_def)
  have s: "open_regular demo_files [''a''] = Inr ''x''" by (simp add: open_regular_def demo_files_def lstat_def)
  show ?thesis
    by (simp add: context_select_def demo_plan_def lookup_by_def dec_elem_def dec_list_def all_options_def f s rbind_def bound_text_def
        prioritize_context_files_def plain_char_def List.map_filter_simps)
qed


text \<open>A workspace is a linked worktree, so its \<open>.git\<close> is a file. It is not excluded.\<close>

lemma worktree_git_file_is_listed:
  assumes "tree_ok t" "map_of t [''.git''] = Some (File s)" "length t \<le> limit"
  shows "\<exists>files. collect_context_files t limit = Inr files \<and> ''.git'' \<in> set files"
proof -
  have "([''.git''], File s) \<in> set (walk_order t)" using assms(2) by (simp add: walk_order_def map_of_SomeD)
  moreover have "context_entry ([''.git''], File s)"
    by (simp add: context_entry_def unsafe_context_file_def rel_string_def base_name_def Let_def) code_simp
  ultimately have "''.git'' \<in> set (map (\<lambda>e. rel_string (fst e)) (filter context_entry (walk_order t)))"
    by (force simp: rel_string_def)
  moreover have "length (filter context_entry (walk_order t)) \<le> limit"
    using assms(3) length_filter_le [of context_entry "walk_order t"] by (simp add: walk_order_def)
  moreover have "lstat t [] = Found Dir" using assms(1) lstat_ok [OF assms(1)] by (simp add: tree_ok_def)
  ultimately show ?thesis by (simp add: collect_context_files_def)
qed

end
