(* ===== verification/ExecutionHandler.thy ===== *)
theory ExecutionHandler
  imports HandlerBase ExecutorLoop
begin

text \<open>The execution handler (internal/execution/handler.go, watchdog.go): one delivery of a \<open>workflow.execute\<close>
  message. Its world is the workflow database, the workspaces table, the world of the executor loop
  (the execution tables and the working tree) and the saved artifacts. The runner is a parameter, an
  interface of the handler; \<open>llm_runner\<close> is the one the daemon installs.

  Everything that happens beside the handler's own calls is a parameter of the environment: at each
  site the clock, the fresh id, whether the activity recorder works, whether the daemon's context is
  cancelled (\<open>xe_down\<close>), and how the context of the run has ended (\<open>xe_ctx\<close>: cancelled by the watchdog, the
  lease renewal or the cancellation watcher, or past its deadline); what the watchdog and the
  cancellation watcher have reported, and the instants at which the lease is renewed. A call made
  with an ended context fails and does nothing.\<close>

datatype exec_site =
  AtLoad | AtStarted | AtDispatch | AtWorkspace | AtSettings | AtCreate | AtLease | AtStart | AtRun | AtCapture
| AtArtifact | AtCheckpoint | AtComplete | AtReturn | AtCompleted | AtFinish | AtFail | AtPause | AtPartial
| AtGiveBack | AtEnd | AtSettle

datatype exec_cause =
  CDispatch dispatch_error | CLoad wf_error | CNotReached | CStarted wf_error | CNoVersion | CWorkspace ws_error
| CSettings string | CNotEnabled | CCreate ex_error | CLease ws_error | CStart ex_error | CRenew ws_error
| CWatch string | CCapture git_error | CSize | CHead | CArtifact string | CCheckpoint ex_error | CComplete ex_error
| CReturn ws_error | CFinish wf_error | CReload wf_error | CMark wf_error | CPause wf_error

datatype exec_error = EContext ctx_error | ERun run_error | ECause exec_cause | EJoin exec_error exec_error

record agent_config =
  cf_role :: string
  cf_provider :: string
  cf_model :: string
  cf_enabled :: bool

record agent_settings =
  as_version :: int
  as_agents :: "agent_config list"
  as_policies :: "(string \<times> tool_policy) list"

type_synonym runner = "tool_env \<Rightarrow> int \<Rightarrow> run_ctx \<Rightarrow> unit lstep"

record exec_config =
  xc_worker :: string
  xc_lease_ttl :: int
  xc_default_provider :: string
  xc_default_model :: string
  xc_artifacts :: bool

record exec_world =
  xw_wf :: wf_db
  xw_ws :: ws_table
  xw_loop :: loop_world
  xw_artifacts :: "(string \<times> string) list"

record exec_env =
  xe_now :: "exec_site \<Rightarrow> instant"
  xe_queue_now :: "exec_site \<Rightarrow> instant"
  xe_event_at :: "exec_site \<Rightarrow> instant"
  xe_new_id :: "exec_site \<Rightarrow> string"
  xe_recorder_ok :: "exec_site \<Rightarrow> bool"
  xe_event_ok :: "exec_site \<Rightarrow> bool"
  xe_down :: "exec_site \<Rightarrow> bool"
  xe_ctx :: "exec_site \<Rightarrow> ctx_error option"
  xe_stall :: "exec_site \<Rightarrow> string option"
  xe_renewals :: "instant list"
  xe_watch :: "exec_site \<Rightarrow> watch_result option"
  xe_settings :: "string \<Rightarrow> string + agent_settings"
  xe_refs_ok :: "ex_input \<Rightarrow> bool"
  xe_git :: git_cmd
  xe_sha256 :: "string \<Rightarrow> string"
  xe_save_error :: "string \<Rightarrow> string option"
  xe_run :: runner
  xe_text :: "exec_cause \<Rightarrow> string"

type_synonym 'a xstep = "(exec_world, exec_error, 'a) step"

definition new_handler :: "string \<Rightarrow> int \<Rightarrow> string \<Rightarrow> string \<Rightarrow> bool \<Rightarrow> exec_config option" where
  "new_handler worker ttl provider model artifacts =
     (if trim_space worker = [] \<or> ttl \<le> 0 then None
      else Some \<lparr> xc_worker = worker, xc_lease_ttl = ttl, xc_default_provider = provider,
                  xc_default_model = model, xc_artifacts = artifacts \<rparr>)"

subsection \<open>Errors\<close>

text \<open>\<open>errors.Is\<close> of the context errors looks through a join; so does \<open>errors.As\<close>, which finds the first
  pause and, if there is none, the first persisted failure.\<close>

fun is_ctx :: "ctx_error \<Rightarrow> exec_error \<Rightarrow> bool" where
  "is_ctx c (EContext d) = (c = d)"
| "is_ctx c (EJoin a b) = (is_ctx c a \<or> is_ctx c b)"
| "is_ctx c _ = False"

fun error_text :: "exec_env \<Rightarrow> exec_error \<Rightarrow> string" where
  "error_text E (EContext c) = ctx_text c"
| "error_text E (ERun e) = fst (snd (classify_executor_error e))"
| "error_text E (ECause c) = xe_text E c"
| "error_text E (EJoin a b) = error_text E a @ [newline] @ error_text E b"

fun as_pause :: "exec_error \<Rightarrow> (string \<times> string) option" where
  "as_pause (ERun (Pause c m)) = Some (c, m)"
| "as_pause (EJoin a b) = (case as_pause a of Some x \<Rightarrow> Some x | None \<Rightarrow> as_pause b)"
| "as_pause _ = None"

fun as_persisted :: "exec_error \<Rightarrow> (string \<times> string) option" where
  "as_persisted (ERun (Persisted c m)) = Some (c, m)"
| "as_persisted (EJoin a b) = (case as_persisted a of Some x \<Rightarrow> Some x | None \<Rightarrow> as_persisted b)"
| "as_persisted _ = None"

definition classify :: "exec_env \<Rightarrow> exec_error \<Rightarrow> string \<times> string \<times> bool" where
  "classify E e =
     (case as_pause e of
        Some (c, m) \<Rightarrow> classify_executor_error (Pause c m)
      | None \<Rightarrow>
        (case as_persisted e of
           Some (c, m) \<Rightarrow> classify_executor_error (Persisted c m)
         | None \<Rightarrow> classify_executor_error (RunError (error_text E e))))"

definition execution_failure :: "execution \<Rightarrow> run_error" where
  "execution_failure x = (let c = trim_space (ex_failure_code x); m = trim_space (ex_failure_message x) in
     Persisted (if c = [] then ''EXECUTOR_FAILED'' else c) (if m = [] then ''Executor execution failed.'' else m))"

definition stalled_code :: string where
  "stalled_code = ''EXECUTOR_STALLED''"

subsection \<open>Calls\<close>

definition on_ctx :: "exec_env \<Rightarrow> exec_site \<Rightarrow> 'a xstep \<Rightarrow> 'a xstep" where
  "on_ctx E site m w = (if xe_down E site then (Inl (EContext CtxCanceled), w) else m w)"

definition on_run :: "exec_env \<Rightarrow> exec_site \<Rightarrow> 'a xstep \<Rightarrow> 'a xstep" where
  "on_run E site m = on_ctx E site (\<lambda>w. case xe_ctx E site of Some c \<Rightarrow> (Inl (EContext c), w) | None \<Rightarrow> m w)"

definition note_event :: "exec_env \<Rightarrow> exec_site \<Rightarrow> string \<Rightarrow> string \<Rightarrow> (string \<times> json) list \<Rightarrow> exec_world \<Rightarrow> exec_world" where
  "note_event E site i ty kvs w =
     (if xe_event_ok E site
      then w\<lparr> xw_wf := (xw_wf w)\<lparr> db_events := db_events (xw_wf w) @
        [\<lparr> ev_job = i, ev_type = ty, ev_payload = JObj (sort_key fst kvs), ev_at = xe_event_at E site \<rparr>] \<rparr> \<rparr>
      else w)"

definition report :: "exec_env \<Rightarrow> exec_site \<Rightarrow> wf_job \<Rightarrow> json_text job \<Rightarrow> string \<Rightarrow> (string \<times> json) list \<Rightarrow> unit xstep" where
  "report E site job j ty kvs w =
     (Inr (), note_event E site (wf_id job) ty
        ([(''execution_version'', JInt (wf_execution_version job)), (''dispatch_job_id'', JStr (j_id j))] @ kvs) w)"

definition xe_wf_env :: "exec_env \<Rightarrow> exec_site \<Rightarrow> wf_env" where
  "xe_wf_env E site = \<lparr> we_now = xe_now E site, we_queue_now = xe_queue_now E site,
     we_new_id = xe_new_id E site, we_recorder_ok = xe_recorder_ok E site \<rparr>"

definition read_wf :: "(wf_error \<Rightarrow> exec_cause) \<Rightarrow> string \<Rightarrow> wf_job xstep" where
  "read_wf f i w = (case wf_get (xw_wf w) i of Inl e \<Rightarrow> (Inl (ECause (f e)), w) | Inr v \<Rightarrow> (Inr v, w))"

definition on_ws :: "(ws_error \<Rightarrow> exec_cause) \<Rightarrow> (ws_table \<Rightarrow> ws_error + ws_table \<times> 'a) \<Rightarrow> 'a xstep" where
  "on_ws f m w = (case m (xw_ws w) of Inl e \<Rightarrow> (Inl (ECause (f e)), w) | Inr (t, x) \<Rightarrow> (Inr x, w\<lparr> xw_ws := t \<rparr>))"

definition on_ex :: "(ex_error \<Rightarrow> exec_cause) \<Rightarrow> (ex_db \<Rightarrow> ex_error + ex_db \<times> 'a) \<Rightarrow> 'a xstep" where
  "on_ex f m w =
     (case m (lw_db (xw_loop w)) of
        Inl e \<Rightarrow> (Inl (ECause (f e)), w)
      | Inr (db, x) \<Rightarrow> (Inr x, w\<lparr> xw_loop := (xw_loop w)\<lparr> lw_db := db \<rparr> \<rparr>))"

definition set_ex :: "(ex_db \<Rightarrow> ex_db) \<Rightarrow> exec_world \<Rightarrow> exec_world" where
  "set_ex f w = w\<lparr> xw_loop := (xw_loop w)\<lparr> lw_db := f (lw_db (xw_loop w)) \<rparr> \<rparr>"

definition capture_at :: "exec_env \<Rightarrow> workspace \<Rightarrow> tool_policy \<Rightarrow> exec_world \<Rightarrow> git_error + git_snapshot" where
  "capture_at E item policy w =
     capture (xe_git E) (xe_sha256 E) (w_path item) (tp_max_patch_bytes policy) (lw_tree (xw_loop w))"

subsection \<open>The workflow\<close>

definition started_input :: "wf_job \<Rightarrow> json_text job \<Rightarrow> transition_input" where
  "started_input job j = \<lparr> ti_expected_version = wf_version job, ti_action = ''EXECUTION_STARTED'',
     ti_failure_code = [], ti_failure_message = [], ti_details = Some [(''dispatch_job_id'', JStr (j_id j))],
     ti_additional_executor_turns = 0 \<rparr>"

definition ensure_executing :: "exec_env \<Rightarrow> wf_job \<Rightarrow> dispatch_payload_rec \<Rightarrow> json_text job \<Rightarrow> wf_job xstep" where
  "ensure_executing E job p j =
     (if wf_status_of job = StExecuting \<or> wf_version job \<noteq> dp_workflow_version p then ret job
      else on_ctx E AtStarted (\<lambda>w.
        case wf_transition (xe_wf_env E AtStarted) (wf_id job) (started_input job j) (xw_wf w) of
          Inr (db, updated) \<Rightarrow> (Inr updated, w\<lparr> xw_wf := db \<rparr>)
        | Inl e \<Rightarrow>
          (case wf_get (xw_wf w) (wf_id job) of
             Inr current \<Rightarrow> if e = ErrVersionConflict \<and> wf_status_of current = StExecuting then (Inr current, w)
                            else (Inl (ECause (CStarted e)), w)
           | Inl _ \<Rightarrow> (Inl (ECause (CStarted e)), w))))"

definition finished_input :: "wf_job \<Rightarrow> execution \<Rightarrow> json_text job \<Rightarrow> transition_input" where
  "finished_input current x j = \<lparr> ti_expected_version = wf_version current, ti_action = ''EXECUTION_COMPLETED'',
     ti_failure_code = [], ti_failure_message = [],
     ti_details = Some [(''dispatch_job_id'', JStr (j_id j)), (''execution_id'', JStr (ex_id x))],
     ti_additional_executor_turns = 0 \<rparr>"

definition finish_workflow :: "exec_env \<Rightarrow> wf_job \<Rightarrow> execution \<Rightarrow> json_text job \<Rightarrow> unit xstep" where
  "finish_workflow E job x j = on_ctx E AtFinish
     (sbind (read_wf CReload (wf_id job)) (\<lambda>current w.
        if wf_status_of current \<noteq> StExecuting then (Inr (), w)
        else case wf_transition (xe_wf_env E AtFinish) (wf_id current) (finished_input current x j) (xw_wf w) of
          Inr (db, _) \<Rightarrow> (Inr (), w\<lparr> xw_wf := db \<rparr>)
        | Inl e \<Rightarrow>
          (case wf_get (xw_wf w) (wf_id current) of
             Inr latest \<Rightarrow> if e = ErrVersionConflict \<and> wf_status_of latest \<noteq> StExecuting then (Inr (), w)
                           else (Inl (ECause (CFinish e)), w)
           | Inl _ \<Rightarrow> (Inl (ECause (CFinish e)), w))))"

definition mark_details :: "json_text job \<Rightarrow> (string \<times> json) list" where
  "mark_details j = [(''attempt'', JInt (j_attempts j)), (''dispatch_job_id'', JStr (j_id j)),
     (''max_attempts'', JInt (j_max_attempts j)), (''terminal'', JBool True)]"

definition failed_input :: "wf_job \<Rightarrow> string \<Rightarrow> string \<Rightarrow> (string \<times> json) list \<Rightarrow> transition_input" where
  "failed_input current code message details = \<lparr> ti_expected_version = wf_version current, ti_action = ''FAIL'',
     ti_failure_code = code, ti_failure_message = message, ti_details = Some details,
     ti_additional_executor_turns = 0 \<rparr>"

definition can_run :: "wf_status \<Rightarrow> bool" where
  "can_run s = (s = StExecuting \<or> s = StQueued)"

text \<open>\<open>markWorkflowFailed\<close>: whether this call moved the workflow to FAILED.\<close>

definition mark_workflow_failed :: "exec_env \<Rightarrow> string \<Rightarrow> json_text job \<Rightarrow> exec_error \<Rightarrow> bool xstep" where
  "mark_workflow_failed E wfid j cause =
     sbind (read_wf CReload wfid) (\<lambda>current w.
       if \<not> can_run (wf_status_of current) then (Inr False, w)
       else if wf_current_dispatch_id current \<noteq> [] \<and> wf_current_dispatch_id current \<noteq> j_id j then (Inr False, w)
       else case classify E cause of (code, message, paused) \<Rightarrow>
         if paused then (Inr False, w)
         else case wf_transition (xe_wf_env E AtFail) (wf_id current) (failed_input current code message (mark_details j)) (xw_wf w) of
           Inr (db, updated) \<Rightarrow>
             (Inr True, note_event E AtFail (wf_id updated) ''execution.failed''
                [(''failure_code'', JStr code), (''failure_message'', JStr message),
                 (''attempt'', JInt (j_attempts j)), (''dispatch_job_id'', JStr (j_id j))] (w\<lparr> xw_wf := db \<rparr>))
         | Inl e \<Rightarrow>
           (case wf_get (xw_wf w) (wf_id current) of
              Inr latest \<Rightarrow> if superseded e \<and> \<not> can_run (wf_status_of latest) then (Inr False, w)
                            else (Inl (ECause (CMark e)), w)
            | Inl _ \<Rightarrow> (Inl (ECause (CMark e)), w)))"

definition fail_workflow :: "exec_env \<Rightarrow> wf_job \<Rightarrow> json_text job \<Rightarrow> exec_error \<Rightarrow> unit xstep" where
  "fail_workflow E job j cause = sbind (mark_workflow_failed E (wf_id job) j cause) (\<lambda>_. ret ())"

definition pause_details :: "json_text job \<Rightarrow> (string \<times> json) list" where
  "pause_details j = [(''attempt'', JInt (j_attempts j)), (''max_attempts'', JInt (j_max_attempts j)), (''paused'', JBool True)]"

definition pause_workflow :: "exec_env \<Rightarrow> wf_job \<Rightarrow> json_text job \<Rightarrow> string \<Rightarrow> string \<Rightarrow> unit xstep" where
  "pause_workflow E job j code message =
     sbind (read_wf CReload (wf_id job)) (\<lambda>current w.
       if wf_status_of current \<noteq> StExecuting then (Inr (), w)
       else case wf_transition (xe_wf_env E AtPause) (wf_id current) (failed_input current code message (pause_details j)) (xw_wf w) of
         Inr (db, updated) \<Rightarrow>
           (Inr (), note_event E AtPause (wf_id updated) ''execution.paused''
              [(''failure_code'', JStr code), (''failure_message'', JStr message),
               (''max_executor_turns'', JInt (max_executor_turns (wf_limits updated)))] (w\<lparr> xw_wf := db \<rparr>))
       | Inl e \<Rightarrow> (Inl (ECause (CPause e)), w))"

subsection \<open>Settings\<close>

definition last_for :: "('a \<Rightarrow> string) \<Rightarrow> 'a list \<Rightarrow> 'a option" where
  "last_for role xs = (let ys = filter (\<lambda>x. role x = ''EXECUTOR'') xs in if ys = [] then None else Some (last ys))"

definition executor_snapshot :: "agent_settings \<Rightarrow> (agent_config \<times> tool_policy) option" where
  "executor_snapshot s =
     (case (last_for cf_role (as_agents s), last_for fst (as_policies s)) of
        (Some a, Some (_, p)) \<Rightarrow> if cf_enabled a then Some (a, p) else None
      | _ \<Rightarrow> None)"

definition first_set :: "string list \<Rightarrow> string" where
  "first_set xs = (case filter (\<lambda>x. x \<noteq> []) xs of [] \<Rightarrow> [] | x # _ \<Rightarrow> x)"

definition execution_input :: "exec_config \<Rightarrow> wf_job \<Rightarrow> workspace \<Rightarrow> agent_settings \<Rightarrow> agent_config \<Rightarrow> ex_input" where
  "execution_input C job item s agent = \<lparr> xi_workflow_job_id = wf_id job, xi_workflow_version = wf_version job,
     xi_execution_version = wf_execution_version job, xi_plan_version_id = wf_plan_version_id job,
     xi_workspace_id = w_id item, xi_base_commit_sha = wf_base_commit_sha job,
     xi_agent_settings_version = (if wf_agent_settings_version job < 1 then as_version s else wf_agent_settings_version job),
     xi_provider = first_set [trim_space (ag_provider (wf_executor job)), cf_provider agent, xc_default_provider C],
     xi_model = first_set [trim_space (ag_model (wf_executor job)), cf_model agent, xc_default_model C] \<rparr>"

subsection \<open>The run\<close>

text \<open>Capture the tree, check that HEAD has not moved, save the patch and the checkpoint.\<close>

definition save_patch :: "exec_config \<Rightarrow> exec_env \<Rightarrow> exec_site \<Rightarrow> string \<Rightarrow> git_snapshot \<Rightarrow> unit xstep" where
  "save_patch C E site key g w =
     (if \<not> xc_artifacts C then (Inr (), w)
      else case xe_save_error E key of
        Some m \<Rightarrow> (Inl (ECause (CArtifact m)), w)
      | None \<Rightarrow> (Inr (), w\<lparr> xw_artifacts := xw_artifacts w @ [(key, gs_patch g)] \<rparr>))"

definition save_point :: "exec_config \<Rightarrow> exec_env \<Rightarrow> exec_site \<Rightarrow> wf_job \<Rightarrow> execution \<Rightarrow> git_snapshot \<Rightarrow> string \<Rightarrow> checkpoint xstep" where
  "save_point C E site job x g key =
     on_ex CCheckpoint (save_checkpoint (xe_sha256 E) (xe_new_id E site) (xe_now E site) (ex_id x)
       (wf_base_commit_sha job) (gs_head g) (gs_patch g) (gs_changed_files g) (if xc_artifacts C then key else []))"

definition artifact_key :: "wf_job \<Rightarrow> execution \<Rightarrow> string \<Rightarrow> string" where
  "artifact_key job x name = ''workflows/'' @ wf_id job @ ''/executions/'' @ show_int (ex_execution_version x) @ name"

definition head_moved :: "wf_job \<Rightarrow> git_snapshot \<Rightarrow> bool" where
  "head_moved job g = (wf_base_commit_sha job \<noteq> [] \<and> gs_head g \<noteq> wf_base_commit_sha job)"

definition save_paused_checkpoint ::
  "exec_config \<Rightarrow> exec_env \<Rightarrow> wf_job \<Rightarrow> execution \<Rightarrow> workspace \<Rightarrow> tool_policy \<Rightarrow> unit xstep" where
  "save_paused_checkpoint C E job x item policy w =
     (case capture_at E item policy w of
        Inl e \<Rightarrow> (Inl (ECause (CCapture e)), w)
      | Inr g \<Rightarrow>
        if head_moved job g then (Inl (ECause CHead), w)
        else let key = artifact_key job x ''/partial-patch.diff'' in
          sbind (save_patch C E AtPartial key g) (\<lambda>_.
          sbind (save_point C E AtPartial job x g key) (\<lambda>c w1.
            (Inr (), note_event E AtPartial (wf_id job) ''execution.partial_checkpoint_saved''
               [(''execution_id'', JStr (ex_id x)), (''checkpoint_id'', JStr (cp_id c)),
                (''patch_checksum'', JStr (cp_patch_checksum c)), (''patch_bytes'', JInt (int (cp_patch_bytes c))),
                (''changed_file_count'', JInt (int (length (gs_changed_files g))))] w1))) w)"

definition cancel_execution :: "exec_env \<Rightarrow> exec_site \<Rightarrow> execution \<Rightarrow> exec_world \<Rightarrow> exec_world" where
  "cancel_execution E site x = set_ex (ex_cancel (xe_now E site) (ex_id x) ''execution cancelled'')"

definition fail_execution :: "exec_env \<Rightarrow> exec_site \<Rightarrow> execution \<Rightarrow> string \<Rightarrow> string \<Rightarrow> exec_world \<Rightarrow> exec_world" where
  "fail_execution E site x code message = set_ex (ex_fail (xe_now E site) (ex_id x) code message)"

text \<open>The checkpoint of a paused run is best effort.\<close>

definition after_pause :: "exec_config \<Rightarrow> exec_env \<Rightarrow> wf_job \<Rightarrow> execution \<Rightarrow> workspace \<Rightarrow> tool_policy \<Rightarrow> exec_world \<Rightarrow> exec_world" where
  "after_pause C E job x item policy w1 = (case save_paused_checkpoint C E job x item policy w1 of
      (Inr _, v) \<Rightarrow> v
    | (Inl e', v) \<Rightarrow> note_event E AtRun (wf_id job) ''execution.partial_checkpoint_failed''
        [(''execution_id'', JStr (ex_id x)), (''error'', JStr (error_text E e'))] v)"

text \<open>A run that ended with an error. The result None says that the delivery is over.\<close>

definition run_failed ::
  "exec_config \<Rightarrow> exec_env \<Rightarrow> wf_job \<Rightarrow> json_text job \<Rightarrow> execution \<Rightarrow> workspace \<Rightarrow> tool_policy \<Rightarrow> bool \<Rightarrow> exec_error
   \<Rightarrow> execution option xstep" where
  "run_failed C E job j x item policy cancelled e w =
     (if cancelled then (Inl e, cancel_execution E AtRun x w)
      else if xe_down E AtRun then (Inl e, w)
      else case classify E e of (code, message, paused) \<Rightarrow>
        let w1 = fail_execution E AtRun x code message w in
        if paused then
          sbind (pause_workflow E job j code message) (\<lambda>_. ret None) (after_pause C E job x item policy w1)
        else sbind (fail_workflow E job j e) (\<lambda>_. ret None) w1)"

definition late_stop :: "exec_env \<Rightarrow> wf_job \<Rightarrow> json_text job \<Rightarrow> execution \<Rightarrow> execution option xstep \<Rightarrow> execution option xstep" where
  "late_stop E job j x go w =
     (let failed = (\<lambda>e. sbind (fail_workflow E job j e) (\<lambda>_. ret None)
            (fail_execution E AtCapture x ''EXECUTOR_FAILED'' (error_text E e) w)) in
      case xe_watch E AtCapture of
        Some WatchCancelled \<Rightarrow> (Inl (EContext CtxCanceled), cancel_execution E AtCapture x w)
      | Some (WatchFailed m) \<Rightarrow> failed (ECause (CWatch m))
      | None \<Rightarrow>
        (case xe_ctx E AtCapture of
           Some c \<Rightarrow> failed (EContext c)
         | None \<Rightarrow> go w))"

text \<open>The steps that close a successful run, and what each has left when all went well.\<close>

definition close_run ::
  "exec_config \<Rightarrow> exec_env \<Rightarrow> wf_job \<Rightarrow> execution \<Rightarrow> workspace \<Rightarrow> string \<Rightarrow> git_snapshot \<Rightarrow> execution option xstep" where
  "close_run C E job x item tok g = (let key = artifact_key job x ''/patch.diff'' in
     sbind (on_ctx E AtArtifact (save_patch C E AtArtifact key g)) (\<lambda>_.
     sbind (on_ctx E AtCheckpoint (save_point C E AtCheckpoint job x g key)) (\<lambda>c.
     sbind (on_ctx E AtComplete (on_ex CComplete (ex_complete (xe_now E AtComplete) (ex_id x)))) (\<lambda>done.
     sbind (on_ctx E AtReturn (on_ws CReturn
       (release_write (xe_now E AtReturn) (w_id item) tok (gs_head g) (gs_dirty g)))) (\<lambda>_ w1.
     (Inr (Some done), note_event E AtCompleted (wf_id job) ''execution.completed''
        [(''execution_id'', JStr (ex_id done)), (''tool_calls'', JInt (ex_tool_calls done)),
         (''patch_checksum'', JStr (cp_patch_checksum c)),
         (''changed_file_count'', JInt (int (length (gs_changed_files g))))] w1))))))"

definition run_succeeded ::
  "exec_config \<Rightarrow> exec_env \<Rightarrow> wf_job \<Rightarrow> json_text job \<Rightarrow> execution \<Rightarrow> workspace \<Rightarrow> string \<Rightarrow> tool_policy
   \<Rightarrow> execution option xstep" where
  "run_succeeded C E job j x item tok policy = on_ctx E AtCapture (\<lambda>w.
     case capture_at E item policy w of
       Inl PatchTooLarge \<Rightarrow> (Inl (ECause CSize), w)
     | Inl e \<Rightarrow> (Inl (ECause (CCapture e)), w)
     | Inr g \<Rightarrow>
       if head_moved job g then (Inl (ECause CHead), w)
       else late_stop E job j x (close_run C E job x item tok g) w)"

definition tools_of :: "exec_env \<Rightarrow> workspace \<Rightarrow> tool_policy \<Rightarrow> tool_env" where
  "tools_of E item policy = \<lparr> te_root = w_path item, te_policy = policy, te_git = xe_git E, te_sha256 = xe_sha256 E \<rparr>"

definition budget_of :: "wf_job \<Rightarrow> exec_budget" where
  "budget_of job = \<lparr> bd_max_turns = max_executor_turns (wf_limits job),
     bd_max_tool_errors = max_consecutive_tool_errors (wf_limits job),
     bd_max_no_progress = max_no_progress_turns (wf_limits job) \<rparr>"

text \<open>What the run has ended with: a report of the watchdog, of the lease renewal and of the cancellation
  watcher each replaces what the runner returned.\<close>

definition run_error_of :: "exec_env \<Rightarrow> run_error + unit \<Rightarrow> ws_error option \<Rightarrow> exec_error option" where
  "run_error_of E r lost =
     (case xe_watch E AtRun of
        Some WatchCancelled \<Rightarrow> Some (EContext CtxCanceled)
      | Some (WatchFailed m) \<Rightarrow> Some (ECause (CWatch m))
      | None \<Rightarrow>
        (case lost of
           Some e \<Rightarrow> Some (ECause (CRenew e))
         | None \<Rightarrow>
           (case xe_stall E AtRun of
              Some m \<Rightarrow> Some (ERun (Persisted stalled_code m))
            | None \<Rightarrow> (case r of Inl e \<Rightarrow> Some (ERun e) | Inr _ \<Rightarrow> None))))"

definition run_runner ::
  "exec_config \<Rightarrow> exec_env \<Rightarrow> wf_job \<Rightarrow> json_text job \<Rightarrow> execution \<Rightarrow> workspace \<Rightarrow> string \<Rightarrow> tool_policy
   \<Rightarrow> execution option xstep" where
  "run_runner C E job j x item tok policy w =
     (let (r, lw) = xe_run E (tools_of E item policy) (max_tool_calls (wf_limits job))
                      \<lparr> rc_execution = x, rc_budget = budget_of job \<rparr> (xw_loop w);
          (t, lost) = renew_lease (xc_lease_ttl C) (w_id item) tok (xe_renewals E) (xw_ws w);
          w1 = w\<lparr> xw_loop := lw, xw_ws := t \<rparr> in
      case run_error_of E r lost of
        Some e \<Rightarrow> run_failed C E job j x item policy (xe_watch E AtRun = Some WatchCancelled) e w1
      | None \<Rightarrow> run_succeeded C E job j x item tok policy w1)"

definition work ::
  "exec_config \<Rightarrow> exec_env \<Rightarrow> wf_job \<Rightarrow> json_text job \<Rightarrow> execution \<Rightarrow> workspace \<Rightarrow> string \<Rightarrow> tool_policy
   \<Rightarrow> execution option xstep" where
  "work C E job j x0 item tok policy =
     sbind (on_run E AtStart (on_ex CStart (ex_start (xe_now E AtStart) (ex_id x0)))) (\<lambda>x.
     sbind (report E AtStart job j ''execution.started''
       [(''execution_id'', JStr (ex_id x)), (''agent_settings_version'', JInt (ex_agent_settings_version x))]) (\<lambda>_.
     run_runner C E job j x item tok policy))"

text \<open>The deferred return of the lease, on every way out before the lease was given back.\<close>

definition give_back :: "exec_env \<Rightarrow> workspace \<Rightarrow> string \<Rightarrow> tool_policy \<Rightarrow> exec_world \<Rightarrow> exec_world" where
  "give_back E item tok policy w =
     (case capture_at E item policy w of
        Inr g \<Rightarrow>
          (case release_write (xe_now E AtGiveBack) (w_id item) tok (gs_head g) (gs_dirty g) (xw_ws w) of
             Inl _ \<Rightarrow> w | Inr (t, _) \<Rightarrow> w\<lparr> xw_ws := t \<rparr>)
      | Inl _ \<Rightarrow>
          (case release (xe_now E AtGiveBack) (w_id item) tok (xw_ws w) of
             Inl _ \<Rightarrow> w | Inr t \<Rightarrow> w\<lparr> xw_ws := t \<rparr>))"

definition leased ::
  "exec_env \<Rightarrow> workspace \<Rightarrow> string \<Rightarrow> tool_policy \<Rightarrow> execution option xstep \<Rightarrow> execution option xstep" where
  "leased E item tok policy m w =
     (case m w of
        (Inr (Some x), w1) \<Rightarrow> (Inr (Some x), w1)
      | (r, w1) \<Rightarrow> (r, give_back E item tok policy w1))"

definition run_execution ::
  "exec_config \<Rightarrow> exec_env \<Rightarrow> wf_job \<Rightarrow> json_text job \<Rightarrow> execution \<Rightarrow> workspace \<Rightarrow> tool_policy \<Rightarrow> unit xstep" where
  "run_execution C E job j x item policy =
     sbind (on_run E AtLease (on_ws CLease
       (acquire_write (xe_new_id E AtLease) (xe_now E AtLease) (w_id item) (xc_worker C) (xc_lease_ttl C)))) (\<lambda>(_, tok).
     sbind (leased E item tok policy
        (sbind (report E AtLease job j ''executor.lease.acquired'' [(''workspace_id'', JStr (w_id item))]) (\<lambda>_.
         work C E job j x item tok policy))) (\<lambda>res.
     case res of None \<Rightarrow> ret () | Some done \<Rightarrow> finish_workflow E job done j))"

definition ws_status_str :: "ws_status \<Rightarrow> string" where
  "ws_status_str s = (case s of
     WsRequested \<Rightarrow> ''REQUESTED'' | WsPreparing \<Rightarrow> ''PREPARING'' | WsReady \<Rightarrow> ''READY'' | WsWriteLocked \<Rightarrow> ''WRITE_LOCKED''
   | WsFailed \<Rightarrow> ''FAILED'' | WsArchived \<Rightarrow> ''ARCHIVED'')"

definition stage_run :: "exec_config \<Rightarrow> exec_env \<Rightarrow> wf_job \<Rightarrow> json_text job \<Rightarrow> unit xstep" where
  "stage_run C E job j =
     sbind (report E AtDispatch job j ''executor.dispatch.started''
       [(''attempt'', JInt (j_attempts j)), (''max_attempts'', JInt (j_max_attempts j))]) (\<lambda>_.
     sbind (on_run E AtWorkspace (on_ws CWorkspace (\<lambda>t. map_sum id (\<lambda>item. (t, item)) (ws_get_by_workflow t (wf_id job))))) (\<lambda>item.
     sbind (report E AtWorkspace job j ''executor.workspace.ready''
       [(''workspace_id'', JStr (w_id item)), (''workspace_status'', JStr (ws_status_str (w_status item)))]) (\<lambda>_.
     sbind (on_run E AtSettings (\<lambda>w. case xe_settings E (wf_project_id job) of
              Inl m \<Rightarrow> (Inl (ECause (CSettings m)), w) | Inr s \<Rightarrow> (Inr s, w))) (\<lambda>s.
     case executor_snapshot s of
       None \<Rightarrow> fail_with (ECause CNotEnabled)
     | Some (agent, policy) \<Rightarrow>
       sbind (report E AtSettings job j ''executor.settings.ready'' [(''agent_settings_version'', JInt (as_version s))]) (\<lambda>_.
       sbind (on_run E AtCreate (on_ex CCreate (create_or_get (xe_new_id E AtCreate) (xe_now E AtCreate) (xe_refs_ok E)
                (execution_input C job item s agent)))) (\<lambda>(x, _).
       if ex_status_of x = ExCompleted then finish_workflow E job x j
       else if ex_status_of x = ExFailed then fail_workflow E job j (ERun (execution_failure x))
       else
         sbind (report E AtCreate job j ''executor.execution.ready''
           [(''execution_id'', JStr (ex_id x)), (''provider'', JStr (ex_provider x)), (''model'', JStr (ex_model x))]) (\<lambda>_.
         run_execution C E job j x item policy)))))))"

text \<open>The two outer deferred functions: a stalled run reports the stall instead of the context error it
  caused, and on the last delivery the workflow is failed.\<close>

definition with_watchdog :: "exec_env \<Rightarrow> unit xstep \<Rightarrow> unit xstep" where
  "with_watchdog E m w =
     (case m w of
        (Inl e, w1) \<Rightarrow>
          (case xe_stall E AtEnd of
             Some msg \<Rightarrow> if \<not> xe_down E AtEnd \<and> (is_ctx CtxCanceled e \<or> is_ctx CtxDeadline e)
                         then (Inl (ERun (Persisted stalled_code msg)), w1) else (Inl e, w1)
           | None \<Rightarrow> (Inl e, w1))
      | (Inr u, w1) \<Rightarrow> (Inr u, w1))"

definition settle_final_dispatch_failure :: "exec_env \<Rightarrow> string \<Rightarrow> json_text job \<Rightarrow> exec_error \<Rightarrow> bool xstep" where
  "settle_final_dispatch_failure E wfid j e =
     (if j_attempts j < j_max_attempts j \<and> fst (classify E e) \<noteq> stalled_code then ret False
      else mark_workflow_failed E wfid j e)"

definition settled_by :: "exec_env \<Rightarrow> string \<Rightarrow> json_text job \<Rightarrow> unit xstep \<Rightarrow> unit xstep" where
  "settled_by E wfid j m w =
     (case m w of
        (Inl e, w1) \<Rightarrow>
          if xe_down E AtSettle \<or> is_ctx CtxCanceled e then (Inl e, w1)
          else (case settle_final_dispatch_failure E wfid j e w1 of
            (Inl e', w2) \<Rightarrow> (Inl (EJoin e e'), w2)
          | (Inr failed, w2) \<Rightarrow> if failed then (Inr (), w2) else (Inl e, w2))
      | (Inr u, w1) \<Rightarrow> (Inr u, w1))"

definition execution_handle :: "exec_config \<Rightarrow> exec_env \<Rightarrow> json_text job \<Rightarrow> unit xstep" where
  "execution_handle C E j =
     (case decode_execution_dispatch (j_payload j) of
        Inl e \<Rightarrow> fail_with (ECause (CDispatch e))
      | Inr p \<Rightarrow> on_ctx E AtLoad (\<lambda>w.
        case execution_gate (xw_wf w) (j_id j) p of
          GateFailed e \<Rightarrow> (Inl (ECause (CLoad e)), w)
        | GateNotReached \<Rightarrow> (Inl (ECause CNotReached), w)
        | GateCancelled \<Rightarrow> (Inl (EContext CtxCanceled), w)
        | GateProceed job0 \<Rightarrow>
            settled_by E (dp_workflow_job_id p) j
              (sbind (ensure_executing E job0 p j) (\<lambda>job.
               if wf_execution_version job < 1 then fail_with (ECause CNoVersion)
               else with_watchdog E (stage_run C E job j))) w
        | _ \<Rightarrow> (Inr (), w)))"

text \<open>The runner of the daemon (cmd/api/main.go) is the executor loop on the run's tools.\<close>

definition llm_runner :: "loop_env \<Rightarrow> runner" where
  "llm_runner L tools max_calls rc = executor_run (L\<lparr> le_tools := tools, le_max_calls := max_calls \<rparr>) rc"

subsection \<open>Where a delivery leaves the workflow\<close>

definition running :: "string \<Rightarrow> string \<Rightarrow> wf_db \<Rightarrow> bool" where
  "running jid i db = (wf_db_ok db \<and> (\<exists>v. wf_get db i = Inr v \<and> wf_status_of v = StExecuting
     \<and> wf_current_dispatch_id v \<in> {[], jid}))"

definition live :: "string \<Rightarrow> string \<Rightarrow> wf_db \<Rightarrow> bool" where
  "live jid i db = (wf_db_ok db \<and> (\<exists>v. wf_get db i = Inr v \<and> can_run (wf_status_of v)
     \<and> wf_current_dispatch_id v \<in> {[], jid}))"

definition stage_over :: "string \<Rightarrow> wf_db \<Rightarrow> bool" where
  "stage_over i db = (wf_db_ok db \<and> (\<exists>v. wf_get db i = Inr v \<and> wf_status_of v \<in> {StChecking, StFailed}))"

lemma running_live: "running jid i db \<Longrightarrow> live jid i db"
  by (auto simp: running_def live_def can_run_def)

lemma same_db_running:
  assumes "same_db db db'"
  shows "running jid i db' = running jid i db" "live jid i db' = live jid i db" "stage_over i db' = stage_over i db"
  using same_db_ok [OF assms] same_db_get [OF assms] by (simp_all add: running_def live_def stage_over_def)

lemma note_event_keeps [simp]:
  "same_db db (xw_wf (note_event E site i ty kvs w)) = same_db db (xw_wf w)"
  "xw_ws (note_event E site i ty kvs w) = xw_ws w" "xw_loop (note_event E site i ty kvs w) = xw_loop w"
  "xw_artifacts (note_event E site i ty kvs w) = xw_artifacts w"
  by (simp_all add: note_event_def)

lemma note_event_db [simp]:
  "running jid i (xw_wf (note_event E site k ty kvs w)) = running jid i (xw_wf w)"
  "live jid i (xw_wf (note_event E site k ty kvs w)) = live jid i (xw_wf w)"
  "stage_over i (xw_wf (note_event E site k ty kvs w)) = stage_over i (xw_wf w)"
  using same_db_running [of "xw_wf w" "xw_wf (note_event E site k ty kvs w)"] by simp_all

text \<open>An error that settling can turn into a failure: not a pause, with a message, and cancelled only by the
  watchdog.\<close>

definition plain_error :: "exec_env \<Rightarrow> exec_error \<Rightarrow> bool" where
  "plain_error E e = (as_pause e = None \<and> trim_space (fst (snd (classify E e))) \<noteq> []
     \<and> (is_ctx CtxCanceled e \<longrightarrow> xe_stall E AtEnd \<noteq> None))"

text \<open>\<open>moves K m\<close>: from a running workflow, \<open>m\<close> leaves it over when it succeeds with a result in \<open>K\<close>, running
  when it succeeds with another one, and otherwise running or over with an error that can be settled.\<close>

definition lands :: "exec_env \<Rightarrow> string \<Rightarrow> string \<Rightarrow> ('a \<Rightarrow> bool) \<Rightarrow> exec_error + 'a \<Rightarrow> exec_world \<Rightarrow> bool" where
  "lands E jid i K r w = (case r of
       Inr x \<Rightarrow> if K x then stage_over i (xw_wf w) else running jid i (xw_wf w)
     | Inl e \<Rightarrow> (running jid i (xw_wf w) \<or> stage_over i (xw_wf w)) \<and> plain_error E e)"

lemma lands_simps [simp]:
  "lands E jid i K (Inr x) w = (if K x then stage_over i (xw_wf w) else running jid i (xw_wf w))"
  "lands E jid i K (Inl e) w = ((running jid i (xw_wf w) \<or> stage_over i (xw_wf w)) \<and> plain_error E e)"
  by (simp_all add: lands_def)

definition moves :: "exec_env \<Rightarrow> string \<Rightarrow> string \<Rightarrow> ('a \<Rightarrow> bool) \<Rightarrow> 'a xstep \<Rightarrow> bool" where
  "moves E jid i K m = (\<forall>w. running jid i (xw_wf w) \<longrightarrow> post m w (lands E jid i K))"

abbreviation stays :: "exec_env \<Rightarrow> string \<Rightarrow> string \<Rightarrow> 'a xstep \<Rightarrow> bool" where
  "stays E jid i \<equiv> moves E jid i (\<lambda>_. False)"

lemma movesI:
  "(\<And>w r w'. running jid i (xw_wf w) \<Longrightarrow> m w = (r, w') \<Longrightarrow> lands E jid i K r w') \<Longrightarrow> moves E jid i K m"
  by (auto simp: moves_def intro: postI)

lemma movesD: "moves E jid i K m \<Longrightarrow> running jid i (xw_wf w) \<Longrightarrow> m w = (r, w') \<Longrightarrow> lands E jid i K r w'"
  by (auto simp: moves_def dest: postD)

lemma moves_bind:
  assumes "stays E jid i m" "\<And>x. moves E jid i K (f x)"
  shows "moves E jid i K (sbind m f)"
proof (rule movesI)
  fix w r w' assume w: "running jid i (xw_wf w)" "sbind m f w = (r, w')"
  show "lands E jid i K r w'"
    using w(2)
  proof (rule sbind_cases)
    fix e assume "m w = (Inl e, w')" "r = Inl e"
    then show ?thesis using movesD [OF assms(1) w(1)] by fastforce
  next
    fix x w1 assume x: "m w = (Inr x, w1)" "f x w1 = (r, w')"
    then have "running jid i (xw_wf w1)" using movesD [OF assms(1) w(1) x(1)] by simp
    then show ?thesis using movesD [OF assms(2) _ x(2)] by blast
  qed
qed

lemma moves_fail: "plain_error E e \<Longrightarrow> moves E jid i K (fail_with e)"
  by (rule movesI) auto

lemma moves_quiet:
  assumes "\<And>w r w'. m w = (r, w') \<Longrightarrow> xw_wf w' = xw_wf w \<and> (\<forall>e. r = Inl e \<longrightarrow> plain_error E e)"
  shows "stays E jid i m"
  by (rule movesI) (auto dest!: assms simp: lands_def split: sum.splits)

text \<open>What is assumed of the surroundings: no shutdown, no cancellation, a cancelled context only after a
  stall; every error has a text; fresh ids are ids.\<close>

definition undisturbed :: "exec_env \<Rightarrow> bool" where
  "undisturbed E = ((\<forall>site. \<not> xe_down E site \<and> xe_watch E site \<noteq> Some WatchCancelled
       \<and> (xe_ctx E site = Some CtxCanceled \<longrightarrow> xe_stall E AtEnd \<noteq> None)
       \<and> new_id_ok (xe_wf_env E site))
     \<and> (\<forall>c. trim_space (xe_text E c) \<noteq> []))"

lemma undisturbedD:
  assumes "undisturbed E"
  shows "\<not> xe_down E site" "xe_watch E site \<noteq> Some WatchCancelled" "new_id_ok (xe_wf_env E site)"
    "trim_space (xe_text E c) \<noteq> []" "xe_ctx E site = Some CtxCanceled \<Longrightarrow> xe_stall E AtEnd \<noteq> None"
  using assms by (simp_all add: undisturbed_def)

lemma ctx_text_not_blank: "trim_space (ctx_text c) \<noteq> []"
  by (cases c) (simp_all add: ctx_text_def trim_space_plain_Cons plain_char_def)

lemma plain_cause: "undisturbed E \<Longrightarrow> plain_error E (ECause c)"
  by (simp add: plain_error_def classify_def classify_executor_error_def undisturbedD)

lemma plain_ctx: "undisturbed E \<Longrightarrow> xe_ctx E site = Some c \<Longrightarrow> plain_error E (EContext c)"
  by (cases c) (auto simp: plain_error_def classify_def classify_executor_error_def ctx_text_not_blank undisturbedD)

lemma on_ctx_up: "undisturbed E \<Longrightarrow> on_ctx E site m = m"
  by (rule ext) (simp add: on_ctx_def undisturbedD)


lemma moves_on_run:
  assumes "undisturbed E" "moves E jid i K m"
  shows "moves E jid i K (on_run E site m)"
proof (rule movesI)
  fix w r w' assume w: "running jid i (xw_wf w)" "on_run E site m w = (r, w')"
  show "lands E jid i K r w'"
    using w plain_ctx [OF assms(1)] movesD [OF assms(2) w(1), of r w']
    by (auto simp: on_run_def on_ctx_up [OF assms(1)] split: option.splits)
qed

lemma stays_calls:
  "undisturbed E \<Longrightarrow> stays E jid i (on_ws f m)" "undisturbed E \<Longrightarrow> stays E jid i (on_ex g k)"
  "stays E jid i (report E site job j ty kvs)" "stays E jid i (ret x)"
proof -
  show "undisturbed E \<Longrightarrow> stays E jid i (on_ws f m)"
    by (rule moves_quiet) (auto simp: on_ws_def plain_cause split: sum.splits)
  show "undisturbed E \<Longrightarrow> stays E jid i (on_ex g k)"
    by (rule moves_quiet) (auto simp: on_ex_def plain_cause split: sum.splits)
qed (auto intro!: movesI simp: report_def)

text \<open>Transitions of a running workflow.\<close>

lemma running_get:
  assumes "running jid i db" "trim_space i = i"
  obtains v where "wf_get db i = Inr v" "wf_status_of v = StExecuting" "wf_current_dispatch_id v \<in> {[], jid}"
    "wf_id v = i" "wf_db_ok db"
  using assms wf_get_Inr [of db i] unfolding running_def by force

lemma transition_action [simp]:
  "input_action (failed_input v c m d) = ''FAIL''" "input_action (finished_input v x j) = ''EXECUTION_COMPLETED''"
  "input_action (started_input v j) = ''EXECUTION_STARTED''"
  by (rule input_action_plain, simp_all add: failed_input_def finished_input_def started_input_def plain_char_def upper_ascii_def)+

lemma handler_actions [simp]:
  "action_of_string ''FAIL'' = ActFail" "action_of_string ''EXECUTION_COMPLETED'' = ActExecutionCompleted"
  "action_of_string ''EXECUTION_STARTED'' = ActExecutionStarted"
  by (simp_all add: action_of_string_def known_actions_def)

lemma fail_ends:
  assumes "wf_transition e i (failed_input v c m d) db = Inr (db', v')" "wf_get db i = Inr v" "wf_db_ok db" "new_id_ok e"
  shows "stage_over i db'"
  using fail_shows [OF assms(1,2)] wf_db_ok_transition [OF assms(3,1,4)] by (auto simp: stage_over_def)

lemma finish_ends:
  assumes "wf_transition e i (finished_input v x j) db = Inr (db', v')" "wf_get db i = Inr v" "wf_db_ok db" "new_id_ok e"
    "wf_status_of v = StExecuting"
  shows "stage_over i db' \<and> wf_get db' i = Inr v' \<and> wf_status_of v' = StChecking"
proof -
  obtain nxt d where n: "next_status StExecuting ActExecutionCompleted (wf_retry_status v) = Some nxt"
    "v' = apply_transition e ActExecutionCompleted (finished_input v x j) nxt d v" "wf_get db' i = Inr v'"
    using transition_shows [OF assms(1,2)] assms(5) by auto
  have "nxt = StChecking" using n(1) by (simp add: next_status_def transition_table_def)
  then show ?thesis using n wf_db_ok_transition [OF assms(3,1,4)] by (auto simp: stage_over_def)
qed

lemma moves_finish:
  assumes "undisturbed E" "trim_space i = i" "wf_id job = i"
  shows "moves E jid i (\<lambda>_. True) (finish_workflow E job x j)"
  unfolding moves_def
proof (intro allI impI)
  fix w :: exec_world
  assume "running jid i (xw_wf w)"
  then obtain v where v: "wf_get (xw_wf w) i = Inr v" "wf_status_of v = StExecuting" "wf_id v = i" "wf_db_ok (xw_wf w)"
    using running_get assms(2) by blast
  show "post (finish_workflow E job x j) w (lands E jid i (\<lambda>_. True))"
  proof (cases "wf_transition (xe_wf_env E AtFinish) i (finished_input v x j) (xw_wf w)")
    case (Inl e)
    then show ?thesis using v assms \<open>running jid i (xw_wf w)\<close> plain_cause
      by (simp add: finish_workflow_def on_ctx_up post_def sbind_def read_wf_def)
  next
    case (Inr r)
    obtain db' v' where r: "r = (db', v')" by fastforce
    then have "stage_over i db'" using finish_ends [OF Inr [unfolded r] v(1,4) _ v(2)] undisturbedD(3) [OF assms(1)] by blast
    then show ?thesis using Inr r v assms
      by (simp add: finish_workflow_def on_ctx_up post_def sbind_def read_wf_def)
  qed
qed

lemma mark_cases:
  assumes "undisturbed E" "trim_space i = i" "\<not> snd (snd (classify E e))" "running jid i (xw_wf w) \<or> live jid i (xw_wf w)" "j_id j = jid"
    "mark_workflow_failed E i j e w = (r, w')"
  shows "(r = Inr True \<and> stage_over i (xw_wf w')) \<or> (\<exists>c. r = Inl (ECause c) \<and> w' = w)"
proof -
  have "live jid i (xw_wf w)" using assms(4) running_live by blast
  then obtain v where v: "wf_get (xw_wf w) i = Inr v" "can_run (wf_status_of v)" "wf_current_dispatch_id v \<in> {[], jid}"
    "wf_db_ok (xw_wf w)" by (auto simp: live_def)
  then have iv: "wf_id v = i" using wf_get_Inr assms(2) by fastforce
  obtain c m where c: "classify E e = (c, m, False)" using assms(3) by (cases "classify E e") auto
  show ?thesis
  proof (cases "wf_transition (xe_wf_env E AtFail) i (failed_input v c m (mark_details j)) (xw_wf w)")
    case (Inl e')
    then show ?thesis using assms(5,6) v iv c
      by (auto simp: mark_workflow_failed_def sbind_def read_wf_def)
  next
    case (Inr r')
    obtain db' v' where r': "r' = (db', v')" by fastforce
    then have "stage_over i db'" using fail_ends [OF Inr [unfolded r'] v(1,4)] undisturbedD(3) [OF assms(1)] by blast
    then show ?thesis using Inr r' assms(5,6) v iv c
      by (auto simp: mark_workflow_failed_def sbind_def read_wf_def)
  qed
qed

lemma moves_fail_workflow:
  assumes "undisturbed E" "trim_space i = i" "wf_id job = i" "\<not> snd (snd (classify E e))" "j_id j = jid"
  shows "moves E jid i (\<lambda>_. True) (fail_workflow E job j e)"
  unfolding moves_def
proof (intro allI impI)
  fix w :: exec_world
  assume "running jid i (xw_wf w)"
  moreover obtain r w' where m: "mark_workflow_failed E i j e w = (r, w')" by fastforce
  ultimately show "post (fail_workflow E job j e) w (lands E jid i (\<lambda>_. True))"
    using mark_cases [OF assms(1,2,4) _ assms(5) m] assms(3) plain_cause [OF assms(1)]
    by (auto simp: fail_workflow_def post_def sbind_def)
qed


lemma moves_pause:
  assumes "undisturbed E" "trim_space i = i" "wf_id job = i"
  shows "moves E jid i (\<lambda>_. True) (pause_workflow E job j c m)"
proof (rule movesI)
  fix w r w' assume w: "running jid i (xw_wf w)" "pause_workflow E job j c m w = (r, w')"
  then obtain v where v: "wf_get (xw_wf w) i = Inr v" "wf_status_of v = StExecuting" "wf_id v = i" "wf_db_ok (xw_wf w)"
    using running_get assms(2) by blast
  show "lands E jid i (\<lambda>_. True) r w'"
  proof (cases "wf_transition (xe_wf_env E AtPause) i (failed_input v c m (pause_details j)) (xw_wf w)")
    case (Inl e)
    then show ?thesis using v w assms plain_cause
      by (auto simp: pause_workflow_def sbind_def read_wf_def)
  next
    case (Inr r')
    obtain db' v' where r': "r' = (db', v')" by fastforce
    then have "stage_over i db'" using fail_ends [OF Inr [unfolded r'] v(1,4)] undisturbedD(3) [OF assms(1)] by blast
    then show ?thesis using Inr r' v w assms by (auto simp: pause_workflow_def sbind_def read_wf_def)
  qed
qed

lemma moves_weaken: "moves E jid i (\<lambda>_. True) m \<Longrightarrow> moves E jid i (\<lambda>r. r = None) (sbind m (\<lambda>_. ret None))"
proof (rule movesI)
  fix w r w' assume m: "moves E jid i (\<lambda>_. True) m" "running jid i (xw_wf w)" "sbind m (\<lambda>_. ret None) w = (r, w')"
  show "lands E jid i (\<lambda>r. r = None) r w'"
    using m(3)
  proof (rule sbind_cases)
    fix e assume "m w = (Inl e, w')" "r = Inl e"
    then show ?thesis using movesD [OF m(1,2)] by fastforce
  next
    fix x w1 assume x: "m w = (Inr x, w1)" "ret None w1 = (r, w')"
    then show ?thesis using movesD [OF m(1,2) x(1)] by auto
  qed
qed

lemma moves_after:
  assumes "moves E jid i K m" "\<And>w. same_db (xw_wf w) (xw_wf (f w))"
  shows "moves E jid i K (\<lambda>w. m (f w))"
  by (rule movesI) (use assms movesD [OF assms(1)] same_db_running in blast)

lemma stays_save_point:
  assumes "undisturbed E"
  shows "stays E jid i (save_patch C E site key g)" "stays E jid i (save_point C E site job x g key)"
  unfolding save_point_def
  by (rule moves_quiet, auto simp: save_patch_def on_ex_def plain_cause [OF assms] split: if_splits option.splits sum.splits)+

lemma same_set_ex [simp]: "xw_wf (set_ex f w) = xw_wf w" "xw_ws (set_ex f w) = xw_ws w"
  by (simp_all add: set_ex_def)

lemma same_execution [simp]:
  "xw_wf (cancel_execution E site x w) = xw_wf w" "xw_wf (fail_execution E site x c m w) = xw_wf w"
  "xw_ws (cancel_execution E site x w) = xw_ws w" "xw_ws (fail_execution E site x c m w) = xw_ws w"
  by (simp_all add: cancel_execution_def fail_execution_def)

lemma paused_checkpoint_same_db:
  "save_paused_checkpoint C E job x item policy w = (r, w') \<Longrightarrow> same_db (xw_wf w) (xw_wf w')"
  by (auto simp: save_paused_checkpoint_def sbind_def save_patch_def save_point_def on_ex_def Let_def
      split: sum.splits if_splits option.splits prod.splits)

lemma after_pause_same: "same_db (xw_wf w) (xw_wf (after_pause C E job x item policy w))"
  using paused_checkpoint_same_db [of C E job x item policy w]
  by (cases "save_paused_checkpoint C E job x item policy w") (auto simp: after_pause_def split: sum.split)

lemma moves_run_failed:
  assumes "undisturbed E" "trim_space i = i" "wf_id job = i" "j_id j = jid"
  shows "moves E jid i (\<lambda>r. r = None) (run_failed C E job j x item policy False e)"
proof (cases "classify E e")
  case (fields c m p)
  show ?thesis
  proof (cases p)
    case True
    then have "run_failed C E job j x item policy False e =
        (\<lambda>w. sbind (pause_workflow E job j c m) (\<lambda>_. ret None)
          (after_pause C E job x item policy (fail_execution E AtRun x c m w)))"
      using fields undisturbedD(1) [OF assms(1)] by (auto simp: run_failed_def Let_def)
    then show ?thesis
      using moves_after [OF moves_weaken [OF moves_pause [OF assms(1-3)]],
          where f = "\<lambda>w. after_pause C E job x item policy (fail_execution E AtRun x c m w)"]
        after_pause_same same_execution(2) by metis
  next
    case False
    then have "run_failed C E job j x item policy False e =
        (\<lambda>w. sbind (fail_workflow E job j e) (\<lambda>_. ret None) (fail_execution E AtRun x c m w))"
      using fields undisturbedD(1) [OF assms(1)] by (auto simp: run_failed_def)
    moreover have "\<not> snd (snd (classify E e))" using fields False by simp
    ultimately show ?thesis
      using moves_after [OF moves_weaken [OF moves_fail_workflow [OF assms(1-3) _ assms(4)]], where f = "fail_execution E AtRun x c m"]
      by simp
  qed
qed


lemma moves_late_stop:
  assumes "undisturbed E" "trim_space i = i" "wf_id job = i" "j_id j = jid" "moves E jid i (\<lambda>r. r = None) go"
  shows "moves E jid i (\<lambda>r. r = None) (late_stop E job j x go)"
proof -
  have f: "moves E jid i (\<lambda>r. r = None)
      (\<lambda>w. sbind (fail_workflow E job j e) (\<lambda>_. ret None) (fail_execution E AtCapture x c m w))"
    if "\<not> snd (snd (classify E e))" for e c m
    using moves_after [OF moves_weaken [OF moves_fail_workflow [OF assms(1-3) that assms(4)]],
        where f = "fail_execution E AtCapture x c m"] by simp
  show ?thesis
  proof (cases "xe_watch E AtCapture")
    case None
    show ?thesis
    proof (cases "xe_ctx E AtCapture")
      case None
      then have "late_stop E job j x go = go" using \<open>xe_watch E AtCapture = None\<close> by (auto simp: late_stop_def)
      then show ?thesis using assms(5) by simp
    next
      case (Some c)
      then show ?thesis using f [of "EContext c"] None
        by (simp add: late_stop_def [abs_def] classify_def classify_executor_error_def)
    qed
  next
    case (Some r)
    then obtain m where "r = WatchFailed m" using undisturbedD(2) [OF assms(1)] by (cases r) auto
    then show ?thesis using f [of "ECause (CWatch m)"] Some
      by (simp add: late_stop_def [abs_def] classify_def classify_executor_error_def)
  qed
qed

lemma moves_run_succeeded:
  assumes "undisturbed E" "trim_space i = i" "wf_id job = i" "j_id j = jid"
  shows "moves E jid i (\<lambda>r. r = None) (run_succeeded C E job j x item tok policy)"
proof (rule movesI)
  fix w r w' assume w: "running jid i (xw_wf w)" "run_succeeded C E job j x item tok policy w = (r, w')"
  show "lands E jid i (\<lambda>r. r = None) r w'"
  proof (cases "capture_at E item policy w")
    case (Inl e)
    then show ?thesis using w plain_cause [OF assms(1)]
      by (cases e) (auto simp: run_succeeded_def on_ctx_up [OF assms(1)])
  next
    case (Inr g)
    let ?go = "close_run C E job x item tok g"
    have "moves E jid i (\<lambda>r. r = None) ?go"
      unfolding on_ctx_up [OF assms(1)] close_run_def Let_def
      by (intro moves_bind stays_save_point stays_calls assms(1)) (rule movesI, auto)
    then have "moves E jid i (\<lambda>r. r = None) (late_stop E job j x ?go)"
      by (rule moves_late_stop [OF assms])
    moreover have "lands E jid i (\<lambda>r. r = None) r w'" if "head_moved job g"
      using w Inr that plain_cause [OF assms(1)] by (auto simp: run_succeeded_def on_ctx_up [OF assms(1)])
    moreover have "late_stop E job j x ?go w = (r, w')" if "\<not> head_moved job g"
      using w(2) Inr that by (simp add: run_succeeded_def on_ctx_def undisturbedD(1) [OF assms(1)] Let_def)
    ultimately show ?thesis using movesD w(1) by blast
  qed
qed

lemma run_runner_cases:
  obtains (failed) r0 lw t lost e where
      "xe_run E (tools_of E item policy) (max_tool_calls (wf_limits job)) \<lparr> rc_execution = x, rc_budget = budget_of job \<rparr> (xw_loop w) = (r0, lw)"
      "renew_lease (xc_lease_ttl C) (w_id item) tok (xe_renewals E) (xw_ws w) = (t, lost)" "run_error_of E r0 lost = Some e"
      "run_runner C E job j x item tok policy w =
         run_failed C E job j x item policy (xe_watch E AtRun = Some WatchCancelled) e (w\<lparr> xw_loop := lw, xw_ws := t \<rparr>)"
  | (succeeded) lw t lost where
      "xe_run E (tools_of E item policy) (max_tool_calls (wf_limits job)) \<lparr> rc_execution = x, rc_budget = budget_of job \<rparr> (xw_loop w) = (Inr (), lw)"
      "renew_lease (xc_lease_ttl C) (w_id item) tok (xe_renewals E) (xw_ws w) = (t, lost)"
      "run_runner C E job j x item tok policy w = run_succeeded C E job j x item tok policy (w\<lparr> xw_loop := lw, xw_ws := t \<rparr>)"
proof -
  obtain r0 lw t lost where h: "xe_run E (tools_of E item policy) (max_tool_calls (wf_limits job))
      \<lparr> rc_execution = x, rc_budget = budget_of job \<rparr> (xw_loop w) = (r0, lw)"
    "renew_lease (xc_lease_ttl C) (w_id item) tok (xe_renewals E) (xw_ws w) = (t, lost)" by fastforce
  show thesis
  proof (cases "run_error_of E r0 lost")
    case None
    then have "r0 = Inr ()" by (auto simp: run_error_of_def split: option.splits watch_result.splits sum.splits)
    then show thesis using succeeded h None by (simp add: run_runner_def)
  next
    case (Some e)
    then show thesis using failed h by (simp add: run_runner_def)
  qed
qed

lemma moves_work:
  assumes "undisturbed E" "trim_space i = i" "wf_id job = i" "j_id j = jid"
  shows "moves E jid i (\<lambda>r. r = None) (work C E job j x0 item tok policy)"
  unfolding work_def
proof (intro moves_bind moves_on_run stays_calls assms(1))
  fix x
  have nc: "(xe_watch E AtRun = Some WatchCancelled) = False" using undisturbedD(2) [OF assms(1)] by simp
  show "moves E jid i (\<lambda>r. r = None) (run_runner C E job j x item tok policy)"
  proof (rule movesI)
    fix w r w' assume w: "running jid i (xw_wf w)" "run_runner C E job j x item tok policy w = (r, w')"
    have run: "running jid i (xw_wf (w\<lparr> xw_loop := lw, xw_ws := t \<rparr>))" for lw t using w(1) by simp
    show "lands E jid i (\<lambda>r. r = None) r w'"
    proof (cases rule: run_runner_cases [of E item policy job x w C tok j])
      case (failed r0 lw t lost e)
      then show ?thesis using movesD [OF moves_run_failed [OF assms] run] w(2) unfolding nc by metis
    next
      case (succeeded lw t lost)
      then show ?thesis using movesD [OF moves_run_succeeded [OF assms] run] w(2) by metis
    qed
  qed
qed

lemma moves_leased:
  assumes "moves E jid i K m"
  shows "moves E jid i K (leased E item tok policy m)"
proof (rule movesI)
  fix w r w' assume w: "running jid i (xw_wf w)" "leased E item tok policy m w = (r, w')"
  obtain r1 w1 where m: "m w = (r1, w1)" by fastforce
  have g: "xw_wf (give_back E item tok policy w1) = xw_wf w1"
    by (auto simp: give_back_def split: sum.splits)
  have "r = r1 \<and> xw_wf w' = xw_wf w1"
    using w(2) m g by (auto simp: leased_def split: sum.splits option.splits)
  then show "lands E jid i K r w'" using movesD [OF assms w(1) m] by (simp add: lands_def split: sum.splits)
qed


lemma moves_run_execution:
  assumes "undisturbed E" "trim_space i = i" "wf_id job = i" "j_id j = jid"
  shows "moves E jid i (\<lambda>_. True) (run_execution C E job j x item policy)"
  unfolding run_execution_def
proof (intro moves_bind moves_on_run stays_calls assms(1))
  fix l :: "workspace \<times> string"
  obtain ws tok where l: "l = (ws, tok)" by fastforce
  have m: "moves E jid i (\<lambda>r. r = None) (leased E item tok policy
        (sbind (report E AtLease job j ''executor.lease.acquired'' [(''workspace_id'', JStr (w_id item))]) (\<lambda>_.
         work C E job j x item tok policy)))" (is "moves E jid i _ ?m")
    by (intro moves_leased moves_bind stays_calls moves_work assms)
  show "moves E jid i (\<lambda>_. True) (case l of (_, tok) \<Rightarrow> sbind (leased E item tok policy
        (sbind (report E AtLease job j ''executor.lease.acquired'' [(''workspace_id'', JStr (w_id item))]) (\<lambda>_.
         work C E job j x item tok policy)))
        (\<lambda>res. case res of None \<Rightarrow> ret () | Some done \<Rightarrow> finish_workflow E job done j))"
  proof (rule movesI)
    fix w r w'
    assume w: "running jid i (xw_wf w)" "(case l of (_, tok) \<Rightarrow> sbind (leased E item tok policy
        (sbind (report E AtLease job j ''executor.lease.acquired'' [(''workspace_id'', JStr (w_id item))]) (\<lambda>_.
         work C E job j x item tok policy)))
        (\<lambda>res. case res of None \<Rightarrow> ret () | Some done \<Rightarrow> finish_workflow E job done j)) w = (r, w')"
    have "sbind ?m (\<lambda>res. case res of None \<Rightarrow> ret () | Some done \<Rightarrow> finish_workflow E job done j) w = (r, w')"
      using w(2) l by simp
    then show "lands E jid i (\<lambda>_. True) r w'"
    proof (rule sbind_cases)
      fix e assume "?m w = (Inl e, w')" "r = Inl e"
      then show ?thesis using movesD [OF m w(1)] by fastforce
    next
      fix res w1
      assume x: "?m w = (Inr res, w1)" "(case res of None \<Rightarrow> ret () | Some done \<Rightarrow> finish_workflow E job done j) w1 = (r, w')"
      then show ?thesis using movesD [OF m w(1) x(1)] movesD [OF moves_finish [OF assms(1-3)]]
        by (cases res) auto
    qed
  qed
qed

lemma execution_failure_plain:
  "\<not> snd (snd (classify E (ERun (execution_failure x))))"
  by (simp add: execution_failure_def classify_def classify_executor_error_def Let_def)

lemma moves_stage_run:
  assumes "undisturbed E" "trim_space i = i" "wf_id job = i" "j_id j = jid"
  shows "moves E jid i (\<lambda>_. True) (stage_run C E job j)"
proof -
  have s: "stays E jid i (\<lambda>w. case xe_settings E (wf_project_id job) of
      Inl m \<Rightarrow> (Inl (ECause (CSettings m)), w) | Inr s \<Rightarrow> (Inr s, w))"
    by (rule moves_quiet) (auto simp: plain_cause [OF assms(1)] split: sum.splits)
  show ?thesis
    unfolding stage_run_def
  proof (intro moves_bind moves_on_run stays_calls assms(1) s)
    fix s :: agent_settings and item :: workspace
    show "moves E jid i (\<lambda>_. True) (case executor_snapshot s of None \<Rightarrow> fail_with (ECause CNotEnabled)
        | Some (agent, policy) \<Rightarrow>
           sbind (report E AtSettings job j ''executor.settings.ready'' [(''agent_settings_version'', JInt (as_version s))]) (\<lambda>_.
           sbind (on_run E AtCreate (on_ex CCreate (create_or_get (xe_new_id E AtCreate) (xe_now E AtCreate) (xe_refs_ok E)
                    (execution_input C job item s agent)))) (\<lambda>(x, _).
           if ex_status_of x = ExCompleted then finish_workflow E job x j
           else if ex_status_of x = ExFailed then fail_workflow E job j (ERun (execution_failure x))
           else
             sbind (report E AtCreate job j ''executor.execution.ready''
               [(''execution_id'', JStr (ex_id x)), (''provider'', JStr (ex_provider x)), (''model'', JStr (ex_model x))]) (\<lambda>_.
             run_execution C E job j x item policy))))"
    proof (cases "executor_snapshot s")
      case None
      then show ?thesis using moves_fail [OF plain_cause [OF assms(1)]] by simp
    next
      case (Some ap)
      obtain a p where ap: "ap = (a, p)" by fastforce
      show ?thesis
        unfolding Some ap
        by (simp, intro moves_bind moves_on_run stays_calls assms(1))
          (auto intro!: moves_finish moves_fail_workflow moves_bind stays_calls moves_run_execution assms execution_failure_plain
            split: prod.split)
    qed
  qed
qed

lemma watchdog_lands:
  assumes "undisturbed E" "moves E jid i (\<lambda>_. True) m" "running jid i (xw_wf w)" "with_watchdog E m w = (r, w')"
  shows "lands E jid i (\<lambda>_. True) r w' \<and> (\<forall>e. r = Inl e \<longrightarrow> \<not> is_ctx CtxCanceled e)"
proof -
  obtain r1 w1 where m: "m w = (r1, w1)" by fastforce
  note l = movesD [OF assms(2,3) m]
  have p: "plain_error E (ERun (Persisted stalled_code msg))" for msg
    by (simp add: plain_error_def classify_def classify_executor_error_def plain_char_def)
  show ?thesis
  proof (cases r1)
    case (Inl e)
    then have e: "plain_error E e" using l by simp
    show ?thesis
    proof (cases "xe_stall E AtEnd")
      case None
      then show ?thesis using assms(4) m Inl l e by (auto simp: with_watchdog_def plain_error_def)
    next
      case (Some msg)
      then show ?thesis using assms(4) m Inl l e p undisturbedD(1) [OF assms(1), of AtEnd]
        by (auto simp: with_watchdog_def split: if_splits)
    qed
  qed (use assms(4) m l in \<open>auto simp: with_watchdog_def\<close>)
qed


lemma started_shows:
  assumes "wf_transition e (wf_id v) (started_input v j) db = Inr (db', v')" "wf_get db (wf_id v) = Inr v"
    "wf_status_of v = StQueued" "wf_current_dispatch_id v \<in> {[], jid}" "wf_db_ok db" "new_id_ok e"
  shows "running jid (wf_id v) db' \<and> wf_id v' = wf_id v"
  using assms(1)
proof (rule wf_transition_cases)
  fix w0 nxt details q d evs
  assume l: "lookup_by wf_id (trim_space (wf_id v)) (db_workflows db) = Some w0"
    and g: "transition_guards w0 (action_of (started_input v j)) (started_input v j) = Inr (nxt, details)"
    and q: "enqueued_dispatch e w0 (action_of (started_input v j)) nxt (db_jobs db) q d"
    and v': "v' = apply_transition e (action_of (started_input v j)) (started_input v j) nxt
      (dispatch_after w0 (action_of (started_input v j)) d) w0"
  have "lookup_by wf_id (trim_space (wf_id v)) (db_workflows db) = Some v" using wf_get_Inr [OF assms(2)] by blast
  then have w0: "w0 = v" using l by simp
  have n: "nxt = StExecuting"
    using transition_guards_Inr(1) [OF g] assms(3) w0 by (simp add: next_status_def transition_table_def)
  have "d = []" using q by (simp add: enqueued_dispatch_def dispatch_type_def dispatch_for_def)
  then have "wf_current_dispatch_id v' \<in> {[], jid}"
    using v' w0 assms(4) by (auto simp: dispatch_after_def nullable_string_def)
  moreover have "wf_get db' (wf_id v) = Inr v'" using transition_shows [OF assms(1,2)] by auto
  moreover have "wf_db_ok db'" using wf_db_ok_transition [OF assms(5,1,6)] .
  ultimately show ?thesis using v' w0 n by (auto simp: running_def)
qed

lemma mark_trimmed: "mark_workflow_failed E (trim_space i) j e = mark_workflow_failed E i j e"
proof -
  have "read_wf f (trim_space i) = read_wf f i" for f by (rule ext) (simp add: read_wf_def wf_get_def)
  then show ?thesis by (simp add: mark_workflow_failed_def)
qed

lemma mark_over:
  assumes "stage_over i (xw_wf w)"
  shows "mark_workflow_failed E i j e w = (Inr False, w)"
  using assms by (auto simp: stage_over_def mark_workflow_failed_def sbind_def read_wf_def can_run_def)

lemma mark_succeeds:
  assumes "undisturbed E" "trim_space i = i" "live jid i (xw_wf w)" "j_id j = jid" "plain_error E e"
    "length (marshal (JObj (mark_details j))) \<le> 32768"
  shows "\<exists>w'. mark_workflow_failed E i j e w = (Inr True, w') \<and> stage_over i (xw_wf w')"
proof -
  obtain v where v: "wf_get (xw_wf w) i = Inr v" "can_run (wf_status_of v)" "wf_current_dispatch_id v \<in> {[], jid}"
    "wf_db_ok (xw_wf w)" using assms(3) by (auto simp: live_def)
  then have iv: "wf_id v = i" using wf_get_Inr assms(2) by fastforce
  obtain c m p where c: "classify E e = (c, m, p)" by (cases "classify E e") auto
  have p: "\<not> p" "trim_space m \<noteq> []"
    using assms(5) c by (auto simp: plain_error_def classify_def classify_executor_error_def split: option.splits)
  have "wf_status_of v \<in> failure_statuses" using v(2) by (auto simp: can_run_def failure_statuses_def)
  then obtain db' v' where "wf_transition (xe_wf_env E AtFail) (wf_id v) (failed_input v c m (mark_details j)) (xw_wf w) = Inr (db', v')"
    using fail_accepted [OF v(4), of v "failed_input v c m (mark_details j)" "mark_details j" "xe_wf_env E AtFail"] v(1) iv p(2) assms(6)
    by (auto simp: failed_input_def transition_action [unfolded failed_input_def] simp del: marshal.simps)
  moreover obtain r w' where m: "mark_workflow_failed E i j e w = (r, w')" by fastforce
  moreover have "\<not> snd (snd (classify E e))" using c p by simp
  ultimately show ?thesis
    using mark_cases [OF assms(1,2) _ _ assms(4) m] assms(3,4) v iv c p
    by (auto simp: mark_workflow_failed_def sbind_def read_wf_def)
qed

definition ended :: "exec_env \<Rightarrow> string \<Rightarrow> string \<Rightarrow> exec_error + unit \<Rightarrow> exec_world \<Rightarrow> bool" where
  "ended E jid i r w = (case r of
       Inr _ \<Rightarrow> stage_over i (xw_wf w)
     | Inl e \<Rightarrow> (live jid i (xw_wf w) \<or> stage_over i (xw_wf w)) \<and> plain_error E e \<and> \<not> is_ctx CtxCanceled e)"

lemma lands_ended:
  "lands E jid i (\<lambda>_. True) r w \<Longrightarrow> \<forall>e. r = Inl e \<longrightarrow> \<not> is_ctx CtxCanceled e \<Longrightarrow> ended E jid i r w"
  by (auto simp: ended_def running_live split: sum.splits)

lemma body_ended:
  assumes "undisturbed E" "execution_gate (xw_wf w) (j_id j) p = GateProceed job" "wf_db_ok (xw_wf w)"
    "wf_status_of job = StQueued \<longrightarrow> wf_version job = dp_workflow_version p"
    "sbind (ensure_executing E job p j) (\<lambda>job'.
       if wf_execution_version job' < 1 then fail_with (ECause CNoVersion)
       else with_watchdog E (stage_run C E job' j)) w = (r, w')"
  shows "ended E (j_id j) (wf_id job) r w'"
proof -
  have g: "wf_get (xw_wf w) (dp_workflow_job_id p) = Inr job" "can_run (wf_status_of job)"
    "wf_current_dispatch_id job \<in> {[], j_id j}"
    using assms(2) by (auto simp: execution_gate_def can_run_def split: sum.splits if_splits)
  then have i: "wf_id job = trim_space (dp_workflow_job_id p)" using wf_get_Inr by blast
  then have tr: "trim_space (wf_id job) = wf_id job" and get: "wf_get (xw_wf w) (wf_id job) = Inr job"
    using g(1) by (simp_all add: wf_get_def)
  have lv: "live (j_id j) (wf_id job) (xw_wf w)" using assms(3) get g by (auto simp: live_def)
  have body: "ended E (j_id j) (wf_id job) r2 w2"
    if run: "running (j_id j) (wf_id job) (xw_wf w1)" "wf_id job' = wf_id job"
      and h: "(if wf_execution_version job' < 1 then fail_with (ECause CNoVersion)
         else with_watchdog E (stage_run C E job' j)) w1 = (r2, w2)" for job' w1 r2 w2
  proof (cases "wf_execution_version job' < 1")
    case True
    then show ?thesis using h run plain_cause [OF assms(1)] by (auto simp: ended_def running_live)
  next
    case False
    then show ?thesis
      using watchdog_lands [OF assms(1) moves_stage_run [OF assms(1) tr run(2) refl] run(1)] h lands_ended by auto
  qed
  show ?thesis
    using assms(5)
  proof (rule sbind_cases)
    fix e assume e: "ensure_executing E job p j w = (Inl e, w')" "r = Inl e"
    then have "w' = w \<and> (\<exists>c. e = ECause c)"
      by (auto simp: ensure_executing_def on_ctx_up [OF assms(1)] split: if_splits sum.splits)
    then show ?thesis using e(2) lv plain_cause [OF assms(1)] by (auto simp: ended_def)
  next
    fix job' w1 assume x: "ensure_executing E job p j w = (Inr job', w1)"
      "(if wf_execution_version job' < 1 then fail_with (ECause CNoVersion)
        else with_watchdog E (stage_run C E job' j)) w1 = (r, w')"
    have "running (j_id j) (wf_id job) (xw_wf w1) \<and> wf_id job' = wf_id job"
    proof (cases "wf_status_of job = StExecuting")
      case True
      then show ?thesis using x(1) get g assms(3) by (auto simp: ensure_executing_def running_def)
    next
      case False
      then have q: "wf_status_of job = StQueued" "wf_version job = dp_workflow_version p"
        using g(2) assms(4) by (auto simp: can_run_def)
      then obtain db where "wf_transition (xe_wf_env E AtStarted) (wf_id job) (started_input job j) (xw_wf w) = Inr (db, job')"
        "w1 = w\<lparr> xw_wf := db \<rparr>"
        using x(1) get by (auto simp: ensure_executing_def on_ctx_up [OF assms(1)] split: sum.splits if_splits)
      then show ?thesis
        using started_shows [OF _ get q(1) g(3) assms(3)] undisturbedD(3) [OF assms(1)] by simp
    qed
    then show ?thesis using body x(2) by blast
  qed
qed


text \<open>C0: an execution that keeps failing never leaves its workflow stranded. Whatever the runner, Git, the
  artifact store, the stores and the clock do, if the daemon is not shutting down and nobody cancels
  the workflow, then a delivery that reports success, and every last delivery of the queue job, leaves
  the workflow in CHECKING or FAILED; an earlier delivery that reports an error leaves it there, or
  still QUEUED or EXECUTING under its dispatch for the next delivery.\<close>

theorem execution_never_strands:
  assumes "wf_db_ok (xw_wf w)" "undisturbed E" "decode_execution_dispatch (j_payload j) = Inr p"
    and "execution_gate (xw_wf w) (j_id j) p = GateProceed job"
    and "wf_status_of job = StQueued \<longrightarrow> wf_version job = dp_workflow_version p"
    and "length (marshal (JObj (mark_details j))) \<le> 32768"
    and "execution_handle C E j w = (r, w')"
  shows "(r = Inr () \<or> j_max_attempts j \<le> j_attempts j \<longrightarrow> stage_over (wf_id job) (xw_wf w'))
    \<and> (stage_over (wf_id job) (xw_wf w') \<or> live (j_id j) (wf_id job) (xw_wf w'))"
proof -
  let ?m = "sbind (ensure_executing E job p j) (\<lambda>job'.
       if wf_execution_version job' < 1 then fail_with (ECause CNoVersion)
       else with_watchdog E (stage_run C E job' j))"
  obtain r1 w1 where m: "?m w = (r1, w1)" by fastforce
  note e = body_ended [OF assms(2,4,1,5) m]
  have i: "wf_id job = trim_space (dp_workflow_job_id p)"
    using assms(4) wf_get_Inr by (auto simp: execution_gate_def split: sum.splits if_splits)
  have h: "settled_by E (dp_workflow_job_id p) j ?m w = (r, w')"
    using assms(3,4,7) by (simp add: execution_handle_def on_ctx_up [OF assms(2)])
  show ?thesis
  proof (cases r1)
    case (Inr u)
    then show ?thesis using h m e by (auto simp: settled_by_def ended_def)
  next
    case (Inl x)
    have x: "plain_error E x" "\<not> is_ctx CtxCanceled x" "live (j_id j) (wf_id job) (xw_wf w1) \<or> stage_over (wf_id job) (xw_wf w1)"
      using e Inl by (auto simp: ended_def)
    show ?thesis
    proof (cases "j_attempts j < j_max_attempts j \<and> fst (classify E x) \<noteq> stalled_code")
      case True
      then have "r = Inl x \<and> w' = w1" using h m Inl x(2) undisturbedD(1) [OF assms(2)]
        by (simp add: settled_by_def settle_final_dispatch_failure_def)
      then show ?thesis using x True by auto
    next
      case False
      then have s: "settled_by E (dp_workflow_job_id p) j ?m w =
          (case mark_workflow_failed E (wf_id job) j x w1 of
            (Inl e', w2) \<Rightarrow> (Inl (EJoin x e'), w2)
          | (Inr failed, w2) \<Rightarrow> if failed then (Inr (), w2) else (Inl x, w2))"
        using m Inl x(2) undisturbedD(1) [OF assms(2)] i mark_trimmed
        by (auto simp: settled_by_def settle_final_dispatch_failure_def)
      show ?thesis
      proof (cases "stage_over (wf_id job) (xw_wf w1)")
        case True
        then show ?thesis using h s mark_over by simp
      next
        case False
        then have "live (j_id j) (wf_id job) (xw_wf w1)" using x(3) by blast
        then obtain w2 where "mark_workflow_failed E (wf_id job) j x w1 = (Inr True, w2)" "stage_over (wf_id job) (xw_wf w2)"
          using mark_succeeds [OF assms(2) _ _ refl x(1) assms(6), of "wf_id job" w1] i trim_space_idem by metis
        then show ?thesis using h s by simp
      qed
    qed
  qed
qed


subsection \<open>The workspace lease\<close>

text \<open>What the stages of a run do to the lease: they keep it unless they hand the run over as complete.\<close>

definition keeps_lease :: "workspace \<Rightarrow> string \<Rightarrow> 'a option xstep \<Rightarrow> bool" where
  "keeps_lease item tok m = (\<forall>w. write_held (w_id item) tok (xw_ws w) \<longrightarrow>
     post m w (\<lambda>r w'. (\<forall>x. r \<noteq> Inr (Some x)) \<longrightarrow> write_held (w_id item) tok (xw_ws w')))"

lemma mark_ws: "mark_workflow_failed E i j e w = (r, w') \<Longrightarrow> xw_ws w' = xw_ws w"
  by (auto simp: mark_workflow_failed_def sbind_def read_wf_def split: sum.splits if_splits prod.splits)

lemma fail_workflow_ws: "fail_workflow E job j e w = (r, w') \<Longrightarrow> xw_ws w' = xw_ws w"
  by (auto simp: fail_workflow_def sbind_def dest: mark_ws split: sum.splits prod.splits)

lemma pause_workflow_ws: "pause_workflow E job j c m w = (r, w') \<Longrightarrow> xw_ws w' = xw_ws w"
  by (auto simp: pause_workflow_def sbind_def read_wf_def split: sum.splits if_splits prod.splits)

lemma save_patch_ws: "save_patch C E site key g w = (r, w') \<Longrightarrow> xw_ws w' = xw_ws w \<and> xw_loop w' = xw_loop w"
  by (auto simp: save_patch_def split: if_splits option.splits)

lemma on_ex_ws: "on_ex f m w = (r, w') \<Longrightarrow> xw_ws w' = xw_ws w \<and> lw_tree (xw_loop w') = lw_tree (xw_loop w) \<and> xw_artifacts w' = xw_artifacts w"
  by (auto simp: on_ex_def split: sum.splits)

lemma after_pause_ws: "xw_ws (after_pause C E job x item policy w) = xw_ws w"
proof -
  obtain r w' where s: "save_paused_checkpoint C E job x item policy w = (r, w')" by fastforce
  then have "xw_ws w' = xw_ws w"
    by (auto simp: save_paused_checkpoint_def sbind_def save_point_def Let_def
        dest!: save_patch_ws on_ex_ws split: sum.splits if_splits prod.splits)
  then show ?thesis using s by (auto simp: after_pause_def split: sum.splits)
qed

lemma run_failed_ws: "run_failed C E job j x item policy b e w = (r, w') \<Longrightarrow> xw_ws w' = xw_ws w \<and> (\<forall>y. r \<noteq> Inr (Some y))"
  by (auto simp: run_failed_def sbind_def Let_def after_pause_ws
      dest!: fail_workflow_ws pause_workflow_ws split: if_splits prod.splits sum.splits)

lemma late_stop_cases:
  assumes "late_stop E job j x go w = (r, w')"
  shows "go w = (r, w') \<or> (xw_ws w' = xw_ws w \<and> (\<forall>y. r \<noteq> Inr (Some y)))"
  using assms
  by (auto simp: late_stop_def sbind_def Let_def dest!: fail_workflow_ws
      split: option.splits watch_result.splits prod.splits sum.splits)


lemma on_ws_done: "on_ws f m w = (r, w') \<Longrightarrow> (\<exists>e. r = Inl e \<and> w' = w) \<or> (\<exists>t x. m (xw_ws w) = Inr (t, x) \<and> r = Inr x \<and> w' = w\<lparr> xw_ws := t \<rparr>)"
  by (auto simp: on_ws_def split: sum.splits)


lemma on_ctx_Inr: "on_ctx E site m w = (Inr x, w') \<Longrightarrow> m w = (Inr x, w')"
  by (simp add: on_ctx_def split: if_splits)

lemma on_ctx_quiet:
  assumes "on_ctx E site m w = (r, w')" "\<And>r w'. m w = (r, w') \<Longrightarrow> f w' = f w"
  shows "f w' = f w"
  using assms by (auto simp: on_ctx_def split: if_splits)

lemma close_run_quiet:
  assumes "close_run C E job x item tok g w = (r, w')"
  shows "lw_tree (xw_loop w') = lw_tree (xw_loop w) \<and> ((\<forall>y. r \<noteq> Inr (Some y)) \<longrightarrow> xw_ws w' = xw_ws w)"
proof -
  let ?f = "\<lambda>w :: exec_world. (lw_tree (xw_loop w), xw_ws w)"
  have q: "\<And>w r w'. on_ctx E AtArtifact (save_patch C E AtArtifact k g) w = (r, w') \<Longrightarrow> ?f w' = ?f w"
    "\<And>w r w'. on_ctx E AtCheckpoint (save_point C E AtCheckpoint job x g k) w = (r, w') \<Longrightarrow> ?f w' = ?f w"
    "\<And>w r w'. on_ctx E AtComplete (on_ex CComplete m) w = (r, w') \<Longrightarrow> ?f w' = ?f w" for k m
    by (erule on_ctx_quiet, auto simp: save_point_def dest!: save_patch_ws on_ex_ws)+
  have p: "lw_tree (xw_loop w2) = lw_tree (xw_loop w1) \<and> (\<forall>e. r = Inl e \<longrightarrow> xw_ws w2 = xw_ws w1)"
    if "on_ctx E AtReturn (on_ws CReturn m) w1 = (r, w2)" for m r w1 w2
    using that by (auto simp: on_ctx_def dest!: on_ws_done split: if_splits)
  then show ?thesis
    using assms unfolding close_run_def Let_def
    by (auto elim!: sbind_cases dest!: q p)
qed

text \<open>What a successful run has recorded.\<close>

definition recorded ::
  "exec_config \<Rightarrow> exec_env \<Rightarrow> wf_job \<Rightarrow> execution \<Rightarrow> workspace \<Rightarrow> git_snapshot \<Rightarrow> exec_world \<Rightarrow> bool" where
  "recorded C E job y item g w =
     (y \<in> set (xd_executions (lw_db (xw_loop w))) \<and> ex_status_of y = ExCompleted
      \<and> (\<exists>c\<in>set (xd_checkpoints (lw_db (xw_loop w))). cp_execution_id c = ex_id y
           \<and> cp_patch_checksum c = ''sha256:'' @ xe_sha256 E (gs_patch g))
      \<and> (xc_artifacts C \<longrightarrow> (\<exists>k. (k, gs_patch g) \<in> set (xw_artifacts w)))
      \<and> (\<exists>r\<in>set (xw_ws w). ws_id r = w_id item \<and> ws_status r = WsReady \<and> ws_lease_token r = None
           \<and> ws_head_sha r = trim_space (gs_head g) \<and> ws_dirty r = gs_dirty g))"

lemma save_checkpoint_saves:
  assumes "save_checkpoint sha new_id now i base head patch changed key db = Inr (db', c)"
  shows "(\<exists>k\<in>set (xd_checkpoints db'). cp_execution_id k = i \<and> cp_patch_checksum k = ''sha256:'' @ sha patch)"
proof -
  define k where "k = \<lparr> cp_id = new_id, cp_execution_id = i, cp_sequence = next_checkpoint db i,
     cp_base_commit_sha = base, cp_workspace_head_sha = head, cp_patch_checksum = ''sha256:'' @ sha patch,
     cp_patch_bytes = length patch, cp_changed_files = changed, cp_patch_text = patch,
     cp_artifact_key = trim_space key, cp_created_at = now \<rparr>"
  have s: "(case insert_checkpoint k db of Inr db' \<Rightarrow> Inr (db', k)
      | Inl err \<Rightarrow> (case latest_checkpoint db i of
           Inr old \<Rightarrow> if cp_patch_checksum old = cp_patch_checksum k then Inr (db, old) else Inl err
         | Inl _ \<Rightarrow> Inl err)) = Inr (db', c)"
    using assms unfolding save_checkpoint_def Let_def k_def [symmetric] .
  show ?thesis
  proof (cases "insert_checkpoint k db")
    case (Inr d)
    then have "d = db'" using s by simp
    then have "k\<lparr> cp_created_at := stored_at (cp_created_at k) \<rparr> \<in> set (xd_checkpoints db')"
      using Inr by (auto simp: insert_checkpoint_def split: if_splits)
    then show ?thesis by (rule rev_bexI) (simp add: k_def)
  next
    case (Inl e)
    then obtain old where o: "latest_checkpoint db i = Inr old" "cp_patch_checksum old = ''sha256:'' @ sha patch" "db' = db"
      using s by (auto simp: k_def split: sum.splits if_splits)
    have "old \<in> set (list_checkpoints db i)"
      using o(1) by (auto simp: latest_checkpoint_def Let_def split: if_splits)
    then show ?thesis using o by (auto simp: list_checkpoints_def)
  qed
qed

lemma close_run_records:
  assumes "close_run C E job x item tok g w = (Inr (Some y), w')" "trim_space tok = tok"
  shows "recorded C E job y item g w'"
proof -
  let ?key = "artifact_key job x ''/patch.diff''"
  obtain w1 w2 w3 w4 c u v where s: "save_patch C E AtArtifact ?key g w = (Inr u, w1)"
    "save_point C E AtCheckpoint job x g ?key w1 = (Inr c, w2)"
    "on_ex CComplete (ex_complete (xe_now E AtComplete) (ex_id x)) w2 = (Inr y, w3)"
    "on_ws CReturn (release_write (xe_now E AtReturn) (w_id item) tok (gs_head g) (gs_dirty g)) w3 = (Inr v, w4)"
    "w' = note_event E AtCompleted (wf_id job) ''execution.completed''
        [(''execution_id'', JStr (ex_id y)), (''tool_calls'', JInt (ex_tool_calls y)),
         (''patch_checksum'', JStr (cp_patch_checksum c)),
         (''changed_file_count'', JInt (int (length (gs_changed_files g))))] w4"
    using assms(1) unfolding close_run_def Let_def by (auto elim!: sbind_InrE dest!: on_ctx_Inr)
  have a: "xc_artifacts C \<longrightarrow> (\<exists>k. (k, gs_patch g) \<in> set (xw_artifacts w1))"
    using s(1) by (auto simp: save_patch_def split: option.splits if_splits)
  have cp: "\<exists>k\<in>set (xd_checkpoints (lw_db (xw_loop w2))). cp_execution_id k = ex_id x
      \<and> cp_patch_checksum k = ''sha256:'' @ xe_sha256 E (gs_patch g)"
    using s(2) save_checkpoint_saves by (fastforce simp: save_point_def on_ex_def split: sum.splits)
  have cm: "y \<in> set (xd_executions (lw_db (xw_loop w3))) \<and> ex_status_of y = ExCompleted \<and> ex_id y = ex_id x
      \<and> xd_checkpoints (lw_db (xw_loop w3)) = xd_checkpoints (lw_db (xw_loop w2))"
    using s(3) by (auto simp: on_ex_def ex_complete_def update_execution_def complete_row_ex_def set_update_where
        elim!: update_returning_Some split: sum.splits option.splits)
  obtain r where r: "r \<in> set (xw_ws w4)" "ws_id r = w_id item" "ws_status r = WsReady" "ws_lease_token r = None"
    "ws_head_sha r = trim_space (gs_head g)" "ws_dirty r = gs_dirty g"
  proof -
    obtain t where t: "release_write (xe_now E AtReturn) (w_id item) tok (gs_head g) (gs_dirty g) (xw_ws w3) = Inr (t, v)"
      "xw_ws w4 = t"
      using s(4) by (auto simp: on_ws_def split: sum.splits)
    then obtain r0 where "r0 \<in> set (xw_ws w3)" "holds_token (w_id item) tok r0"
      "t = update_where (\<lambda>r. ws_status r = WsWriteLocked \<and> holds_token (w_id item) tok r \<and> lease_live (xe_now E AtReturn) r)
         (unlock_row (xe_now E AtReturn) (trim_space (gs_head g)) (gs_dirty g)) (xw_ws w3)"
      "ws_status r0 = WsWriteLocked \<and> lease_live (xe_now E AtReturn) r0"
      by (auto simp: release_write_def Let_def elim!: update_returning_Some split: if_splits option.splits)
    then show thesis using that [of "unlock_row (xe_now E AtReturn) (trim_space (gs_head g)) (gs_dirty g) r0"] t(2)
      by (auto simp: set_update_where unlock_row_def drop_lease_def holds_token_def)
  qed
  have f: "xw_artifacts w4 = xw_artifacts w1" "xw_loop w4 = xw_loop w3"
    using s(2,3,4) by (auto simp: save_point_def dest!: on_ex_ws on_ws_done)
  show ?thesis
    unfolding recorded_def using a cp cm r f by (auto simp: s(5))
qed


text \<open>A run up to its end: a delivery that hands its execution over as complete has recorded it, any other
  one still holds the lease.\<close>

lemma run_succeeded_ends:
  assumes "run_succeeded C E job j x item tok policy w = (r, w')" "trim_space tok = tok"
  shows "((\<forall>y. r \<noteq> Inr (Some y)) \<longrightarrow> xw_ws w' = xw_ws w)
    \<and> (\<forall>y. r = Inr (Some y) \<longrightarrow> (\<exists>g. capture_at E item policy w' = Inr g \<and> \<not> head_moved job g \<and> recorded C E job y item g w'))"
proof (cases "xe_down E AtCapture")
  case False
  show ?thesis
  proof (cases "capture_at E item policy w")
    case (Inl e)
    then show ?thesis using assms(1) False by (cases e) (auto simp: run_succeeded_def on_ctx_def)
  next
    case (Inr g)
    show ?thesis
    proof (cases "head_moved job g")
      case False
      then have "late_stop E job j x (close_run C E job x item tok g) w = (r, w')"
        using assms(1) Inr \<open>\<not> xe_down E AtCapture\<close> by (simp add: run_succeeded_def on_ctx_def)
      from late_stop_cases [OF this] show ?thesis
      proof
        assume c: "close_run C E job x item tok g w = (r, w')"
        have "capture_at E item policy w' = Inr g"
          using close_run_quiet [OF c] Inr by (simp add: capture_at_def)
        then show ?thesis using close_run_quiet [OF c] close_run_records [OF _ assms(2)] c False by auto
      qed auto
    qed (use assms(1) Inr False in \<open>auto simp: run_succeeded_def on_ctx_def\<close>)
  qed
qed (use assms(1) in \<open>auto simp: run_succeeded_def on_ctx_def\<close>)

lemma on_run_ex_ws: "on_run E site (on_ex f m) w = (r, w') \<Longrightarrow> xw_ws w' = xw_ws w"
  by (auto simp: on_run_def on_ctx_def dest!: on_ex_ws split: if_splits option.splits)

lemma work_ends:
  assumes "work C E job j x0 item tok policy w = (r, w')" "trim_space tok = tok"
  shows "((\<forall>y. r \<noteq> Inr (Some y)) \<longrightarrow> write_held (w_id item) tok (xw_ws w) \<longrightarrow> write_held (w_id item) tok (xw_ws w'))
    \<and> (\<forall>y. r = Inr (Some y) \<longrightarrow> (\<exists>g. capture_at E item policy w' = Inr g \<and> \<not> head_moved job g \<and> recorded C E job y item g w'))"
  using assms(1) unfolding work_def
proof (rule sbind_cases)
  fix e assume "on_run E AtStart (on_ex CStart (ex_start (xe_now E AtStart) (ex_id x0))) w = (Inl e, w')" "r = Inl e"
  then show ?thesis by (auto dest: on_run_ex_ws)
next
  fix x w1
  assume s: "on_run E AtStart (on_ex CStart (ex_start (xe_now E AtStart) (ex_id x0))) w = (Inr x, w1)"
    and b: "sbind (report E AtStart job j ''execution.started''
       [(''execution_id'', JStr (ex_id x)), (''agent_settings_version'', JInt (ex_agent_settings_version x))])
       (\<lambda>_. run_runner C E job j x item tok policy) w1 = (r, w')"
  define w2 where "w2 = snd (report E AtStart job j ''execution.started''
       [(''execution_id'', JStr (ex_id x)), (''agent_settings_version'', JInt (ex_agent_settings_version x))] w1)"
  have w2: "xw_ws w2 = xw_ws w" "run_runner C E job j x item tok policy w2 = (r, w')"
    using b on_run_ex_ws [OF s] by (simp_all add: w2_def sbind_def report_def)
  have t: "write_held (w_id item) tok (xw_ws w) \<Longrightarrow> write_held (w_id item) tok t"
    if "renew_lease (xc_lease_ttl C) (w_id item) tok (xe_renewals E) (xw_ws w2) = (t, lost)" for t lost
    using renew_lease_held [of "w_id item" tok "xw_ws w" "xc_lease_ttl C" "xe_renewals E"] that w2(1) by simp
  show ?thesis
  proof (cases rule: run_runner_cases [of E item policy job x w2 C tok j])
    case (failed r0 lw t lost e)
    then show ?thesis using run_failed_ws [of C E job j x item policy "xe_watch E AtRun = Some WatchCancelled" e _ r w'] w2(2) t by force
  next
    case (succeeded lw t lost)
    then show ?thesis using run_succeeded_ends [OF _ assms(2), of C E job j x item policy _ r w'] w2(2) t by force
  qed
qed


text \<open>C0: an execution is handed over as complete only when everything the later stages need is stored. When
  the leased part of a delivery reports completion, HEAD of the working tree is the workflow's base
  commit, the execution is COMPLETED, a checkpoint of it carries the digest of the tree's patch, the
  patch is saved when there is an artifact store, and the workspace is READY again with no lease and
  with the captured HEAD and dirty flag.\<close>

theorem completed_work_is_recorded:
  assumes "work C E job j x0 item tok policy w = (Inr (Some y), w')" "trim_space tok = tok"
  shows "\<exists>g. capture (xe_git E) (xe_sha256 E) (w_path item) (tp_max_patch_bytes policy) (lw_tree (xw_loop w')) = Inr g
    \<and> (wf_base_commit_sha job \<noteq> [] \<longrightarrow> gs_head g = wf_base_commit_sha job)
    \<and> y \<in> set (xd_executions (lw_db (xw_loop w'))) \<and> ex_status_of y = ExCompleted
    \<and> (\<exists>c\<in>set (xd_checkpoints (lw_db (xw_loop w'))). cp_execution_id c = ex_id y
         \<and> cp_patch_checksum c = ''sha256:'' @ xe_sha256 E (gs_patch g))
    \<and> (xc_artifacts C \<longrightarrow> (\<exists>k. (k, gs_patch g) \<in> set (xw_artifacts w')))
    \<and> (\<exists>r\<in>set (xw_ws w'). ws_id r = w_id item \<and> ws_status r = WsReady \<and> ws_lease_token r = None
         \<and> ws_head_sha r = trim_space (gs_head g) \<and> ws_dirty r = gs_dirty g)"
proof -
  obtain g where "capture_at E item policy w' = Inr g" "\<not> head_moved job g" "recorded C E job y item g w'"
    using work_ends [OF assms] by blast
  then show ?thesis by (intro exI [of _ g]) (auto simp: capture_at_def head_moved_def recorded_def)
qed

text \<open>C0: a patch over the size limit, or any Git state that cannot be captured, locks the workspace for good.
  When the leased part of a delivery starts with the write lease held and the final tree cannot be
  captured, the deferred return falls back to \<open>Release\<close>: the row keeps WRITE_LOCKED without a lease, and
  every later acquisition, for another attempt, for publication or for a restart, is refused.\<close>

theorem uncapturable_tree_locks_workspace:
  assumes "leased E item tok policy (work C E job j x0 item tok policy) w = (r, w')"
    and "ws_ok (xw_ws w)" "row \<in> set (xw_ws w)" "ws_id row = w_id item" "ws_status row = WsWriteLocked"
    and "ws_lease_token row = Some tok" "trim_space tok = tok" "trim_space (w_id item) = w_id item"
    and "capture (xe_git E) (xe_sha256 E) (w_path item) (tp_max_patch_bytes policy) (lw_tree (xw_loop w')) = Inl err"
    and "trim_space own \<noteq> []" "w_id item \<noteq> []" "ttl > 0"
  shows "acquire_write tok' now' (w_id item) own ttl (xw_ws w') = Inl WsLeaseUnavailable
    \<and> acquire_restart tok' now' (w_id item) own ttl (xw_ws w') = Inl WsLeaseUnavailable"
proof -
  obtain r1 w1 where m: "work C E job j x0 item tok policy w = (r1, w1)" by fastforce
  have tree: "lw_tree (xw_loop (give_back E item tok policy w1)) = lw_tree (xw_loop w1)"
    by (simp add: give_back_def split: sum.split)
  have "lw_tree (xw_loop w') = lw_tree (xw_loop w1)"
    using assms(1) m tree by (auto simp: leased_def split: sum.splits option.splits)
  then have cap: "capture_at E item policy w1 = Inl err" using assms(9) by (simp add: capture_at_def)
  have n: "\<forall>y. r1 \<noteq> Inr (Some y)" using work_ends [OF m assms(7)] cap by auto
  then have w': "w' = give_back E item tok policy w1"
    using assms(1) m by (auto simp: leased_def split: sum.splits option.splits)
  have "write_held (w_id item) tok (xw_ws w)" using assms(2-6) by (auto simp: write_held_def)
  then have held: "write_held (w_id item) tok (xw_ws w1)" using work_ends [OF m assms(7)] n by blast
  then obtain s where s: "s \<in> set (xw_ws w1)" "ws_id s = w_id item" "ws_status s = WsWriteLocked" "ws_lease_token s = Some tok"
    and ok: "ws_ok (xw_ws w1)" by (auto simp: write_held_def)
  let ?P = "holds_token (w_id item) tok" and ?d = "drop_lease (xe_now E AtGiveBack)"
  have "affected ?P (xw_ws w1) = 1"
    using ok s by (subst affected_eq1_iff [where k = ws_id and x = "w_id item"]) (auto simp: ws_ok_def holds_token_def)
  then have t: "xw_ws w' = update_where ?P ?d (xw_ws w1)"
    using cap assms(7,8) by (simp add: w' give_back_def release_def require_one_lease_def)
  have ok': "ws_ok (xw_ws w')"
    unfolding t by (rule update_keeps_ws_ok [OF ok rows_keep_identity(11)]) (simp add: holder_rows)
  have "?d s \<in> set (xw_ws w')" using s by (auto simp: t set_update_where holds_token_def)
  then have l: "lookup_by ws_id (w_id item) (xw_ws w') = Some (?d s)"
    using lookup_by_unique [of ws_id "xw_ws w'" "?d s"] ok' s(2) by (simp add: ws_ok_def drop_lease_def)
  have st: "stuck_row (?d s)" using s(3) by (simp add: stuck_row_def drop_lease_def)
  have no: "no_row (xw_ws w') (w_id item) = WsLeaseUnavailable" using l by (simp add: no_row_def)
  note ref = refused_when_row_refuses [OF ok' l]
  show ?thesis
    using assms(8,10-12) stuck_refuses(2,3) [OF st]
    by (simp add: acquire_write_def acquire_restart_def lease_result_def no ref Let_def del: update_returning_None)
qed


lemma pause_code_kept:
  assumes "is_executor_pause_code c"
  shows "trim_space c = c" "c \<noteq> []"
  using assms by (auto simp: is_executor_pause_code_def plain_char_def)

text \<open>C0: a run that the executor pauses ends well and can be continued. With the executor loop as the runner and
  nothing else reported, a pause with code \<open>c\<close> makes the delivery succeed and leaves the workflow FAILED
  with that code and EXECUTING as the stage to retry, so that the repository accepts
  CONTINUE_EXECUTION, back to QUEUED, for any number of extra turns between 1 and 64 that keeps the
  budget within 128.\<close>

theorem paused_run_can_continue:
  assumes "running (j_id j) (wf_id job) (xw_wf w)" "trim_space (wf_id job) = wf_id job" "undisturbed E"
    and "xe_run E = llm_runner L" "xe_watch E AtRun = None" "xe_stall E AtRun = None" "xe_renewals E = []"
    and "xe_ctx E AtStart = None" "ex_start (xe_now E AtStart) (ex_id x0) (lw_db (xw_loop w)) = Inr (db, x)"
    and "executor_run (L\<lparr> le_tools := tools_of E item policy, le_max_calls := max_tool_calls (wf_limits job) \<rparr>)
        \<lparr> rc_execution = x, rc_budget = budget_of job \<rparr> ((xw_loop w)\<lparr> lw_db := db \<rparr>) = (Inl (Pause c m), lw)"
    and "trim_space m \<noteq> []" "length (marshal (JObj (pause_details j))) \<le> 32768"
  shows "\<exists>w' v. work C E job j x0 item tok policy w = (Inr None, w') \<and> wf_get (xw_wf w') (wf_id job) = Inr v
    \<and> wf_status_of v = StFailed \<and> wf_failure_code v = c \<and> wf_retry_status v = Some StExecuting
    \<and> (\<forall>n. 1 \<le> n \<and> n \<le> 64 \<and> max_executor_turns (wf_limits v) + n \<le> 128 \<longrightarrow>
         check_continue v ActContinueExecution n = Inr ()
         \<and> next_status (wf_status_of v) ActContinueExecution (wf_retry_status v) = Some StQueued)"
proof -
  let ?i = "wf_id job"
  have pc: "is_executor_pause_code c"
    using pauses_run assms(10) unfolding pauses_well_def post_def by (metis (mono_tags, lifting) case_prod_conv)
  define w0 where "w0 = snd (report E AtStart job j ''execution.started''
     [(''execution_id'', JStr (ex_id x)), (''agent_settings_version'', JInt (ex_agent_settings_version x))]
     (w\<lparr> xw_loop := (xw_loop w)\<lparr> lw_db := db \<rparr> \<rparr>))"
  define w1 where "w1 = after_pause C E job x item policy (fail_execution E AtRun x c m (w0\<lparr> xw_loop := lw, xw_ws := xw_ws w \<rparr>))"
  have "work C E job j x0 item tok policy w = run_runner C E job j x item tok policy w0"
    using assms(8,9) by (simp add: work_def sbind_def on_run_def on_ctx_up [OF assms(3)] on_ex_def report_def w0_def)
  also have "\<dots> = run_failed C E job j x item policy False (ERun (Pause c m)) (w0\<lparr> xw_loop := lw, xw_ws := xw_ws w \<rparr>)"
    using assms(4-7,10) by (simp add: run_runner_def run_error_of_def llm_runner_def w0_def report_def)
  also have "\<dots> = sbind (pause_workflow E job j c m) (\<lambda>_. ret None) w1"
    using undisturbedD(1) [OF assms(3)] by (simp add: run_failed_def classify_def classify_executor_error_def w1_def)
  finally have work: "work C E job j x0 item tok policy w = sbind (pause_workflow E job j c m) (\<lambda>_. ret None) w1" .
  have "running (j_id j) ?i (xw_wf w0)" using assms(1) by (simp add: w0_def report_def)
  moreover have "same_db (xw_wf (fail_execution E AtRun x c m (w0\<lparr> xw_loop := lw, xw_ws := xw_ws w \<rparr>))) (xw_wf w1)"
    unfolding w1_def by (rule after_pause_same)
  ultimately have "running (j_id j) ?i (xw_wf w1)" using same_db_running(1) by simp
  then obtain v0 where v0: "wf_get (xw_wf w1) ?i = Inr v0" "wf_status_of v0 = StExecuting" "wf_id v0 = ?i" "wf_db_ok (xw_wf w1)"
    using running_get assms(2) by blast
  obtain db' v where t: "wf_transition (xe_wf_env E AtPause) ?i (failed_input v0 c m (pause_details j)) (xw_wf w1) = Inr (db', v)"
    using fail_accepted [OF v0(4), of v0 "failed_input v0 c m (pause_details j)" "pause_details j" "xe_wf_env E AtPause"] v0 assms(11,12)
    by (auto simp: failed_input_def failure_statuses_def transition_action [unfolded failed_input_def] simp del: marshal.simps)
  note f = fail_shows [OF t v0(1) transition_action(1)]
  define w' where "w' = snd (pause_workflow E job j c m w1)"
  have p: "pause_workflow E job j c m w1 = (Inr (), w')" "same_db db' (xw_wf w')"
    using v0 t by (simp_all add: w'_def pause_workflow_def sbind_def read_wf_def)
  have "wf_get (xw_wf w') ?i = Inr v" using f same_db_get [OF p(2)] by simp
  moreover have "wf_failure_code v = c" using f pause_code_kept [OF pc] by (simp add: failed_input_def nullable_string_def)
  moreover have "check_continue v ActContinueExecution n = Inr ()" if "1 \<le> n" "n \<le> 64" "max_executor_turns (wf_limits v) + n \<le> 128" for n
    using that f pc \<open>wf_failure_code v = c\<close> v0(2) by (simp add: check_continue_def)
  ultimately show ?thesis
    using work p(1) f v0(2) by (auto simp: sbind_def next_status_def intro!: exI [of _ w'])
qed


subsection \<open>Examples\<close>

definition exec_git :: "bool \<Rightarrow> git_cmd" where
  "exec_git works = (if works then te_git demo_loop_tools else (\<lambda>root args t. GitNotRun ''no repository''))"

definition demo_exec_env :: "bool \<Rightarrow> runner \<Rightarrow> exec_env" where
  "demo_exec_env works run = \<lparr> xe_now = (\<lambda>_. 0), xe_queue_now = (\<lambda>_. 0), xe_event_at = (\<lambda>_. 0), xe_new_id = (\<lambda>_. ''z''),
     xe_recorder_ok = (\<lambda>_. False), xe_event_ok = (\<lambda>_. False), xe_down = (\<lambda>_. False), xe_ctx = (\<lambda>_. None),
     xe_stall = (\<lambda>_. None), xe_renewals = [], xe_watch = (\<lambda>_. None), xe_settings = (\<lambda>_. Inl ''no settings''),
     xe_refs_ok = (\<lambda>_. True), xe_git = exec_git works, xe_sha256 = (\<lambda>s. s), xe_save_error = (\<lambda>_. None),
     xe_run = run, xe_text = (\<lambda>_. ''x'') \<rparr>"

definition demo_exec_config :: exec_config where
  "demo_exec_config = \<lparr> xc_worker = ''w1'', xc_lease_ttl = 60000000000, xc_default_provider = ''x'',
     xc_default_model = ''m'', xc_artifacts = True \<rparr>"

definition demo_item_row :: ws_row where
  "demo_item_row = \<lparr> ws_id = ''s'', ws_workflow_job_id = ''w'', ws_project_id = ''p'', ws_repository_id = ''r'',
     ws_path = ''/w'', ws_base_commit_sha = ''c0'', ws_head_sha = ''c0'', ws_status = WsWriteLocked, ws_dirty = False,
     ws_lease_owner = Some ''w1'', ws_lease_token = Some ''t'', ws_lease_expires_at = Some 1000,
     ws_failure_message = None, ws_created_at = 1, ws_updated_at = 1 \<rparr>"

definition demo_exec_world :: "wf_db \<Rightarrow> execution \<Rightarrow> exec_world" where
  "demo_exec_world db x = \<lparr> xw_wf = db, xw_ws = [demo_item_row],
     xw_loop = demo_loop_world\<lparr> lw_db := empty_ex_db\<lparr> xd_executions := [x] \<rparr> \<rparr>, xw_artifacts = [] \<rparr>"

lemma demo_undisturbed: "undisturbed (demo_exec_env works run)"
  by (simp add: undisturbed_def demo_exec_env_def new_id_ok_def xe_wf_env_def plain_char_def)

definition demo_running :: wf_db where
  "demo_running = sample_next ''c'' 3 ''EXECUTION_STARTED'' sample_queued"

lemma demo_queued:
  obtains job where "db_workflows sample_queued = [job]" "wf_id job = ''w''" "wf_version job = 3"
    "wf_status_of job = StQueued" "wf_db_ok sample_queued" "\<not> wf_cancellation_requested job"
    "wf_current_dispatch_id job \<in> {''a'', ''b''}"
proof -
  obtain job where j: "db_workflows sample_queued = [job]" "wf_id job = ''w''" "wf_version job = 3" "wf_status_of job = StQueued"
    and r: "wf_reachable sample_queued" "jr_id ` set (db_jobs sample_queued) \<subseteq> {''a'', ''b''}"
    using sample_queued_at by (auto simp: at_status_def)
  have ok: "wf_db_ok sample_queued" by (rule wf_reachable_ok [OF r(1)])
  then have "wf_row_ok job" "dispatch_ok (db_jobs sample_queued) job" using j(1) by (auto simp: wf_db_ok_def)
  then have "\<not> wf_cancellation_requested job" "wf_current_dispatch_id job \<in> {''a'', ''b''}"
    using j(4) r(2) by (auto simp: wf_row_ok_def dispatch_ok_def failure_statuses_def dispatch_row_for_def)
  then show thesis using that j ok by blast
qed

lemma mark_details_short:
  assumes "length (j_id j) \<le> 1" "j_attempts j = 3" "j_max_attempts j = 3"
  shows "length (marshal (JObj (mark_details j))) \<le> 32768" "length (marshal (JObj (pause_details j))) \<le> 32768"
  using assms length_quote_json [of "''attempt''"] length_quote_json [of "''max_attempts''"]
    length_quote_json [of "''dispatch_job_id''"] length_quote_json [of "''terminal''"] length_quote_json [of "''paused''"]
    length_quote_json [of "j_id j"]
  by (simp_all add: mark_details_def pause_details_def show_int_def show_nat.simps)

definition demo_exec_job :: "string \<Rightarrow> json_text job" where
  "demo_exec_job d = (new_job d 0 ''workflow.execute'' (Some (dispatch_payload ''w'' 3 ActWorkspaceReady StQueued)) 3 0)
     \<lparr> j_attempts := 3 \<rparr>"

lemma execution_never_strands_witness:
  "\<exists>d. stage_over ''w'' (xw_wf (snd (execution_handle demo_exec_config (demo_exec_env True (\<lambda>_ _ _. ret ()))
     (demo_exec_job d) (demo_exec_world sample_queued demo_execution))))"
proof -
  obtain job where q: "db_workflows sample_queued = [job]" "wf_id job = ''w''" "wf_version job = 3"
    "wf_status_of job = StQueued" "wf_db_ok sample_queued" "\<not> wf_cancellation_requested job"
    "wf_current_dispatch_id job \<in> {''a'', ''b''}"
    by (rule demo_queued)
  let ?d = "wf_current_dispatch_id job" and ?E = "demo_exec_env True (\<lambda>_ _ _. ret ())"
  let ?j = "demo_exec_job ?d" and ?w = "demo_exec_world sample_queued demo_execution"
  let ?p = "\<lparr> dp_workflow_job_id = ''w'', dp_workflow_version = 3, dp_action = ''WORKSPACE_READY'', dp_target_status = ''QUEUED'' \<rparr>"
  have j: "j_id ?j = ?d" "j_attempts ?j = 3" "j_max_attempts ?j = 3"
    "j_payload ?j = Some (dispatch_payload ''w'' 3 ActWorkspaceReady StQueued)"
    by (simp_all add: demo_exec_job_def new_job_def)
  have d: "decode_execution_dispatch (j_payload ?j) = Inr ?p"
    using unmarshal_dispatch_payload [of 3 "''w''" ActWorkspaceReady StQueued]
    by (simp add: j(4) decode_execution_dispatch_def)
  have g: "execution_gate (xw_wf ?w) (j_id ?j) ?p = GateProceed job"
    using q by (simp add: execution_gate_def demo_exec_world_def wf_get_def load_job_def lookup_by_def j(1))
  obtain r w' where h: "execution_handle demo_exec_config ?E ?j ?w = (r, w')" by fastforce
  have "length (j_id ?j) \<le> 1" using q(7) j(1) by auto
  from execution_never_strands [OF _ demo_undisturbed d g _ mark_details_short(1) [OF this j(2,3)] h]
  have "stage_over (wf_id job) (xw_wf w')" using q j by (auto simp: demo_exec_world_def)
  then show ?thesis using h q(2) by (intro exI [of _ ?d]) simp
qed


definition demo_wf_job :: wf_job where
  "demo_wf_job = new_workflow (sample_env ''w'') (normalize_create sample_create)
     \<lparr> pv_id = ''pv'', pv_plan_id = ''pl'', pv_version = 1 \<rparr> ''main'' ''c0''"

definition demo_policy :: tool_policy where
  "demo_policy = te_policy demo_loop_tools"

lemma demo_exec_capture:
  "capture (exec_git True) (\<lambda>s. s) ''/w'' 100 [([], Dir)] =
     Inr \<lparr> gs_head = ''c0'', gs_changed_files = [], gs_patch = [], gs_checksum = ''sha256:'', gs_dirty = False \<rparr>"
  using demo_loop_capture [of True]
  by (simp add: capture_tree_def exec_git_def demo_loop_env_def demo_loop_tools_def)

lemma demo_completed:
  "\<exists>y w'. work demo_exec_config (demo_exec_env True (\<lambda>_ _ _. ret ())) demo_wf_job (demo_exec_job ''a'') demo_execution
     (scan_workspace demo_item_row) ''t'' demo_policy (demo_exec_world sample_queued demo_execution) = (Inr (Some y), w')"
proof -
  have w: "w_path (scan_workspace demo_item_row) = ''/w''" "w_id (scan_workspace demo_item_row) = ''s''"
    "tp_max_patch_bytes demo_policy = 100"
    by (simp_all add: scan_workspace_def demo_item_row_def demo_policy_def demo_loop_tools_def)
  have x: "ex_id demo_execution = ''e''" "ex_status_of demo_execution = ExPending"
    by (simp_all add: demo_execution_def new_execution_def demo_execution_input_def)
  show ?thesis
    by (simp add: work_def sbind_def on_run_def on_ctx_def demo_exec_env_def on_ex_def ex_start_def update_execution_def
        update_returning_def demo_exec_world_def demo_loop_world_def empty_ex_db_def x report_def note_event_def run_runner_def
        run_error_of_def run_succeeded_def capture_at_def w demo_exec_capture head_moved_def demo_wf_job_def new_workflow_def
        late_stop_def close_run_def save_patch_def demo_exec_config_def save_point_def save_checkpoint_def insert_checkpoint_def
        start_row_def ex_complete_def on_ws_def release_write_def demo_item_row_def holds_token_def lease_live_def Let_def
        plain_char_def unix_milli_def scan_workspace_def)
qed

lemma completed_work_is_recorded_witness:
  "\<exists>y w'. work demo_exec_config (demo_exec_env True (\<lambda>_ _ _. ret ())) demo_wf_job (demo_exec_job ''a'') demo_execution
     (scan_workspace demo_item_row) ''t'' demo_policy (demo_exec_world sample_queued demo_execution) = (Inr (Some y), w')
     \<and> ex_status_of y = ExCompleted"
proof -
  obtain y w' where h: "work demo_exec_config (demo_exec_env True (\<lambda>_ _ _. ret ())) demo_wf_job (demo_exec_job ''a'') demo_execution
     (scan_workspace demo_item_row) ''t'' demo_policy (demo_exec_world sample_queued demo_execution) = (Inr (Some y), w')"
    using demo_completed by (elim exE)
  have "trim_space ''t'' = ''t''" by (simp add: plain_char_def)
  from completed_work_is_recorded [OF h this] have "ex_status_of y = ExCompleted" by (elim exE conjE)
  then show ?thesis using h by (intro exI conjI)
qed

lemma demo_item_ok: "ws_ok [demo_item_row]"
  by (simp add: ws_ok_def unique_key_def lease_columns_ok_def demo_item_row_def)

lemma uncapturable_tree_locks_workspace_witness:
  "\<exists>w'. snd (leased (demo_exec_env False (\<lambda>_ _ _. ret ())) (scan_workspace demo_item_row) ''t'' demo_policy
       (work demo_exec_config (demo_exec_env False (\<lambda>_ _ _. ret ())) demo_wf_job (demo_exec_job ''a'') demo_execution
         (scan_workspace demo_item_row) ''t'' demo_policy) (demo_exec_world sample_queued demo_execution)) = w'
     \<and> acquire_write ''u'' 900000000000 ''s'' ''w1'' 60000000000 (xw_ws w') = Inl WsLeaseUnavailable"
proof -
  let ?E = "demo_exec_env False (\<lambda>_ _ _. ret ())" and ?i = "scan_workspace demo_item_row"
    and ?w = "demo_exec_world sample_queued demo_execution"
  obtain r w' where h: "leased ?E ?i ''t'' demo_policy
      (work demo_exec_config ?E demo_wf_job (demo_exec_job ''a'') demo_execution ?i ''t'' demo_policy) ?w = (r, w')" by fastforce
  have "\<exists>err. capture (xe_git ?E) sha (w_path ?i) n t = Inl err" for sha n t
    by (auto simp: capture_def demo_exec_env_def exec_git_def git_run_def wrap_git_def Let_def rbind_def git_failure_def
        split: sum.splits git_error.splits)
  then obtain err where c: "capture (xe_git ?E) (xe_sha256 ?E) (w_path ?i) (tp_max_patch_bytes demo_policy) (lw_tree (xw_loop w')) = Inl err"
    by blast
  have f: "ws_ok (xw_ws ?w)" "demo_item_row \<in> set (xw_ws ?w)" "ws_id demo_item_row = w_id ?i" "ws_status demo_item_row = WsWriteLocked"
    "ws_lease_token demo_item_row = Some ''t''" "trim_space ''t'' = ''t''" "trim_space (w_id ?i) = w_id ?i" "w_id ?i = ''s''"
    using demo_item_ok by (simp_all add: demo_exec_world_def scan_workspace_def demo_item_row_def plain_char_def)
  have n: "trim_space ''w1'' \<noteq> []" "w_id ?i \<noteq> []" "(60000000000 :: int) > 0" using f(8) by (simp_all add: plain_char_def)
  from uncapturable_tree_locks_workspace [OF h f(1-7) c n, of "''u''" 900000000000] f(8)
  show ?thesis using h by simp
qed


definition spent_execution :: execution where
  "spent_execution = demo_execution\<lparr> ex_tool_calls := 24 \<rparr>"

lemma demo_running_live:
  obtains d where "running d ''w'' demo_running" "d \<in> {''a'', ''b'', ''c''}"
proof -
  have "at_status demo_running StExecuting None 4 {''c'', ''a'', ''b''}"
    using sample_next_at [OF sample_queued_at, of "''c''" "''EXECUTION_STARTED''" ActExecutionStarted StExecuting]
    by (simp add: sample_actions plain_char_def next_status_def transition_table_def demo_running_def)
  then obtain v where v: "db_workflows demo_running = [v]" "wf_id v = ''w''" "wf_status_of v = StExecuting"
    and r: "wf_reachable demo_running" "jr_id ` set (db_jobs demo_running) \<subseteq> {''c'', ''a'', ''b''}"
    by (auto simp: at_status_def)
  have ok: "wf_db_ok demo_running" by (rule wf_reachable_ok [OF r(1)])
  then have "dispatch_ok (db_jobs demo_running) v" using v(1) by (simp add: wf_db_ok_def)
  then have "wf_current_dispatch_id v \<in> {''a'', ''b'', ''c''}"
    using v(3) r(2) by (auto simp: dispatch_ok_def failure_statuses_def dispatch_row_for_def)
  moreover have "wf_get demo_running ''w'' = Inr v" using v by (simp add: wf_get_def load_job_def lookup_by_def)
  ultimately show thesis using that [of "wf_current_dispatch_id v"] ok v by (auto simp: running_def)
qed

lemma demo_status: "decode_executor_action (le_decode (demo_loop_env False) ''status'') =
  Inr \<lparr> ac_type = ''tool'', ac_tool = ''git_status'', ac_args = no_args, ac_summary = [] \<rparr>"
proof -
  have "fold_name ''type'' = ''TYPE''" "fold_name ''summary'' = ''SUMMARY''" "fold_name ''tool'' = ''TOOL''"
    "fold_name ''arguments'' = ''ARGUMENTS''"
    by code_simp+
  then have "unmarshal_action (Some (JObj [(''type'', JStr ''tool''), (''tool'', JStr ''git_status'')])) =
      Some \<lparr> ac_type = ''tool'', ac_tool = ''git_status'', ac_args = no_args, ac_summary = [] \<rparr>"
    by (simp add: unmarshal_action_def get_field_def get_arguments_def)
  moreover have "to_lower ''tool'' = ''tool''" by code_simp
  ultimately show ?thesis
    by (simp add: decode_executor_action_def demo_loop_env_def plain_char_def validate_executor_action_def path_tools_def)
qed

abbreviation demo_pause_env :: exec_env where
  "demo_pause_env \<equiv> demo_exec_env True (llm_runner (demo_loop_env False))"

abbreviation demo_pause_tools :: loop_env where
  "demo_pause_tools \<equiv> (demo_loop_env False)\<lparr> le_tools := tools_of demo_pause_env (scan_workspace demo_item_row) demo_policy,
     le_max_calls := max_tool_calls (wf_limits demo_wf_job) \<rparr>"

definition demo_pause_execution :: execution where
  "demo_pause_execution = start_row 0 spent_execution"

definition demo_pause_world :: loop_world where
  "demo_pause_world = demo_loop_world\<lparr> lw_db := empty_ex_db\<lparr> xd_executions := [demo_pause_execution] \<rparr> \<rparr>"

lemma demo_paused:
  "\<exists>lw. executor_run demo_pause_tools \<lparr> rc_execution = demo_pause_execution, rc_budget = budget_of demo_wf_job \<rparr> demo_pause_world
     = (Inl (Pause ''EXECUTOR_TOOL_CALL_LIMIT'' ''Executor reached the workflow tool-call budget.''), lw)"
proof -
  let ?E = demo_pause_tools
  have x: "ex_id demo_pause_execution = ''e''" "ex_plan_version_id demo_pause_execution = ''p''"
    "ex_provider demo_pause_execution = ''x''" "ex_model demo_pause_execution = ''m''" "ex_tool_calls demo_pause_execution = 24"
    by (simp_all add: demo_pause_execution_def start_row_def spent_execution_def demo_execution_def new_execution_def demo_execution_input_def)
  have tools: "te_root (le_tools ?E) = ''/w''" "te_git (le_tools ?E) = exec_git True" "te_policy (le_tools ?E) = demo_policy"
    "te_sha256 (le_tools ?E) = (\<lambda>s. s)"
    by (simp_all add: tools_of_def scan_workspace_def demo_item_row_def demo_exec_env_def)
  have e: "le_plans ?E = [demo_plan]" "le_ctx_err ?E 0 = None" "le_id ?E n = ''i'' @ show_nat n" "le_now ?E n = 0"
    "le_gateway ?E n p rq = Inr \<lparr> rs_content = ''status'', rs_usage = no_usage \<rparr>" "le_max_calls ?E = 24"
    "le_decode ?E = le_decode (demo_loop_env False)" for n p rq
    by (simp_all add: demo_loop_env_def demo_wf_job_def new_workflow_def normalize_create_def sample_create_def normalize_limits_def Let_def)
  have st: "tool_git_status (le_tools ?E) [([], Dir)] = Inr []"
    using tools(1-3) by (simp add: tool_git_status_def allow_def rbind_def toolset_git_def demo_policy_def demo_loop_tools_def exec_git_def)
  have cap: "capture_tree ?E [([], Dir)] =
      Inr \<lparr> gs_head = ''c0'', gs_changed_files = [], gs_patch = [], gs_checksum = ''sha256:'', gs_dirty = False \<rparr>"
    using demo_exec_capture tools by (simp add: capture_tree_def demo_policy_def demo_loop_tools_def)
  have b: "bd_max_turns (budget_of demo_wf_job) = 32" "bd_max_tool_errors (budget_of demo_wf_job) = 3" "bd_max_no_progress (budget_of demo_wf_job) = 4"
    by (simp_all add: budget_of_def demo_wf_job_def new_workflow_def normalize_create_def sample_create_def normalize_limits_def Let_def)
  have turns: "run_turns E y B base 31 s =
      sbind (executor_turn E y B base s) (\<lambda>r. case r of None \<Rightarrow> ret () | Some s' \<Rightarrow> run_turns E y B base 30 s')" for E y B base s
    using run_turns.simps(2) [of E y B base 30 s] by simp
  show ?thesis
    using demo_status demo_select [of False] cap x e st b
    apply (simp add: executor_run_def Let_def sbind_def recover_step_def select_step_def
        demo_pause_world_def demo_loop_world_def workspace_progress_fingerprint_def capture_step_def normalize_budget_def turns del: upt_Suc)
    by (simp add: executor_turn_def sbind_def ask_def perform_action_def begin_step_def
        begin_iteration_def iteration_of_def first_non_empty_def no_usage_def plain_char_def next_iteration_def max_of_def
        recover_running_iterations_def empty_ex_db_def insert_iteration_def rbind_def Let_def
        note_action_def tool_turn_def recorded_tool_def execute_agent_tool_def invoke_def start_tool_def lookup_by_def
        failed_tool_def fail_step_def pause_executor_def exhaust_def split: sum.splits)
qed

lemma paused_run_can_continue_witness:
  "\<exists>d w' v. snd (work demo_exec_config demo_pause_env demo_wf_job (demo_exec_job d) spent_execution
       (scan_workspace demo_item_row) ''t'' demo_policy (demo_exec_world demo_running spent_execution)) = w'
     \<and> wf_get (xw_wf w') ''w'' = Inr v \<and> wf_status_of v = StFailed \<and> wf_failure_code v = ''EXECUTOR_TOOL_CALL_LIMIT''"
proof -
  obtain d where d: "running d ''w'' demo_running" "d \<in> {''a'', ''b'', ''c''}" by (rule demo_running_live)
  let ?j = "demo_exec_job d" and ?w = "demo_exec_world demo_running spent_execution"
  have j: "j_id ?j = d" "j_attempts ?j = 3" "j_max_attempts ?j = 3" by (simp_all add: demo_exec_job_def new_job_def)
  have i: "wf_id demo_wf_job = ''w''" "trim_space ''w'' = ''w''"
    by (simp_all add: demo_wf_job_def new_workflow_def sample_env_def plain_char_def)
  have r: "running (j_id ?j) (wf_id demo_wf_job) (xw_wf ?w)" "trim_space (wf_id demo_wf_job) = wf_id demo_wf_job"
    using d(1) i j(1) by (simp_all add: demo_exec_world_def)
  have q: "xe_run demo_pause_env = llm_runner (demo_loop_env False)" "xe_watch demo_pause_env AtRun = None"
    "xe_stall demo_pause_env AtRun = None" "xe_renewals demo_pause_env = []" "xe_ctx demo_pause_env AtStart = None"
    "xe_now demo_pause_env AtStart = 0"
    by (simp_all add: demo_exec_env_def)
  have sx: "ex_id spent_execution = ''e''" "ex_status_of spent_execution = ExPending"
    by (simp_all add: spent_execution_def demo_execution_def new_execution_def demo_execution_input_def)
  have st: "ex_start (xe_now demo_pause_env AtStart) (ex_id spent_execution) (lw_db (xw_loop ?w)) =
      Inr (lw_db demo_pause_world, demo_pause_execution)"
    by (simp add: q sx ex_start_def update_execution_def update_returning_def demo_exec_world_def demo_loop_world_def
        empty_ex_db_def demo_pause_world_def demo_pause_execution_def plain_char_def)
  have lw: "(xw_loop ?w)\<lparr> lw_db := lw_db demo_pause_world \<rparr> = demo_pause_world"
    by (simp add: demo_exec_world_def demo_pause_world_def)
  obtain lw' where run: "executor_run demo_pause_tools \<lparr> rc_execution = demo_pause_execution, rc_budget = budget_of demo_wf_job \<rparr>
      ((xw_loop ?w)\<lparr> lw_db := lw_db demo_pause_world \<rparr>) =
      (Inl (Pause ''EXECUTOR_TOOL_CALL_LIMIT'' ''Executor reached the workflow tool-call budget.''), lw')"
    using demo_paused lw by auto
  have m: "trim_space ''Executor reached the workflow tool-call budget.'' \<noteq> []" by (simp add: plain_char_def)
  have short: "length (marshal (JObj (pause_details ?j))) \<le> 32768" using mark_details_short(2) [of ?j] d(2) j by auto
  obtain w' v where h: "work demo_exec_config demo_pause_env demo_wf_job ?j spent_execution (scan_workspace demo_item_row) ''t'' demo_policy ?w
      = (Inr None, w')" "wf_get (xw_wf w') (wf_id demo_wf_job) = Inr v" "wf_status_of v = StFailed"
      "wf_failure_code v = ''EXECUTOR_TOOL_CALL_LIMIT''"
    using paused_run_can_continue [OF r demo_undisturbed q(1-5) st run m short, where C = demo_exec_config and tok = "''t''"]
    by (elim exE conjE)
  from h(2) i(1) have "wf_get (xw_wf w') ''w'' = Inr v" by simp
  moreover from h(1) have "snd (work demo_exec_config demo_pause_env demo_wf_job ?j spent_execution (scan_workspace demo_item_row) ''t''
      demo_policy ?w) = w'" by simp
  ultimately show ?thesis using h(3,4) by blast
qed

end
