(* ===== verification/ExecutionRecovery.thy ===== *)
theory ExecutionRecovery
  imports HandlerBase ExecutionRepo
begin

text \<open>The start-up recovery of the executor (internal/execution/recovery.go) as cmd/api/main.go runs it, after the queue
  has taken back the interrupted jobs: workflows whose current execution is FAILED, and workflows whose dispatch is
  settled in the queue, are failed so that they can be retried. The iteration order of the map of candidates is a
  parameter. SQL's TRIM removes spaces only.\<close>

subsection \<open>The two reconciliations\<close>

definition sql_trim :: "string \<Rightarrow> string" where
  "sql_trim s = rev (dropWhile (\<lambda>c. c = CHR '' '') (rev (dropWhile (\<lambda>c. c = CHR '' '') s)))"

text \<open>COALESCE(NULLIF(TRIM(s), ''), d).\<close>

definition sql_default :: "string \<Rightarrow> string \<Rightarrow> string" where
  "sql_default s d = (if sql_trim s = [] then d else sql_trim s)"

record failed_candidate =
  fc_execution :: string
  fc_workflow :: string
  fc_code :: string
  fc_message :: string

definition failed_candidates :: "execution list \<Rightarrow> wf_job list \<Rightarrow> failed_candidate list" where
  "failed_candidates es ws = concat (map (\<lambda>e. map (\<lambda>w. \<lparr> fc_execution = ex_id e, fc_workflow = ex_workflow_job_id e,
        fc_code = sql_default (ex_failure_code e) ''EXECUTOR_FAILED'',
        fc_message = sql_default (ex_failure_message e) ''Executor execution failed.'' \<rparr>)
      (filter (\<lambda>w. wf_id w = ex_workflow_job_id e \<and> ex_status_of e = ExFailed \<and> wf_status_of w = StExecuting
         \<and> ex_execution_version e = wf_execution_version w) ws))
    (sort_key (\<lambda>e. unix_milli (ex_updated_at e)) es))"

definition or_default :: "string \<Rightarrow> string \<Rightarrow> string" where
  "or_default s d = (if trim_space s = [] then d else trim_space s)"

definition failed_candidate_input :: "wf_job \<Rightarrow> failed_candidate \<Rightarrow> transition_input" where
  "failed_candidate_input w c = \<lparr> ti_expected_version = wf_version w, ti_action = ''FAIL'',
     ti_failure_code = or_default (fc_code c) ''EXECUTOR_FAILED'',
     ti_failure_message = or_default (fc_message c) ''Executor execution failed.'',
     ti_details = Some [(''execution_id'', JStr (fc_execution c)), (''recovered'', JBool True)],
     ti_additional_executor_turns = 0 \<rparr>"

text \<open>Both functions end with the same loop: it loads the workflow of each candidate, leaves it when it has moved on, and
  fails it otherwise. The k-th transition runs at \<open>E k\<close>. The loop returns the number of workflows recovered
  and the error that stopped it.\<close>

fun fail_stranded :: "(wf_status \<Rightarrow> bool) \<Rightarrow> ('c \<Rightarrow> string) \<Rightarrow> (wf_job \<Rightarrow> 'c \<Rightarrow> transition_input) \<Rightarrow> (nat \<Rightarrow> wf_env) \<Rightarrow> nat
   \<Rightarrow> 'c list \<Rightarrow> wf_db \<Rightarrow> (nat \<times> wf_error option) \<times> wf_db" where
  "fail_stranded stuck wid inp E n [] db = ((n, None), db)"
| "fail_stranded stuck wid inp E n (c # cs) db =
     (case wf_get db (wid c) of
        Inl e \<Rightarrow> ((n, Some e), db)
      | Inr cur \<Rightarrow>
          if \<not> stuck (wf_status_of cur) then fail_stranded stuck wid inp E n cs db
          else (case wf_transition (E n) (wf_id cur) (inp cur c) db of
                  Inr (db', _) \<Rightarrow> fail_stranded stuck wid inp E (n + 1) cs db'
                | Inl e \<Rightarrow>
                    if superseded e \<and> (case wf_get db (wf_id cur) of Inr l \<Rightarrow> \<not> stuck (wf_status_of l) | Inl _ \<Rightarrow> False)
                    then fail_stranded stuck wid inp E n cs db
                    else ((n, Some e), db)))"

definition reconcile_failed_workflows :: "(nat \<Rightarrow> wf_env) \<Rightarrow> ex_db \<Rightarrow> wf_db \<Rightarrow> (nat \<times> wf_error option) \<times> wf_db" where
  "reconcile_failed_workflows E xd db =
     fail_stranded (\<lambda>s. s = StExecuting) fc_workflow failed_candidate_input E 0
       (failed_candidates (xd_executions xd) (db_workflows db)) db"

record dead_dispatch =
  dd_workflow :: string
  dd_dispatch :: string
  dd_status :: job_status
  dd_message :: string

definition settled_message :: "json_text job_row \<Rightarrow> string" where
  "settled_message r = sql_default (null_string (jr_last_error r))
     (if jr_status r = JCompleted then ''Executor dispatch completed without closing the workflow.''
      else ''Executor dispatch exhausted all retries.'')"

definition settled_execute :: "json_text job_row \<Rightarrow> bool" where
  "settled_execute r = (jr_type r = ''workflow.execute'' \<and> settled r)"

definition dead_of :: "string \<Rightarrow> json_text job_row \<Rightarrow> dead_dispatch" where
  "dead_of i r = \<lparr> dd_workflow = i, dd_dispatch = jr_id r, dd_status = jr_status r, dd_message = settled_message r \<rparr>"

definition current_dead :: "wf_db \<Rightarrow> dead_dispatch list" where
  "current_dead db = concat (map (\<lambda>w. map (dead_of (wf_id w))
      (filter (\<lambda>r. wf_current_dispatch_id w \<noteq> [] \<and> jr_id r = wf_current_dispatch_id w \<and> wf_status_of w \<in> {StQueued, StExecuting} \<and> settled_execute r)
        (db_jobs db)))
    (db_workflows db))"

text \<open>A NULL dispatch id is the empty string here, which joins with nothing. The older
  rows: the dispatch is named by the details of the transition that started the execution.\<close>

definition details_dispatch :: "json \<Rightarrow> string option" where
  "details_dispatch d = (case d of JObj kvs \<Rightarrow> get_str ''dispatch_job_id'' kvs | JNull \<Rightarrow> Some [] | _ \<Rightarrow> None)"

definition legacy_rows :: "wf_db \<Rightarrow> (string \<times> json) list" where
  "legacy_rows db = concat (map (\<lambda>w. map (\<lambda>t. (wf_id w, tr_details t))
      (filter (\<lambda>t. tr_workflow_job_id t = wf_id w \<and> tr_workflow_version t = wf_version w
         \<and> tr_action t = ActExecutionStarted \<and> wf_status_of w = StExecuting
         \<and> sql_trim (wf_current_dispatch_id w) = []) (db_transitions db)))
    (db_workflows db))"

definition legacy_dead :: "wf_db \<Rightarrow> dead_dispatch list option" where
  "legacy_dead db = map_option (\<lambda>ds. concat (map (\<lambda>(i, d).
       case job_row_of (db_jobs db) (trim_space d) of
         Some r \<Rightarrow> if trim_space d \<noteq> [] \<and> settled_execute r then [dead_of i r] else []
       | None \<Rightarrow> []) ds))
     (all_options (map (\<lambda>(i, d). map_option (Pair i) (details_dispatch d)) (legacy_rows db)))"

text \<open>The candidates are kept in a map by workflow: a later one replaces an earlier one.\<close>

definition put_candidate :: "dead_dispatch \<Rightarrow> dead_dispatch list \<Rightarrow> dead_dispatch list" where
  "put_candidate c cs = filter (\<lambda>x. dd_workflow x \<noteq> dd_workflow c) cs @ [c]"

definition dead_input :: "wf_job \<Rightarrow> dead_dispatch \<Rightarrow> transition_input" where
  "dead_input w c = \<lparr> ti_expected_version = wf_version w, ti_action = ''FAIL'',
     ti_failure_code = ''EXECUTOR_FAILED'', ti_failure_message = trim_space (dd_message c),
     ti_details = Some [(''dispatch_job_id'', JStr (dd_dispatch c)),
       (''dispatch_status'', JStr (if dd_status c = JDead then ''DEAD'' else ''COMPLETED'')), (''recovered'', JBool True)],
     ti_additional_executor_turns = 0 \<rparr>"

text \<open>\<open>None\<close> as the first error: the details of a transition could not be decoded.\<close>

definition reconcile_dead_dispatches :: "(dead_dispatch list \<Rightarrow> dead_dispatch list) \<Rightarrow> (nat \<Rightarrow> wf_env) \<Rightarrow> wf_db
   \<Rightarrow> (nat \<times> wf_error option) \<times> wf_db" where
  "reconcile_dead_dispatches ord E db =
     (case legacy_dead db of
        None \<Rightarrow> ((0, Some WfDbError), db)
      | Some ls \<Rightarrow> fail_stranded (\<lambda>s. s \<in> {StQueued, StExecuting}) dd_workflow dead_input E 0
          (ord (fold put_candidate (current_dead db @ ls) [])) db)"

text \<open>The start-up of the daemon, as far as workflows and jobs are concerned: the queue takes back the interrupted jobs,
  then both reconciliations run; the first error stops the start.\<close>

definition startup_recovery ::
  "(dead_dispatch list \<Rightarrow> dead_dispatch list) \<Rightarrow> (nat \<Rightarrow> wf_env) \<Rightarrow> (nat \<Rightarrow> wf_env) \<Rightarrow> instant \<Rightarrow> ex_db \<Rightarrow> wf_db
   \<Rightarrow> wf_error option \<times> wf_db" where
  "startup_recovery ord E1 E2 now xd db =
     (let db1 = db\<lparr> db_jobs := fst (recover_interrupted now (db_jobs db)) \<rparr> in
      case reconcile_failed_workflows E1 xd db1 of
        ((_, Some e), db2) \<Rightarrow> (Some e, db2)
      | ((_, None), db2) \<Rightarrow>
        (case reconcile_dead_dispatches ord E2 db2 of ((_, r), db3) \<Rightarrow> (r, db3)))"

subsection \<open>Failing stranded workflows\<close>

text \<open>What the loop does to each row: the stuck workflows it is given become FAILED and remember their stage.\<close>

definition given_up :: "(wf_job \<Rightarrow> bool) \<Rightarrow> wf_job \<Rightarrow> wf_job \<Rightarrow> bool" where
  "given_up P w w' = (if P w then wf_id w' = wf_id w \<and> wf_status_of w' = StFailed \<and> wf_retry_status w' = Some (wf_status_of w)
     else w' = w)"

lemma given_up_trans:
  assumes "list_all2 (given_up P) ws ws'" "list_all2 (given_up Q) ws' ws''" "\<And>w. wf_status_of w = StFailed \<Longrightarrow> \<not> Q w"
  shows "list_all2 (given_up (\<lambda>w. P w \<or> Q w)) ws ws''"
  using assms(1,2)
  by (rule list_all2_trans [rotated]) (use assms(3) in \<open>auto simp: given_up_def split: if_splits\<close>)

lemma given_up_cong:
  assumes "\<And>w. w \<in> set ws \<Longrightarrow> P w = Q w"
  shows "list_all2 (given_up P) ws ws' = list_all2 (given_up Q) ws ws'"
  by (intro list.rel_cong refl) (simp add: given_up_def assms)

lemma given_up_set:
  assumes "list_all2 (given_up P) ws ws'" "w' \<in> set ws'" "wf_status_of w' \<noteq> StFailed"
  shows "w' \<in> set ws \<and> \<not> P w'"
  using assms by (induction rule: list_all2_induct) (auto simp: given_up_def split: if_splits)

lemma fail_rows:
  assumes "wf_transition e (wf_id w) inp db = Inr (db', w')" "wf_get db (wf_id w) = Inr w" "input_action inp = ''FAIL''" "wf_db_ok db"
  shows "db_jobs db' = db_jobs db \<and> list_all2 (given_up (\<lambda>v. v = w)) (db_workflows db) (db_workflows db')"
  using assms(1)
proof (rule wf_transition_cases)
  fix w0 nxt details q d evs
  let ?f = "apply_transition e (action_of inp) inp nxt (dispatch_after w0 (action_of inp) d)"
  assume l: "lookup_by wf_id (trim_space (wf_id w)) (db_workflows db) = Some w0"
    and g: "transition_guards w0 (action_of inp) inp = Inr (nxt, details)"
    and q: "enqueued_dispatch e w0 (action_of inp) nxt (db_jobs db) q d"
    and db': "db' = db\<lparr> db_jobs := q,
       db_workflows := update_where (\<lambda>v. wf_id v = wf_id w0 \<and> wf_version v = wf_version w0) ?f (db_workflows db),
       db_transitions := db_transitions db @
         [logged e w0 (action_of inp) nxt (dispatch_after w0 (action_of inp) d) details (next_sequence db)],
       db_events := evs \<rparr>"
    and w': "w' = ?f w0"
  have w: "w0 = w" "w \<in> set (db_workflows db)" using wf_get_Inr [OF assms(2)] l by simp_all
  have same: "v = w" if "v \<in> set (db_workflows db)" "wf_id v = wf_id w" for v
    using assms(4) that w unique_keyD unfolding wf_db_ok_def by metis
  have s: "wf_get db' (wf_id w) = Inr w'" "wf_status_of w' = StFailed" "wf_retry_status w' = Some (wf_status_of w)"
    using fail_shows [OF assms(1-3)] by simp_all
  have "action_of inp = ActFail" by (simp add: assms(3) action_of_string_def known_actions_def)
  moreover have "nxt = StFailed"
    using transition_guards_Inr(1) [OF g] calculation by (auto simp: next_status_def split: if_splits)
  ultimately have "dispatch_type (action_of inp) nxt = None" by (simp add: dispatch_type_def dispatch_for_def)
  then have "q = db_jobs db" using q by (simp add: enqueued_dispatch_def)
  moreover have "wf_id (?f v) = wf_id v" for v by simp
  moreover have "list_all2 (given_up (\<lambda>v. v = w)) xs (update_where (\<lambda>v. wf_id v = wf_id w0 \<and> wf_version v = wf_version w0) ?f xs)"
    if "set xs \<subseteq> set (db_workflows db)" for xs
    using that same s(2,3) w' w(1) by (induction xs) (auto simp: given_up_def)
  ultimately show ?thesis using db' by simp
qed

text \<open>The contract of the two candidate lists with the loop: which workflows may be failed, and that the input built for a
  good candidate is a FAIL the repository accepts.\<close>

locale stranded =
  fixes stuck :: "wf_status \<Rightarrow> bool" and wid :: "'c \<Rightarrow> string" and inp :: "wf_job \<Rightarrow> 'c \<Rightarrow> transition_input"
    and good :: "'c \<Rightarrow> bool"
  assumes stuck_can_fail: "stuck s \<Longrightarrow> s \<in> failure_statuses"
    and fails: "input_action (inp w c) = ''FAIL''" "ti_expected_version (inp w c) = wf_version w"
    and good_input: "good c \<Longrightarrow> trim_space (ti_failure_message (inp w c)) \<noteq> []
      \<and> (\<exists>d. ti_details (inp w c) = Some d \<and> length (marshal (JObj d)) \<le> 32768)"
begin

lemma one_fails:
  assumes "wf_db_ok db" "wf_get db (wid c) = Inr w" "stuck (wf_status_of w)" "good c" "new_id_ok e"
  shows "\<exists>db' w'. wf_transition e (wf_id w) (inp w c) db = Inr (db', w') \<and> wf_db_ok db' \<and> db_jobs db' = db_jobs db
    \<and> list_all2 (given_up (\<lambda>v. v = w)) (db_workflows db) (db_workflows db')"
proof -
  have "trim_space (wf_id w) = trim_space (wid c)" using wf_get_Inr [OF assms(2)] by simp
  then have g: "wf_get db (wf_id w) = Inr w" using assms(2) by (simp add: wf_get_def)
  obtain d where d: "ti_details (inp w c) = Some d" "length (marshal (JObj d)) \<le> 32768"
    "trim_space (ti_failure_message (inp w c)) \<noteq> []"
    using good_input [OF assms(4)] by blast
  obtain db' w' where t: "wf_transition e (wf_id w) (inp w c) db = Inr (db', w')"
    using fail_accepted [OF assms(1) g stuck_can_fail [OF assms(3)] fails d(3,1,2)] by blast
  show ?thesis
    using t wf_db_ok_transition [OF assms(1) t assms(5)] fail_rows [OF t g fails(1) assms(1)] by blast
qed

lemma all_fail:
  assumes "wf_db_ok db" "\<forall>c\<in>set cs. good c \<and> wid c \<in> wf_id ` set (db_workflows db)" "\<And>k. new_id_ok (E k)"
  shows "\<exists>m db'. fail_stranded stuck wid inp E n cs db = ((m, None), db') \<and> wf_db_ok db' \<and> db_jobs db' = db_jobs db
    \<and> list_all2 (given_up (\<lambda>w. stuck (wf_status_of w) \<and> wf_id w \<in> wid ` set cs)) (db_workflows db) (db_workflows db')"
  using assms(1,2)
proof (induction cs arbitrary: n db)
  case Nil
  then show ?case by (simp add: given_up_def list_all2_same)
next
  case (Cons c cs)
  obtain w where w: "w \<in> set (db_workflows db)" "wf_id w = wid c" using Cons.prems(2) by auto
  have u: "unique_key wf_id (db_workflows db)" "trim_space (wf_id w) = wf_id w"
    using Cons.prems(1) w(1) by (auto simp: wf_db_ok_def wf_row_ok_def)
  have g: "wf_get db (wid c) = Inr w"
    using lookup_by_unique [OF u(1) w(1)] u(2) w(2) by (simp add: wf_get_def load_job_def)
  have only: "v = w" if "v \<in> set (db_workflows db)" "wf_id v = wid c" for v
    using that w u(1) unique_keyD by metis
  show ?case
  proof (cases "stuck (wf_status_of w)")
    case False
    have "list_all2 (given_up (\<lambda>w. stuck (wf_status_of w) \<and> wf_id w \<in> wid ` set cs)) (db_workflows db) ws =
        list_all2 (given_up (\<lambda>w. stuck (wf_status_of w) \<and> wf_id w \<in> wid ` set (c # cs))) (db_workflows db) ws" for ws
      by (rule given_up_cong) (use only False in auto)
    then show ?thesis using Cons.IH [of db n] Cons.prems False g by simp
  next
    case True
    obtain db1 w1 where t: "wf_transition (E n) (wf_id w) (inp w c) db = Inr (db1, w1)" "wf_db_ok db1" "db_jobs db1 = db_jobs db"
      "list_all2 (given_up (\<lambda>v. v = w)) (db_workflows db) (db_workflows db1)"
      using one_fails [OF Cons.prems(1) g True _ assms(3) [of n]] Cons.prems(2) by fastforce
    have "map wf_id (db_workflows db1) = map wf_id (db_workflows db)"
      using t(4) by (induction rule: list_all2_induct) (auto simp: given_up_def split: if_splits)
    then have "wf_id ` set (db_workflows db1) = wf_id ` set (db_workflows db)" by (metis list.set_map)
    then obtain m db' where r: "fail_stranded stuck wid inp E (n + 1) cs db1 = ((m, None), db')" "wf_db_ok db'"
      "db_jobs db' = db_jobs db1"
      "list_all2 (given_up (\<lambda>w. stuck (wf_status_of w) \<and> wf_id w \<in> wid ` set cs)) (db_workflows db1) (db_workflows db')"
      using Cons.IH [of db1 "n + 1"] Cons.prems(2) t(2) by auto
    have nf: "\<not> stuck StFailed" using stuck_can_fail [of StFailed] by (auto simp: failure_statuses_def)
    from given_up_trans [OF t(4) r(4)] nf
    have "list_all2 (given_up (\<lambda>v. v = w \<or> stuck (wf_status_of v) \<and> wf_id v \<in> wid ` set cs)) (db_workflows db) (db_workflows db')"
      by simp
    also have "list_all2 (given_up (\<lambda>v. v = w \<or> stuck (wf_status_of v) \<and> wf_id v \<in> wid ` set cs)) (db_workflows db) (db_workflows db') =
        list_all2 (given_up (\<lambda>v. stuck (wf_status_of v) \<and> wf_id v \<in> wid ` set (c # cs))) (db_workflows db) (db_workflows db')"
      by (rule given_up_cong) (use only True w(2) in auto)
    finally have "list_all2 (given_up (\<lambda>v. stuck (wf_status_of v) \<and> wf_id v \<in> wid ` set (c # cs))) (db_workflows db) (db_workflows db')" .
    then show ?thesis using t r g True by (simp add: r(1))
  qed
qed

end

definition good_failed :: "failed_candidate \<Rightarrow> bool" where
  "good_failed c = (length (fc_execution c) \<le> 5000)"

definition good_dead :: "dead_dispatch \<Rightarrow> bool" where
  "good_dead c = (length (dd_dispatch c) \<le> 5000 \<and> trim_space (dd_message c) \<noteq> [])"

lemma or_default_not_blank: "trim_space d \<noteq> [] \<Longrightarrow> trim_space (or_default s d) \<noteq> []"
  by (simp add: or_default_def)

lemma trim_fail: "trim_space ''FAIL'' = ''FAIL''" by (simp add: plain_char_def)

interpretation failed: stranded "\<lambda>s. s = StExecuting" fc_workflow failed_candidate_input good_failed
proof
  show "input_action (failed_candidate_input w c) = ''FAIL''" for w c
    by (rule input_action_plain) (simp_all add: failed_candidate_input_def trim_fail upper_ascii_def)
  show "trim_space (ti_failure_message (failed_candidate_input w c)) \<noteq> []
      \<and> (\<exists>d. ti_details (failed_candidate_input w c) = Some d \<and> length (marshal (JObj d)) \<le> 32768)" if "good_failed c" for w c
  proof -
    have "trim_space ''Executor execution failed.'' \<noteq> []" by (simp add: plain_char_def)
    moreover have "length (marshal (JObj [(''execution_id'', JStr (fc_execution c)), (''recovered'', JBool True)])) \<le> 32768"
      using that length_quote_json [of "fc_execution c"] length_quote_json [of "''execution_id''"] length_quote_json [of "''recovered''"]
      by (simp add: good_failed_def)
    ultimately show ?thesis by (simp add: failed_candidate_input_def or_default_not_blank del: marshal.simps)
  qed
qed (auto simp: failure_statuses_def failed_candidate_input_def)

interpretation dead: stranded "\<lambda>s. s \<in> {StQueued, StExecuting}" dd_workflow dead_input good_dead
proof
  show "input_action (dead_input w c) = ''FAIL''" for w c
    by (rule input_action_plain) (simp_all add: dead_input_def trim_fail upper_ascii_def)
  show "trim_space (ti_failure_message (dead_input w c)) \<noteq> []
      \<and> (\<exists>d. ti_details (dead_input w c) = Some d \<and> length (marshal (JObj d)) \<le> 32768)" if "good_dead c" for w c
  proof -
    have "length (marshal (JObj [(''dispatch_job_id'', JStr (dd_dispatch c)),
       (''dispatch_status'', JStr (if dd_status c = JDead then ''DEAD'' else ''COMPLETED'')), (''recovered'', JBool True)])) \<le> 32768"
      using that length_quote_json [of "dd_dispatch c"] length_quote_json [of "''dispatch_job_id''"]
        length_quote_json [of "''dispatch_status''"] length_quote_json [of "''recovered''"] length_quote_json [of "''DEAD''"]
        length_quote_json [of "''COMPLETED''"]
      by (simp add: good_dead_def)
    then show ?thesis using that by (simp add: dead_input_def good_dead_def del: marshal.simps)
  qed
qed (auto simp: failure_statuses_def dead_input_def)


subsection \<open>No execution is stranded after a start\<close>

lemma take_spaces: "takeWhile (\<lambda>c. c = x) s = replicate (length (takeWhile (\<lambda>c. c = x) s)) x"
  by (induction s) auto

lemma sql_trim_parts: "\<exists>m n. s = replicate m CHR '' '' @ sql_trim s @ replicate n CHR '' ''"
proof -
  let ?sp = "\<lambda>c. c = CHR '' ''"
  define t where "t = dropWhile ?sp s"
  have "rev (rev t) = rev (takeWhile ?sp (rev t) @ dropWhile ?sp (rev t))" by (simp only: takeWhile_dropWhile_id)
  then have t: "t = sql_trim s @ rev (takeWhile ?sp (rev t))" by (simp only: rev_rev_ident rev_append sql_trim_def t_def)
  have "s = takeWhile ?sp s @ t" by (simp add: t_def)
  also have "\<dots> = replicate (length (takeWhile ?sp s)) CHR '' '' @ sql_trim s @ rev (takeWhile ?sp (rev t))"
    using t take_spaces [of "CHR '' ''" s] by simp
  also have "rev (takeWhile ?sp (rev t)) = replicate (length (takeWhile ?sp (rev t))) CHR '' ''"
    by (subst take_spaces) simp
  finally show ?thesis by blast
qed

lemma concat_spaces: "concat (replicate k [c]) = replicate k c"
  by (induction k) auto

lemma sql_trim_blank:
  assumes "trim_space (sql_trim s) = []"
  shows "trim_space s = []"
proof -
  obtain us where us: "set us \<subseteq> set space_seqs" "sql_trim s = concat us" using assms by (auto simp: blank_iff)
  obtain m n where s: "s = replicate m CHR '' '' @ sql_trim s @ replicate n CHR '' ''" using sql_trim_parts by blast
  let ?us = "replicate m '' '' @ us @ replicate n '' ''"
  have "s = concat ?us" by (subst s) (simp add: us(2) concat_spaces)
  moreover have "'' '' \<in> set space_seqs" by code_simp
  then have "set ?us \<subseteq> set space_seqs" using us(1) by (simp add: set_replicate_conv_if)
  ultimately show ?thesis unfolding blank_iff by blast
qed

lemma sql_default_not_blank:
  assumes "trim_space s \<noteq> [] \<or> sql_trim s = []" "trim_space d \<noteq> []"
  shows "trim_space (sql_default s d) \<noteq> []"
proof (cases "sql_trim s = []")
  case False
  then have "trim_space s \<noteq> []" using assms(1) by blast
  then have "trim_space (sql_trim s) \<noteq> []" using sql_trim_blank by blast
  then show ?thesis using False by (simp add: sql_default_def)
qed (simp add: sql_default_def assms(2))

lemma settled_message_not_blank:
  assumes "trim_space (null_string (jr_last_error r)) \<noteq> [] \<or> sql_trim (null_string (jr_last_error r)) = []"
  shows "trim_space (settled_message r) \<noteq> []"
  unfolding settled_message_def by (rule sql_default_not_blank [OF assms]) (simp add: plain_char_def)

text \<open>A dispatch is settled without a message, or with one that says something.\<close>

definition reasons_ok :: "json_text jobs_table \<Rightarrow> bool" where
  "reasons_ok q = (\<forall>r\<in>set q. length (jr_id r) \<le> 5000
     \<and> (trim_space (null_string (jr_last_error r)) \<noteq> [] \<or> sql_trim (null_string (jr_last_error r)) = []))"

lemma dispatch_row:
  assumes "wf_db_ok db" "w \<in> set (db_workflows db)" "wf_status_of w \<in> {StQueued, StExecuting}"
  obtains r where "r \<in> set (db_jobs db)" "jr_id r = wf_current_dispatch_id w" "jr_type r = ''workflow.execute''"
    "trim_space (wf_current_dispatch_id w) \<noteq> []"
proof -
  have "dispatch_ok (db_jobs db) w" using assms(1,2) by (auto simp: wf_db_ok_def)
  then obtain r where "r \<in> set (db_jobs db)" "dispatch_row_for w r"
    using assms(3) by (auto simp: dispatch_ok_def failure_statuses_def)
  then show thesis using that assms(3) by (auto simp: dispatch_row_for_def dispatch_for_retry_def)
qed

lemma no_legacy:
  assumes "wf_db_ok db"
  shows "legacy_dead db = Some []"
proof -
  have "sql_trim (wf_current_dispatch_id w) \<noteq> []" if "w \<in> set (db_workflows db)" "wf_status_of w = StExecuting" for w
    using dispatch_row [OF assms that(1)] that(2) sql_trim_blank by (metis insert_iff trim_space_Nil)
  then have "legacy_rows db = []" by (auto simp: legacy_rows_def)
  then show ?thesis by (simp add: legacy_dead_def all_options_def)
qed

lemma fold_put:
  "dd_workflow ` set (fold put_candidate cs acc) = dd_workflow ` (set cs \<union> set acc) \<and> set (fold put_candidate cs acc) \<subseteq> set cs \<union> set acc"
proof (induction cs arbitrary: acc)
  case (Cons c cs)
  have p: "set (put_candidate c acc) \<subseteq> insert c (set acc)"
    "dd_workflow ` set (put_candidate c acc) = insert (dd_workflow c) (dd_workflow ` set acc)"
    by (auto simp: put_candidate_def image_iff)
  show ?case using Cons.IH [of "put_candidate c acc"] p by (simp add: image_Un) blast
qed simp

lemma recovered_jobs:
  assumes "wf_db_ok db"
  shows "wf_db_ok (db\<lparr> db_jobs := fst (recover_interrupted now (db_jobs db)) \<rparr>)"
    "r \<in> set (fst (recover_interrupted now (db_jobs db))) \<Longrightarrow> jr_status r \<noteq> JRunning"
    "reasons_ok (db_jobs db) \<Longrightarrow> reasons_ok (fst (recover_interrupted now (db_jobs db)))"
    "settled r \<Longrightarrow> r \<in> set (fst (recover_interrupted now (db_jobs db))) \<longleftrightarrow> r \<in> set (db_jobs db)"
proof -
  let ?q = "fst (recover_interrupted now (db_jobs db))"
  have "queue_step (db_jobs db) (Recovered (snd (recover_interrupted now (db_jobs db)))) ?q"
    by (rule step_interrupted) simp
  then show "wf_db_ok (db\<lparr> db_jobs := ?q \<rparr>)" by (rule wf_db_ok_queue [OF assms])
  have r: "r \<in> set ?q \<longleftrightarrow> r \<in> requeue_row now ` {x \<in> set (db_jobs db). jr_status x = JRunning}
      \<or> r \<in> set (db_jobs db) \<and> jr_status r \<noteq> JRunning" for r
    by (auto simp: recover_interrupted_def set_update_where)
  show "jr_status r \<noteq> JRunning" if "r \<in> set ?q" using that by (auto simp: r requeue_row_def)
  show "reasons_ok ?q" if "reasons_ok (db_jobs db)" using that unfolding reasons_ok_def by (auto simp: r requeue_row_def)
  show "r \<in> set ?q \<longleftrightarrow> r \<in> set (db_jobs db)" if "settled r" using that by (auto simp: r requeue_row_def settled_def)
qed

lemma failed_candidates_workflows:
  "i \<in> fc_workflow ` set (failed_candidates es ws) \<longleftrightarrow>
    (\<exists>x\<in>set es. \<exists>w\<in>set ws. ex_workflow_job_id x = i \<and> wf_id w = i \<and> ex_status_of x = ExFailed \<and> wf_status_of w = StExecuting
       \<and> ex_execution_version x = wf_execution_version w)"
  by (simp add: failed_candidates_def image_UN image_image) auto

lemma current_dead_workflows:
  "i \<in> dd_workflow ` set (current_dead db) \<longleftrightarrow>
    (\<exists>w\<in>set (db_workflows db). wf_id w = i \<and> wf_current_dispatch_id w \<noteq> [] \<and> wf_status_of w \<in> {StQueued, StExecuting}
       \<and> (\<exists>r\<in>set (db_jobs db). jr_id r = wf_current_dispatch_id w \<and> settled_execute r))"
  by (simp add: current_dead_def image_UN image_image dead_of_def) auto

lemma in_failed_candidates:
  assumes "wf_db_ok db" "w \<in> set (db_workflows db)" "wf_status_of w = StExecuting"
  shows "wf_id w \<in> fc_workflow ` set (failed_candidates es (db_workflows db)) \<longleftrightarrow>
    (\<exists>x\<in>set es. ex_workflow_job_id x = wf_id w \<and> ex_execution_version x = wf_execution_version w \<and> ex_status_of x = ExFailed)"
proof -
  have "v = w" if "v \<in> set (db_workflows db)" "wf_id v = wf_id w" for v
    using assms(1,2) that unique_keyD unfolding wf_db_ok_def by metis
  then show ?thesis using assms(2,3) unfolding failed_candidates_workflows by metis
qed

lemma in_current_dead:
  assumes "wf_db_ok db" "w \<in> set (db_workflows db)" "wf_status_of w \<in> {StQueued, StExecuting}"
  shows "wf_id w \<in> dd_workflow ` set (current_dead db) \<longleftrightarrow>
    (\<exists>r\<in>set (db_jobs db). jr_id r = wf_current_dispatch_id w \<and> settled r)"
proof -
  have u: "v = w" if "v \<in> set (db_workflows db)" "wf_id v = wf_id w" for v
    using assms(1,2) that unique_keyD unfolding wf_db_ok_def by metis
  obtain r where r: "r \<in> set (db_jobs db)" "jr_id r = wf_current_dispatch_id w" "jr_type r = ''workflow.execute''"
    "trim_space (wf_current_dispatch_id w) \<noteq> []"
    by (rule dispatch_row [OF assms])
  have "s = r" if "s \<in> set (db_jobs db)" "jr_id s = wf_current_dispatch_id w" for s
    using assms(1) that r(1,2) unique_keyD unfolding wf_db_ok_def queue_ok_def by metis
  moreover have "wf_current_dispatch_id w \<noteq> []" using r(4) by auto
  ultimately show ?thesis
    using u r(3) assms(2,3) unfolding current_dead_workflows settled_execute_def by metis
qed

text \<open>C7: No execution is stranded after a start. Whatever state the daemon was stopped in, once the start-up passes have run
  every QUEUED or EXECUTING workflow has its execution message waiting in the queue, and none is EXECUTING with its current
  execution FAILED. The workflows that were stranded, and only those, became FAILED with the interrupted stage as the stage
  to retry. The reasons of settled messages are assumed to have a text, and the passes never fail then.\<close>
theorem startup_strands_no_execution:
  assumes "wf_reachable db" "reasons_ok (db_jobs db)" "\<forall>x\<in>set (xd_executions xd). length (ex_id x) \<le> 5000"
    and "\<And>cs. set (ord cs) = set cs" "\<And>k. new_id_ok (E1 k)" "\<And>k. new_id_ok (E2 k)"
  shows "\<exists>db'. startup_recovery ord E1 E2 now xd db = (None, db')
    \<and> (\<forall>w\<in>set (db_workflows db'). wf_status_of w \<in> {StQueued, StExecuting} \<longrightarrow>
         (\<exists>r\<in>set (db_jobs db'). jr_id r = wf_current_dispatch_id w \<and> jr_type r = ''workflow.execute'' \<and> jr_status r = JQueued)
         \<and> \<not> (wf_status_of w = StExecuting \<and> (\<exists>x\<in>set (xd_executions xd). ex_workflow_job_id x = wf_id w
               \<and> ex_execution_version x = wf_execution_version w \<and> ex_status_of x = ExFailed)))
    \<and> list_all2 (given_up (\<lambda>w. wf_status_of w \<in> {StQueued, StExecuting}
         \<and> ((\<exists>r\<in>set (db_jobs db). jr_id r = wf_current_dispatch_id w \<and> settled r)
            \<or> wf_status_of w = StExecuting \<and> (\<exists>x\<in>set (xd_executions xd). ex_workflow_job_id x = wf_id w
                \<and> ex_execution_version x = wf_execution_version w \<and> ex_status_of x = ExFailed))))
        (db_workflows db) (db_workflows db')"
proof -
  let ?db = "db\<lparr> db_jobs := fst (recover_interrupted now (db_jobs db)) \<rparr>" and ?stuck = "\<lambda>s. s \<in> {StQueued, StExecuting}"
  let ?failed = "\<lambda>w. \<exists>x\<in>set (xd_executions xd). ex_workflow_job_id x = wf_id w
                \<and> ex_execution_version x = wf_execution_version w \<and> ex_status_of x = ExFailed"
  let ?cs = "failed_candidates (xd_executions xd) (db_workflows ?db)"
  have ok0: "wf_db_ok db" using assms(1) by (rule wf_reachable_ok)
  note ok1 = recovered_jobs(1) [OF ok0, of now]
  have "\<forall>c\<in>set ?cs. good_failed c \<and> fc_workflow c \<in> wf_id ` set (db_workflows ?db)"
    using assms(3) by (auto simp: failed_candidates_def good_failed_def intro: rev_image_eqI)
  then obtain m db2 where r1: "reconcile_failed_workflows E1 xd ?db = ((m, None), db2)" "wf_db_ok db2" "db_jobs db2 = db_jobs ?db"
    "list_all2 (given_up (\<lambda>w. wf_status_of w = StExecuting \<and> wf_id w \<in> fc_workflow ` set ?cs)) (db_workflows ?db) (db_workflows db2)"
    using failed.all_fail [of ?db ?cs E1 0, OF ok1 _ assms(5)] unfolding reconcile_failed_workflows_def by blast
  let ?ds = "ord (fold put_candidate (current_dead db2) [])"
  have ds: "set ?ds \<subseteq> set (current_dead db2)" "dd_workflow ` set ?ds = dd_workflow ` set (current_dead db2)"
    using fold_put [of "current_dead db2" "[]"] assms(4) by simp_all
  have "good_dead c \<and> dd_workflow c \<in> wf_id ` set (db_workflows db2)" if c: "c \<in> set ?ds" for c
  proof -
    obtain w r where "c = dead_of (wf_id w) r" "r \<in> set (db_jobs db2)" "w \<in> set (db_workflows db2)"
      using subsetD [OF ds(1) c] by (auto simp: current_dead_def)
    moreover have "reasons_ok (db_jobs db2)" using recovered_jobs(3) [OF ok0 assms(2), of now] r1(3) by simp
    ultimately show ?thesis
      using settled_message_not_blank [of r] by (auto simp: good_dead_def dead_of_def reasons_ok_def)
  qed
  then obtain m' db3 where r2: "reconcile_dead_dispatches ord E2 db2 = ((m', None), db3)" "db_jobs db3 = db_jobs db2"
    "list_all2 (given_up (\<lambda>w. ?stuck (wf_status_of w) \<and> wf_id w \<in> dd_workflow ` set ?ds)) (db_workflows db2) (db_workflows db3)"
    using dead.all_fail [of db2 ?ds E2 0, OF r1(2) _ assms(6)] no_legacy [OF r1(2)]
    by (auto simp: reconcile_dead_dispatches_def simp del: insert_iff)
  let ?gone = "\<lambda>w. \<exists>r\<in>set (db_jobs db). jr_id r = wf_current_dispatch_id w \<and> settled r"
  have j: "(\<exists>r\<in>set (db_jobs db2). jr_id r = wf_current_dispatch_id w \<and> settled r) \<longleftrightarrow> ?gone w" for w
    using recovered_jobs(4) [OF ok0] r1(3) by auto
  have p1: "list_all2 (given_up (\<lambda>w. wf_status_of w = StExecuting \<and> ?failed w)) (db_workflows db) (db_workflows db2)"
    using r1(4) in_failed_candidates [OF ok1, of _ "xd_executions xd"] by (subst given_up_cong) auto
  have p2: "list_all2 (given_up (\<lambda>w. ?stuck (wf_status_of w) \<and> ?gone w)) (db_workflows db2) (db_workflows db3)"
    using r2(3) in_current_dead [OF r1(2)] unfolding ds(2) j by (subst given_up_cong) auto
  let ?P = "\<lambda>w. ?stuck (wf_status_of w) \<and> (?gone w \<or> wf_status_of w = StExecuting \<and> ?failed w)"
  have all: "list_all2 (given_up ?P) (db_workflows db) (db_workflows db3)"
    using given_up_trans [OF p1 p2] by (subst given_up_cong) auto
  have "\<exists>r\<in>set (db_jobs db3). jr_id r = wf_current_dispatch_id w \<and> jr_type r = ''workflow.execute'' \<and> jr_status r = JQueued"
    and "\<not> (wf_status_of w = StExecuting \<and> ?failed w)"
    if w: "w \<in> set (db_workflows db3)" "?stuck (wf_status_of w)" for w
  proof -
    have o: "w \<in> set (db_workflows ?db)" "\<not> ?P w" using given_up_set [OF all w(1)] w(2) by auto
    obtain r where r: "r \<in> set (db_jobs ?db)" "jr_id r = wf_current_dispatch_id w" "jr_type r = ''workflow.execute''"
      by (rule dispatch_row [OF ok1 o(1) w(2)])
    have "jr_status r \<noteq> JRunning" using recovered_jobs(2) [OF ok0] r(1) by simp
    moreover have "\<not> settled r" using o(2) w(2) r(1,2) j [of w] r1(3) by auto
    ultimately have "jr_status r = JQueued" by (cases "jr_status r") (simp_all add: settled_def)
    then show "\<exists>r\<in>set (db_jobs db3). jr_id r = wf_current_dispatch_id w \<and> jr_type r = ''workflow.execute'' \<and> jr_status r = JQueued"
      using r r1(3) r2(2) by auto
    show "\<not> (wf_status_of w = StExecuting \<and> ?failed w)" using o(2) w(2) by blast
  qed
  then show ?thesis
    using r1(1) r2(1) all unfolding startup_recovery_def Let_def by (intro exI [of _ db3]) auto
qed


lemma reasons_transition:
  assumes "wf_transition e i inp db = Inr (db', w)" "reasons_ok (db_jobs db)" "length (we_new_id e) \<le> 5000"
  shows "reasons_ok (db_jobs db')"
  using assms(1)
proof (rule wf_transition_cases)
  fix w0 nxt details q d evs
  assume q: "enqueued_dispatch e w0 (action_of inp) nxt (db_jobs db) q d"
    and db': "db' = db\<lparr> db_jobs := q,
       db_workflows := update_where (\<lambda>v. wf_id v = wf_id w0 \<and> wf_version v = wf_version w0)
         (apply_transition e (action_of inp) inp nxt (dispatch_after w0 (action_of inp) d)) (db_workflows db),
       db_transitions := db_transitions db @
         [logged e w0 (action_of inp) nxt (dispatch_after w0 (action_of inp) d) details (next_sequence db)],
       db_events := evs \<rparr>"
  have "reasons_ok q"
  proof (cases "dispatch_type (action_of inp) nxt")
    case None
    then show ?thesis using q assms(2) by (simp add: enqueued_dispatch_def)
  next
    case (Some t)
    then obtain r where "q = db_jobs db @ [r]" "jr_id r = we_new_id e" "jr_last_error r = None"
      using q by (auto simp: enqueued_dispatch_def)
    moreover have "null_string None = []" "sql_trim [] = []" by (simp_all add: null_string_def sql_trim_def)
    ultimately show ?thesis using assms(2,3) unfolding reasons_ok_def by simp
  qed
  then show ?thesis using db' by simp
qed

lemma reasons_next: "reasons_ok (db_jobs db) \<Longrightarrow> length d \<le> 5000 \<Longrightarrow> reasons_ok (db_jobs (sample_next d k a db))"
  using reasons_transition [of "sample_env d" "''w''" "sample_input a k" db]
  by (auto simp: sample_next_def sample_env_def split: sum.splits)

definition sample_running :: wf_db where
  "sample_running = sample_next ''c'' 3 ''EXECUTION_STARTED'' sample_queued"

lemma startup_strands_no_execution_witness:
  "\<exists>xd db'. startup_recovery (\<lambda>cs. cs) (\<lambda>_. sample_env ''x'') (\<lambda>_. sample_env ''x'') 0 xd sample_running = (None, db')
     \<and> (\<forall>w\<in>set (db_workflows db'). wf_status_of w = StFailed)"
proof -
  have at: "at_status sample_running StExecuting None 4 {''c'', ''a'', ''b''}"
    using sample_next_at [OF sample_queued_at, of "''c''" "''EXECUTION_STARTED''" ActExecutionStarted StExecuting]
    by (simp add: sample_actions plain_char_def next_status_def transition_table_def sample_running_def)
  then obtain v where v: "db_workflows sample_running = [v]" "wf_id v = ''w''" "wf_status_of v = StExecuting"
    and r: "wf_reachable sample_running"
    by (auto simp: at_status_def)
  define x :: execution where "x = (new_execution ''e'' 0 \<lparr> xi_workflow_job_id = ''w'', xi_workflow_version = 3,
     xi_execution_version = wf_execution_version v, xi_plan_version_id = ''p'', xi_workspace_id = ''s'', xi_base_commit_sha = ''c'',
     xi_agent_settings_version = 1, xi_provider = ''x'', xi_model = ''m'' \<rparr>)\<lparr> ex_status_of := ExFailed \<rparr>"
  define xd where "xd = \<lparr> xd_executions = [x], xd_tool_runs = [], xd_checkpoints = [], xd_iterations = [] \<rparr>"
  have x: "ex_id x = ''e''" "ex_workflow_job_id x = ''w''" "ex_execution_version x = wf_execution_version v" "ex_status_of x = ExFailed"
    by (simp_all add: x_def new_execution_def)
  have "db_jobs sample_db1 = []" using sample_db1_at by (simp add: at_status_def)
  then have "reasons_ok (db_jobs sample_running)"
    unfolding sample_running_def sample_queued_def by (intro reasons_next) (simp_all add: reasons_ok_def)
  moreover have "\<forall>x\<in>set (xd_executions xd). length (ex_id x) \<le> 5000" by (simp add: xd_def x(1))
  moreover have "new_id_ok (sample_env ''x'')" by (simp add: new_id_ok_def sample_env_def)
  ultimately obtain db' where d: "startup_recovery (\<lambda>cs. cs) (\<lambda>_. sample_env ''x'') (\<lambda>_. sample_env ''x'') 0 xd sample_running = (None, db')"
    "\<forall>w\<in>set (db_workflows db'). wf_status_of w \<in> {StQueued, StExecuting} \<longrightarrow>
      \<not> (wf_status_of w = StExecuting \<and> (\<exists>x\<in>set (xd_executions xd). ex_workflow_job_id x = wf_id w
        \<and> ex_execution_version x = wf_execution_version w \<and> ex_status_of x = ExFailed))"
    "list_all2 (given_up (\<lambda>w. wf_status_of w \<in> {StQueued, StExecuting}
       \<and> ((\<exists>r\<in>set (db_jobs sample_running). jr_id r = wf_current_dispatch_id w \<and> settled r)
          \<or> wf_status_of w = StExecuting \<and> (\<exists>x\<in>set (xd_executions xd). ex_workflow_job_id x = wf_id w
              \<and> ex_execution_version x = wf_execution_version w \<and> ex_status_of x = ExFailed))))
      (db_workflows sample_running) (db_workflows db')"
    using startup_strands_no_execution [OF r, of xd "\<lambda>cs. cs" "\<lambda>_. sample_env ''x''" "\<lambda>_. sample_env ''x''" 0] by blast
  have "\<forall>w\<in>set (db_workflows db'). wf_status_of w = StFailed"
    using d(3) v x by (auto simp: list_all2_Cons1 given_up_def xd_def)
  then show ?thesis using d(1) by blast
qed

end
