(* ===== verification/CheckRepo.thy ===== *)
theory CheckRepo
  imports WorkflowRepo Paths
begin

text \<open>The checks repository (internal/checks/repository.go) and the check profiles it stores (profiles.go): a check run
  belongs to one execution version of a workflow, its steps to the profiles of the repository. A row is what the
  scan functions read: NULL text is the empty string, instants are kept to the millisecond. Ids and clock are arguments,
  \<open>refs_ok\<close> says whether the rows a run refers to in other tables exist.\<close>

datatype ck_status = CkPending | CkRunning | CkPassed | CkFailed | CkCancelled

record check_run =
  cr_id :: string
  cr_workflow_job_id :: string
  cr_execution_id :: string
  cr_execution_version :: int
  cr_workspace_id :: string
  cr_status :: ck_status
  cr_total_steps :: int
  cr_passed_steps :: int
  cr_failed_steps :: int
  cr_started_at :: "instant option"
  cr_completed_at :: "instant option"
  cr_created_at :: instant
  cr_updated_at :: instant

record check_step =
  ck_id :: string
  ck_check_run_id :: string
  ck_sequence :: int
  ck_profile :: string
  ck_command :: "string list"
  ck_status_of :: ck_status
  ck_exit_code :: "int option"
  ck_duration_ms :: int
  ck_output_text :: string
  ck_output_truncated :: bool
  ck_artifact_key :: string
  ck_error_message :: string
  ck_started_at :: "instant option"
  ck_completed_at :: "instant option"
  ck_created_at :: instant
  ck_updated_at :: instant

record check_db =
  cd_runs :: "check_run list"
  cd_steps :: "check_step list"

datatype ck_error = CkNotFound | CkInvalid | CkNoProfiles | CkDbError

record profile =
  pf_name :: string
  pf_command :: "string list"
  pf_timeout :: int
  pf_output_limit :: int
  pf_require_empty :: bool

record check_result =
  kr_passed :: bool
  kr_exit_code :: int
  kr_duration :: int
  kr_output :: string
  kr_artifact_output :: string
  kr_output_limit :: int
  kr_truncated :: bool
  kr_cancelled :: bool
  kr_timed_out :: bool
  kr_error_message :: string

subsection \<open>Profiles\<close>

text \<open>The commands a profile may have. Only \<open>go.format\<close> takes arguments of its own, and they are paths below
  the workspace. \<open>path_parts\<close> are the components of a cleaned path.\<close>

definition safe_go_path :: "string \<Rightarrow> bool" where
  "safe_go_path path = (let clean = path_clean path in
     \<not> (is_rooted clean \<or> clean = ''..'' \<or> has_prefix clean ''../'' \<or> \<not> has_suffix clean ''.go''))"

definition go_format_ok :: "string list \<Rightarrow> bool \<Rightarrow> bool" where
  "go_format_ok command no_output =
     (length command \<ge> 3 \<and> command ! 0 = ''gofmt'' \<and> command ! 1 = ''-l'' \<and> no_output \<and> list_all safe_go_path (drop 2 command))"

definition fixed_commands :: "(string \<times> string list) list" where
  "fixed_commands =
     [(''go.vet'', [''go'', ''vet'', ''./...'']), (''go.test'', [''go'', ''test'', ''./...'']),
      (''bun.lint-ts'', [''bun'', ''run'', ''lint:ts'']), (''bun.lint'', [''bun'', ''run'', ''lint'']),
      (''bun.typecheck'', [''bun'', ''run'', ''typecheck'']), (''bun.test-ts'', [''bun'', ''run'', ''test:ts'']),
      (''bun.test'', [''bun'', ''run'', ''test'']), (''bun.build'', [''bun'', ''run'', ''build''])]"

definition validate_profile :: "profile \<Rightarrow> bool" where
  "validate_profile p =
     (if pf_timeout p \<le> 0 \<or> pf_output_limit p \<le> 0 \<or> pf_command p = [] then False
      else if pf_name p = ''go.format'' then go_format_ok (pf_command p) (pf_require_empty p)
      else map_of fixed_commands (pf_name p) = Some (pf_command p))"

subsection \<open>Runs\<close>

definition ck_get :: "check_db \<Rightarrow> string \<Rightarrow> ck_error + check_run" where
  "ck_get db i = (case lookup_by cr_id (trim_space i) (cd_runs db) of None \<Rightarrow> Inl CkNotFound | Some r \<Rightarrow> Inr r)"

definition ck_get_by_version :: "check_db \<Rightarrow> string \<Rightarrow> int \<Rightarrow> ck_error + check_run" where
  "ck_get_by_version db i v =
     (case find (\<lambda>r. cr_workflow_job_id r = trim_space i \<and> cr_execution_version r = v) (cd_runs db) of
        None \<Rightarrow> Inl CkNotFound | Some r \<Rightarrow> Inr r)"

definition ck_list_workflow :: "check_db \<Rightarrow> string \<Rightarrow> check_run list" where
  "ck_list_workflow db i =
     sort_key (\<lambda>r. - cr_execution_version r) (filter (\<lambda>r. cr_workflow_job_id r = trim_space i) (cd_runs db))"

definition insert_run :: "bool \<Rightarrow> check_run \<Rightarrow> check_db \<Rightarrow> ck_error + check_db" where
  "insert_run refs_ok r db =
     (if cr_id r \<in> cr_id ` set (cd_runs db) \<or> \<not> refs_ok
         \<or> (\<exists>x\<in>set (cd_runs db). cr_workflow_job_id x = cr_workflow_job_id r \<and> cr_execution_version x = cr_execution_version r)
      then Inl CkDbError
      else Inr (db\<lparr> cd_runs := cd_runs db @
        [r\<lparr> cr_created_at := stored_at (cr_created_at r), cr_updated_at := stored_at (cr_updated_at r) \<rparr>] \<rparr>))"

definition ck_create_or_get ::
  "string \<Rightarrow> instant \<Rightarrow> bool \<Rightarrow> string \<Rightarrow> string \<Rightarrow> string \<Rightarrow> int \<Rightarrow> check_db \<Rightarrow> ck_error + check_db \<times> check_run \<times> bool" where
  "ck_create_or_get new_id now refs_ok wf_raw ex_raw ws_raw version db =
     (let wf = trim_space wf_raw; ex = trim_space ex_raw; ws = trim_space ws_raw in
      if wf = [] \<or> ex = [] \<or> ws = [] \<or> version < 1 then Inl CkInvalid
      else case ck_get_by_version db wf version of
        Inr r \<Rightarrow> Inr (db, r, False)
      | Inl _ \<Rightarrow>
        let r = \<lparr> cr_id = new_id, cr_workflow_job_id = wf, cr_execution_id = ex, cr_execution_version = version,
              cr_workspace_id = ws, cr_status = CkPending, cr_total_steps = 0, cr_passed_steps = 0, cr_failed_steps = 0,
              cr_started_at = None, cr_completed_at = None, cr_created_at = now, cr_updated_at = now \<rparr> in
        (case insert_run refs_ok r db of
           Inr db' \<Rightarrow> Inr (db', r, True)
         | Inl e \<Rightarrow> (case ck_get_by_version db wf version of Inr old \<Rightarrow> Inr (db, old, False) | Inl _ \<Rightarrow> Inl e)))"

subsection \<open>Steps\<close>

definition ck_list_steps :: "check_db \<Rightarrow> string \<Rightarrow> check_step list" where
  "ck_list_steps db i = sort_key ck_sequence (filter (\<lambda>s. ck_check_run_id s = trim_space i) (cd_steps db))"

definition new_step :: "string \<Rightarrow> instant \<Rightarrow> string \<Rightarrow> int \<Rightarrow> profile \<Rightarrow> check_step" where
  "new_step new_id now i sq p = \<lparr> ck_id = new_id, ck_check_run_id = i, ck_sequence = sq, ck_profile = pf_name p,
     ck_command = pf_command p, ck_status_of = CkPending, ck_exit_code = None, ck_duration_ms = 0, ck_output_text = [],
     ck_output_truncated = False, ck_artifact_key = [], ck_error_message = [], ck_started_at = None, ck_completed_at = None,
     ck_created_at = stored_at now, ck_updated_at = stored_at now \<rparr>"

text \<open>INSERT OR IGNORE: a step whose id, number or profile is taken is left as it is.\<close>

definition step_clash :: "check_step \<Rightarrow> check_step \<Rightarrow> bool" where
  "step_clash s x = (ck_id x = ck_id s \<or> ck_check_run_id x = ck_check_run_id s
     \<and> (ck_sequence x = ck_sequence s \<or> ck_profile x = ck_profile s))"

definition insert_step :: "check_step \<Rightarrow> check_step list \<Rightarrow> check_step list" where
  "insert_step s t = (if list_ex (step_clash s) t then t else t @ [s])"

fun insert_steps :: "(nat \<Rightarrow> string) \<Rightarrow> instant \<Rightarrow> string \<Rightarrow> nat \<Rightarrow> profile list \<Rightarrow> check_step list \<Rightarrow> check_step list option" where
  "insert_steps ids now i n [] t = Some t"
| "insert_steps ids now i n (p # ps) t =
     (if \<not> validate_profile p then None
      else insert_steps ids now i (n + 1) ps (insert_step (new_step (ids n) now i (int n + 1) p) t))"

definition start_run :: "instant \<Rightarrow> nat \<Rightarrow> check_run \<Rightarrow> check_run" where
  "start_run now n r = r\<lparr> cr_status := CkRunning, cr_total_steps := int n,
     cr_started_at := Some (case cr_started_at r of None \<Rightarrow> stored_at now | Some t \<Rightarrow> t), cr_completed_at := None,
     cr_updated_at := stored_at now \<rparr>"

definition ck_start :: "(nat \<Rightarrow> string) \<Rightarrow> instant \<Rightarrow> string \<Rightarrow> profile list \<Rightarrow> check_db \<Rightarrow> ck_error + check_db \<times> check_run" where
  "ck_start ids now i profiles db =
     (let P = (\<lambda>r. cr_id r = trim_space i \<and> cr_status r \<in> {CkPending, CkRunning});
          runs = update_where P (start_run now (length profiles)) (cd_runs db) in
      if profiles = [] then Inl CkInvalid
      else if affected P (cd_runs db) \<noteq> 1 then Inl CkNotFound
      else if i \<notin> cr_id ` set runs then Inl CkDbError
      else case insert_steps ids now i 0 profiles (cd_steps db) of
        None \<Rightarrow> Inl CkInvalid
      | Some steps \<Rightarrow>
        let db' = db\<lparr> cd_runs := runs, cd_steps := steps \<rparr> in rbind (ck_get db' i) (\<lambda>r. Inr (db', r)))"

definition recover_step_row :: "instant \<Rightarrow> check_step \<Rightarrow> check_step" where
  "recover_step_row now s = s\<lparr> ck_status_of := CkPending, ck_exit_code := None, ck_duration_ms := 0, ck_output_text := [],
     ck_output_truncated := False, ck_error_message := [], ck_started_at := None, ck_completed_at := None,
     ck_updated_at := stored_at now \<rparr>"

definition ck_recover :: "instant \<Rightarrow> string \<Rightarrow> check_db \<Rightarrow> check_db" where
  "ck_recover now i db = db\<lparr> cd_steps := update_where
     (\<lambda>s. ck_check_run_id s = trim_space i \<and> ck_status_of s \<in> {CkRunning, CkCancelled}) (recover_step_row now) (cd_steps db) \<rparr>"

definition start_step_row :: "instant \<Rightarrow> check_step \<Rightarrow> check_step" where
  "start_step_row now s = s\<lparr> ck_status_of := CkRunning, ck_started_at := Some (stored_at now), ck_completed_at := None,
     ck_error_message := [], ck_updated_at := stored_at now \<rparr>"

definition ck_start_step :: "instant \<Rightarrow> string \<Rightarrow> string \<Rightarrow> check_db \<Rightarrow> ck_error + check_db \<times> check_step" where
  "ck_start_step now i name db =
     (case update_returning (\<lambda>s. ck_check_run_id s = trim_space i \<and> ck_profile s = trim_space name \<and> ck_status_of s = CkPending)
         (start_step_row now) (cd_steps db) of
        None \<Rightarrow> Inl CkNotFound
      | Some (t, s) \<Rightarrow> Inr (db\<lparr> cd_steps := t \<rparr>, s))"

definition bound :: "string \<Rightarrow> int \<Rightarrow> string" where
  "bound s limit = (if limit > 0 \<and> int (length s) > limit then take (nat limit) s else s)"

definition complete_step_row :: "instant \<Rightarrow> check_result \<Rightarrow> check_step \<Rightarrow> check_step" where
  "complete_step_row now k s = s\<lparr> ck_status_of := (if kr_passed k then CkPassed else CkFailed),
     ck_exit_code := Some (kr_exit_code k), ck_duration_ms := kr_duration k div nanos_per_milli,
     ck_output_text := bound (kr_output k) (kr_output_limit k), ck_output_truncated := kr_truncated k,
     ck_error_message := nullable_string (bound (kr_error_message k) 1024), ck_completed_at := Some (stored_at now),
     ck_updated_at := stored_at now \<rparr>"

definition update_step :: "(check_step \<Rightarrow> bool) \<Rightarrow> (check_step \<Rightarrow> check_step) \<Rightarrow> check_db \<Rightarrow> ck_error + check_db" where
  "update_step P f db = (if affected P (cd_steps db) \<noteq> 1 then Inl CkNotFound
     else Inr (db\<lparr> cd_steps := update_where P f (cd_steps db) \<rparr>))"

definition running_step :: "string \<Rightarrow> check_step \<Rightarrow> bool" where
  "running_step i s = (ck_id s = trim_space i \<and> ck_status_of s = CkRunning)"

definition ck_complete_step :: "instant \<Rightarrow> string \<Rightarrow> check_result \<Rightarrow> check_db \<Rightarrow> ck_error + check_db" where
  "ck_complete_step now i k = update_step (running_step i) (complete_step_row now k)"

definition ck_set_artifact :: "instant \<Rightarrow> string \<Rightarrow> string \<Rightarrow> check_db \<Rightarrow> check_db" where
  "ck_set_artifact now i key db = db\<lparr> cd_steps := update_where (\<lambda>s. ck_id s = trim_space i)
     (\<lambda>s. s\<lparr> ck_artifact_key := trim_space key, ck_updated_at := stored_at now \<rparr>) (cd_steps db) \<rparr>"

definition cancel_step_row :: "instant \<Rightarrow> string \<Rightarrow> check_step \<Rightarrow> check_step" where
  "cancel_step_row now message s = s\<lparr> ck_status_of := CkCancelled,
     ck_error_message := nullable_string (bound message 1024), ck_completed_at := Some (stored_at now),
     ck_updated_at := stored_at now \<rparr>"

definition ck_cancel_step :: "instant \<Rightarrow> string \<Rightarrow> string \<Rightarrow> check_db \<Rightarrow> ck_error + check_db" where
  "ck_cancel_step now i message = update_step (running_step i) (cancel_step_row now message)"

subsection \<open>The end of a run\<close>

definition steps_with :: "ck_status \<Rightarrow> string \<Rightarrow> check_step list \<Rightarrow> int" where
  "steps_with st i t = int (length (filter (\<lambda>s. ck_check_run_id s = i \<and> ck_status_of s = st) t))"

definition cancel_steps :: "instant \<Rightarrow> string \<Rightarrow> string \<Rightarrow> check_step list \<Rightarrow> check_step list" where
  "cancel_steps now i message t = update_where
     (\<lambda>s. ck_check_run_id s = i \<and> ck_status_of s \<in> {CkPending, CkRunning})
     (\<lambda>s. (cancel_step_row now message s)\<lparr> ck_completed_at :=
        Some (case ck_completed_at s of None \<Rightarrow> stored_at now | Some x \<Rightarrow> x) \<rparr>) t"

definition ck_cancel :: "instant \<Rightarrow> string \<Rightarrow> string \<Rightarrow> check_db \<Rightarrow> ck_error + check_db \<times> check_run" where
  "ck_cancel now raw message db =
     (let i = trim_space raw; t = cancel_steps now i message (cd_steps db);
          db' = db\<lparr> cd_steps := t, cd_runs := update_where
            (\<lambda>r. cr_id r = i \<and> cr_status r \<in> {CkPending, CkRunning, CkCancelled})
            (\<lambda>r. r\<lparr> cr_status := CkCancelled, cr_passed_steps := steps_with CkPassed i t,
               cr_failed_steps := steps_with CkFailed i t,
               cr_completed_at := Some (case cr_completed_at r of None \<Rightarrow> stored_at now | Some x \<Rightarrow> x),
               cr_updated_at := stored_at now \<rparr>) (cd_runs db) \<rparr> in
      if i = [] then Inl CkInvalid else rbind (ck_get db' i) (\<lambda>r. Inr (db', r)))"

definition finish_row :: "instant \<Rightarrow> check_step list \<Rightarrow> check_run \<Rightarrow> check_run" where
  "finish_row now t r = r\<lparr>
     cr_status := (if \<exists>s\<in>set t. ck_check_run_id s = cr_id r \<and> ck_status_of s \<noteq> CkPassed then CkFailed else CkPassed),
     cr_passed_steps := steps_with CkPassed (cr_id r) t, cr_failed_steps := steps_with CkFailed (cr_id r) t,
     cr_completed_at := Some (stored_at now), cr_updated_at := stored_at now \<rparr>"

definition can_finish :: "string \<Rightarrow> check_step list \<Rightarrow> check_run \<Rightarrow> bool" where
  "can_finish i t r = (cr_id r = i \<and> cr_status r = CkRunning
     \<and> \<not> (\<exists>s\<in>set t. ck_check_run_id s = i \<and> ck_status_of s \<in> {CkPending, CkRunning, CkCancelled}))"

definition ck_finish :: "instant \<Rightarrow> string \<Rightarrow> check_db \<Rightarrow> ck_error + check_db \<times> check_run" where
  "ck_finish now i db =
     (case update_returning (can_finish i (cd_steps db)) (finish_row now (cd_steps db)) (cd_runs db) of
        None \<Rightarrow> Inl CkNotFound
      | Some (t, r) \<Rightarrow> Inr (db\<lparr> cd_runs := t \<rparr>, r))"

subsection \<open>Well-formed tables\<close>

definition own :: "string \<Rightarrow> check_step list \<Rightarrow> check_step list" where
  "own i t = filter (\<lambda>s. ck_check_run_id s = i) t"

text \<open>What a run's status says about its steps.\<close>

definition run_ok :: "check_step list \<Rightarrow> check_run \<Rightarrow> bool" where
  "run_ok t r = (let st = map ck_status_of (own (cr_id r) t) in
     (cr_status r \<in> {CkRunning, CkPassed, CkFailed} \<longrightarrow> st \<noteq> [])
     \<and> (cr_status r \<in> {CkPassed, CkFailed} \<longrightarrow> set st \<subseteq> {CkPassed, CkFailed}
          \<and> (cr_status r = CkPassed \<longleftrightarrow> set st \<subseteq> {CkPassed})
          \<and> cr_passed_steps r = int (count_list st CkPassed) \<and> cr_failed_steps r = int (count_list st CkFailed)))"

definition steps_ok :: "check_step list \<Rightarrow> bool" where
  "steps_ok t = (unique_key ck_id t \<and> unique_key (\<lambda>s. (ck_check_run_id s, ck_sequence s)) t
     \<and> unique_key (\<lambda>s. (ck_check_run_id s, ck_profile s)) t)"

definition check_ok :: "check_db \<Rightarrow> bool" where
  "check_ok db = (unique_key cr_id (cd_runs db)
     \<and> unique_key (\<lambda>r. (cr_workflow_job_id r, cr_execution_version r)) (cd_runs db)
     \<and> steps_ok (cd_steps db) \<and> ck_check_run_id ` set (cd_steps db) \<subseteq> cr_id ` set (cd_runs db)
     \<and> (\<forall>r\<in>set (cd_runs db). run_ok (cd_steps db) r \<and> trim_space (cr_id r) = cr_id r))"

lemma steps_with_own: "steps_with st i t = int (count_list (map ck_status_of (own i t)) st)"
  by (induction t) (auto simp: steps_with_def own_def)

lemma run_ok_statuses:
  assumes "map ck_status_of (own (cr_id r) t') = map ck_status_of (own (cr_id r) t)"
  shows "run_ok t' r = run_ok t r"
  by (simp only: run_ok_def assms)

lemma run_ok_own: "own (cr_id r) t' = own (cr_id r) t \<Longrightarrow> run_ok t' r = run_ok t r"
  by (rule run_ok_statuses) simp

lemma own_update:
  assumes "\<And>s. ck_check_run_id (f s) = ck_check_run_id s"
  shows "own i (update_where P f t) = update_where P f (own i t)"
  using assms by (induction t) (auto simp: own_def)

text \<open>Changes of steps that are not over leave the finished runs as they are.\<close>

lemma run_ok_update:
  assumes "run_ok t r" "\<And>s. ck_check_run_id (f s) = ck_check_run_id s"
    and "\<And>s. P s \<Longrightarrow> ck_status_of s \<in> {CkPending, CkRunning, CkCancelled}"
  shows "run_ok (update_where P f t) r"
proof (cases "cr_status r \<in> {CkPassed, CkFailed}")
  case True
  then have "ck_status_of ` set (own (cr_id r) t) \<subseteq> {CkPassed, CkFailed}" using assms(1) by (auto simp: run_ok_def Let_def)
  then have "\<not> P s" if "s \<in> set (own (cr_id r) t)" for s using that assms(3) [of s] by (cases "ck_status_of s") auto
  then have "own (cr_id r) (update_where P f t) = own (cr_id r) t"
    by (simp add: own_update [OF assms(2)] update_where_none)
  then show ?thesis using run_ok_own assms(1) by blast
next
  case False
  have "own (cr_id r) (update_where P f t) = [] \<longleftrightarrow> own (cr_id r) t = []"
    using own_update [OF assms(2)] length_update_where by (metis length_0_conv)
  then show ?thesis using False assms(1) by (simp add: run_ok_def)
qed

lemma steps_ok_update:
  assumes "steps_ok t" "\<And>s. ck_id (f s) = ck_id s \<and> ck_check_run_id (f s) = ck_check_run_id s
    \<and> ck_sequence (f s) = ck_sequence s \<and> ck_profile (f s) = ck_profile s"
  shows "steps_ok (update_where P f t)"
  using assms by (simp add: steps_ok_def unique_key_update_where)

lemma check_ok_steps:
  assumes "check_ok db" "\<And>s. ck_id (f s) = ck_id s \<and> ck_check_run_id (f s) = ck_check_run_id s
    \<and> ck_sequence (f s) = ck_sequence s \<and> ck_profile (f s) = ck_profile s"
    and "\<And>s. P s \<Longrightarrow> ck_status_of s \<in> {CkPending, CkRunning, CkCancelled}"
  shows "check_ok (db\<lparr> cd_steps := update_where P f (cd_steps db) \<rparr>)"
  using assms by (auto simp: check_ok_def steps_ok_update run_ok_update image_update_where)

lemma check_ok_runs:
  assumes "check_ok db" "\<And>r. cr_id (f r) = cr_id r \<and> cr_workflow_job_id (f r) = cr_workflow_job_id r
    \<and> cr_execution_version (f r) = cr_execution_version r"
    and "\<And>r. r \<in> set (cd_runs db) \<Longrightarrow> P r \<Longrightarrow> run_ok (cd_steps db) (f r)"
  shows "check_ok (db\<lparr> cd_runs := update_where P f (cd_runs db) \<rparr>)"
proof -
  have "run_ok (cd_steps db) r \<and> trim_space (cr_id r) = cr_id r" if "r \<in> set (update_where P f (cd_runs db))" for r
    using that by (cases rule: in_update_whereE) (use assms in \<open>auto simp: check_ok_def\<close>)
  then show ?thesis
    using assms(1,2) by (simp add: check_ok_def unique_key_update_where image_update_where)
qed

lemma insert_step_ok:
  assumes "steps_ok t"
  shows "steps_ok (insert_step s t)" "set (insert_step s t) \<subseteq> insert s (set t)" "set t \<subseteq> set (insert_step s t)"
    "own j (insert_step s t) = own j t \<or> j = ck_check_run_id s"
    "ck_id s \<notin> ck_id ` set t \<Longrightarrow> own (ck_check_run_id s) (insert_step s t) \<noteq> []"
  using assms by (auto simp: insert_step_def steps_ok_def step_clash_def list_ex_iff own_def filter_empty_conv intro: rev_image_eqI)

lemma insert_steps_ok:
  assumes "insert_steps ids now i n ps t = Some t'" "steps_ok t"
  shows "steps_ok t' \<and> set t \<subseteq> set t' \<and> (\<forall>j. j \<noteq> i \<longrightarrow> own j t' = own j t) \<and> (\<forall>s\<in>set t' - set t. ck_check_run_id s = i)
    \<and> (ps \<noteq> [] \<and> ids n \<notin> ck_id ` set t \<longrightarrow> own i t' \<noteq> [])"
  using assms
proof (induction ids now i n ps t rule: insert_steps.induct)
  case (2 ids now i n p ps t)
  let ?s = "new_step (ids n) now i (int n + 1) p"
  have s: "ck_check_run_id ?s = i" "ck_id ?s = ids n" by (simp_all add: new_step_def)
  note i = insert_step_ok [OF 2(3), where s = ?s, unfolded s]
  have t': "insert_steps ids now i (n + 1) ps (insert_step ?s t) = Some t'" using 2(2) by (simp split: if_splits)
  have r: "steps_ok t'" "set (insert_step ?s t) \<subseteq> set t'" "\<forall>j. j \<noteq> i \<longrightarrow> own j t' = own j (insert_step ?s t)"
    "\<forall>s\<in>set t' - set (insert_step ?s t). ck_check_run_id s = i"
    using 2(1) [OF _ t' i(1)] 2(2) by (auto split: if_splits)
  have "own i t' \<noteq> []" if "ids n \<notin> ck_id ` set t"
    using i(5) [OF that] r(2) by (auto simp: own_def filter_empty_conv)
  then show ?case using r i(2-4) s(1) by fastforce
qed simp

subsection \<open>Histories\<close>

text \<open>The calls of the handler on the tables; new step ids are fresh.\<close>

inductive ck_event :: "check_db \<Rightarrow> check_db \<Rightarrow> bool" where
  ev_create: "ck_create_or_get i now refs wid xid sid v db = Inr (db', r, created) \<Longrightarrow> trim_space i = i \<Longrightarrow> ck_event db db'"
| ev_start: "ck_start ids now i ps db = Inr (db', r) \<Longrightarrow> \<forall>n. ids n \<notin> ck_id ` set (cd_steps db) \<Longrightarrow> ck_event db db'"
| ev_recover: "ck_event db (ck_recover now i db)"
| ev_start_step: "ck_start_step now i name db = Inr (db', s) \<Longrightarrow> ck_event db db'"
| ev_complete_step: "ck_complete_step now i k db = Inr db' \<Longrightarrow> ck_event db db'"
| ev_artifact: "ck_event db (ck_set_artifact now i key db)"
| ev_cancel_step: "ck_cancel_step now i m db = Inr db' \<Longrightarrow> ck_event db db'"
| ev_cancel: "ck_cancel now i m db = Inr (db', r) \<Longrightarrow> ck_event db db'"
| ev_finish: "ck_finish now i db = Inr (db', r) \<Longrightarrow> ck_event db db'"

lemma run_ok_start:
  assumes "run_ok t r" "insert_steps ids now i 0 ps t = Some t'" "steps_ok t" "cr_id r \<noteq> i"
  shows "run_ok t' r"
  using insert_steps_ok [OF assms(2,3)] assms(1,4) run_ok_own by blast

lemma check_ok_start:
  assumes "check_ok db" "ck_start ids now i ps db = Inr (db', r)" "\<forall>n. ids n \<notin> ck_id ` set (cd_steps db)"
  shows "check_ok db'"
proof -
  let ?P = "\<lambda>r. cr_id r = trim_space i \<and> cr_status r \<in> {CkPending, CkRunning}" and ?f = "start_run now (length ps)"
  obtain t where t: "insert_steps ids now i 0 ps (cd_steps db) = Some t" "ps \<noteq> []"
    "affected ?P (cd_runs db) = 1" "i \<in> cr_id ` set (update_where ?P ?f (cd_runs db))"
    "db' = db\<lparr> cd_runs := update_where ?P ?f (cd_runs db), cd_steps := t \<rparr>"
    using assms(2) by (auto simp: ck_start_def Let_def split: if_splits option.splits)
  have f: "cr_id (?f r) = cr_id r" "cr_workflow_job_id (?f r) = cr_workflow_job_id r"
    "cr_execution_version (?f r) = cr_execution_version r" "cr_status (?f r) = CkRunning" for r
    by (simp_all add: start_run_def)
  have ok: "steps_ok (cd_steps db)" "unique_key cr_id (cd_runs db)"
    "unique_key (\<lambda>r. (cr_workflow_job_id r, cr_execution_version r)) (cd_runs db)"
    "ck_check_run_id ` set (cd_steps db) \<subseteq> cr_id ` set (cd_runs db)"
    using assms(1) by (auto simp: check_ok_def)
  have i: "i \<in> cr_id ` set (cd_runs db)" using t(4) f(1) by (simp add: image_update_where)
  note n = insert_steps_ok [OF t(1) ok(1)]
  have tr: "trim_space i = i" using i assms(1) by (auto simp: check_ok_def)
  obtain y where y: "y \<in> set (cd_runs db)" "?P y" using affected_pos [of ?P "cd_runs db"] t(3) zero_neq_one by metis
  have "run_ok t x" if x: "x \<in> set (update_where ?P ?f (cd_runs db))" for x
    using x
  proof (cases rule: in_update_whereE)
    case (changed v)
    then show ?thesis using tr f n t(2) assms(3) by (auto simp: run_ok_def)
  next
    case kept
    then have "cr_id x \<noteq> i" using y tr ok(2) unique_keyD by metis
    then show ?thesis using run_ok_start [OF _ t(1) ok(1)] kept assms(1) by (auto simp: check_ok_def)
  qed
  moreover have "trim_space (cr_id x) = cr_id x" if "x \<in> set (update_where ?P ?f (cd_runs db))" for x
    using that assms(1) f(1) by (auto simp: check_ok_def set_update_where)
  moreover have "ck_check_run_id ` set t \<subseteq> cr_id ` set (cd_runs db)" using n ok(4) i by blast
  ultimately show ?thesis
    using ok(2,3) n f by (simp add: check_ok_def t(5) unique_key_update_where image_update_where)
qed

lemma run_ok_keep:
  assumes "run_ok t r" "cr_id r' = cr_id r" "cr_status r' = CkPending \<or> cr_status r' = CkCancelled"
  shows "run_ok t r'"
  using assms(3) by (auto simp: run_ok_def)

lemma check_ok_create:
  assumes "check_ok db" "ck_create_or_get i now refs wid xid sid v db = Inr (db', r, created)" "trim_space i = i"
  shows "check_ok db'"
proof (cases "db' = db")
  case False
  then obtain x where x: "insert_run refs x db = Inr db'" "cr_id x = i" "cr_status x = CkPending"
    using assms(2) by (auto simp: ck_create_or_get_def Let_def split: if_splits sum.splits)
  let ?x = "x\<lparr> cr_created_at := stored_at (cr_created_at x), cr_updated_at := stored_at (cr_updated_at x) \<rparr>"
  have "run_ok (cd_steps db) ?x" using x(3) by (simp add: run_ok_def)
  moreover have "db' = db\<lparr> cd_runs := cd_runs db @ [?x] \<rparr>" "cr_id x \<notin> cr_id ` set (cd_runs db)"
    "(cr_workflow_job_id x, cr_execution_version x) \<notin> (\<lambda>r. (cr_workflow_job_id r, cr_execution_version r)) ` set (cd_runs db)"
    using x(1) by (auto simp: insert_run_def split: if_splits)
  ultimately show ?thesis using assms(1,3) x(2) by (auto simp: check_ok_def)
qed (use assms(1) in simp)

lemma check_ok_cancel:
  assumes "check_ok db" "ck_cancel now i m db = Inr (db', r)"
  shows "check_ok db'"
proof -
  let ?i = "trim_space i"
  let ?t = "cancel_steps now ?i m (cd_steps db)"
  let ?P = "\<lambda>r. cr_id r = ?i \<and> cr_status r \<in> {CkPending, CkRunning, CkCancelled}"
  define f :: "check_run \<Rightarrow> check_run" where "f = (\<lambda>r. r\<lparr> cr_status := CkCancelled, cr_passed_steps := steps_with CkPassed ?i ?t,
               cr_failed_steps := steps_with CkFailed ?i ?t,
               cr_completed_at := Some (case cr_completed_at r of None \<Rightarrow> stored_at now | Some x \<Rightarrow> x),
               cr_updated_at := stored_at now \<rparr>)"
  have db': "db' = db\<lparr> cd_steps := ?t, cd_runs := update_where ?P f (cd_runs db) \<rparr>"
    using assms(2) by (auto simp: ck_cancel_def Let_def f_def split: if_splits)
  have "check_ok (db\<lparr> cd_steps := ?t \<rparr>)"
    unfolding cancel_steps_def by (rule check_ok_steps [OF assms(1)]) (auto simp: cancel_step_row_def)
  from check_ok_runs [OF this, of f ?P] show ?thesis by (simp add: db' f_def run_ok_def)
qed

lemma check_ok_finish:
  assumes "check_ok db" "ck_finish now i db = Inr (db', r)"
  shows "check_ok db'"
proof -
  let ?t = "cd_steps db"
  have db': "db' = db\<lparr> cd_runs := update_where (can_finish i ?t) (finish_row now ?t) (cd_runs db) \<rparr>"
    using assms(2) by (auto simp: ck_finish_def update_returning_def split: option.splits)
  have "run_ok ?t (finish_row now ?t x)" if "x \<in> set (cd_runs db)" "can_finish i ?t x" for x
  proof -
    have "run_ok ?t x" using assms(1) that(1) by (auto simp: check_ok_def)
    then have "own (cr_id x) ?t \<noteq> []" using that(2) by (auto simp: run_ok_def can_finish_def)
    moreover have "ck_status_of s \<in> {CkPassed, CkFailed}" if "s \<in> set (own (cr_id x) ?t)" for s
      using that \<open>can_finish i ?t x\<close> by (cases "ck_status_of s") (auto simp: can_finish_def own_def)
    moreover have "(\<exists>s\<in>set ?t. ck_check_run_id s = cr_id x \<and> ck_status_of s \<noteq> CkPassed) \<longleftrightarrow>
        \<not> ck_status_of ` set (own (cr_id x) ?t) \<subseteq> {CkPassed}" by (auto simp: own_def)
    ultimately show ?thesis by (auto simp: run_ok_def finish_row_def Let_def steps_with_own)
  qed
  then show ?thesis unfolding db' by (intro check_ok_runs [OF assms(1)]) (auto simp: finish_row_def)
qed

lemma check_ok_artifact:
  assumes "check_ok db"
  shows "check_ok (ck_set_artifact now i key db)"
proof -
  let ?P = "\<lambda>s. ck_id s = trim_space i" and ?f = "\<lambda>s. s\<lparr> ck_artifact_key := trim_space key, ck_updated_at := stored_at now \<rparr>"
  have "run_ok (update_where ?P ?f t) r = run_ok t r" for t r
    by (rule run_ok_statuses) (simp add: own_update map_update_where)
  then show ?thesis using assms by (simp add: ck_set_artifact_def check_ok_def steps_ok_update image_update_where)
qed

lemma update_step_Inr: "update_step P f db = Inr db' \<Longrightarrow> db' = db\<lparr> cd_steps := update_where P f (cd_steps db) \<rparr>"
  by (simp add: update_step_def split: if_splits)

lemma ck_event_ok: "ck_event db db' \<Longrightarrow> check_ok db \<Longrightarrow> check_ok db'"
proof (induction rule: ck_event.induct)
  case (ev_start_step now i name db db' s)
  then have "db' = db\<lparr> cd_steps := update_where (\<lambda>s. ck_check_run_id s = trim_space i \<and> ck_profile s = trim_space name
      \<and> ck_status_of s = CkPending) (start_step_row now) (cd_steps db) \<rparr>"
    by (auto simp: ck_start_step_def update_returning_def split: option.splits)
  then show ?case by (simp only:) (rule check_ok_steps [OF ev_start_step(2)], auto simp: start_step_row_def)
next
  case (ev_complete_step now i k db db')
  then show ?case
    using update_step_Inr by (fastforce simp: ck_complete_step_def complete_step_row_def running_step_def intro: check_ok_steps)
next
  case (ev_cancel_step now i m db db')
  then show ?case
    using update_step_Inr by (fastforce simp: ck_cancel_step_def cancel_step_row_def running_step_def intro: check_ok_steps)
next
  case (ev_recover db now i)
  then show ?case unfolding ck_recover_def by (rule check_ok_steps) (auto simp: recover_step_row_def)
qed (fast intro: check_ok_create check_ok_start check_ok_cancel check_ok_finish check_ok_artifact)+

lemma insort_key_map: "(\<And>x. f (g x) = f x) \<Longrightarrow> map g (insort_key f x xs) = insort_key f (g x) (map g xs)"
  by (induction xs) simp_all

lemma sort_key_map: "(\<And>x. f (g x) = f x) \<Longrightarrow> map g (sort_key f xs) = sort_key f (map g xs)"
  by (induction xs) (simp_all add: insort_key_map)

lemma list_steps_own: "ck_list_steps db i = sort_key ck_sequence (own (trim_space i) (cd_steps db))"
  by (simp add: ck_list_steps_def own_def)

text \<open>A finished run is not touched again, and of its steps only the key of the stored log may still be set.\<close>

definition strip_log :: "check_step \<Rightarrow> check_step" where
  "strip_log s = s\<lparr> ck_artifact_key := [], ck_updated_at := 0 \<rparr>"

lemma own_quiet:
  assumes "check_ok db" "r \<in> set (cd_runs db)" "cr_status r \<in> {CkPassed, CkFailed}"
    and "\<And>s. ck_check_run_id (f s) = ck_check_run_id s" "\<And>s. P s \<Longrightarrow> ck_status_of s \<in> {CkPending, CkRunning, CkCancelled}"
  shows "own (cr_id r) (update_where P f (cd_steps db)) = own (cr_id r) (cd_steps db)"
proof -
  have "run_ok (cd_steps db) r" using assms(1,2) by (simp add: check_ok_def)
  then have "ck_status_of ` set (own (cr_id r) (cd_steps db)) \<subseteq> {CkPassed, CkFailed}"
    using assms(3) by (auto simp: run_ok_def Let_def)
  then have "\<not> P s" if "s \<in> set (own (cr_id r) (cd_steps db))" for s using that assms(5) [of s] by (cases "ck_status_of s") auto
  then show ?thesis by (simp add: own_update [OF assms(4)] update_where_none)
qed

lemma start_keeps:
  assumes "check_ok db" "ck_start ids now i ps db = Inr (db', x)" "r \<in> set (cd_runs db)" "cr_status r \<in> {CkPassed, CkFailed}"
  shows "r \<in> set (cd_runs db') \<and> own (cr_id r) (cd_steps db') = own (cr_id r) (cd_steps db)"
proof -
  let ?P = "\<lambda>r. cr_id r = trim_space i \<and> cr_status r \<in> {CkPending, CkRunning}" and ?f = "start_run now (length ps)"
  obtain t where t: "insert_steps ids now i 0 ps (cd_steps db) = Some t" "affected ?P (cd_runs db) = 1"
    "i \<in> cr_id ` set (update_where ?P ?f (cd_runs db))"
    "db' = db\<lparr> cd_runs := update_where ?P ?f (cd_runs db), cd_steps := t \<rparr>"
    using assms(2) by (auto simp: ck_start_def Let_def split: if_splits option.splits)
  have "cr_id ` set (update_where ?P ?f (cd_runs db)) = cr_id ` set (cd_runs db)"
    by (rule image_update_where) (simp add: start_run_def)
  then have tr: "trim_space i = i" using t(3) assms(1) by (auto simp: check_ok_def)
  obtain y where y: "y \<in> set (cd_runs db)" "?P y" using affected_pos [of ?P "cd_runs db"] t(2) zero_neq_one by metis
  have "unique_key cr_id (cd_runs db)" "steps_ok (cd_steps db)" using assms(1) by (auto simp: check_ok_def)
  then have "cr_id r \<noteq> i" "own j t = own j (cd_steps db)" if "j \<noteq> i" for j
    using y tr assms(3,4) unique_keyD [of cr_id "cd_runs db" r y] insert_steps_ok [OF t(1)] that by auto
  moreover have "cr_id r \<noteq> i"
    using y tr assms(3,4) unique_keyD [of cr_id "cd_runs db" r y] \<open>unique_key cr_id (cd_runs db)\<close> by auto
  ultimately show ?thesis using assms(3,4) tr by (auto simp: t(4) set_update_where)
qed

lemma event_keeps:
  assumes "ck_event db db'" "check_ok db" "r \<in> set (cd_runs db)" "cr_status r \<in> {CkPassed, CkFailed}"
  shows "r \<in> set (cd_runs db') \<and> map strip_log (own (cr_id r) (cd_steps db')) = map strip_log (own (cr_id r) (cd_steps db))"
  using assms(1)
proof cases
  case (ev_create i now refs wid xid sid v r' created)
  then show ?thesis
    using assms(3) by (auto simp: ck_create_or_get_def Let_def insert_run_def split: if_splits sum.splits)
next
  case (ev_start ids now i ps r')
  then show ?thesis using start_keeps [OF assms(2) _ assms(3,4)] by metis
next
  case (ev_recover now i)
  have "own (cr_id r) (cd_steps db') = own (cr_id r) (cd_steps db)"
    unfolding ev_recover ck_recover_def by simp (rule own_quiet [OF assms(2-4)], auto simp: recover_step_row_def)
  then show ?thesis using assms(3) ev_recover by (simp add: ck_recover_def)
next
  case (ev_start_step now i name s)
  then have "db' = db\<lparr> cd_steps := update_where (\<lambda>s. ck_check_run_id s = trim_space i \<and> ck_profile s = trim_space name
      \<and> ck_status_of s = CkPending) (start_step_row now) (cd_steps db) \<rparr>"
    by (auto simp: ck_start_step_def update_returning_def split: option.splits)
  then show ?thesis
    using assms(3) by simp (subst own_quiet [OF assms(2-4)], auto simp: start_step_row_def)
next
  case (ev_complete_step now i k)
  then have "db' = db\<lparr> cd_steps := update_where (running_step i) (complete_step_row now k) (cd_steps db) \<rparr>"
    unfolding ck_complete_step_def by (intro update_step_Inr)
  then show ?thesis
    using own_quiet [OF assms(2-4), of "complete_step_row now k" "running_step i"] assms(3)
    by (simp add: complete_step_row_def running_step_def)
next
  case (ev_artifact now i key)
  then show ?thesis
    using assms(3) by (simp add: ck_set_artifact_def own_update map_update_where strip_log_def)
next
  case (ev_cancel_step now i m)
  then have "db' = db\<lparr> cd_steps := update_where (running_step i) (cancel_step_row now m) (cd_steps db) \<rparr>"
    unfolding ck_cancel_step_def by (intro update_step_Inr)
  then show ?thesis
    using own_quiet [OF assms(2-4), of "cancel_step_row now m" "running_step i"] assms(3)
    by (simp add: cancel_step_row_def running_step_def)
next
  case (ev_cancel now i m r')
  then have "r \<in> set (cd_runs db')" "cd_steps db' = cancel_steps now (trim_space i) m (cd_steps db)"
    using assms(3,4) by (auto simp: ck_cancel_def Let_def set_update_where split: if_splits)
  then show ?thesis
    unfolding cancel_steps_def by (simp only:) (subst own_quiet [OF assms(2-4)], auto simp: cancel_step_row_def)
next
  case (ev_finish now i r')
  then have "db' = db\<lparr> cd_runs := update_where (can_finish i (cd_steps db)) (finish_row now (cd_steps db)) (cd_runs db) \<rparr>"
    by (auto simp: ck_finish_def update_returning_def split: option.splits)
  then show ?thesis using assms(3,4) by (auto simp: set_update_where can_finish_def)
qed

text \<open>A finished run with its steps.\<close>

definition finished :: "check_db \<Rightarrow> check_run \<times> check_step list \<Rightarrow> bool" where
  "finished db v = (fst v \<in> set (cd_runs db) \<and> cr_status (fst v) \<in> {CkPassed, CkFailed}
     \<and> map strip_log (own (cr_id (fst v)) (cd_steps db)) = snd v)"

interpretation ck: settled_history ck_event check_ok finished
proof unfold_locales
  fix db db' :: check_db
  show "ck_event db db' \<Longrightarrow> check_ok db \<Longrightarrow> check_ok db'" by (rule ck_event_ok)
  show "ck_event db db' \<Longrightarrow> check_ok db \<Longrightarrow> finished db v \<Longrightarrow> finished db' v" for v
    using event_keeps by (simp add: finished_def)
qed

lemma count_two: "set xs \<subseteq> {a, b} \<Longrightarrow> a \<noteq> b \<Longrightarrow> count_list xs a + count_list xs b = length xs"
  by (induction xs) auto

text \<open>C27: A verdict of the checks is earned. In every history of the tables, a run is PASSED or FAILED only when it has
  steps and all of them were run to the end; it is PASSED exactly when every one of them passed, and its counters
  count them.\<close>
theorem check_verdict_is_earned:
  assumes "ck_event\<^sup>*\<^sup>* \<lparr> cd_runs = [], cd_steps = [] \<rparr> db" "r \<in> set (cd_runs db)" "cr_status r \<in> {CkPassed, CkFailed}"
  shows "let steps = ck_list_steps db (cr_id r) in steps \<noteq> [] \<and> (\<forall>s\<in>set steps. ck_status_of s \<in> {CkPassed, CkFailed})
    \<and> (cr_status r = CkPassed \<longleftrightarrow> (\<forall>s\<in>set steps. ck_status_of s = CkPassed))
    \<and> cr_passed_steps r = steps_with CkPassed (cr_id r) steps \<and> cr_failed_steps r = int (length steps) - cr_passed_steps r"
proof -
  have "check_ok \<lparr> cd_runs = [], cd_steps = [] \<rparr>" by (simp add: check_ok_def steps_ok_def unique_key_def)
  from ck.settled_ok [OF assms(1) this] have r: "run_ok (cd_steps db) r" "trim_space (cr_id r) = cr_id r"
    using assms(2) by (auto simp: check_ok_def)
  let ?o = "own (cr_id r) (cd_steps db)"
  have st: "?o \<noteq> []" "ck_status_of ` set ?o \<subseteq> {CkPassed, CkFailed}" "cr_status r = CkPassed \<longleftrightarrow> ck_status_of ` set ?o \<subseteq> {CkPassed}"
    "cr_passed_steps r = int (count_list (map ck_status_of ?o) CkPassed)"
    "cr_failed_steps r = int (count_list (map ck_status_of ?o) CkFailed)"
    using r(1) assms(3) by (auto simp: run_ok_def Let_def)
  have "steps_with CkPassed (cr_id r) (sort_key ck_sequence ?o) = steps_with CkPassed (cr_id r) ?o"
    by (simp add: steps_with_def filter_sort)
  also have "\<dots> = int (count_list (map ck_status_of ?o) CkPassed)"
    by (simp add: steps_with_own) (simp add: own_def)
  finally have "cr_passed_steps r = steps_with CkPassed (cr_id r) (sort_key ck_sequence ?o)" using st(4) by simp
  moreover have "cr_failed_steps r = int (length ?o) - cr_passed_steps r"
    using count_two [of "map ck_status_of ?o" CkPassed CkFailed] st(2,4,5) by simp
  moreover have "sort_key ck_sequence ?o \<noteq> []" using st(1) by (metis length_0_conv length_sort)
  ultimately show ?thesis using st(2,3) r(2) by (auto simp: list_steps_own)
qed

text \<open>A verdict is final: once a run is PASSED or FAILED, no later call changes it or adds, removes or reruns a step;
  only the key of a stored log may still be recorded.\<close>
theorem check_verdict_is_final:
  assumes "ck_event\<^sup>*\<^sup>* \<lparr> cd_runs = [], cd_steps = [] \<rparr> db" "ck_event\<^sup>*\<^sup>* db db'"
    and "r \<in> set (cd_runs db)" "cr_status r \<in> {CkPassed, CkFailed}"
  shows "ck_get db' (cr_id r) = Inr r
    \<and> map strip_log (ck_list_steps db' (cr_id r)) = map strip_log (ck_list_steps db (cr_id r))"
proof -
  have ok: "check_ok \<lparr> cd_runs = [], cd_steps = [] \<rparr>" by (simp add: check_ok_def steps_ok_def unique_key_def)
  note ok = ck.settled_ok [OF assms(1) ok]
  have "finished db (r, map strip_log (own (cr_id r) (cd_steps db)))" using assms(3,4) by (simp add: finished_def)
  from ck.settled_keeps [OF assms(2) ok this]
  have k: "r \<in> set (cd_runs db')"
    "map strip_log (own (cr_id r) (cd_steps db')) = map strip_log (own (cr_id r) (cd_steps db))" by (simp_all add: finished_def)
  have u: "unique_key cr_id (cd_runs db')" "trim_space (cr_id r) = cr_id r"
    using ck.settled_ok [OF assms(2) ok] k by (auto simp: check_ok_def)
  have "lookup_by cr_id (cr_id r) (cd_runs db') = Some r" using lookup_by_unique [OF u(1)] k by simp
  moreover have "map strip_log (sort_key ck_sequence xs) = sort_key ck_sequence (map strip_log xs)" for xs
    by (rule sort_key_map) (simp add: strip_log_def)
  ultimately show ?thesis using k u(2) by (simp add: ck_get_def list_steps_own)
qed

subsection \<open>Witnesses\<close>

definition demo_profile :: profile where
  "demo_profile = \<lparr> pf_name = ''go.vet'', pf_command = [''go'', ''vet'', ''./...''], pf_timeout = 1, pf_output_limit = 100,
     pf_require_empty = False \<rparr>"

definition demo_result :: check_result where
  "demo_result = \<lparr> kr_passed = True, kr_exit_code = 0, kr_duration = 0, kr_output = [], kr_artifact_output = [],
     kr_output_limit = 100, kr_truncated = False, kr_cancelled = False, kr_timed_out = False, kr_error_message = [] \<rparr>"

definition demo_run :: check_run where
  "demo_run = \<lparr> cr_id = ''c'', cr_workflow_job_id = ''w'', cr_execution_id = ''e'', cr_execution_version = 1,
     cr_workspace_id = ''s'', cr_status = CkPassed, cr_total_steps = 1, cr_passed_steps = 1, cr_failed_steps = 0,
     cr_started_at = Some 0, cr_completed_at = Some 0, cr_created_at = 0, cr_updated_at = 0 \<rparr>"

definition demo_step :: check_step where
  "demo_step = complete_step_row 0 demo_result (start_step_row 0 (new_step ''k'' 0 ''c'' 1 demo_profile))"

definition demo_check_db :: check_db where
  "demo_check_db = \<lparr> cd_runs = [demo_run], cd_steps = [demo_step] \<rparr>"

lemma trim_demo: "trim_space ''c'' = ''c''" "trim_space ''k'' = ''k''" "trim_space ''w'' = ''w''" "trim_space ''e'' = ''e''"
  "trim_space ''s'' = ''s''" "trim_space ''go.vet'' = ''go.vet''"
  by (simp_all add: plain_char_def)

lemma demo_check_history: "ck_event\<^sup>*\<^sup>* \<lparr> cd_runs = [], cd_steps = [] \<rparr> demo_check_db"
proof -
  let ?d0 = "\<lparr> cd_runs = [], cd_steps = [] \<rparr>"
  let ?r = "demo_run\<lparr> cr_status := CkPending, cr_total_steps := 0, cr_passed_steps := 0, cr_started_at := None, cr_completed_at := None \<rparr>"
  let ?s = "new_step ''k'' 0 ''c'' 1 demo_profile"
  let ?d1 = "\<lparr> cd_runs = [?r], cd_steps = [] \<rparr>"
  let ?run = "demo_run\<lparr> cr_status := CkRunning, cr_passed_steps := 0, cr_completed_at := None \<rparr>"
  let ?d2 = "\<lparr> cd_runs = [?run], cd_steps = [?s] \<rparr>"
  let ?d3 = "\<lparr> cd_runs = [?run], cd_steps = [start_step_row 0 ?s] \<rparr>"
  let ?d4 = "\<lparr> cd_runs = [?run], cd_steps = [demo_step] \<rparr>"
  have z: "stored_at 0 = 0" by (simp add: stored_at_def from_milli_def unix_milli_def)
  have "ck_create_or_get ''c'' 0 True ''w'' ''e'' ''s'' 1 ?d0 = Inr (?d1, ?r, True)"
    by (simp add: ck_create_or_get_def trim_demo ck_get_by_version_def insert_run_def demo_run_def z Let_def)
  note h = rtranclp.rtrancl_into_rtrancl [of ck_event, OF rtranclp.rtrancl_refl [of ck_event] ev_create [OF this trim_demo(1)]]
  have "ck_start (\<lambda>_. ''k'') 0 ''c'' [demo_profile] ?d1 = Inr (?d2, ?run)"
    by (simp add: ck_start_def trim_demo affected_def start_run_def demo_run_def z demo_profile_def validate_profile_def
        fixed_commands_def insert_step_def ck_get_def lookup_by_def)
  note h = rtranclp.rtrancl_into_rtrancl [of ck_event, OF h ev_start [OF this]]
  have "ck_start_step 0 ''c'' ''go.vet'' ?d2 = Inr (?d3, start_step_row 0 ?s)"
    by (simp add: ck_start_step_def trim_demo update_returning_def new_step_def demo_profile_def)
  note h = rtranclp.rtrancl_into_rtrancl [of ck_event, OF h [simplified] ev_start_step [OF this]]
  have "ck_complete_step 0 ''k'' demo_result ?d3 = Inr ?d4"
    by (simp add: ck_complete_step_def trim_demo update_step_def affected_def running_step_def start_step_row_def new_step_def demo_step_def)
  note h = rtranclp.rtrancl_into_rtrancl [of ck_event, OF h ev_complete_step [OF this]]
  have "ck_finish 0 ''c'' ?d4 = Inr (demo_check_db, demo_run)"
    by (simp add: ck_finish_def update_returning_def can_finish_def finish_row_def demo_run_def demo_step_def complete_step_row_def
        start_step_row_def new_step_def demo_result_def steps_with_def demo_check_db_def z)
  from rtranclp.rtrancl_into_rtrancl [of ck_event, OF h ev_finish [OF this]] show ?thesis .
qed

lemma check_verdict_is_earned_witness: "ck_list_steps demo_check_db ''c'' \<noteq> []"
  using check_verdict_is_earned [OF demo_check_history, of demo_run]
  by (simp add: demo_check_db_def demo_run_def Let_def)

lemma check_verdict_is_final_witness: "ck_get (ck_recover 0 ''c'' demo_check_db) ''c'' = Inr demo_run"
proof -
  have "ck_event\<^sup>*\<^sup>* demo_check_db (ck_recover 0 ''c'' demo_check_db)"
    by (rule rtranclp.rtrancl_into_rtrancl [of ck_event, OF rtranclp.rtrancl_refl [of ck_event] ev_recover])
  from check_verdict_is_final [OF demo_check_history this, of demo_run] show ?thesis
    by (simp add: demo_check_db_def demo_run_def)
qed

end
