(* ===== verification/CheckRunner.thy ===== *)
theory CheckRunner
  imports CheckRepo Tools
begin

text \<open>The required checks of a repository (internal/checks: profiles.go, runner.go, docker_runner.go): which profiles
  are detected in a workspace, the buffer that bounds a command's output, and how the outcome of a command
  becomes a result. The process itself is a parameter: the chunks it writes and how it ends.\<close>

subsection \<open>Detection\<close>

text \<open>\<open>decode\<close> is the document a JSON text decodes to; \<open>linked\<close> is what reading package.json gives when it is a
  symbolic link, which \<open>os.ReadFile\<close> follows out of the modelled tree.\<close>

datatype read_result = ReadMissing | ReadError | ReadContent string

record detect_env =
  de_decode :: "string \<Rightarrow> json_text"
  de_linked :: read_result
  de_timeout :: int
  de_output_limit :: int
  de_max_go_files :: int

abbreviation default_command_timeout :: int where "default_command_timeout \<equiv> 120000000000"
abbreviation default_output_limit :: int where "default_output_limit \<equiv> 1048576"

definition or_positive :: "int \<Rightarrow> int \<Rightarrow> int" where
  "or_positive n d = (if n \<le> 0 then d else n)"

definition go_skipped_dirs :: "string list" where
  "go_skipped_dirs = [''.git'', ''.orkoda'', ''vendor'', ''node_modules'', ''dist'', ''build'']"

definition go_entry :: "string list \<times> node \<Rightarrow> bool" where
  "go_entry e = (case e of (p, n) \<Rightarrow> p \<noteq> [] \<and> n \<noteq> Dir \<and> n \<noteq> Link
     \<and> \<not> list_ex (\<lambda>c. c \<in> set go_skipped_dirs) (butlast p) \<and> has_suffix (last p) ''.go'')"

text \<open>The limit is tested before each file of the walk, so that the first \<open>limit\<close> Go files are taken.\<close>

definition collect_go_files :: "tree \<Rightarrow> nat \<Rightarrow> string list" where
  "collect_go_files t limit = sort (take limit (map (\<lambda>e. rel_string (fst e)) (filter go_entry (walk_order t))))"

text \<open>The scripts of package.json: a repeated object adds to the map, null clears it.\<close>

fun add_scripts :: "(string \<times> json) list \<Rightarrow> (string \<rightharpoonup> string) \<Rightarrow> (string \<rightharpoonup> string) option" where
  "add_scripts [] m = Some m"
| "add_scripts ((k, v) # kvs) m =
     (case dec_elem dec_string [] v of None \<Rightarrow> None | Some s \<Rightarrow> add_scripts kvs (m(k \<mapsto> s)))"

fun manifest_scripts :: "(string \<times> json) list \<Rightarrow> (string \<rightharpoonup> string) \<Rightarrow> (string \<rightharpoonup> string) option" where
  "manifest_scripts [] m = Some m"
| "manifest_scripts ((k, v) # kvs) m =
     (if fold_name k \<noteq> fold_name ''scripts'' then manifest_scripts kvs m
      else case v of
        JNull \<Rightarrow> manifest_scripts kvs Map.empty
      | JObj xs \<Rightarrow> (case add_scripts xs m of None \<Rightarrow> None | Some m' \<Rightarrow> manifest_scripts kvs m')
      | _ \<Rightarrow> None)"

definition bun_scripts :: "(string \<times> string \<times> string) list" where
  "bun_scripts = [(''lint:ts'', ''bun.lint-ts'', ''lint''), (''lint'', ''bun.lint'', ''lint''),
     (''typecheck'', ''bun.typecheck'', ''typecheck''), (''test:ts'', ''bun.test-ts'', ''test''),
     (''test'', ''bun.test'', ''test''), (''build'', ''bun.build'', ''build'')]"

fun bun_profiles :: "int \<Rightarrow> int \<Rightarrow> (string \<rightharpoonup> string) \<Rightarrow> string list \<Rightarrow> (string \<times> string \<times> string) list \<Rightarrow> profile list" where
  "bun_profiles timeout limit m seen [] = []"
| "bun_profiles timeout limit m seen ((script, name, category) # cs) =
     (if trim_space (case m script of None \<Rightarrow> [] | Some s \<Rightarrow> s) = [] \<or> category \<in> set seen then bun_profiles timeout limit m seen cs
      else \<lparr> pf_name = name, pf_command = [''bun'', ''run'', script], pf_timeout = timeout, pf_output_limit = limit,
             pf_require_empty = False \<rparr> # bun_profiles timeout limit m (category # seen) cs)"

definition read_manifest :: "detect_env \<Rightarrow> tree \<Rightarrow> read_result" where
  "read_manifest E t = (case lstat t [''package.json''] of
     Found (File c) \<Rightarrow> ReadContent c | Found Link \<Rightarrow> de_linked E | Missing \<Rightarrow> ReadMissing | _ \<Rightarrow> ReadError)"

definition detect_bun_profiles :: "detect_env \<Rightarrow> int \<Rightarrow> int \<Rightarrow> tree \<Rightarrow> ck_error + profile list" where
  "detect_bun_profiles E timeout limit t =
     (case read_manifest E t of
        ReadMissing \<Rightarrow> Inr []
      | ReadError \<Rightarrow> Inl CkDbError
      | ReadContent payload \<Rightarrow>
        if length payload > 1048576 then Inl CkInvalid
        else case de_decode E payload of
          Some (JObj kvs) \<Rightarrow>
            (case manifest_scripts kvs Map.empty of
               None \<Rightarrow> Inl CkDbError | Some m \<Rightarrow> Inr (bun_profiles timeout limit m [] bun_scripts))
        | Some JNull \<Rightarrow> Inr (bun_profiles timeout limit Map.empty [] bun_scripts)
        | _ \<Rightarrow> Inl CkDbError)"

definition fixed_profile :: "string \<Rightarrow> string list \<Rightarrow> int \<Rightarrow> int \<Rightarrow> bool \<Rightarrow> profile" where
  "fixed_profile name command timeout limit no_output = \<lparr> pf_name = name, pf_command = command, pf_timeout = timeout,
     pf_output_limit = limit, pf_require_empty = no_output \<rparr>"

definition go_profiles :: "int \<Rightarrow> int \<Rightarrow> nat \<Rightarrow> tree \<Rightarrow> profile list" where
  "go_profiles timeout limit n t =
     (case lstat t [''go.mod''] of
        Found (File _) \<Rightarrow>
          let files = collect_go_files t n in
          (if files = [] then [] else [fixed_profile ''go.format'' ([''gofmt'', ''-l''] @ files) timeout limit True])
          @ [fixed_profile ''go.vet'' [''go'', ''vet'', ''./...''] timeout limit False,
             fixed_profile ''go.test'' [''go'', ''test'', ''./...''] timeout limit False]
      | _ \<Rightarrow> [])"

definition detect :: "detect_env \<Rightarrow> string \<Rightarrow> tree \<Rightarrow> ck_error + profile list" where
  "detect E root t =
     (let timeout = or_positive (de_timeout E) default_command_timeout;
          limit = or_positive (de_output_limit E) default_output_limit in
      if \<not> is_rooted (path_clean (trim_space root)) then Inl CkInvalid
      else if lstat t [] \<noteq> Found Dir then Inl CkInvalid
      else rbind (detect_bun_profiles E timeout limit t) (\<lambda>bun.
        let profiles = go_profiles timeout limit (nat (or_positive (de_max_go_files E) 500)) t @ bun in
        if \<not> list_all validate_profile profiles then Inl CkInvalid
        else if profiles = [] then Inl CkNoProfiles else Inr profiles))"

subsection \<open>The output buffer\<close>

record limited_buffer =
  lb_buffer :: string
  lb_artifact :: string
  lb_truncated :: bool

abbreviation artifact_output_limit :: nat where "artifact_output_limit \<equiv> 8388608"

definition lb_write :: "nat \<Rightarrow> string \<Rightarrow> limited_buffer \<Rightarrow> limited_buffer" where
  "lb_write limit payload b =
     (let b1 = b\<lparr> lb_artifact := lb_artifact b @ take (artifact_output_limit - length (lb_artifact b)) payload \<rparr>;
          remaining = limit - length (lb_buffer b) in
      if length (lb_buffer b) \<ge> limit then b1\<lparr> lb_truncated := True \<rparr>
      else if length payload > remaining
        then b1\<lparr> lb_buffer := lb_buffer b @ take remaining payload, lb_truncated := True \<rparr>
        else b1\<lparr> lb_buffer := lb_buffer b @ payload \<rparr>)"

definition lb_empty :: limited_buffer where
  "lb_empty = \<lparr> lb_buffer = [], lb_artifact = [], lb_truncated = False \<rparr>"

subsection \<open>Running a command\<close>

text \<open>How the process ended, and the state of the command's context: \<open>EndOther\<close> is an error that is not an exit status.\<close>

datatype process_end = EndOk | EndExit int string | EndOther string
datatype ctx_state = CtxLive | CtxTimedOut | CtxCancelled

record process =
  pr_chunks :: "string list"
  pr_end :: process_end
  pr_ctx :: ctx_state
  pr_duration :: int
  pr_timeout_text :: string

definition invalid_result :: "int \<Rightarrow> int \<Rightarrow> string \<Rightarrow> check_result" where
  "invalid_result duration limit message = \<lparr> kr_passed = False, kr_exit_code = - 1, kr_duration = duration, kr_output = [],
     kr_artifact_output = [], kr_output_limit = limit, kr_truncated = False, kr_cancelled = False, kr_timed_out = False,
     kr_error_message = message \<rparr>"

definition result_of :: "profile \<Rightarrow> int \<Rightarrow> process \<Rightarrow> check_result" where
  "result_of p limit q =
     (let b = fold (lb_write (nat limit)) (pr_chunks q) lb_empty;
          r0 = \<lparr> kr_passed = True, kr_exit_code = 0, kr_duration = pr_duration q, kr_output = lb_buffer b,
                 kr_artifact_output = lb_artifact b, kr_output_limit = limit, kr_truncated = lb_truncated b,
                 kr_cancelled = False, kr_timed_out = False, kr_error_message = [] \<rparr>;
          r1 = (if pf_require_empty p \<and> trim_space (kr_output r0) \<noteq> []
                then r0\<lparr> kr_passed := False, kr_exit_code := 1, kr_error_message := ''check produced unexpected output'' \<rparr>
                else r0);
          failed = (\<lambda>code message.
            let r2 = r1\<lparr> kr_passed := False, kr_exit_code := code, kr_error_message := bound message 1024 \<rparr> in
            case pr_ctx q of
              CtxLive \<Rightarrow> r2
            | CtxTimedOut \<Rightarrow> r2\<lparr> kr_timed_out := True, kr_error_message := ''check timed out after '' @ pr_timeout_text q \<rparr>
            | CtxCancelled \<Rightarrow> r2\<lparr> kr_cancelled := True, kr_error_message := ''check cancelled'' \<rparr>) in
      case pr_end q of
        EndOk \<Rightarrow> r1
      | EndExit code message \<Rightarrow> failed code message
      | EndOther message \<Rightarrow> failed (- 1) message)"

text \<open>The host runner and the Docker runner: a command line is run only for a valid profile in a directory. \<open>run\<close> starts the
  process. The texts of the validation errors are shortened to that of ErrInvalid.\<close>

definition runner_run :: "(string list \<Rightarrow> string \<Rightarrow> process) \<Rightarrow> int \<Rightarrow> string \<Rightarrow> tree \<Rightarrow> profile \<Rightarrow> check_result" where
  "runner_run run elapsed root t p =
     (let limit = or_positive (pf_output_limit p) default_output_limit; clean = path_clean (trim_space root) in
      if \<not> validate_profile p then invalid_result elapsed limit ''invalid check run''
      else if \<not> is_rooted clean then invalid_result elapsed limit ''absolute workspace path is required''
      else if lstat t [] \<noteq> Found Dir then invalid_result elapsed limit ''workspace path is not a directory''
      else result_of p limit (run (pf_command p) clean))"

definition docker_args :: "string \<Rightarrow> string \<Rightarrow> string \<Rightarrow> string list \<Rightarrow> string list" where
  "docker_args identity root sandbox command =
     [''run'', ''--rm'', ''--init'', ''--network=none'', ''--read-only'', ''--cap-drop=ALL'',
      ''--security-opt=no-new-privileges'', ''--pids-limit=128'', ''--memory=1g'', ''--cpus=2'',
      ''--ulimit'', ''fsize=2147483648:2147483648'', ''--tmpfs'', ''/tmp:rw,noexec,nosuid,nodev,size=64m'',
      ''--user'', identity, ''--mount'', ''type=bind,src='' @ root @ '',dst=/workspace,ro'',
      ''--mount'', ''type=volume,dst=/workspace/node_modules'', ''--workdir'', ''/workspace'',
      ''--env'', ''CI=1'', ''--env'', ''HOME=/tmp'', ''--env'', ''TMPDIR=/tmp'', ''--env'', ''GOPROXY=off'',
      ''--env'', ''GOSUMDB=off'', ''--env'', ''npm_config_offline=true'', ''--env'', ''BUN_CONFIG_NO_NETWORK=1'', sandbox] @ command"

definition docker_run ::
  "(string list \<Rightarrow> string \<Rightarrow> process) \<Rightarrow> int \<Rightarrow> string \<Rightarrow> string \<Rightarrow> string \<Rightarrow> string \<Rightarrow> tree \<Rightarrow> profile \<Rightarrow> check_result" where
  "docker_run run elapsed docker sandbox identity root t p =
     (let limit = or_positive (pf_output_limit p) default_output_limit; clean = path_clean (trim_space root) in
      if \<not> validate_profile p then invalid_result elapsed limit ''invalid check run''
      else if \<not> is_rooted clean then invalid_result elapsed limit ''absolute workspace path is required''
      else if lstat t [] \<noteq> Found Dir then invalid_result elapsed limit ''workspace path is not a directory''
      else if trim_space docker = [] \<or> trim_space sandbox = []
        then invalid_result elapsed limit ''Docker sandbox is not configured''
      else result_of p limit (run (docker # docker_args identity clean sandbox (pf_command p)) clean))"

subsection \<open>The buffer is a prefix of the output\<close>

definition lb_of :: "nat \<Rightarrow> string \<Rightarrow> limited_buffer" where
  "lb_of n s = \<lparr> lb_buffer = take n s, lb_artifact = take artifact_output_limit s, lb_truncated = (length s > n) \<rparr>"

lemma lb_write_of: "c \<noteq> [] \<Longrightarrow> lb_write n c (lb_of n s) = lb_of n (s @ c)"
  by (auto simp: lb_write_def lb_of_def Let_def min_def)

lemma lb_fold: "\<forall>c\<in>set cs. c \<noteq> [] \<Longrightarrow> fold (lb_write n) cs (lb_of n s) = lb_of n (s @ concat cs)"
  by (induction cs arbitrary: s) (simp_all add: lb_write_of)

text \<open>C0: However a command cuts its output into writes, the buffer keeps the first \<open>limit\<close> bytes of the whole output and
  the stored log the first 8 MiB, and the output counts as truncated exactly when it is longer than the limit.\<close>
theorem output_buffer_is_prefix:
  assumes "\<forall>c\<in>set chunks. c \<noteq> []"
  shows "fold (lb_write limit) chunks lb_empty = \<lparr> lb_buffer = take limit (concat chunks),
     lb_artifact = take artifact_output_limit (concat chunks), lb_truncated = (length (concat chunks) > limit) \<rparr>"
  using lb_fold [OF assms, of limit "[]"] by (simp add: lb_of_def lb_empty_def)

lemma output_buffer_is_prefix_witness:
  "fold (lb_write 3) [''ab'', ''cd''] lb_empty = \<lparr> lb_buffer = ''abc'', lb_artifact = ''abcd'', lb_truncated = True \<rparr>"
  using output_buffer_is_prefix [of "[''ab'', ''cd'']" 3] by simp

subsection \<open>Detection and validation agree\<close>

lemma bun_commands:
  "\<forall>(s, n, c)\<in>set bun_scripts. n \<noteq> ''go.format'' \<and> map_of fixed_commands n = Some [''bun'', ''run'', s]"
  by code_simp

lemma bun_profiles_ok:
  assumes "timeout > 0" "limit > 0" "set cs \<subseteq> set bun_scripts"
  shows "list_all validate_profile (bun_profiles timeout limit m seen cs)
    \<and> pf_name ` set (bun_profiles timeout limit m seen cs) \<subseteq> (\<lambda>c. fst (snd c)) ` set cs
    \<and> (distinct (map (\<lambda>c. fst (snd c)) cs) \<longrightarrow> distinct (map pf_name (bun_profiles timeout limit m seen cs)))"
  using assms
proof (induction timeout limit m seen cs rule: bun_profiles.induct)
  case (2 timeout limit m seen script name category cs)
  let ?p = "\<lparr> pf_name = name, pf_command = [''bun'', ''run'', script], pf_timeout = timeout, pf_output_limit = limit,
    pf_require_empty = False \<rparr>"
  have "(script, name, category) \<in> set bun_scripts" and sub: "set cs \<subseteq> set bun_scripts" using "2.prems" by simp_all
  from bspec [OF bun_commands this(1)]
  have "name \<noteq> ''go.format'' \<and> map_of fixed_commands name = Some [''bun'', ''run'', script]" by simp
  then have v: "validate_profile ?p" using "2.prems" by (simp add: validate_profile_def)
  show ?case
  proof (cases "trim_space (case m script of None \<Rightarrow> [] | Some s \<Rightarrow> s) = [] \<or> category \<in> set seen")
    case True
    then show ?thesis using "2.IH"(1) [OF True "2.prems"(1,2) sub] by auto
  next
    case False
    then show ?thesis using "2.IH"(2) [OF False "2.prems"(1,2) sub] v by auto
  qed
qed simp

definition tree_names_ok :: "tree \<Rightarrow> bool" where
  "tree_names_ok t = (\<forall>e\<in>set t. list_all normal_part (fst e))"

lemma join_inside:
  assumes "list_all normal_part ps" "ps \<noteq> []"
  shows "path_clean (join_with [slash] ps) = join_with [slash] ps" "\<not> is_rooted (join_with [slash] ps)"
    "join_with [slash] ps \<noteq> ''..''" "\<not> has_prefix (join_with [slash] ps) ''../''"
proof -
  note j = join_relative [OF climbing_normal [OF assms(1)] assms(2)]
  show r: "\<not> is_rooted (join_with [slash] ps)" by (rule j)
  show "path_clean (join_with [slash] ps) = join_with [slash] ps" using r j(2) assms(2) by (simp add: path_clean_def)
  have hd: "hd ps \<noteq> ''..''" using assms by (cases ps) auto
  have sj: "split_char slash (join_with [slash] ps) = ps" by (rule split_join [OF assms(2) normal_noslash [OF assms(1)]])
  show "join_with [slash] ps \<noteq> ''..''"
  proof
    assume "join_with [slash] ps = ''..''"
    then have "ps = split_char slash ''..''" using sj by simp
    then show False using hd by simp
  qed
  show "\<not> has_prefix (join_with [slash] ps) ''../''"
  proof
    assume "has_prefix (join_with [slash] ps) ''../''"
    then have "join_with [slash] ps = ''../'' @ drop 3 (join_with [slash] ps)"
      unfolding has_prefix_def by (metis append_take_drop_id length_Cons list.size(3) numeral_3_eq_3)
    then obtain r where "join_with [slash] ps = ''..'' @ slash # r" by auto
    then have "ps = split_char slash ''..'' @ split_char slash r" using sj split_char_append [of slash "''..''" r] by metis
    then show False using hd by simp
  qed
qed

lemma join_last: "ps \<noteq> [] \<Longrightarrow> \<exists>q. join_with sep ps = q @ last ps"
proof (induction ps rule: induct_list012)
  case (3 p q ps)
  then obtain r where "join_with sep (q # ps) = r @ last (q # ps)" by auto
  then show ?case by (intro exI [of _ "p @ sep @ r"]) simp
qed auto

lemma go_paths_safe:
  assumes "tree_names_ok t" "f \<in> set (collect_go_files t n)"
  shows "safe_go_path f"
proof -
  have "f \<in> (\<lambda>e. rel_string (fst e)) ` set (filter go_entry (walk_order t))"
    using assms(2) set_take_subset by (fastforce simp: collect_go_files_def)
  then obtain p k where p: "(p, k) \<in> set t" "go_entry (p, k)" "f = rel_string p"
    by (auto simp: walk_order_def)
  then have n: "list_all normal_part p" "p \<noteq> []" "has_suffix (last p) ''.go''"
    using assms(1) by (auto simp: tree_names_ok_def go_entry_def)
  obtain q where "join_with [slash] p = q @ last p" using join_last [OF n(2)] by blast
  then have "has_suffix (join_with [slash] p) ''.go''" using n(3) by (auto simp: has_suffix_def numeral_3_eq_3)
  then show ?thesis using join_inside [OF n(1,2)] n(2) p(3) by (simp add: safe_go_path_def rel_string_def)
qed

lemma go_profiles_ok:
  assumes "tree_names_ok t" "timeout > 0" "limit > 0"
  shows "list_all validate_profile (go_profiles timeout limit n t)"
    "distinct (map pf_name (go_profiles timeout limit n t))"
    "pf_name ` set (go_profiles timeout limit n t) \<subseteq> {''go.format'', ''go.vet'', ''go.test''}"
proof -
  let ?f = "fixed_profile ''go.format'' ([''gofmt'', ''-l''] @ collect_go_files t n) timeout limit True"
  have "\<forall>f\<in>set (collect_go_files t n). safe_go_path f" using go_paths_safe [OF assms(1)] by blast
  then have f: "validate_profile ?f" if "collect_go_files t n \<noteq> []"
    using that assms(2,3)
    by (cases "collect_go_files t n") (auto simp: validate_profile_def fixed_profile_def go_format_ok_def list_all_iff)
  have v: "validate_profile (fixed_profile ''go.vet'' [''go'', ''vet'', ''./...''] timeout limit False)"
    "validate_profile (fixed_profile ''go.test'' [''go'', ''test'', ''./...''] timeout limit False)"
    using assms(2,3) by (simp_all add: validate_profile_def fixed_profile_def fixed_commands_def)
  show "list_all validate_profile (go_profiles timeout limit n t)"
    using f v by (auto simp: go_profiles_def Let_def split: lookup.splits node.splits)
  show "distinct (map pf_name (go_profiles timeout limit n t))"
    "pf_name ` set (go_profiles timeout limit n t) \<subseteq> {''go.format'', ''go.vet'', ''go.test''}"
    by (auto simp: go_profiles_def fixed_profile_def Let_def split: lookup.splits node.splits)
qed

lemma detect_bun_Inr:
  assumes "detect_bun_profiles E timeout limit t = Inr bun"
  shows "\<exists>m cs. set cs \<subseteq> set bun_scripts \<and> distinct (map (\<lambda>c. fst (snd c)) cs) \<and> bun = bun_profiles timeout limit m [] cs"
proof -
  have "distinct (map (\<lambda>c. fst (snd c)) bun_scripts)" by code_simp
  moreover have "bun = [] \<or> (\<exists>m. bun = bun_profiles timeout limit m [] bun_scripts)"
    using assms by (auto simp: detect_bun_profiles_def split: read_result.splits if_splits option.splits json.splits)
  ultimately show ?thesis
  proof (elim disjE exE)
    assume "bun = []"
    then show ?thesis by (intro exI [of _ Map.empty] exI [of _ "[]"]) simp
  next
    fix m assume "bun = bun_profiles timeout limit m [] bun_scripts"
    then show ?thesis using \<open>distinct (map (\<lambda>c. fst (snd c)) bun_scripts)\<close>
      by (intro exI [of _ m] exI [of _ bun_scripts]) simp
  qed
qed

text \<open>C28: Detection and validation agree: whatever the workspace holds, every profile that is detected is on the list of
  allowed commands, the profiles have different names (each becomes a step of its own), and the final validation
  of the detector rejects nothing.\<close>
theorem detected_profiles_are_valid:
  assumes "tree_names_ok t" "is_rooted (path_clean (trim_space root))" "lstat t [] = Found Dir"
    and "detect_bun_profiles E (or_positive (de_timeout E) default_command_timeout)
      (or_positive (de_output_limit E) default_output_limit) t = Inr bun"
  shows "let ps = go_profiles (or_positive (de_timeout E) default_command_timeout)
      (or_positive (de_output_limit E) default_output_limit) (nat (or_positive (de_max_go_files E) 500)) t @ bun in
    detect E root t = (if ps = [] then Inl CkNoProfiles else Inr ps) \<and> list_all validate_profile ps
    \<and> distinct (map pf_name ps)"
proof -
  let ?t = "or_positive (de_timeout E) default_command_timeout" and ?l = "or_positive (de_output_limit E) default_output_limit"
  let ?go = "go_profiles ?t ?l (nat (or_positive (de_max_go_files E) 500)) t"
  have pos: "?t > 0" "?l > 0" by (simp_all add: or_positive_def)
  obtain m cs where b: "set cs \<subseteq> set bun_scripts" "distinct (map (\<lambda>c. fst (snd c)) cs)" "bun = bun_profiles ?t ?l m [] cs"
    using detect_bun_Inr [OF assms(4)] by blast
  note go = go_profiles_ok [OF assms(1) pos] and bn = bun_profiles_ok [OF pos b(1), of m "[]", folded b(3)]
  have names: "\<forall>c\<in>set bun_scripts. fst (snd c) \<noteq> ''go.format'' \<and> fst (snd c) \<noteq> ''go.vet'' \<and> fst (snd c) \<noteq> ''go.test''"
    by code_simp
  have "pf_name ` set ?go \<inter> pf_name ` set bun = {}"
  proof (rule ccontr)
    assume "pf_name ` set ?go \<inter> pf_name ` set bun \<noteq> {}"
    then obtain n where n: "n \<in> pf_name ` set ?go" "n \<in> pf_name ` set bun" by blast
    obtain c where c: "c \<in> set cs" "n = fst (snd c)" using subsetD [OF conjunct1 [OF conjunct2 [OF bn]] n(2)] by blast
    show False using subsetD [OF go(3) n(1)] bspec [OF names subsetD [OF b(1) c(1)]] c(2) by auto
  qed
  moreover have "distinct (map pf_name bun)" using bn b(2) by blast
  ultimately have d: "distinct (map pf_name (?go @ bun))" using go(2) by simp
  have v: "list_all validate_profile (?go @ bun)" using go(1) bn by simp
  have "detect E root t = (if ?go @ bun = [] then Inl CkNoProfiles else Inr (?go @ bun))"
    unfolding detect_def Let_def assms(4) rbind_simps using v assms(2,3) by (simp only: simp_thms if_True if_False not_not)
  then show ?thesis using v d unfolding Let_def by blast
qed

definition go_tree :: tree where
  "go_tree = [([], Dir), ([''go.mod''], File ''module m''), ([''-cpuprofile=..''], Dir), ([''-cpuprofile=..'', ''x.go''], File [])]"

definition go_env :: detect_env where
  "go_env = \<lparr> de_decode = \<lambda>_. None, de_linked = ReadMissing, de_timeout = 0, de_output_limit = 0, de_max_go_files = 0 \<rparr>"

definition go_commands :: "profile list" where
  "go_commands = [fixed_profile ''go.format'' [''gofmt'', ''-l'', ''-cpuprofile=../x.go''] 120000000000 1048576 True,
     fixed_profile ''go.vet'' [''go'', ''vet'', ''./...''] 120000000000 1048576 False,
     fixed_profile ''go.test'' [''go'', ''test'', ''./...''] 120000000000 1048576 False]"

lemma go_tree_profiles: "go_profiles 120000000000 1048576 500 go_tree = go_commands"
  by (code_simp)

lemma rooted_w: "is_rooted (path_clean (trim_space ''/w''))"
  by (simp add: plain_char_def) code_simp

lemma detected_profiles_are_valid_witness: "detect go_env ''/w'' go_tree = Inr go_commands"
proof -
  have t: "tree_names_ok go_tree" by code_simp
  have d: "lstat go_tree [] = Found Dir" by code_simp
  have b: "detect_bun_profiles go_env (or_positive (de_timeout go_env) default_command_timeout)
      (or_positive (de_output_limit go_env) default_output_limit) go_tree = Inr []" by code_simp
  show ?thesis using detected_profiles_are_valid [OF t rooted_w d b]
    by (simp add: go_env_def or_positive_def go_tree_profiles go_commands_def)
qed

text \<open>C0: The names of Go files go to \<open>gofmt\<close> as they are, without a \<open>--\<close> before them: a directory \<open>-cpuprofile=..\<close> with
  a file \<open>x.go\<close> in it makes the detected and accepted format check \<open>gofmt -l -cpuprofile=../x.go\<close>, whose last argument
  is an option that names a file outside the workspace.\<close>
theorem go_format_takes_flags:
  "detect go_env ''/w'' go_tree = Inr go_commands
    \<and> pf_command (hd go_commands) = [''gofmt'', ''-l'', ''-cpuprofile=../x.go''] \<and> validate_profile (hd go_commands)"
proof -
  have "rbind (detect_bun_profiles go_env 120000000000 1048576 go_tree) (\<lambda>bun. Inr bun) = Inr []" by code_simp
  then have b: "detect_bun_profiles go_env 120000000000 1048576 go_tree = Inr []"
    by (cases "detect_bun_profiles go_env 120000000000 1048576 go_tree") auto
  have d: "lstat go_tree [] = Found Dir" by code_simp
  have v: "list_all validate_profile go_commands" by code_simp
  have e: "or_positive (de_timeout go_env) default_command_timeout = 120000000000"
    "or_positive (de_output_limit go_env) default_output_limit = 1048576"
    "nat (or_positive (de_max_go_files go_env) 500) = 500" by code_simp+
  have "go_commands \<noteq> []" by (simp add: go_commands_def)
  then have "detect go_env ''/w'' go_tree = Inr go_commands"
    unfolding detect_def Let_def e b rbind_simps go_tree_profiles using v d rooted_w by simp
  then show ?thesis using v by (simp add: go_commands_def fixed_profile_def)
qed

end
