(* ===== verification/ReviewRepo.thy ===== *)
theory ReviewRepo
  imports CheckRepo ExecutionRepo
begin

text \<open>The reviews repository (internal/reviewer/repository.go): one review run for an execution version of a workflow and
  the issues of its result. A row is what the scan functions read (NULL text is the empty string, NULL usage no usage),
  instants are kept to the millisecond. Ids and clock are arguments, \<open>refs_ok\<close> says whether the rows that a run
  refers to in other tables exist. The CHECK constraints of the schema are the conditions of the inserts.\<close>

datatype rv_status = RvPending | RvRunning | RvCompleted | RvFailed | RvCancelled

record review_run =
  rv_id :: string
  rv_workflow_job_id :: string
  rv_execution_id :: string
  rv_execution_version :: int
  rv_check_run_id :: string
  rv_checkpoint_id :: string
  rv_agent_settings_version :: int
  rv_provider :: string
  rv_model :: string
  rv_status_of :: rv_status
  rv_verdict :: string
  rv_summary :: string
  rv_total_issues :: int
  rv_blocking_issues :: int
  rv_usage :: usage
  rv_failure_code :: string
  rv_failure_message :: string
  rv_started_at :: "instant option"
  rv_completed_at :: "instant option"
  rv_created_at :: instant
  rv_updated_at :: instant

record issue =
  is_id :: string
  is_review_run_id :: string
  is_position :: int
  is_key :: string
  is_severity :: string
  is_category :: string
  is_blocking :: bool
  is_title :: string
  is_description :: string
  is_file_path :: string
  is_line_start :: int
  is_line_end :: int
  is_criteria_refs :: "string list"
  is_created_at :: instant

record review_db =
  rd_runs :: "review_run list"
  rd_issues :: "issue list"

record review_result =
  re_verdict :: string
  re_summary :: string
  re_issues :: "issue list"

record review_input =
  ri_workflow_job_id :: string
  ri_execution_id :: string
  ri_execution_version :: int
  ri_check_run_id :: string
  ri_checkpoint_id :: string
  ri_agent_settings_version :: int
  ri_provider :: string
  ri_model :: string

datatype rv_error = RvNotFound | RvInvalid | RvSnapshotConflict | RvDbError

definition valid_verdicts :: "string list" where
  "valid_verdicts = [''APPROVE'', ''REQUEST_REVISION'']"

definition valid_severities :: "string list" where
  "valid_severities = [''CRITICAL'', ''HIGH'', ''MEDIUM'', ''LOW'']"

definition valid_categories :: "string list" where
  "valid_categories = [''CORRECTNESS'', ''SECURITY'', ''RELIABILITY'', ''PERFORMANCE'', ''MAINTAINABILITY'', ''TESTING'', ''REQUIREMENT'']"

subsection \<open>Runs\<close>

definition rv_get :: "review_db \<Rightarrow> string \<Rightarrow> rv_error + review_run" where
  "rv_get db i = (case lookup_by rv_id (trim_space i) (rd_runs db) of None \<Rightarrow> Inl RvNotFound | Some r \<Rightarrow> Inr r)"

definition rv_get_by_version :: "review_db \<Rightarrow> string \<Rightarrow> int \<Rightarrow> rv_error + review_run" where
  "rv_get_by_version db i v =
     (case find (\<lambda>r. rv_workflow_job_id r = trim_space i \<and> rv_execution_version r = v) (rd_runs db) of
        None \<Rightarrow> Inl RvNotFound | Some r \<Rightarrow> Inr r)"

definition rv_list_workflow :: "review_db \<Rightarrow> string \<Rightarrow> review_run list" where
  "rv_list_workflow db i =
     sort_key (\<lambda>r. - rv_execution_version r) (filter (\<lambda>r. rv_workflow_job_id r = trim_space i) (rd_runs db))"

definition rv_list_issues :: "review_db \<Rightarrow> string \<Rightarrow> issue list" where
  "rv_list_issues db i = sort_key is_position (filter (\<lambda>x. is_review_run_id x = trim_space i) (rd_issues db))"

definition normalize_review_input :: "review_input \<Rightarrow> review_input" where
  "normalize_review_input i = i\<lparr> ri_workflow_job_id := trim_space (ri_workflow_job_id i),
     ri_execution_id := trim_space (ri_execution_id i), ri_check_run_id := trim_space (ri_check_run_id i),
     ri_checkpoint_id := trim_space (ri_checkpoint_id i), ri_provider := trim_space (ri_provider i),
     ri_model := trim_space (ri_model i) \<rparr>"

definition review_input_ok :: "review_input \<Rightarrow> bool" where
  "review_input_ok i = (ri_workflow_job_id i \<noteq> [] \<and> ri_execution_id i \<noteq> [] \<and> ri_check_run_id i \<noteq> []
     \<and> ri_checkpoint_id i \<noteq> [] \<and> ri_execution_version i \<ge> 1 \<and> ri_agent_settings_version i \<ge> 1
     \<and> ri_provider i \<noteq> [] \<and> ri_model i \<noteq> [])"

definition same_snapshot :: "review_run \<Rightarrow> review_input \<Rightarrow> bool" where
  "same_snapshot r i = (rv_workflow_job_id r = ri_workflow_job_id i \<and> rv_execution_id r = ri_execution_id i
     \<and> rv_execution_version r = ri_execution_version i \<and> rv_check_run_id r = ri_check_run_id i
     \<and> rv_checkpoint_id r = ri_checkpoint_id i \<and> rv_agent_settings_version r = ri_agent_settings_version i
     \<and> rv_provider r = ri_provider i \<and> rv_model r = ri_model i)"

definition new_review :: "string \<Rightarrow> instant \<Rightarrow> review_input \<Rightarrow> review_run" where
  "new_review new_id now i = \<lparr> rv_id = new_id, rv_workflow_job_id = ri_workflow_job_id i,
     rv_execution_id = ri_execution_id i, rv_execution_version = ri_execution_version i,
     rv_check_run_id = ri_check_run_id i, rv_checkpoint_id = ri_checkpoint_id i,
     rv_agent_settings_version = ri_agent_settings_version i, rv_provider = ri_provider i, rv_model = ri_model i,
     rv_status_of = RvPending, rv_verdict = [], rv_summary = [], rv_total_issues = 0, rv_blocking_issues = 0,
     rv_usage = no_usage, rv_failure_code = [], rv_failure_message = [], rv_started_at = None, rv_completed_at = None,
     rv_created_at = now, rv_updated_at = now \<rparr>"

definition insert_review :: "bool \<Rightarrow> review_run \<Rightarrow> review_db \<Rightarrow> rv_error + review_db" where
  "insert_review refs_ok r db =
     (if rv_id r \<in> rv_id ` set (rd_runs db) \<or> \<not> refs_ok
         \<or> (\<exists>x\<in>set (rd_runs db). rv_workflow_job_id x = rv_workflow_job_id r \<and> rv_execution_version x = rv_execution_version r)
      then Inl RvDbError
      else Inr (db\<lparr> rd_runs := rd_runs db @
        [r\<lparr> rv_created_at := stored_at (rv_created_at r), rv_updated_at := stored_at (rv_updated_at r) \<rparr>] \<rparr>))"

definition existing_review :: "review_db \<Rightarrow> review_input \<Rightarrow> review_run \<Rightarrow> rv_error + review_db \<times> review_run \<times> bool" where
  "existing_review db i r = (if same_snapshot r i then Inr (db, r, False) else Inl RvSnapshotConflict)"

definition rv_create_or_get ::
  "string \<Rightarrow> instant \<Rightarrow> bool \<Rightarrow> review_input \<Rightarrow> review_db \<Rightarrow> rv_error + review_db \<times> review_run \<times> bool" where
  "rv_create_or_get new_id now refs_ok raw db =
     (let i = normalize_review_input raw; known = rv_get_by_version db (ri_workflow_job_id i) (ri_execution_version i);
          r = new_review new_id now i in
      if \<not> review_input_ok i then Inl RvInvalid
      else case known of
        Inr old \<Rightarrow> existing_review db i old
      | Inl _ \<Rightarrow>
        (case insert_review refs_ok r db of
           Inr db' \<Rightarrow> Inr (db', r, True)
         | Inl e \<Rightarrow> (case known of Inr old \<Rightarrow> existing_review db i old | Inl _ \<Rightarrow> Inl e)))"

definition open_review :: "review_run \<Rightarrow> bool" where
  "open_review r = (rv_status_of r \<in> {RvPending, RvRunning, RvFailed, RvCancelled})"

definition start_review :: "instant \<Rightarrow> review_run \<Rightarrow> review_run" where
  "start_review now r = r\<lparr> rv_status_of := RvRunning,
     rv_started_at := Some (case rv_started_at r of None \<Rightarrow> stored_at now | Some t \<Rightarrow> t), rv_completed_at := None,
     rv_failure_code := [], rv_failure_message := [], rv_updated_at := stored_at now \<rparr>"

definition rv_start :: "instant \<Rightarrow> string \<Rightarrow> review_db \<Rightarrow> rv_error + review_db \<times> review_run" where
  "rv_start now i db =
     (case update_returning (\<lambda>r. rv_id r = trim_space i \<and> open_review r) (start_review now) (rd_runs db) of
        None \<Rightarrow> Inl RvNotFound
      | Some (t, r) \<Rightarrow> Inr (db\<lparr> rd_runs := t \<rparr>, r))"

subsection \<open>Results\<close>

definition blocking_count :: "issue list \<Rightarrow> int" where
  "blocking_count xs = int (length (filter is_blocking xs))"

definition complete_review :: "instant \<Rightarrow> review_result \<Rightarrow> usage \<Rightarrow> review_run \<Rightarrow> review_run" where
  "complete_review now k u r = r\<lparr> rv_status_of := RvCompleted, rv_verdict := re_verdict k, rv_summary := re_summary k,
     rv_total_issues := int (length (re_issues k)), rv_blocking_issues := blocking_count (re_issues k), rv_usage := u,
     rv_failure_code := [], rv_failure_message := [], rv_completed_at := Some (stored_at now), rv_updated_at := stored_at now \<rparr>"

definition stored_issue :: "string \<Rightarrow> instant \<Rightarrow> string \<Rightarrow> nat \<Rightarrow> issue \<Rightarrow> issue" where
  "stored_issue new_id now run n x = x\<lparr> is_id := new_id, is_review_run_id := run, is_position := int n,
     is_file_path := nullable_string (is_file_path x), is_created_at := stored_at now \<rparr>"

definition insert_issue :: "issue \<Rightarrow> issue list \<Rightarrow> issue list option" where
  "insert_issue x t =
     (if is_id x \<in> is_id ` set t \<or> is_severity x \<notin> set valid_severities \<or> is_category x \<notin> set valid_categories
         \<or> is_line_start x < 0 \<or> is_line_end x < 0
         \<or> (\<exists>y\<in>set t. is_review_run_id y = is_review_run_id x \<and> (is_position y = is_position x \<or> is_key y = is_key x))
      then None else Some (t @ [x]))"

fun insert_issues :: "(nat \<Rightarrow> string) \<Rightarrow> instant \<Rightarrow> string \<Rightarrow> nat \<Rightarrow> issue list \<Rightarrow> issue list \<Rightarrow> issue list option" where
  "insert_issues ids now run n [] t = Some t"
| "insert_issues ids now run n (x # xs) t =
     (case insert_issue (stored_issue (ids n) now run n x) t of
        None \<Rightarrow> None | Some t' \<Rightarrow> insert_issues ids now run (n + 1) xs t')"

definition rv_complete ::
  "(nat \<Rightarrow> string) \<Rightarrow> instant \<Rightarrow> string \<Rightarrow> review_result \<Rightarrow> usage \<Rightarrow> review_db \<Rightarrow> rv_error + review_db \<times> review_run" where
  "rv_complete ids now i k u db =
     (let P = (\<lambda>r. rv_id r = trim_space i \<and> rv_status_of r = RvRunning);
          runs = update_where P (complete_review now k u) (rd_runs db) in
      if affected P (rd_runs db) \<noteq> 1 then Inl RvNotFound
      else if re_verdict k \<notin> set valid_verdicts \<or> (re_issues k \<noteq> [] \<and> i \<notin> rv_id ` set runs) then Inl RvDbError
      else case insert_issues ids now i 0 (re_issues k) (filter (\<lambda>x. is_review_run_id x \<noteq> i) (rd_issues db)) of
        None \<Rightarrow> Inl RvDbError
      | Some t \<Rightarrow> let db' = db\<lparr> rd_runs := runs, rd_issues := t \<rparr> in rbind (rv_get db' i) (\<lambda>r. Inr (db', r)))"

definition fail_review :: "instant \<Rightarrow> rv_status \<Rightarrow> string \<Rightarrow> string \<Rightarrow> review_run \<Rightarrow> review_run" where
  "fail_review now st code message r = r\<lparr> rv_status_of := st, rv_failure_code := code, rv_failure_message := message,
     rv_completed_at := Some (stored_at now), rv_updated_at := stored_at now \<rparr>"

definition rv_fail :: "instant \<Rightarrow> string \<Rightarrow> string \<Rightarrow> string \<Rightarrow> bool \<Rightarrow> review_db \<Rightarrow> review_db" where
  "rv_fail now i code message cancelled db = db\<lparr> rd_runs := update_where
     (\<lambda>r. rv_id r = trim_space i \<and> open_review r)
     (fail_review now (if cancelled then RvCancelled else RvFailed) (trim_space code) (bound (trim_space message) 2048))
     (rd_runs db) \<rparr>"

subsection \<open>Well-formed tables\<close>

definition issues_of :: "string \<Rightarrow> issue list \<Rightarrow> issue list" where
  "issues_of i t = filter (\<lambda>x. is_review_run_id x = i) t"

definition review_row_ok :: "issue list \<Rightarrow> review_run \<Rightarrow> bool" where
  "review_row_ok t r = (let xs = issues_of (rv_id r) t in
     trim_space (rv_id r) = rv_id r \<and> map is_position xs = map int [0..<length xs]
     \<and> (if rv_status_of r = RvCompleted
         then rv_verdict r \<in> set valid_verdicts \<and> rv_total_issues r = int (length xs) \<and> rv_blocking_issues r = blocking_count xs
         else xs = [] \<and> rv_verdict r = []))"

definition review_ok :: "review_db \<Rightarrow> bool" where
  "review_ok db = (unique_key rv_id (rd_runs db)
     \<and> unique_key (\<lambda>r. (rv_workflow_job_id r, rv_execution_version r)) (rd_runs db)
     \<and> (\<forall>r\<in>set (rd_runs db). review_row_ok (rd_issues db) r)
     \<and> unique_key (\<lambda>x. (is_review_run_id x, is_key x)) (rd_issues db)
     \<and> is_review_run_id ` set (rd_issues db) \<subseteq> rv_id ` set (rd_runs db))"

inductive rv_event :: "review_db \<Rightarrow> review_db \<Rightarrow> bool" where
  rv_ev_create: "rv_create_or_get i now refs inp db = Inr (db', r, created) \<Longrightarrow> trim_space i = i \<Longrightarrow> rv_event db db'"
| rv_ev_start: "rv_start now i db = Inr (db', r) \<Longrightarrow> rv_event db db'"
| rv_ev_complete: "rv_complete ids now i k u db = Inr (db', r) \<Longrightarrow> rv_event db db'"
| rv_ev_fail: "rv_event db (rv_fail now i code message cancelled db)"

lemma review_runs_ok:
  assumes "review_ok db" "\<And>r. rv_id (f r) = rv_id r \<and> rv_workflow_job_id (f r) = rv_workflow_job_id r
      \<and> rv_execution_version (f r) = rv_execution_version r"
    and "\<And>r. r \<in> set (rd_runs db) \<Longrightarrow> P r \<Longrightarrow> review_row_ok (rd_issues db) (f r)"
  shows "review_ok (db\<lparr> rd_runs := update_where P f (rd_runs db) \<rparr>)"
proof -
  have "review_row_ok (rd_issues db) r" if "r \<in> set (update_where P f (rd_runs db))" for r
    using that by (cases rule: in_update_whereE) (use assms in \<open>auto simp: review_ok_def\<close>)
  then show ?thesis using assms(1,2) by (simp add: review_ok_def unique_key_update_where image_update_where)
qed

lemma review_row_open:
  assumes "review_row_ok t r" "rv_status_of r \<noteq> RvCompleted" "rv_id r' = rv_id r" "rv_verdict r' = rv_verdict r"
    "rv_status_of r' \<noteq> RvCompleted"
  shows "review_row_ok t r'"
  using assms by (simp add: review_row_ok_def Let_def)

lemma insert_issues_spec:
  assumes "insert_issues ids now run n xs t = Some t'"
  shows "\<exists>ys. t' = t @ ys \<and> (\<forall>y\<in>set ys. is_review_run_id y = run)
    \<and> map is_position ys = map int [n..<n + length xs] \<and> map is_blocking ys = map is_blocking xs
    \<and> (unique_key (\<lambda>x. (is_review_run_id x, is_key x)) t \<longrightarrow> unique_key (\<lambda>x. (is_review_run_id x, is_key x)) t')"
  using assms
proof (induction ids now run n xs t rule: insert_issues.induct)
  case (2 ids now run n x xs t)
  let ?x = "stored_issue (ids n) now run n x"
  have c: "insert_issue ?x t = Some (t @ [?x])" and r: "insert_issues ids now run (n + 1) xs (t @ [?x]) = Some t'"
    using "2.prems" by (auto simp: insert_issue_def split: if_splits option.splits)
  have f: "is_review_run_id ?x = run" "is_position ?x = int n" "is_blocking ?x = is_blocking x"
    by (simp_all add: stored_issue_def)
  have u: "unique_key (\<lambda>x. (is_review_run_id x, is_key x)) t \<Longrightarrow> unique_key (\<lambda>x. (is_review_run_id x, is_key x)) (t @ [?x])"
    using c by (auto simp: insert_issue_def split: if_splits)
  obtain ys where "t' = (t @ [?x]) @ ys" "\<forall>y\<in>set ys. is_review_run_id y = run"
    "map is_position ys = map int [n + 1..<n + 1 + length xs]" "map is_blocking ys = map is_blocking xs"
    "unique_key (\<lambda>x. (is_review_run_id x, is_key x)) (t @ [?x]) \<longrightarrow> unique_key (\<lambda>x. (is_review_run_id x, is_key x)) t'"
    using "2.IH" [OF c r] by blast
  then show ?case using f u by (intro exI [of _ "?x # ys"]) (simp add: upt_rec)
qed simp

lemma issues_of_other: "i \<noteq> j \<Longrightarrow> issues_of i (filter (\<lambda>x. is_review_run_id x \<noteq> j) t) = issues_of i t"
  by (induction t) (auto simp: issues_of_def)

lemma issues_of_self: "issues_of i (filter (\<lambda>x. is_review_run_id x \<noteq> i) t) = []"
  by (simp add: issues_of_def)

lemma issues_of_new: "\<forall>y\<in>set ys. is_review_run_id y = j \<Longrightarrow> issues_of i (t @ ys) = issues_of i t @ (if i = j then ys else [])"
  by (simp add: issues_of_def filter_empty_conv)

lemma blocking_count_map: "blocking_count xs = int (length (filter id (map is_blocking xs)))"
  by (simp add: blocking_count_def filter_map o_def)

text \<open>What a completion does to the tables.\<close>

lemma rv_complete_tables:
  assumes "review_ok db" "rv_complete ids now i k u db = Inr (db', r)"
  shows "\<exists>ys. db' = db\<lparr> rd_runs := update_where (\<lambda>r. rv_id r = trim_space i \<and> rv_status_of r = RvRunning)
        (complete_review now k u) (rd_runs db), rd_issues := rd_issues db @ ys \<rparr>
    \<and> re_verdict k \<in> set valid_verdicts \<and> (\<forall>y\<in>set ys. is_review_run_id y = trim_space i)
    \<and> map is_position ys = map int [0..<length (re_issues k)] \<and> map is_blocking ys = map is_blocking (re_issues k)
    \<and> unique_key (\<lambda>x. (is_review_run_id x, is_key x)) (rd_issues db @ ys)
    \<and> issues_of (trim_space i) (rd_issues db) = []
    \<and> (\<exists>x\<in>set (rd_runs db). rv_id x = trim_space i \<and> rv_status_of x = RvRunning)"
proof -
  let ?P = "\<lambda>r. rv_id r = trim_space i \<and> rv_status_of r = RvRunning" and ?f = "complete_review now k u"
  let ?old = "filter (\<lambda>x. is_review_run_id x \<noteq> i) (rd_issues db)"
  obtain t where t: "insert_issues ids now i 0 (re_issues k) ?old = Some t" "affected ?P (rd_runs db) = 1"
    "re_verdict k \<in> set valid_verdicts" "re_issues k \<noteq> [] \<longrightarrow> i \<in> rv_id ` set (update_where ?P ?f (rd_runs db))"
    "db' = db\<lparr> rd_runs := update_where ?P ?f (rd_runs db), rd_issues := t \<rparr>"
    using assms(2) by (auto simp: rv_complete_def Let_def split: if_splits option.splits)
  have keys: "rv_id ` set (update_where ?P ?f (rd_runs db)) = rv_id ` set (rd_runs db)"
    by (rule image_update_where) (simp add: complete_review_def)
  have tr: "trim_space x = x" if "x \<in> rv_id ` set (rd_runs db)" for x
    using that assms(1) by (auto simp: review_ok_def review_row_ok_def Let_def)
  obtain y where y: "y \<in> set (rd_runs db)" "?P y" using affected_pos [of ?P "rd_runs db"] t(2) zero_neq_one by metis
  have e: "issues_of (trim_space i) (rd_issues db) = []"
    using y assms(1) by (auto simp: review_ok_def review_row_ok_def Let_def)
  have "is_review_run_id x \<noteq> i" if x: "x \<in> set (rd_issues db)" for x
  proof
    assume i: "is_review_run_id x = i"
    then have "i \<in> rv_id ` set (rd_runs db)" using x assms(1) by (auto simp: review_ok_def)
    then have "x \<in> set (issues_of (trim_space i) (rd_issues db))" using tr i x by (simp add: issues_of_def)
    then show False using e by simp
  qed
  then have old: "?old = rd_issues db" by (simp add: filter_id_conv)
  obtain ys where ys: "t = rd_issues db @ ys" "\<forall>y\<in>set ys. is_review_run_id y = i"
    "map is_position ys = map int [0..<length (re_issues k)]" "map is_blocking ys = map is_blocking (re_issues k)"
    "unique_key (\<lambda>x. (is_review_run_id x, is_key x)) (rd_issues db) \<longrightarrow> unique_key (\<lambda>x. (is_review_run_id x, is_key x)) t"
    using insert_issues_spec [OF t(1) [unfolded old]] by auto
  have "unique_key (\<lambda>x. (is_review_run_id x, is_key x)) (rd_issues db)" using assms(1) by (simp add: review_ok_def)
  moreover have "\<forall>y\<in>set ys. is_review_run_id y = trim_space i"
  proof (cases "re_issues k = []")
    case True
    then show ?thesis using ys(4) by simp
  next
    case False
    then show ?thesis using t(4) tr keys ys(2) by metis
  qed
  ultimately show ?thesis using t(3,5) ys e y by (intro exI [of _ ys]) auto
qed

lemma review_ok_create:
  assumes "review_ok db" "rv_create_or_get i now refs inp db = Inr (db', r, created)" "trim_space i = i"
  shows "review_ok db'"
proof (cases "db' = db")
  case False
  then obtain x where x: "insert_review refs x db = Inr db'" "rv_id x = i" "rv_status_of x = RvPending" "rv_verdict x = []"
    using assms(2)
    by (auto simp: rv_create_or_get_def existing_review_def new_review_def Let_def split: if_splits sum.splits)
  let ?x = "x\<lparr> rv_created_at := stored_at (rv_created_at x), rv_updated_at := stored_at (rv_updated_at x) \<rparr>"
  have n: "db' = db\<lparr> rd_runs := rd_runs db @ [?x] \<rparr>" "rv_id x \<notin> rv_id ` set (rd_runs db)"
    "(rv_workflow_job_id x, rv_execution_version x) \<notin> (\<lambda>r. (rv_workflow_job_id r, rv_execution_version r)) ` set (rd_runs db)"
    using x(1) by (auto simp: insert_review_def split: if_splits)
  then have "i \<notin> is_review_run_id ` set (rd_issues db)" using assms(1) x(2) unfolding review_ok_def by blast
  then have "issues_of i (rd_issues db) = []" by (force simp: issues_of_def filter_empty_conv)
  then have "review_row_ok (rd_issues db) ?x" using x assms(3) by (simp add: review_row_ok_def)
  then show ?thesis using n assms(1) by (auto simp: review_ok_def)
qed (use assms(1) in simp)

lemma review_ok_complete:
  assumes "review_ok db" "rv_complete ids now i k u db = Inr (db', r)"
  shows "review_ok db'"
proof -
  let ?P = "\<lambda>r. rv_id r = trim_space i \<and> rv_status_of r = RvRunning" and ?f = "complete_review now k u"
  obtain ys where ys: "db' = db\<lparr> rd_runs := update_where ?P ?f (rd_runs db), rd_issues := rd_issues db @ ys \<rparr>"
    "re_verdict k \<in> set valid_verdicts" "\<forall>y\<in>set ys. is_review_run_id y = trim_space i"
    "map is_position ys = map int [0..<length (re_issues k)]" "map is_blocking ys = map is_blocking (re_issues k)"
    "unique_key (\<lambda>x. (is_review_run_id x, is_key x)) (rd_issues db @ ys)" "issues_of (trim_space i) (rd_issues db) = []"
    "\<exists>x\<in>set (rd_runs db). ?P x"
    using rv_complete_tables [OF assms] by blast
  have f: "rv_id (?f x) = rv_id x" "rv_workflow_job_id (?f x) = rv_workflow_job_id x"
    "rv_execution_version (?f x) = rv_execution_version x" for x by (simp_all add: complete_review_def)
  have len: "length ys = length (re_issues k)" using ys(5) by (metis length_map)
  note own = issues_of_new [OF ys(3)]
  have "review_row_ok (rd_issues db @ ys) x" if "x \<in> set (update_where ?P ?f (rd_runs db))" for x
    using that
  proof (cases rule: in_update_whereE)
    case (changed y)
    then have "trim_space (rv_id y) = rv_id y" using assms(1) by (auto simp: review_ok_def review_row_ok_def Let_def)
    then show ?thesis
      using changed ys(2,4,7) own [of "trim_space i" "rd_issues db"] len f(1) [of y]
      by (simp add: review_row_ok_def Let_def blocking_count_map ys(5)) (simp add: complete_review_def blocking_count_map)
  next
    case kept
    then have x: "review_row_ok (rd_issues db) x" using assms(1) by (simp add: review_ok_def)
    show ?thesis
    proof (cases "rv_id x = trim_space i")
      case True
      obtain r' where r': "r' \<in> set (rd_runs db)" "?P r'" using ys(8) by blast
      then have "r' = x" using True kept(1) assms(1) unique_keyD [of rv_id "rd_runs db"] by (simp add: review_ok_def)
      then show ?thesis using r' kept(2) by simp
    next
      case False
      then show ?thesis using x own [of "rv_id x" "rd_issues db"] by (simp add: review_row_ok_def)
    qed
  qed
  moreover have "is_review_run_id ` set (rd_issues db @ ys) \<subseteq> rv_id ` set (rd_runs db)"
  proof -
    have "trim_space i \<in> rv_id ` set (rd_runs db)" using ys(8) by (metis imageI)
    then have "is_review_run_id ` set ys \<subseteq> rv_id ` set (rd_runs db)" using ys(3) by auto
    moreover have "is_review_run_id ` set (rd_issues db) \<subseteq> rv_id ` set (rd_runs db)" using assms(1) by (simp add: review_ok_def)
    ultimately show ?thesis by (simp add: image_Un)
  qed
  ultimately show ?thesis
    using assms(1) ys(1,6) f by (simp add: review_ok_def unique_key_update_where image_update_where)
qed

lemma rv_event_ok: "rv_event db db' \<Longrightarrow> review_ok db \<Longrightarrow> review_ok db'"
proof (induction rule: rv_event.induct)
  case (rv_ev_start now i db db' r)
  let ?P = "\<lambda>r. rv_id r = trim_space i \<and> open_review r"
  have d: "db' = db\<lparr> rd_runs := update_where ?P (start_review now) (rd_runs db) \<rparr>"
    using rv_ev_start(1) by (auto simp: rv_start_def update_returning_def split: option.splits)
  have "review_row_ok (rd_issues db) (start_review now x)" if "x \<in> set (rd_runs db)" "?P x" for x
    by (rule review_row_open [of _ x]) (use that rv_ev_start(2) in \<open>auto simp: review_ok_def start_review_def open_review_def\<close>)
  then show ?case unfolding d by (intro review_runs_ok [OF rv_ev_start(2)]) (auto simp: start_review_def)
next
  case (rv_ev_fail db now i code message cancelled)
  let ?P = "\<lambda>r. rv_id r = trim_space i \<and> open_review r"
    and ?f = "fail_review now (if cancelled then RvCancelled else RvFailed) (trim_space code) (bound (trim_space message) 2048)"
  have "review_row_ok (rd_issues db) (?f x)" if "x \<in> set (rd_runs db)" "?P x" for x
    by (rule review_row_open [of _ x]) (use that rv_ev_fail in \<open>auto simp: review_ok_def fail_review_def open_review_def\<close>)
  then show ?case unfolding rv_fail_def by (intro review_runs_ok [OF rv_ev_fail]) (auto simp: fail_review_def)
qed (fast intro: review_ok_create review_ok_complete)+

text \<open>A completed review with its issues.\<close>

definition reviewed :: "review_db \<Rightarrow> review_run \<times> issue list \<Rightarrow> bool" where
  "reviewed db v = (fst v \<in> set (rd_runs db) \<and> rv_status_of (fst v) = RvCompleted
     \<and> issues_of (rv_id (fst v)) (rd_issues db) = snd v)"

lemma rv_event_keeps:
  assumes "rv_event db db'" "review_ok db" "reviewed db v"
  shows "reviewed db' v"
  using assms(1)
proof cases
  case (rv_ev_create i now refs inp r created)
  then show ?thesis
    using assms(3)
    by (auto simp: rv_create_or_get_def existing_review_def insert_review_def reviewed_def Let_def split: if_splits sum.splits)
next
  case (rv_ev_start now i r)
  then show ?thesis
    using assms(3) by (auto simp: rv_start_def update_returning_def reviewed_def set_update_where open_review_def split: option.splits)
next
  case (rv_ev_complete ids now i k u r)
  let ?P = "\<lambda>r. rv_id r = trim_space i \<and> rv_status_of r = RvRunning"
  obtain ys where ys: "db' = db\<lparr> rd_runs := update_where ?P (complete_review now k u) (rd_runs db), rd_issues := rd_issues db @ ys \<rparr>"
    "\<forall>y\<in>set ys. is_review_run_id y = trim_space i" "\<exists>x\<in>set (rd_runs db). ?P x"
    using rv_complete_tables [OF assms(2) rv_ev_complete] by blast
  then obtain r' where r': "r' \<in> set (rd_runs db)" "?P r'" by blast
  have "rv_id (fst v) \<noteq> trim_space i"
    using r' assms(2,3) unique_keyD [of rv_id "rd_runs db" r' "fst v"] by (auto simp: reviewed_def review_ok_def)
  then show ?thesis
    using assms(3) by (auto simp: ys(1) reviewed_def set_update_where issues_of_new [OF ys(2)])
next
  case (rv_ev_fail now i code message cancelled)
  then show ?thesis using assms(3) by (auto simp: rv_fail_def reviewed_def set_update_where open_review_def)
qed

interpretation rv: settled_history rv_event review_ok reviewed
  by unfold_locales (fact rv_event_ok, fact rv_event_keeps)

text \<open>A completed review stands. In every history of the tables a COMPLETED run has a verdict, its issues are
  numbered from 0 and its counters count them and the blocking ones; and no later call changes the run or its issues.\<close>
theorem completed_review_stands:
  assumes "rv_event\<^sup>*\<^sup>* \<lparr> rd_runs = [], rd_issues = [] \<rparr> db" "r \<in> set (rd_runs db)" "rv_status_of r = RvCompleted"
    and "rv_event\<^sup>*\<^sup>* db db'"
  shows "rv_get db' (rv_id r) = Inr r \<and> rv_list_issues db' (rv_id r) = rv_list_issues db (rv_id r)
    \<and> rv_verdict r \<in> set valid_verdicts
    \<and> map is_position (rv_list_issues db (rv_id r)) = map int [0..<length (rv_list_issues db (rv_id r))]
    \<and> rv_total_issues r = int (length (rv_list_issues db (rv_id r)))
    \<and> rv_blocking_issues r = blocking_count (rv_list_issues db (rv_id r))"
proof -
  let ?xs = "issues_of (rv_id r) (rd_issues db)"
  have ok: "review_ok db" by (rule rv.settled_ok [OF assms(1)]) (simp add: review_ok_def unique_key_def)
  have ok': "review_ok db'" by (rule rv.settled_ok [OF assms(4) ok])
  have r: "review_row_ok (rd_issues db) r" using ok assms(2) by (simp add: review_ok_def)
  have "reviewed db (r, ?xs)" using assms(2,3) by (simp add: reviewed_def)
  from rv.settled_keeps [OF assms(4) ok this]
  have k: "r \<in> set (rd_runs db')" "issues_of (rv_id r) (rd_issues db') = ?xs" by (simp_all add: reviewed_def)
  have tr: "trim_space (rv_id r) = rv_id r" and p: "map is_position ?xs = map int [0..<length ?xs]"
    using r by (simp_all add: review_row_ok_def Let_def)
  have "sorted (map is_position ?xs)" unfolding p by (simp add: sorted_map)
  then have s: "sort_key is_position ?xs = ?xs" by (rule sort_key_id_if_sorted)
  have l: "rv_list_issues d (rv_id r) = sort_key is_position (issues_of (rv_id r) (rd_issues d))" for d
    by (simp add: rv_list_issues_def issues_of_def tr)
  have "lookup_by rv_id (rv_id r) (rd_runs db') = Some r"
    using ok' k(1) by (intro lookup_by_unique) (simp_all add: review_ok_def)
  then show ?thesis using r assms(3) tr p k(2) s by (simp add: l rv_get_def review_row_ok_def Let_def)
qed

subsection \<open>Witnesses\<close>

definition demo_review_input :: review_input where
  "demo_review_input = \<lparr> ri_workflow_job_id = ''w'', ri_execution_id = ''e'', ri_execution_version = 1, ri_check_run_id = ''c'',
     ri_checkpoint_id = ''p'', ri_agent_settings_version = 1, ri_provider = ''x'', ri_model = ''m'' \<rparr>"

definition demo_issue :: issue where
  "demo_issue = \<lparr> is_id = [], is_review_run_id = [], is_position = 0, is_key = ''k'', is_severity = ''HIGH'',
     is_category = ''TESTING'', is_blocking = True, is_title = ''t'', is_description = ''d'', is_file_path = [],
     is_line_start = 0, is_line_end = 0, is_criteria_refs = [], is_created_at = 0 \<rparr>"

definition demo_review_result :: review_result where
  "demo_review_result = \<lparr> re_verdict = ''REQUEST_REVISION'', re_summary = ''s'', re_issues = [demo_issue] \<rparr>"

definition demo_review :: review_run where
  "demo_review = complete_review 0 demo_review_result no_usage (start_review 0 (new_review ''r'' 0 demo_review_input))"

definition demo_review_db :: review_db where
  "demo_review_db = \<lparr> rd_runs = [demo_review], rd_issues = [stored_issue ''i'' 0 ''r'' 0 demo_issue] \<rparr>"

lemma trim_review: "trim_space ''r'' = ''r''" "trim_space ''w'' = ''w''" "trim_space ''e'' = ''e''" "trim_space ''c'' = ''c''"
  "trim_space ''p'' = ''p''" "trim_space ''x'' = ''x''" "trim_space ''m'' = ''m''"
  by (simp_all add: plain_char_def)

lemma demo_review_history: "rv_event\<^sup>*\<^sup>* \<lparr> rd_runs = [], rd_issues = [] \<rparr> demo_review_db"
proof -
  note step = rtranclp.rtrancl_into_rtrancl [of rv_event]
  let ?d0 = "\<lparr> rd_runs = [], rd_issues = [] \<rparr>" and ?r = "new_review ''r'' 0 demo_review_input"
  let ?d1 = "\<lparr> rd_runs = [?r], rd_issues = [] \<rparr>" and ?d2 = "\<lparr> rd_runs = [start_review 0 ?r], rd_issues = [] \<rparr>"
  have z: "stored_at 0 = 0" by (simp add: stored_at_def from_milli_def unix_milli_def)
  have "normalize_review_input demo_review_input = demo_review_input"
    by (simp add: normalize_review_input_def demo_review_input_def trim_review)
  then have "rv_create_or_get ''r'' 0 True demo_review_input ?d0 = Inr (?d1, ?r, True)"
    by (simp add: rv_create_or_get_def review_input_ok_def demo_review_input_def rv_get_by_version_def insert_review_def
        new_review_def z Let_def)
  note h = step [OF rtranclp.rtrancl_refl [of rv_event] rv_ev_create [OF this trim_review(1)]]
  have "rv_start 0 ''r'' ?d1 = Inr (?d2, start_review 0 ?r)"
    by (simp add: rv_start_def update_returning_def open_review_def new_review_def trim_review)
  note h = step [OF h rv_ev_start [OF this]]
  have s: "rv_id (start_review 0 ?r) = ''r''" "rv_status_of (start_review 0 ?r) = RvRunning"
    by (simp_all add: start_review_def new_review_def)
  have "insert_issue (stored_issue ''i'' 0 ''r'' 0 demo_issue) [] = Some [stored_issue ''i'' 0 ''r'' 0 demo_issue]"
    by (simp add: insert_issue_def stored_issue_def demo_issue_def valid_severities_def valid_categories_def)
  then have "rv_complete (\<lambda>_. ''i'') 0 ''r'' demo_review_result no_usage ?d2 = Inr (demo_review_db, demo_review)"
    using s by (simp add: rv_complete_def affected_def trim_review demo_review_result_def valid_verdicts_def
        demo_review_db_def demo_review_def rv_get_def lookup_by_def complete_review_def)
  from step [OF h rv_ev_complete [OF this]] show ?thesis .
qed

lemma completed_review_stands_witness:
  "rv_get (rv_fail 0 ''r'' ''X'' ''m'' False demo_review_db) ''r'' = Inr demo_review \<and> rv_blocking_issues demo_review = 1"
proof -
  have r: "demo_review \<in> set (rd_runs demo_review_db)" "rv_status_of demo_review = RvCompleted" "rv_id demo_review = ''r''"
    by (simp_all add: demo_review_db_def demo_review_def complete_review_def start_review_def new_review_def)
  have "rv_event\<^sup>*\<^sup>* demo_review_db (rv_fail 0 ''r'' ''X'' ''m'' False demo_review_db)"
    by (rule r_into_rtranclp) (rule rv_ev_fail)
  from completed_review_stands [OF demo_review_history r(1,2) this] show ?thesis
    by (simp add: r(3)) (simp add: demo_review_def complete_review_def demo_review_result_def blocking_count_def demo_issue_def)
qed

end
