(* ===== verification/ApprovalRepo.thy ===== *)
theory ApprovalRepo
  imports WorkflowRepo
begin

text \<open>The human decisions on an execution (internal/approval/repository.go) and the publications
  (internal/publication/repository.go). A decision is bound to the reviewed checkpoint; its revision instructions are
  a row of a second table, which every read joins. Ids and clock are arguments, \<open>refs_ok\<close> says whether the rows
  referred to in other tables exist. The read after a failed insert goes through the connection pool, whose one connection
  the open transaction holds; here it returns the row it looks for.\<close>

datatype ap_status = ApPending | ApApplied

record decision =
  ad_id :: string
  ad_workflow_job_id :: string
  ad_review_run_id :: string
  ad_execution_id :: string
  ad_execution_version :: int
  ad_checkpoint_id :: string
  ad_base_commit_sha :: string
  ad_patch_checksum :: string
  ad_kind :: string
  ad_status :: ap_status
  ad_note :: string
  ad_revision_instructions :: string
  ad_review_override :: bool
  ad_reviewer_verdict :: string
  ad_check_status :: string
  ad_failed_steps :: int
  ad_version_before :: int
  ad_version_after :: int
  ad_revision_count_before :: int
  ad_created_at :: instant
  ad_applied_at :: "instant option"
  ad_updated_at :: instant

record revision_request =
  rr_id :: string
  rr_decision_id :: string
  rr_instructions :: string
  rr_created_at :: instant

record approval_db =
  ap_decisions :: "decision list"
  ap_requests :: "revision_request list"

record decision_input =
  ai_workflow_job_id :: string
  ai_review_run_id :: string
  ai_execution_id :: string
  ai_execution_version :: int
  ai_checkpoint_id :: string
  ai_base_commit_sha :: string
  ai_patch_checksum :: string
  ai_kind :: string
  ai_note :: string
  ai_revision_instructions :: string
  ai_review_override :: bool
  ai_reviewer_verdict :: string
  ai_check_status :: string
  ai_failed_steps :: int
  ai_version_before :: int
  ai_revision_count_before :: int

datatype ap_error = ApNotFound | ApInvalid | ApSnapshotConflict | ApDbError

definition decision_kinds :: "string list" where
  "decision_kinds = [''APPROVE'', ''REQUEST_REVISION'', ''REJECT'']"

definition normalize_decision :: "decision_input \<Rightarrow> decision_input" where
  "normalize_decision i = i\<lparr> ai_workflow_job_id := trim_space (ai_workflow_job_id i),
     ai_review_run_id := trim_space (ai_review_run_id i), ai_execution_id := trim_space (ai_execution_id i),
     ai_checkpoint_id := trim_space (ai_checkpoint_id i), ai_base_commit_sha := trim_space (ai_base_commit_sha i),
     ai_patch_checksum := trim_space (ai_patch_checksum i), ai_kind := to_upper (trim_space (ai_kind i)),
     ai_note := trim_space (ai_note i), ai_revision_instructions := trim_space (ai_revision_instructions i),
     ai_reviewer_verdict := to_upper (trim_space (ai_reviewer_verdict i)),
     ai_check_status := to_upper (trim_space (ai_check_status i)) \<rparr>"

definition decision_ok :: "decision_input \<Rightarrow> bool" where
  "decision_ok i = (ai_workflow_job_id i \<noteq> [] \<and> ai_review_run_id i \<noteq> [] \<and> ai_execution_id i \<noteq> []
     \<and> ai_checkpoint_id i \<noteq> [] \<and> ai_base_commit_sha i \<noteq> [] \<and> ai_patch_checksum i \<noteq> []
     \<and> ai_execution_version i \<ge> 1 \<and> ai_version_before i \<ge> 1 \<and> ai_revision_count_before i \<ge> 0
     \<and> ai_kind i \<in> set decision_kinds \<and> ai_reviewer_verdict i \<in> {''APPROVE'', ''REQUEST_REVISION''}
     \<and> length (ai_note i) \<le> 4000 \<and> length (ai_revision_instructions i) \<le> 8000
     \<and> (ai_kind i = ''REQUEST_REVISION'' \<longleftrightarrow> ai_revision_instructions i \<noteq> []))"

definition same_decision :: "decision \<Rightarrow> decision_input \<Rightarrow> bool" where
  "same_decision d i = (ad_workflow_job_id d = ai_workflow_job_id i \<and> ad_review_run_id d = ai_review_run_id i
     \<and> ad_execution_id d = ai_execution_id i \<and> ad_execution_version d = ai_execution_version i
     \<and> ad_checkpoint_id d = ai_checkpoint_id i \<and> ad_base_commit_sha d = ai_base_commit_sha i
     \<and> ad_patch_checksum d = ai_patch_checksum i \<and> ad_kind d = ai_kind i \<and> ad_note d = ai_note i
     \<and> ad_revision_instructions d = ai_revision_instructions i \<and> ad_review_override d = ai_review_override i
     \<and> ad_reviewer_verdict d = ai_reviewer_verdict i
     \<and> (ai_check_status i = [] \<or> ad_check_status d = []
        \<or> ad_check_status d = ai_check_status i \<and> ad_failed_steps d = ai_failed_steps i)
     \<and> ad_version_before d = ai_version_before i \<and> ad_revision_count_before d = ai_revision_count_before i)"

text \<open>A row joined with its revision request.\<close>

definition scan_decision :: "approval_db \<Rightarrow> decision \<Rightarrow> decision" where
  "scan_decision db d = d\<lparr> ad_revision_instructions :=
     (case lookup_by rr_decision_id (ad_id d) (ap_requests db) of None \<Rightarrow> [] | Some q \<Rightarrow> rr_instructions q) \<rparr>"

definition ap_get :: "approval_db \<Rightarrow> string \<Rightarrow> ap_error + decision" where
  "ap_get db i = (case lookup_by ad_id (trim_space i) (ap_decisions db) of
     None \<Rightarrow> Inl ApNotFound | Some d \<Rightarrow> Inr (scan_decision db d))"

definition ap_get_by_version :: "approval_db \<Rightarrow> string \<Rightarrow> int \<Rightarrow> ap_error + decision" where
  "ap_get_by_version db i v =
     (case find (\<lambda>d. ad_workflow_job_id d = trim_space i \<and> ad_execution_version d = v) (ap_decisions db) of
        None \<Rightarrow> Inl ApNotFound | Some d \<Rightarrow> Inr (scan_decision db d))"

definition ap_list_workflow :: "approval_db \<Rightarrow> string \<Rightarrow> decision list" where
  "ap_list_workflow db i = map (scan_decision db)
     (sort_key (\<lambda>d. - ad_execution_version d) (filter (\<lambda>d. ad_workflow_job_id d = trim_space i) (ap_decisions db)))"

definition new_decision :: "string \<Rightarrow> instant \<Rightarrow> decision_input \<Rightarrow> decision" where
  "new_decision new_id now i = \<lparr> ad_id = new_id, ad_workflow_job_id = ai_workflow_job_id i,
     ad_review_run_id = ai_review_run_id i, ad_execution_id = ai_execution_id i,
     ad_execution_version = ai_execution_version i, ad_checkpoint_id = ai_checkpoint_id i,
     ad_base_commit_sha = ai_base_commit_sha i, ad_patch_checksum = ai_patch_checksum i, ad_kind = ai_kind i,
     ad_status = ApPending, ad_note = ai_note i, ad_revision_instructions = ai_revision_instructions i,
     ad_review_override = ai_review_override i, ad_reviewer_verdict = ai_reviewer_verdict i,
     ad_check_status = ai_check_status i, ad_failed_steps = ai_failed_steps i, ad_version_before = ai_version_before i,
     ad_version_after = 0, ad_revision_count_before = ai_revision_count_before i, ad_created_at = now,
     ad_applied_at = None, ad_updated_at = now \<rparr>"

definition insert_decision :: "bool \<Rightarrow> decision \<Rightarrow> approval_db \<Rightarrow> ap_error + approval_db" where
  "insert_decision refs_ok d db =
     (if ad_id d \<in> ad_id ` set (ap_decisions db) \<or> \<not> refs_ok \<or> ad_failed_steps d < 0
         \<or> (\<exists>x\<in>set (ap_decisions db). ad_workflow_job_id x = ad_workflow_job_id d \<and> ad_execution_version x = ad_execution_version d)
      then Inl ApDbError
      else Inr (db\<lparr> ap_decisions := ap_decisions db @ [d\<lparr> ad_revision_instructions := [],
        ad_created_at := stored_at (ad_created_at d), ad_updated_at := stored_at (ad_updated_at d) \<rparr>] \<rparr>))"

definition insert_request :: "string \<Rightarrow> instant \<Rightarrow> decision \<Rightarrow> approval_db \<Rightarrow> ap_error + approval_db" where
  "insert_request new_id now d db =
     (if new_id \<in> rr_id ` set (ap_requests db) \<or> ad_id d \<in> rr_decision_id ` set (ap_requests db) then Inl ApDbError
      else Inr (db\<lparr> ap_requests := ap_requests db @ [\<lparr> rr_id = new_id, rr_decision_id = ad_id d,
        rr_instructions = ad_revision_instructions d, rr_created_at = stored_at now \<rparr>] \<rparr>))"

definition existing_decision :: "approval_db \<Rightarrow> decision_input \<Rightarrow> decision \<Rightarrow> ap_error + approval_db \<times> decision \<times> bool" where
  "existing_decision db i d = (if same_decision d i then Inr (db, d, False) else Inl ApSnapshotConflict)"

definition ap_create_or_get ::
  "string \<Rightarrow> string \<Rightarrow> instant \<Rightarrow> bool \<Rightarrow> decision_input \<Rightarrow> approval_db \<Rightarrow> ap_error + approval_db \<times> decision \<times> bool" where
  "ap_create_or_get new_id request_id now refs_ok raw db =
     (let i = normalize_decision raw; d = new_decision new_id now i;
          known = ap_get_by_version db (ai_workflow_job_id i) (ai_execution_version i) in
      if \<not> decision_ok i then Inl ApInvalid
      else case known of
        Inr old \<Rightarrow> existing_decision db i old
      | Inl _ \<Rightarrow>
        (case insert_decision refs_ok d db of
           Inl e \<Rightarrow> (case known of Inr old \<Rightarrow> existing_decision db i old | Inl _ \<Rightarrow> Inl e)
         | Inr db1 \<Rightarrow>
           rbind (if ad_kind d = ''REQUEST_REVISION'' then insert_request request_id now d db1 else Inr db1)
             (\<lambda>db2. Inr (db2, d, True))))"

definition apply_decision :: "instant \<Rightarrow> int \<Rightarrow> decision \<Rightarrow> decision" where
  "apply_decision now version d = d\<lparr> ad_status := ApApplied, ad_version_after := version,
     ad_applied_at := Some (case ad_applied_at d of None \<Rightarrow> stored_at now | Some t \<Rightarrow> t), ad_updated_at := stored_at now \<rparr>"

definition ap_mark_applied :: "instant \<Rightarrow> string \<Rightarrow> int \<Rightarrow> approval_db \<Rightarrow> ap_error + approval_db \<times> decision" where
  "ap_mark_applied now i version db =
     (let P = (\<lambda>d. ad_id d = trim_space i); db' = db\<lparr> ap_decisions := update_where P (apply_decision now version) (ap_decisions db) \<rparr> in
      if version < 1 then Inl ApInvalid
      else if affected P (ap_decisions db) \<noteq> 1 then Inl ApNotFound
      else rbind (ap_get db' i) (\<lambda>d. Inr (db', d)))"

subsection \<open>Publications\<close>

record publication =
  pb_id :: string
  pb_workflow_job_id :: string
  pb_execution_version :: int
  pb_approval_decision_id :: string
  pb_base_commit_sha :: string
  pb_patch_checksum :: string
  pb_published_commit_sha :: string
  pb_status :: string
  pb_error_message :: string
  pb_created_at :: instant
  pb_completed_at :: "instant option"

datatype pb_error = PbNotFound | PbInvalid | PbDbError

definition pb_get_by_workflow :: "publication list \<Rightarrow> string \<Rightarrow> pb_error + publication" where
  "pb_get_by_workflow t i = (case lookup_by pb_workflow_job_id (trim_space i) t of None \<Rightarrow> Inl PbNotFound | Some p \<Rightarrow> Inr p)"

definition trim_publication :: "publication \<Rightarrow> publication" where
  "trim_publication p = p\<lparr> pb_workflow_job_id := trim_space (pb_workflow_job_id p),
     pb_approval_decision_id := trim_space (pb_approval_decision_id p), pb_base_commit_sha := trim_space (pb_base_commit_sha p),
     pb_patch_checksum := trim_space (pb_patch_checksum p), pb_published_commit_sha := trim_space (pb_published_commit_sha p) \<rparr>"

definition publication_valid :: "publication \<Rightarrow> bool" where
  "publication_valid p = (pb_workflow_job_id p \<noteq> [] \<and> pb_approval_decision_id p \<noteq> [] \<and> pb_base_commit_sha p \<noteq> []
     \<and> pb_patch_checksum p \<noteq> [] \<and> pb_published_commit_sha p \<noteq> [] \<and> pb_execution_version p \<ge> 1)"

text \<open>INSERT ... ON CONFLICT(workflow_job_id) DO UPDATE.\<close>

definition upsert_publication :: "publication \<Rightarrow> publication list \<Rightarrow> publication list option" where
  "upsert_publication p t =
     (if pb_workflow_job_id p \<in> pb_workflow_job_id ` set t
      then Some (update_where (\<lambda>q. pb_workflow_job_id q = pb_workflow_job_id p)
        (\<lambda>q. p\<lparr> pb_id := pb_id q, pb_created_at := pb_created_at q \<rparr>) t)
      else if pb_id p \<in> pb_id ` set t then None else Some (t @ [p]))"

definition pb_complete :: "string \<Rightarrow> instant \<Rightarrow> bool \<Rightarrow> publication \<Rightarrow> publication list \<Rightarrow> pb_error + publication list \<times> publication" where
  "pb_complete new_id now refs_ok raw t =
     (let p = trim_publication raw;
          row = p\<lparr> pb_id := (if pb_id p = [] then new_id else pb_id p), pb_status := ''COMPLETED'', pb_error_message := [],
            pb_created_at := stored_at now, pb_completed_at := Some (stored_at now) \<rparr> in
      if \<not> publication_valid p then Inl PbInvalid
      else if \<not> refs_ok then Inl PbDbError
      else case upsert_publication row t of
        None \<Rightarrow> Inl PbDbError
      | Some t' \<Rightarrow> rbind (pb_get_by_workflow t' (pb_workflow_job_id p)) (\<lambda>q. Inr (t', q)))"

subsection \<open>A decision is binding\<close>

definition approval_ok :: "approval_db \<Rightarrow> bool" where
  "approval_ok db = (unique_key ad_id (ap_decisions db)
     \<and> unique_key (\<lambda>d. (ad_workflow_job_id d, ad_execution_version d)) (ap_decisions db)
     \<and> (\<forall>d\<in>set (ap_decisions db). trim_space (ad_workflow_job_id d) = ad_workflow_job_id d)
     \<and> rr_decision_id ` set (ap_requests db) \<subseteq> ad_id ` set (ap_decisions db))"

inductive ap_event :: "approval_db \<Rightarrow> approval_db \<Rightarrow> bool" where
  ap_ev_create: "ap_create_or_get i q now refs inp db = Inr (db', d, created) \<Longrightarrow> ap_event db db'"
| ap_ev_apply: "ap_mark_applied now i v db = Inr (db', d) \<Longrightarrow> ap_event db db'"

text \<open>What a decision binds: everything but whether and when it was applied.\<close>

definition binding :: "decision \<Rightarrow> decision" where
  "binding d = d\<lparr> ad_status := ApPending, ad_version_after := 0, ad_applied_at := None, ad_created_at := 0, ad_updated_at := 0 \<rparr>"

definition decided :: "approval_db \<Rightarrow> decision \<times> bool \<Rightarrow> bool" where
  "decided db v = (\<exists>x\<in>set (ap_decisions db). binding (scan_decision db x) = fst v \<and> (snd v \<longrightarrow> ad_status x = ApApplied))"

lemma ap_create_cases:
  assumes "ap_create_or_get i q now refs inp db = Inr (db', d, created)"
  obtains (old) "db' = db" "ap_get_by_version db (ai_workflow_job_id (normalize_decision inp)) (ai_execution_version inp) = Inr d"
      "decision_ok (normalize_decision inp)"
    | (new) db1 where "d = new_decision i now (normalize_decision inp)" "insert_decision refs d db = Inr db1"
      "decision_ok (normalize_decision inp)"
      "(if ad_kind d = ''REQUEST_REVISION'' then insert_request q now d db1 else Inr db1) = Inr db'"
proof -
  have v: "ai_execution_version (normalize_decision inp) = ai_execution_version inp" by (simp add: normalize_decision_def)
  show ?thesis
    using assms unfolding ap_create_or_get_def Let_def v
    by (cases "ap_get_by_version db (ai_workflow_job_id (normalize_decision inp)) (ai_execution_version inp)";
        cases "insert_decision refs (new_decision i now (normalize_decision inp)) db")
      (auto simp: existing_decision_def intro: that split: if_splits)
qed

lemma normalize_key [simp]:
  "ai_workflow_job_id (normalize_decision i) = trim_space (ai_workflow_job_id i)"
  "ai_execution_version (normalize_decision i) = ai_execution_version i"
  by (simp_all add: normalize_decision_def)

lemma insert_decision_Inr:
  assumes "insert_decision refs d db = Inr db'"
  shows "db' = db\<lparr> ap_decisions := ap_decisions db @ [d\<lparr> ad_revision_instructions := [],
      ad_created_at := stored_at (ad_created_at d), ad_updated_at := stored_at (ad_updated_at d) \<rparr>] \<rparr>
    \<and> ad_id d \<notin> ad_id ` set (ap_decisions db)
    \<and> (ad_workflow_job_id d, ad_execution_version d) \<notin> (\<lambda>d. (ad_workflow_job_id d, ad_execution_version d)) ` set (ap_decisions db)"
  using assms by (auto simp: insert_decision_def split: if_splits)

lemma insert_request_Inr:
  "insert_request q now d db = Inr db' \<Longrightarrow> db' = db\<lparr> ap_requests := ap_requests db @ [\<lparr> rr_id = q, rr_decision_id = ad_id d,
        rr_instructions = ad_revision_instructions d, rr_created_at = stored_at now \<rparr>] \<rparr>
    \<and> ad_id d \<notin> rr_decision_id ` set (ap_requests db)"
  by (auto simp: insert_request_def split: if_splits)

lemma new_decision_fields [simp]:
  "ad_id (new_decision i now inp) = i" "ad_workflow_job_id (new_decision i now inp) = ai_workflow_job_id inp"
  "ad_kind (new_decision i now inp) = ai_kind inp"
  "ad_revision_instructions (new_decision i now inp) = ai_revision_instructions inp"
  by (simp_all add: new_decision_def)

lemma ap_event_ok: "ap_event db db' \<Longrightarrow> approval_ok db \<Longrightarrow> approval_ok db'"
proof (induction rule: ap_event.induct)
  case (ap_ev_create i q now refs inp db db' d created)
  from ap_ev_create(1) show ?case
  proof (cases rule: ap_create_cases)
    case (new db1)
    have t: "trim_space (ad_workflow_job_id d) = ad_workflow_job_id d" by (simp add: new(1))
    have "approval_ok db1" using insert_decision_Inr [OF new(2)] ap_ev_create(2) t by (auto simp: approval_ok_def)
    moreover have "ad_id d \<in> ad_id ` set (ap_decisions db1)" using insert_decision_Inr [OF new(2)] by simp
    ultimately show ?thesis
      using new(4) by (auto simp: approval_ok_def image_subset_iff dest!: insert_request_Inr split: if_splits)
  qed (use ap_ev_create(2) in simp)
next
  case (ap_ev_apply now i v db db' d)
  have "db' = db\<lparr> ap_decisions := update_where (\<lambda>d. ad_id d = trim_space i) (apply_decision now v) (ap_decisions db) \<rparr>"
    using ap_ev_apply(1) by (auto simp: ap_mark_applied_def Let_def split: if_splits)
  moreover have "ad_id (apply_decision now v x) = ad_id x" "ad_workflow_job_id (apply_decision now v x) = ad_workflow_job_id x"
    "ad_execution_version (apply_decision now v x) = ad_execution_version x" for x by (simp_all add: apply_decision_def)
  ultimately show ?case
    using ap_ev_apply(2)
    by (simp add: approval_ok_def unique_key_update_where image_update_where) (auto simp: set_update_where)
qed

lemma scan_more:
  assumes "lookup_by rr_decision_id (ad_id x) (ap_requests db') = lookup_by rr_decision_id (ad_id x) (ap_requests db)"
  shows "scan_decision db' x = scan_decision db x"
  by (simp add: scan_decision_def assms)

lemma ap_event_keeps:
  assumes "ap_event db db'" "approval_ok db" "decided db v"
  shows "decided db' v"
proof -
  obtain x where x: "x \<in> set (ap_decisions db)" "binding (scan_decision db x) = fst v" "snd v \<longrightarrow> ad_status x = ApApplied"
    using assms(3) by (auto simp: decided_def)
  from assms(1) show ?thesis
  proof cases
    case (ap_ev_create i q now refs inp d created)
    then show ?thesis
    proof (cases rule: ap_create_cases)
      case (new db1)
      have "ad_id d \<noteq> ad_id x" using insert_decision_Inr [OF new(2)] x(1) by auto
      then have "lookup_by rr_decision_id (ad_id x) (ap_requests db') = lookup_by rr_decision_id (ad_id x) (ap_requests db)"
        using new(4) insert_decision_Inr [OF new(2)] by (auto dest!: insert_request_Inr split: if_splits option.splits)
      from scan_more [OF this] have "binding (scan_decision db' x) = fst v" using x(2) by simp
      moreover have "x \<in> set (ap_decisions db')"
        using new(4) insert_decision_Inr [OF new(2)] x(1) by (auto dest!: insert_request_Inr split: if_splits)
      ultimately show ?thesis using x(3) unfolding decided_def by blast
    qed (use assms(3) in simp)
  next
    case (ap_ev_apply now i v' d)
    have d: "db' = db\<lparr> ap_decisions := update_where (\<lambda>d. ad_id d = trim_space i) (apply_decision now v') (ap_decisions db) \<rparr>"
      using ap_ev_apply by (auto simp: ap_mark_applied_def Let_def split: if_splits)
    let ?x = "if ad_id x = trim_space i then apply_decision now v' x else x"
    have "?x \<in> set (ap_decisions db')" using x(1) by (simp add: d set_update_where_image)
    moreover have "binding (scan_decision db' ?x) = binding (scan_decision db x)" "ad_status x = ApApplied \<longrightarrow> ad_status ?x = ApApplied"
      by (auto simp: d scan_decision_def binding_def apply_decision_def)
    ultimately show ?thesis using x(2,3) unfolding decided_def by (intro bexI [of _ ?x]) simp_all
  qed
qed

interpretation ap: settled_history ap_event approval_ok decided
  by unfold_locales (fact ap_event_ok, fact ap_event_keeps)

lemma binding_fields [simp]:
  "ad_workflow_job_id (binding d) = ad_workflow_job_id d" "ad_execution_version (binding d) = ad_execution_version d"
  "ad_workflow_job_id (scan_decision db d) = ad_workflow_job_id d" "ad_execution_version (scan_decision db d) = ad_execution_version d"
  "ad_status (scan_decision db d) = ad_status d"
  by (simp_all add: binding_def scan_decision_def)

lemma decided_get:
  assumes "approval_ok db" "decided db v"
  shows "\<exists>x. ap_get_by_version db (ad_workflow_job_id (fst v)) (ad_execution_version (fst v)) = Inr x \<and> binding x = fst v
    \<and> (snd v \<longrightarrow> ad_status x = ApApplied)"
proof -
  obtain x where x: "x \<in> set (ap_decisions db)" "binding (scan_decision db x) = fst v" "snd v \<longrightarrow> ad_status x = ApApplied"
    using assms(2) by (auto simp: decided_def)
  have k: "ad_workflow_job_id (fst v) = ad_workflow_job_id x" "ad_execution_version (fst v) = ad_execution_version x"
    by (simp_all flip: x(2))
  have u: "unique_key (\<lambda>d. (ad_workflow_job_id d, ad_execution_version d)) (ap_decisions db)"
    and t: "trim_space (ad_workflow_job_id x) = ad_workflow_job_id x" using assms(1) x(1) by (auto simp: approval_ok_def)
  have "find (\<lambda>d. ad_workflow_job_id d = ad_workflow_job_id x \<and> ad_execution_version d = ad_execution_version x) (ap_decisions db) = Some x"
    by (rule find_unique [OF u x(1)]) auto
  then show ?thesis using x(2,3) unfolding k by (simp add: ap_get_by_version_def t)
qed

lemma created_decided:
  assumes "approval_ok db" "ap_create_or_get i q now refs inp db = Inr (db', d, created)"
  shows "decided db' (binding d, ad_status d = ApApplied)"
  using assms(2)
proof (cases rule: ap_create_cases)
  case old
  then obtain x where "x \<in> set (ap_decisions db)" "d = scan_decision db x"
    by (auto simp: ap_get_by_version_def split: option.splits dest!: find_set)
  then show ?thesis using old(1) by (auto simp: decided_def)
next
  case (new db1)
  let ?row = "d\<lparr> ad_revision_instructions := [],
      ad_created_at := stored_at (ad_created_at d), ad_updated_at := stored_at (ad_updated_at d) \<rparr>"
  have d1: "ap_decisions db1 = ap_decisions db @ [?row]" "ap_requests db1 = ap_requests db" "ad_id d \<notin> ad_id ` set (ap_decisions db)"
    using insert_decision_Inr [OF new(2)] by simp_all
  then have "ad_id d \<notin> rr_decision_id ` set (ap_requests db)" using assms(1) by (auto simp: approval_ok_def)
  then have none: "lookup_by rr_decision_id (ad_id d) (ap_requests db) = None" by (simp add: lookup_by_None)
  have i: "ad_revision_instructions d = []" if "ad_kind d \<noteq> ''REQUEST_REVISION''"
    using that new(1,3) by (simp add: decision_ok_def)
  have "?row \<in> set (ap_decisions db')" using new(4) d1(1) by (auto dest!: insert_request_Inr split: if_splits)
  moreover have "binding (scan_decision db' ?row) = binding d"
    using new(4) d1(2) none i by (auto simp: scan_decision_def binding_def dest!: insert_request_Inr split: if_splits)
  moreover have "ad_status d = ApPending" by (simp add: new(1) new_decision_def)
  ultimately show ?thesis unfolding decided_def by (intro bexI [of _ ?row]) simp_all
qed

text \<open>C29: A decision is binding. Once a decision is stored for an execution of a workflow it is what every later call
  finds for it, with the same reviewed checkpoint, verdict, note and instructions, and once applied it stays applied;
  an attempt to decide the same execution in another way is refused and changes nothing.\<close>
theorem decision_is_binding:
  assumes "ap_event\<^sup>*\<^sup>* \<lparr> ap_decisions = [], ap_requests = [] \<rparr> db"
    and "ap_create_or_get i q now refs inp db = Inr (db1, d, created)" "ap_event\<^sup>*\<^sup>* db1 db2"
  shows "\<exists>x. ap_get_by_version db2 (ad_workflow_job_id d) (ad_execution_version d) = Inr x \<and> binding x = binding d
    \<and> (ad_status d = ApApplied \<longrightarrow> ad_status x = ApApplied)
    \<and> (\<forall>i' q' now' refs' other. decision_ok (normalize_decision other)
         \<longrightarrow> trim_space (ai_workflow_job_id other) = ad_workflow_job_id d \<longrightarrow> ai_execution_version other = ad_execution_version d
         \<longrightarrow> \<not> same_decision x (normalize_decision other)
         \<longrightarrow> ap_create_or_get i' q' now' refs' other db2 = Inl ApSnapshotConflict)"
proof -
  have ok: "approval_ok db" by (rule ap.settled_ok [OF assms(1)]) (simp add: approval_ok_def unique_key_def)
  have ok1: "approval_ok db1" by (rule ap_event_ok [OF ap_ev_create [OF assms(2)] ok])
  note ok2 = ap.settled_ok [OF assms(3) ok1]
  from decided_get [OF ok2 ap.settled_keeps [OF assms(3) ok1 created_decided [OF ok assms(2)]]]
  obtain x where x: "ap_get_by_version db2 (ad_workflow_job_id d) (ad_execution_version d) = Inr x" "binding x = binding d"
    "ad_status d = ApApplied \<longrightarrow> ad_status x = ApApplied" by auto
  then show ?thesis
    by (intro exI [of _ x]) (simp add: ap_create_or_get_def Let_def existing_decision_def)
qed

subsection \<open>Witnesses\<close>

definition demo_decision_input :: "string \<Rightarrow> decision_input" where
  "demo_decision_input kind = \<lparr> ai_workflow_job_id = ''w'', ai_review_run_id = ''r'', ai_execution_id = ''e'',
     ai_execution_version = 1, ai_checkpoint_id = ''p'', ai_base_commit_sha = ''b'', ai_patch_checksum = ''s'', ai_kind = kind,
     ai_note = ''n'', ai_revision_instructions = [], ai_review_override = False, ai_reviewer_verdict = ''APPROVE'',
     ai_check_status = ''PASSED'', ai_failed_steps = 0, ai_version_before = 1, ai_revision_count_before = 0 \<rparr>"

lemma demo_upper: "to_upper ''APPROVE'' = ''APPROVE''" "to_upper ''REJECT'' = ''REJECT''" "to_upper ''PASSED'' = ''PASSED''"
  by code_simp+

lemma demo_trimmed: "trim_space ''w'' = ''w''" "trim_space ''r'' = ''r''" "trim_space ''e'' = ''e''" "trim_space ''p'' = ''p''"
  "trim_space ''b'' = ''b''" "trim_space ''s'' = ''s''" "trim_space ''n'' = ''n''" "trim_space ''APPROVE'' = ''APPROVE''"
  "trim_space ''REJECT'' = ''REJECT''" "trim_space ''PASSED'' = ''PASSED''"
  by (simp_all add: plain_char_def)

lemma demo_decision_normal:
  "normalize_decision (demo_decision_input ''APPROVE'') = demo_decision_input ''APPROVE''"
  "normalize_decision (demo_decision_input ''REJECT'') = demo_decision_input ''REJECT''"
  by (simp_all add: normalize_decision_def demo_decision_input_def demo_trimmed demo_upper del: to_upper.simps)

lemma decision_is_binding_witness:
  "ap_create_or_get ''y'' ''q'' 0 True (demo_decision_input ''REJECT'')
     \<lparr> ap_decisions = [(new_decision ''x'' 0 (demo_decision_input ''APPROVE''))], ap_requests = [] \<rparr> = Inl ApSnapshotConflict"
proof -
  let ?d = "new_decision ''x'' 0 (demo_decision_input ''APPROVE'')" and ?none = "\<lparr> ap_decisions = [], ap_requests = [] \<rparr>"
  have z: "stored_at 0 = 0" by (simp add: stored_at_def from_milli_def unix_milli_def)
  have w: "trim_space ''w'' = ''w''" by (simp add: plain_char_def)
  have ok: "decision_ok (demo_decision_input ''APPROVE'')" "decision_ok (demo_decision_input ''REJECT'')"
    by (simp_all add: decision_ok_def demo_decision_input_def decision_kinds_def)
  have "?d\<lparr> ad_revision_instructions := [], ad_created_at := 0, ad_updated_at := 0 \<rparr> = ?d"
    by (simp add: new_decision_def demo_decision_input_def)
  then have c: "ap_create_or_get ''x'' ''q'' 0 True (demo_decision_input ''APPROVE'') ?none
      = Inr (\<lparr> ap_decisions = [?d], ap_requests = [] \<rparr>, ?d, True)"
    using ok(1) by (simp add: ap_create_or_get_def Let_def demo_decision_normal ap_get_by_version_def insert_decision_def)
      (simp add: new_decision_def demo_decision_input_def z)
  have k: "ad_workflow_job_id ?d = ''w''" "ad_execution_version ?d = 1" "ad_kind ?d = ''APPROVE''"
    by (simp_all add: new_decision_def demo_decision_input_def)
  have i: "trim_space (ai_workflow_job_id (demo_decision_input ''REJECT'')) = ''w''"
    "ai_execution_version (demo_decision_input ''REJECT'') = 1" "ai_kind (demo_decision_input ''REJECT'') = ''REJECT''"
    by (simp_all add: demo_decision_input_def w)
  obtain x where x: "binding x = binding ?d"
    "decision_ok (normalize_decision (demo_decision_input ''REJECT'')) \<longrightarrow> trim_space (ai_workflow_job_id (demo_decision_input ''REJECT'')) = ''w''
      \<longrightarrow> ai_execution_version (demo_decision_input ''REJECT'') = 1 \<longrightarrow> \<not> same_decision x (normalize_decision (demo_decision_input ''REJECT''))
      \<longrightarrow> ap_create_or_get ''y'' ''q'' 0 True (demo_decision_input ''REJECT'') \<lparr> ap_decisions = [?d], ap_requests = [] \<rparr> = Inl ApSnapshotConflict"
    using decision_is_binding [OF rtranclp.rtrancl_refl c rtranclp.rtrancl_refl] unfolding k by blast
  have "ad_kind (binding x) = ad_kind x" "ad_kind (binding ?d) = ''APPROVE''" by (simp_all add: binding_def demo_decision_input_def)
  then have "ad_kind x = ''APPROVE''" using x(1) by simp
  then have "\<not> same_decision x (demo_decision_input ''REJECT'')" using i(3) by (simp add: same_decision_def)
  then show ?thesis using x(2) ok(2) i by (simp add: demo_decision_normal)
qed

end
