(* ===== verification/StageBase.thy ===== *)
theory StageBase
  imports HandlerBase CheckRunner ReviewRepo ApprovalRepo
begin

text \<open>What the checks, review and publication handlers share (checks/handler.go, reviewer/handler.go,
  publication/handler.go): the world they work on, the surroundings of a delivery, the calls into the repositories, and
  the two ways a stage leaves the workflow, \<open>finishWorkflow\<close> and \<open>failWorkflow\<close>.

  Everything that happens beside a handler's own calls is a parameter, by site: the clock, fresh ids, whether the
  activity recorder works, whether the daemon's context is cancelled (\<open>se_down\<close>), how the context of the stage has
  ended (\<open>se_ctx\<close>), when the lease is renewed, what the cancellation watcher has reported.\<close>

datatype stage_site =
  AtGate | AtCreated | AtDetected | AtBaseline | AtWriteLease | AtRunStart | AtStep nat | AtStepRun nat | AtStepEnd nat
| AtRunEnd | AtLeaseBack | AtDone | AtFailed | AtContext | AtGateway | AtResult | AtPublish

datatype stage_cause =
  SDispatch dispatch_error | SWorkflow wf_error | SNotReached | SNoVersion | SExecution ex_error | SNotCompleted
| SWorkspace ws_error | SNotReady | SCheck ck_error | SReview rv_error | SApproval ap_error | SPublication pb_error
| SGit git_error | SHeadMoved | SModified string | SArtifact string | SWatch string | SNoCheckpoint | SOther string
| SProvider string string string | SNotApproved | SChecksNotPassed | SSnapshotMismatch | SPublishedMismatch

text \<open>\<open>errors.Is\<close> sees a context error also below a provider error that wraps it (llm/errors.go \<open>Unwrap\<close>): provider, code
  and message.\<close>

datatype stage_error = SContext ctx_error | SWrapped ctx_error string string string | SCause stage_cause

record stage_world =
  sw_wf :: wf_db
  sw_ws :: ws_table
  sw_ex :: ex_db
  sw_ck :: check_db
  sw_rv :: review_db
  sw_ap :: approval_db
  sw_pb :: "publication list"
  sw_tree :: tree
  sw_artifacts :: "(string \<times> string) list"

record stage_env =
  se_worker :: string
  se_lease_ttl :: int
  se_now :: "stage_site \<Rightarrow> instant"
  se_queue_now :: "stage_site \<Rightarrow> instant"
  se_event_at :: "stage_site \<Rightarrow> instant"
  se_new_id :: "stage_site \<Rightarrow> string"
  se_recorder_ok :: "stage_site \<Rightarrow> bool"
  se_event_ok :: "stage_site \<Rightarrow> bool"
  se_down :: "stage_site \<Rightarrow> bool"
  se_ctx :: "stage_site \<Rightarrow> ctx_error option"
  se_renewals :: "stage_site \<Rightarrow> instant list"
  se_watch :: "stage_site \<Rightarrow> watch_result option"
  se_refs_ok :: bool
  se_git :: git_cmd
  se_sha256 :: "string \<Rightarrow> string"
  se_save_error :: "string \<Rightarrow> string option"
  se_text :: "stage_cause \<Rightarrow> string"

type_synonym 'a sstep = "(stage_world, stage_error, 'a) step"

definition provider_error_text :: "string \<Rightarrow> string \<Rightarrow> string \<Rightarrow> string" where
  "provider_error_text provider code message = (if provider = [] then ''LLM'' else provider) @ '' provider error ('' @ code
     @ ''): '' @ (if message = [] then code else message)"

definition stage_text :: "stage_env \<Rightarrow> stage_error \<Rightarrow> string" where
  "stage_text E e = (case e of SContext c \<Rightarrow> ctx_text c
     | SWrapped c provider code message \<Rightarrow> provider_error_text provider code message
     | SCause c \<Rightarrow> se_text E c)"

text \<open>\<open>WithWallClock\<close> (workflowjob/cancellation.go): the budget of a stage runs from the last transition of the workflow, so
  every attempt at the stage has the same deadline. An instant is a number of nanoseconds; no job has the zero time.\<close>

definition wall_clock_deadline :: "wf_job \<Rightarrow> instant option" where
  "wall_clock_deadline job = (let s = wall_clock_seconds (wf_limits job) in
     if s \<le> 0 then None else Some (wf_updated_at job + s * nanos_per_second))"

subsection \<open>Calls\<close>

definition on_up :: "stage_env \<Rightarrow> stage_site \<Rightarrow> 'a sstep \<Rightarrow> 'a sstep" where
  "on_up E site m w = (if se_down E site then (Inl (SContext CtxCanceled), w) else m w)"

definition on_stage :: "stage_env \<Rightarrow> stage_site \<Rightarrow> 'a sstep \<Rightarrow> 'a sstep" where
  "on_stage E site m = on_up E site (\<lambda>w. case se_ctx E site of Some c \<Rightarrow> (Inl (SContext c), w) | None \<Rightarrow> m w)"

definition lift_result :: "('e \<Rightarrow> stage_cause) \<Rightarrow> 'e + 'a \<Rightarrow> 'a sstep" where
  "lift_result f r w = (case r of Inl e \<Rightarrow> (Inl (SCause (f e)), w) | Inr x \<Rightarrow> (Inr x, w))"

definition call_ws :: "(ws_table \<Rightarrow> ws_error + ws_table \<times> 'a) \<Rightarrow> 'a sstep" where
  "call_ws m w = (case m (sw_ws w) of Inl e \<Rightarrow> (Inl (SCause (SWorkspace e)), w) | Inr (t, x) \<Rightarrow> (Inr x, w\<lparr> sw_ws := t \<rparr>))"

definition call_ck :: "(check_db \<Rightarrow> ck_error + check_db \<times> 'a) \<Rightarrow> 'a sstep" where
  "call_ck m w = (case m (sw_ck w) of Inl e \<Rightarrow> (Inl (SCause (SCheck e)), w) | Inr (t, x) \<Rightarrow> (Inr x, w\<lparr> sw_ck := t \<rparr>))"

definition call_rv :: "(review_db \<Rightarrow> rv_error + review_db \<times> 'a) \<Rightarrow> 'a sstep" where
  "call_rv m w = (case m (sw_rv w) of Inl e \<Rightarrow> (Inl (SCause (SReview e)), w) | Inr (t, x) \<Rightarrow> (Inr x, w\<lparr> sw_rv := t \<rparr>))"

definition call_pb :: "(publication list \<Rightarrow> pb_error + publication list \<times> 'a) \<Rightarrow> 'a sstep" where
  "call_pb m w = (case m (sw_pb w) of Inl e \<Rightarrow> (Inl (SCause (SPublication e)), w) | Inr (t, x) \<Rightarrow> (Inr x, w\<lparr> sw_pb := t \<rparr>))"

definition read_with :: "('e \<Rightarrow> stage_cause) \<Rightarrow> (stage_world \<Rightarrow> 'e + 'a) \<Rightarrow> 'a sstep" where
  "read_with f g w = lift_result f (g w) w"

definition capture_stage :: "stage_env \<Rightarrow> string \<Rightarrow> git_snapshot sstep" where
  "capture_stage E path = read_with SGit (\<lambda>w. capture (se_git E) (se_sha256 E) path default_max_patch_bytes (sw_tree w))"

definition note_stage :: "stage_env \<Rightarrow> stage_site \<Rightarrow> string \<Rightarrow> string \<Rightarrow> (string \<times> json) list \<Rightarrow> unit sstep" where
  "note_stage E site i ty kvs w = (Inr (),
     if se_event_ok E site
     then w\<lparr> sw_wf := (sw_wf w)\<lparr> db_events := db_events (sw_wf w) @
       [\<lparr> ev_job = i, ev_type = ty, ev_payload = JObj (sort_key fst kvs), ev_at = se_event_at E site \<rparr>] \<rparr> \<rparr>
     else w)"

definition stage_wf_env :: "stage_env \<Rightarrow> stage_site \<Rightarrow> wf_env" where
  "stage_wf_env E site = \<lparr> we_now = se_now E site, we_queue_now = se_queue_now E site,
     we_new_id = se_new_id E site, we_recorder_ok = se_recorder_ok E site \<rparr>"

subsection \<open>Leaving a stage\<close>

definition stage_input :: "wf_job \<Rightarrow> string \<Rightarrow> string \<Rightarrow> string \<Rightarrow> (string \<times> json) list \<Rightarrow> transition_input" where
  "stage_input current action code message details = \<lparr> ti_expected_version = wf_version current, ti_action = action,
     ti_failure_code = code, ti_failure_message = message, ti_details = Some details, ti_additional_executor_turns = 0 \<rparr>"

definition finish_stage :: "stage_env \<Rightarrow> wf_status \<Rightarrow> string \<Rightarrow> string \<Rightarrow> (string \<times> json) list \<Rightarrow> unit sstep" where
  "finish_stage E st i action details = on_up E AtDone
     (sbind (read_with SWorkflow (\<lambda>w. wf_get (sw_wf w) i)) (\<lambda>current w.
        if wf_status_of current \<noteq> st then (Inr (), w)
        else case wf_transition (stage_wf_env E AtDone) (wf_id current) (stage_input current action [] [] details) (sw_wf w) of
          Inr (db, _) \<Rightarrow> (Inr (), w\<lparr> sw_wf := db \<rparr>)
        | Inl e \<Rightarrow>
          (case wf_get (sw_wf w) (wf_id current) of
             Inr latest \<Rightarrow> if e = ErrVersionConflict \<and> wf_status_of latest \<noteq> st then (Inr (), w)
                           else (Inl (SCause (SWorkflow e)), w)
           | Inl _ \<Rightarrow> (Inl (SCause (SWorkflow e)), w))))"

definition fail_stage :: "stage_env \<Rightarrow> wf_status \<Rightarrow> string \<Rightarrow> string \<Rightarrow> string \<Rightarrow> string \<Rightarrow> stage_world \<Rightarrow> stage_world" where
  "fail_stage E st i dispatch code message w =
     (case wf_get (sw_wf w) i of
        Inl _ \<Rightarrow> w
      | Inr current \<Rightarrow>
        if wf_status_of current \<noteq> st then w
        else case wf_transition (stage_wf_env E AtFailed) (wf_id current)
            (stage_input current ''FAIL'' code message [(''dispatch_job_id'', JStr dispatch)]) (sw_wf w) of
          Inl _ \<Rightarrow> w
        | Inr (db, _) \<Rightarrow> w\<lparr> sw_wf := db \<rparr>)"

text \<open>On its last attempt a delivery that failed for another reason than cancellation fails the workflow.\<close>

definition last_attempt :: "json_text job \<Rightarrow> bool" where
  "last_attempt j = (j_attempts j \<ge> j_max_attempts j)"

definition settle_stage :: "(stage_error \<Rightarrow> stage_world \<Rightarrow> stage_world) \<Rightarrow> unit sstep \<Rightarrow> json_text job \<Rightarrow> unit sstep" where
  "settle_stage settle m j w =
     (case m w of
        (Inl (SCause c), w1) \<Rightarrow> (Inl (SCause c), if last_attempt j then settle (SCause c) w1 else w1)
      | (r, w1) \<Rightarrow> (r, w1))"

text \<open>The lease renewals up to a site.\<close>

definition renew_stage :: "stage_env \<Rightarrow> stage_site \<Rightarrow> string \<Rightarrow> string \<Rightarrow> stage_world \<Rightarrow> ws_error option \<times> stage_world" where
  "renew_stage E site i tok w =
     (case renew_lease (se_lease_ttl E) i tok (se_renewals E site) (sw_ws w) of (t, lost) \<Rightarrow> (lost, w\<lparr> sw_ws := t \<rparr>))"

definition stage_gate_step :: "stage_env \<Rightarrow> wf_status \<Rightarrow> dispatch_payload_rec \<Rightarrow> (wf_job \<Rightarrow> unit sstep) \<Rightarrow> unit sstep" where
  "stage_gate_step E st p work = on_up E AtGate (\<lambda>w.
     case stage_gate st (sw_wf w) p of
       GateFailed e \<Rightarrow> (Inl (SCause (SWorkflow e)), w)
     | GateNotReached \<Rightarrow> (Inl (SCause SNotReached), w)
     | GateCancelled \<Rightarrow> (Inl (SContext CtxCanceled), w)
     | GateNoExecution \<Rightarrow> (Inl (SCause SNoVersion), w)
     | GateProceed job \<Rightarrow> work job w
     | _ \<Rightarrow> (Inr (), w))"

definition completed_execution :: "wf_job \<Rightarrow> execution sstep" where
  "completed_execution job =
     sbind (read_with SExecution (\<lambda>w. get_by_version (sw_ex w) (wf_id job) (wf_execution_version job))) (\<lambda>x.
     if ex_status_of x \<noteq> ExCompleted then fail_with (SCause SNotCompleted) else ret x)"

definition ready_workspace :: "wf_job \<Rightarrow> workspace sstep" where
  "ready_workspace job =
     sbind (read_with SWorkspace (\<lambda>w. ws_get_by_workflow (sw_ws w) (wf_id job))) (\<lambda>item.
     if w_status item \<noteq> WsReady then fail_with (SCause SNotReady) else ret item)"

subsection \<open>Steps that leave the workflow alone\<close>

definition quiet :: "'a sstep \<Rightarrow> bool" where
  "quiet m = (\<forall>w r w'. m w = (r, w') \<longrightarrow> same_db (sw_wf w) (sw_wf w'))"

lemma quietI: "(\<And>w r w'. m w = (r, w') \<Longrightarrow> same_db (sw_wf w) (sw_wf w')) \<Longrightarrow> quiet m"
  by (simp add: quiet_def)

lemma quietD: "quiet m \<Longrightarrow> m w = (r, w') \<Longrightarrow> same_db (sw_wf w) (sw_wf w')"
  by (auto simp: quiet_def)

lemma quiet_bind [intro]:
  assumes "quiet m" "\<And>x. quiet (f x)"
  shows "quiet (sbind m f)"
proof (rule quietI)
  fix w r w' assume "sbind m f w = (r, w')"
  then show "same_db (sw_wf w) (sw_wf w')"
    by (cases rule: sbind_cases) (use assms in \<open>auto dest: quietD intro: same_db_trans\<close>)
qed

lemma quiet_calls [simp, intro]:
  "quiet (ret x)" "quiet (fail_with e)" "quiet (lift_result f r)" "quiet (read_with f g)" "quiet (call_ws m1)"
  "quiet (call_ck m2)" "quiet (call_rv m3)" "quiet (call_pb m4)" "quiet (capture_stage E path)" "quiet (note_stage E site i ty kvs)"
  by (auto intro!: quietI simp: lift_result_def read_with_def call_ws_def call_ck_def call_rv_def call_pb_def
      capture_stage_def note_stage_def split: sum.splits if_splits)

lemma quiet_on_up [intro]: "quiet m \<Longrightarrow> quiet (on_up E site m)"
  by (auto intro!: quietI simp: on_up_def dest: quietD split: if_splits)

lemma quiet_on_stage [intro]: "quiet m \<Longrightarrow> quiet (on_stage E site m)"
  unfolding on_stage_def by (intro quiet_on_up) (auto intro!: quietI dest: quietD split: option.splits)

lemma quiet_reads [simp, intro]: "quiet (completed_execution job)" "quiet (ready_workspace job)"
  by (auto simp: completed_execution_def ready_workspace_def)

text \<open>Steps that keep a part of the world.\<close>

definition keeps :: "(stage_world \<Rightarrow> 'b) \<Rightarrow> 'a sstep \<Rightarrow> bool" where
  "keeps f m = (\<forall>w r w'. m w = (r, w') \<longrightarrow> f w' = f w)"

lemma keepsI: "(\<And>w r w'. m w = (r, w') \<Longrightarrow> f w' = f w) \<Longrightarrow> keeps f m"
  by (simp add: keeps_def)

lemma part_kept: "keeps f m \<Longrightarrow> m w = (r, w') \<Longrightarrow> f w' = f w"
  by (simp add: keeps_def)

lemma keeps_bind [intro]:
  assumes "keeps f m" "\<And>x. keeps f (g x)"
  shows "keeps f (sbind m g)"
proof (rule keepsI)
  fix w r w' assume "sbind m g w = (r, w')"
  then show "f w' = f w"
  proof (cases rule: sbind_cases)
    case (failed e)
    then show ?thesis using part_kept [OF assms(1)] by blast
  next
    case (went x w1)
    then show ?thesis using part_kept [OF assms(1) went(1)] part_kept [OF assms(2) went(2)] by simp
  qed
qed

lemma keeps_on_up [intro]: "keeps f m \<Longrightarrow> keeps f (on_up E site m)"
  by (auto intro!: keepsI simp: on_up_def dest: part_kept split: if_splits)

lemma keeps_on_stage [intro]: "keeps f m \<Longrightarrow> keeps f (on_stage E site m)"
  unfolding on_stage_def by (intro keeps_on_up) (auto intro!: keepsI dest: part_kept split: option.splits)

lemma keeps_plain [simp, intro]: "keeps f (ret x)" "keeps f (fail_with e)" "keeps f (lift_result h r)" "keeps f (read_with h g)"
  by (auto intro!: keepsI simp: lift_result_def read_with_def split: sum.splits)

lemma keeps_reads [simp, intro]:
  "keeps f (capture_stage E path)" "keeps f (completed_execution job)" "keeps f (ready_workspace job)"
  by (auto simp: capture_stage_def completed_execution_def ready_workspace_def)

lemma keeps_ws: "(\<And>w t. f (w\<lparr> sw_ws := t \<rparr>) = f w) \<Longrightarrow> keeps f (call_ws m)"
  by (auto intro!: keepsI simp: call_ws_def split: sum.splits)

lemma keeps_ck: "(\<And>w t. f (w\<lparr> sw_ck := t \<rparr>) = f w) \<Longrightarrow> keeps f (call_ck m)"
  by (auto intro!: keepsI simp: call_ck_def split: sum.splits)

lemma keeps_rv: "(\<And>w t. f (w\<lparr> sw_rv := t \<rparr>) = f w) \<Longrightarrow> keeps f (call_rv m)"
  by (auto intro!: keepsI simp: call_rv_def split: sum.splits)

lemma keeps_pb: "(\<And>w t. f (w\<lparr> sw_pb := t \<rparr>) = f w) \<Longrightarrow> keeps f (call_pb m)"
  by (auto intro!: keepsI simp: call_pb_def split: sum.splits)

lemma keeps_note: "(\<And>w t. f (w\<lparr> sw_wf := t \<rparr>) = f w) \<Longrightarrow> keeps f (note_stage E site i ty kvs)"
  by (auto intro!: keepsI simp: note_stage_def split: if_splits)

lemma keeps_finish: "(\<And>w t. f (w\<lparr> sw_wf := t \<rparr>) = f w) \<Longrightarrow> keeps f (finish_stage E st i action details)"
  unfolding finish_stage_def
  by (rule keeps_on_up, rule keeps_bind) (auto intro!: keepsI split: sum.splits if_splits prod.splits)

lemma keeps_renew: "(\<And>w t. f (w\<lparr> sw_ws := t \<rparr>) = f w) \<Longrightarrow> renew_stage E site i tok w = (lost, w') \<Longrightarrow> f w' = f w"
  by (auto simp: renew_stage_def split: prod.splits)

lemma keeps_fail_stage: "(\<And>w t. f (w\<lparr> sw_wf := t \<rparr>) = f w) \<Longrightarrow> f (fail_stage E st i d code message w) = f w"
  by (auto simp: fail_stage_def split: sum.splits if_splits prod.splits)

subsection \<open>Where a delivery leaves the workflow\<close>

definition at_stage :: "wf_status \<Rightarrow> string \<Rightarrow> wf_db \<Rightarrow> bool" where
  "at_stage st i db = (wf_db_ok db \<and> (\<exists>v. wf_get db i = Inr v \<and> wf_status_of v = st))"

definition left_stage :: "wf_status set \<Rightarrow> string \<Rightarrow> wf_db \<Rightarrow> bool" where
  "left_stage K i db = (wf_db_ok db \<and> (\<exists>v. wf_get db i = Inr v \<and> wf_status_of v \<in> K))"

lemma same_db_stage: "same_db db db' \<Longrightarrow> at_stage st i db' = at_stage st i db \<and> left_stage K i db' = left_stage K i db"
  using same_db_ok [of db db'] same_db_get [of db db'] by (simp add: at_stage_def left_stage_def)

text \<open>\<open>leaves st K i m\<close>: from a workflow in the stage, \<open>m\<close> ends in one of the statuses \<open>K\<close> when it succeeds, and still in
  the stage, or in \<open>K\<close>, when it fails.\<close>

definition leaves :: "wf_status \<Rightarrow> wf_status set \<Rightarrow> string \<Rightarrow> unit sstep \<Rightarrow> bool" where
  "leaves st K i m = (\<forall>w r w'. at_stage st i (sw_wf w) \<longrightarrow> m w = (r, w') \<longrightarrow>
     (if isl r then at_stage st i (sw_wf w') \<or> left_stage K i (sw_wf w') else left_stage K i (sw_wf w')))"

lemma leavesI:
  "(\<And>w r w'. at_stage st i (sw_wf w) \<Longrightarrow> m w = (r, w') \<Longrightarrow>
     (if isl r then at_stage st i (sw_wf w') \<or> left_stage K i (sw_wf w') else left_stage K i (sw_wf w'))) \<Longrightarrow> leaves st K i m"
  by (simp add: leaves_def)

lemma leavesD:
  "leaves st K i m \<Longrightarrow> at_stage st i (sw_wf w) \<Longrightarrow> m w = (r, w') \<Longrightarrow>
     (if isl r then at_stage st i (sw_wf w') \<or> left_stage K i (sw_wf w') else left_stage K i (sw_wf w'))"
  by (simp add: leaves_def)

lemma leaves_bind [intro]:
  assumes "quiet m" "\<And>x. leaves st K i (f x)"
  shows "leaves st K i (sbind m f)"
proof (rule leavesI)
  fix w r w' assume w: "at_stage st i (sw_wf w)" "sbind m f w = (r, w')"
  show "if isl r then at_stage st i (sw_wf w') \<or> left_stage K i (sw_wf w') else left_stage K i (sw_wf w')"
    using w(2)
  proof (rule sbind_cases)
    fix e assume "m w = (Inl e, w')" "r = Inl e"
    then show ?thesis using same_db_stage [OF quietD [OF assms(1)]] w(1) by simp
  next
    fix x w1 assume x: "m w = (Inr x, w1)" "f x w1 = (r, w')"
    then have "at_stage st i (sw_wf w1)" using same_db_stage [OF quietD [OF assms(1) x(1)]] w(1) by simp
    then show ?thesis using leavesD [OF assms(2) _ x(2)] by blast
  qed
qed

lemma leaves_fail [simp, intro]: "leaves st K i (fail_with e)"
  by (rule leavesI) auto

lemma leaves_on_up [intro]: "leaves st K i m \<Longrightarrow> leaves st K i (on_up E site m)"
  by (rule leavesI) (auto simp: on_up_def dest: leavesD split: if_splits)

subsection \<open>A delivery on its last attempt\<close>

text \<open>Calm surroundings: no shutdown, no cancellation, no deadline; every error has a text; fresh ids are ids.\<close>

definition calm :: "stage_env \<Rightarrow> bool" where
  "calm E = ((\<forall>site. \<not> se_down E site \<and> se_ctx E site = None \<and> se_watch E site \<noteq> Some WatchCancelled
       \<and> new_id_ok (stage_wf_env E site))
     \<and> (\<forall>c. trim_space (se_text E c) \<noteq> []))"

lemma calmD:
  assumes "calm E"
  shows "\<not> se_down E site" "se_ctx E site = None" "se_watch E site \<noteq> Some WatchCancelled" "new_id_ok (stage_wf_env E site)"
    "trim_space (se_text E c) \<noteq> []"
  using assms by (simp_all add: calm_def)

text \<open>The message of a failure is not blank.\<close>

lemma cut_message: "calm E \<Longrightarrow> trim_space (take 1024 (trim_space (stage_text E (SCause c)))) \<noteq> []"
  using take_not_blank [of "trim_space (se_text E c)" 1024] calmD(5) by (simp add: stage_text_def)

lemma calm_calls:
  assumes "calm E"
  shows "on_up E site m = m" "on_stage E site m = m"
  using calmD [OF assms] by (auto simp: on_up_def on_stage_def)

text \<open>Errors that settling turns into a failure.\<close>

definition plain_step :: "'a sstep \<Rightarrow> bool" where
  "plain_step m = (\<forall>w e w'. m w = (Inl e, w') \<longrightarrow> (\<exists>c. e = SCause c))"

lemma plain_stepI: "(\<And>w e w'. m w = (Inl e, w') \<Longrightarrow> \<exists>c. e = SCause c) \<Longrightarrow> plain_step m"
  by (simp add: plain_step_def)

lemma plain_stepD: "plain_step m \<Longrightarrow> m w = (Inl e, w') \<Longrightarrow> \<exists>c. e = SCause c"
  by (auto simp: plain_step_def)

lemma plain_bind [intro]:
  assumes "plain_step m" "\<And>x. plain_step (f x)"
  shows "plain_step (sbind m f)"
proof (rule plain_stepI)
  fix w e w' assume "sbind m f w = (Inl e, w')"
  then show "\<exists>c. e = SCause c"
    by (cases rule: sbind_cases) (use assms in \<open>auto dest: plain_stepD\<close>)
qed

lemma plain_calls [simp, intro]:
  "plain_step (ret x)" "plain_step (fail_with (SCause c))" "plain_step (lift_result f r)" "plain_step (read_with f g)"
  "plain_step (call_ws m1)" "plain_step (call_ck m2)" "plain_step (call_rv m3)" "plain_step (call_pb m4)"
  "plain_step (capture_stage E path)" "plain_step (note_stage E site i ty kvs)"
  by (auto intro!: plain_stepI simp: lift_result_def read_with_def call_ws_def call_ck_def call_rv_def call_pb_def
      capture_stage_def note_stage_def split: sum.splits if_splits)

lemma plain_reads [simp, intro]: "plain_step (completed_execution job)" "plain_step (ready_workspace job)"
  by (auto simp: completed_execution_def ready_workspace_def)

lemma plain_finish: "calm E \<Longrightarrow> plain_step (finish_stage E st i action details)"
  by (auto intro!: plain_stepI simp: finish_stage_def calm_calls read_with_def lift_result_def sbind_def
      split: sum.splits if_splits prod.splits)

lemma stage_input_action:
  assumes "trim_space action = action" "list_all upper_ascii action"
  shows "input_action (stage_input v action c m d) = action"
  using assms by (intro input_action_plain) (simp_all add: stage_input_def)

text \<open>What the table allows is accepted, apart from failures, continuations and revisions.\<close>

lemma finish_accepted:
  assumes "wf_db_ok db" "wf_get db (wf_id job) = Inr job" "dispatch_type (action_of_string a) n \<noteq> None \<Longrightarrow> we_new_id e \<notin> jr_id ` set (db_jobs db)"
    and "trim_space a = a" "list_all upper_ascii a" "a \<noteq> []" "length (marshal (JObj d)) \<le> 32768"
    and "next_status (wf_status_of job) (action_of_string a) (wf_retry_status job) = Some n"
    and "action_of_string a \<noteq> ActContinueExecution" "action_of_string a \<noteq> ActQueueRevision" "action_of_string a \<noteq> ActFail"
  shows "\<exists>x. wf_transition e (wf_id job) (stage_input job a [] [] d) db = Inr x"
proof -
  have w: "job \<in> set (db_workflows db)" "trim_space (wf_id job) = wf_id job" "wf_row_ok job"
    using wf_get_Inr [OF assms(2)] assms(1) by (auto simp: wf_db_ok_def)
  have v: "1 \<le> wf_version job" "wf_id job \<noteq> []" using w(3) by (simp_all add: wf_row_ok_def)
  have a: "input_action (stage_input job a [] [] d) = a" by (rule stage_input_action [OF assms(4,5)])
  have "transition_guards job (action_of_string a) (stage_input job a [] [] d) = Inr (n, JObj d)"
    using assms(7-11) by (simp add: transition_guards_def check_continue_def safe_details_def stage_input_def)
  then show ?thesis
    by (intro transition_accepts [OF assms(1), where w = job and n = n])
      (use w v a assms(3,6) in \<open>simp_all add: stage_input_def\<close>)
qed

lemma leaves_finish:
  assumes "calm E" "trim_space i = i" "trim_space action = action" "list_all upper_ascii action"
    and "\<And>r. next_status st (action_of_string action) r = Some nxt"
  shows "leaves st {nxt} i (finish_stage E st i action details)"
proof (rule leavesI)
  fix w r w' assume w: "at_stage st i (sw_wf w)" "finish_stage E st i action details w = (r, w')"
  then obtain v where v: "wf_get (sw_wf w) i = Inr v" "wf_status_of v = st" "wf_db_ok (sw_wf w)" by (auto simp: at_stage_def)
  have iv: "wf_id v = i" using wf_get_Inr [OF v(1)] assms(2) by simp
  let ?inp = "stage_input v action [] [] details"
  show "if isl r then at_stage st i (sw_wf w') \<or> left_stage {nxt} i (sw_wf w') else left_stage {nxt} i (sw_wf w')"
  proof (cases "wf_transition (stage_wf_env E AtDone) i ?inp (sw_wf w)")
    case (Inl e)
    then have "(r, w') = (Inl (SCause (SWorkflow e)), w)"
      using w(2) v iv by (simp add: finish_stage_def calm_calls [OF assms(1)] sbind_def read_with_def lift_result_def)
    then show ?thesis using w(1) by simp
  next
    case (Inr x)
    obtain db' v' where x: "x = (db', v')" by fastforce
    have e: "(r, w') = (Inr (), w\<lparr> sw_wf := db' \<rparr>)"
      using w(2) v iv Inr x by (simp add: finish_stage_def calm_calls [OF assms(1)] sbind_def read_with_def lift_result_def)
    obtain n d where n: "next_status (wf_status_of v) (action_of ?inp) (wf_retry_status v) = Some n"
      "v' = apply_transition (stage_wf_env E AtDone) (action_of ?inp) ?inp n d v" "wf_get db' i = Inr v'"
      using transition_shows [OF Inr [unfolded x] v(1)] by blast
    have "n = nxt" using n(1) assms(5) v(2) stage_input_action [OF assms(3,4)] by simp
    then have "left_stage {nxt} i db'"
      using n wf_db_ok_transition [OF v(3) Inr [unfolded x] calmD(4) [OF assms(1)]] by (auto simp: left_stage_def)
    then show ?thesis using e by simp
  qed
qed

lemma dispatch_details_short:
  assumes "length d \<le> 5000"
  shows "length (marshal (JObj [(''dispatch_job_id'', JStr d)])) \<le> 32768"
  using assms length_quote_json [of "''dispatch_job_id''"] length_quote_json [of d] by simp

lemma fail_stage_fails:
  assumes "calm E" "at_stage st i (sw_wf w)" "trim_space i = i" "st \<in> failure_statuses" "trim_space message \<noteq> []" "length d \<le> 5000"
  shows "left_stage {StFailed} i (sw_wf (fail_stage E st i d code message w))"
proof -
  obtain v where v: "wf_get (sw_wf w) i = Inr v" "wf_status_of v = st" "wf_db_ok (sw_wf w)" using assms(2) by (auto simp: at_stage_def)
  have iv: "wf_id v = i" using wf_get_Inr [OF v(1)] assms(3) by simp
  let ?inp = "stage_input v ''FAIL'' code message [(''dispatch_job_id'', JStr d)]" and ?e = "stage_wf_env E AtFailed"
  have a: "input_action ?inp = ''FAIL''" by (rule stage_input_action) (simp_all add: plain_char_def upper_ascii_def)
  obtain db' v' where t: "wf_transition ?e i ?inp (sw_wf w) = Inr (db', v')"
    using fail_accepted [OF v(3), of v ?inp "[(''dispatch_job_id'', JStr d)]" ?e] v assms(4,5) iv a dispatch_details_short [OF assms(6)]
    by (auto simp: stage_input_def)
  have "left_stage {StFailed} i db'"
    using fail_shows [OF t v(1) a] wf_db_ok_transition [OF v(3) t calmD(4) [OF assms(1)]] by (auto simp: left_stage_def)
  then show ?thesis using v iv t by (simp add: fail_stage_def)
qed

text \<open>A stage whose work ends it or fails with a plain error does not outlive its last attempt.\<close>

lemma settled_leaves:
  assumes "calm E" "leaves st K i m" "\<And>e w'. m w = (Inl e, w') \<Longrightarrow> \<exists>c. e = SCause c \<and> trim_space (message e) \<noteq> []"
    and "last_attempt j" "at_stage st i (sw_wf w)" "trim_space i = i" "st \<in> failure_statuses" "length (j_id j) \<le> 5000"
  shows "left_stage (insert StFailed K) i
    (sw_wf (snd (settle_stage (\<lambda>e. fail_stage E st i (j_id j) code (message e)) m j w)))"
proof -
  have mono: "left_stage A i db \<Longrightarrow> A \<subseteq> insert StFailed K \<Longrightarrow> left_stage (insert StFailed K) i db" for A db
    by (auto simp: left_stage_def)
  obtain r w1 where h: "m w = (r, w1)" by fastforce
  show ?thesis
  proof (cases r)
    case (Inr u)
    then have "left_stage K i (sw_wf w1)" using leavesD [OF assms(2,5) h] by simp
    then show ?thesis using h Inr mono [of K] by (auto simp: settle_stage_def)
  next
    case (Inl e)
    then obtain c where c: "e = SCause c" "trim_space (message (SCause c)) \<noteq> []" using assms(3) h by blast
    let ?w = "fail_stage E st i (j_id j) code (message (SCause c)) w1"
    have "left_stage (insert StFailed K) i (sw_wf ?w)"
    proof (cases "at_stage st i (sw_wf w1)")
      case True
      show ?thesis by (rule mono [OF fail_stage_fails [OF assms(1) True assms(6,7) c(2) assms(8)]]) simp
    next
      case False
      then have "left_stage K i (sw_wf w1)" using leavesD [OF assms(2,5) h] Inl by simp
      moreover have "?w = w1"
        using calculation False by (auto simp: fail_stage_def left_stage_def at_stage_def split: sum.splits)
      ultimately show ?thesis using mono [of K] by auto
    qed
    then show ?thesis using h Inl c assms(4) by (simp add: settle_stage_def)
  qed
qed

text \<open>Passing the gate.\<close>

lemma gate_leaves:
  assumes "calm E" "\<And>job. wf_id job = i \<Longrightarrow> leaves st K i (work job)" "trim_space (dp_workflow_job_id p) = i"
  shows "leaves st K i (stage_gate_step E st p work)"
proof (rule leavesI)
  fix w r w' assume w: "at_stage st i (sw_wf w)" "stage_gate_step E st p work w = (r, w')"
  have g: "wf_get (sw_wf w) (dp_workflow_job_id p) = wf_get (sw_wf w) i" using assms(3) by (auto simp: wf_get_def)
  then obtain v where v: "wf_get (sw_wf w) (dp_workflow_job_id p) = Inr v" "wf_status_of v = st" using w(1) by (auto simp: at_stage_def)
  have "wf_id v = i" using wf_get_Inr [OF v(1)] assms(3) by simp
  from leavesD [OF assms(2) [OF this] w(1)]
  show "if isl r then at_stage st i (sw_wf w') \<or> left_stage K i (sw_wf w') else left_stage K i (sw_wf w')"
    using w v by (auto simp: stage_gate_step_def calm_calls [OF assms(1)] stage_gate_def split: if_splits)
qed

lemma gate_plain:
  assumes "calm E" "\<And>job. plain_step (work job)" "at_stage st i (sw_wf w)" "trim_space (dp_workflow_job_id p) = i"
    and "st \<noteq> StCancelled" "stage_gate_step E st p work w = (Inl e, w')"
  shows "\<exists>c. e = SCause c"
proof -
  have "wf_get (sw_wf w) (dp_workflow_job_id p) = wf_get (sw_wf w) i" using assms(4) by (auto simp: wf_get_def)
  then obtain v where v: "wf_get (sw_wf w) (dp_workflow_job_id p) = Inr v" "wf_status_of v = st" "wf_db_ok (sw_wf w)"
    using assms(3) by (auto simp: at_stage_def)
  then have "\<not> wf_cancellation_requested v" using wf_get_Inr [OF v(1)] assms(5) by (auto simp: wf_db_ok_def wf_row_ok_def)
  then show ?thesis
    using assms(6) v plain_stepD [OF assms(2)]
    by (auto simp: stage_gate_step_def calm_calls [OF assms(1)] stage_gate_def split: if_splits)
qed

subsection \<open>A delivery whose context has ended\<close>

text \<open>\<open>stays m\<close>: when \<open>m\<close> ends with an error of the context, the workflow is as it was.\<close>

definition stays :: "'a sstep \<Rightarrow> bool" where
  "stays m = (\<forall>w e w'. m w = (Inl e, w') \<longrightarrow> (\<forall>c. e \<noteq> SCause c) \<longrightarrow> same_db (sw_wf w) (sw_wf w'))"

lemma staysI: "(\<And>w e w'. m w = (Inl e, w') \<Longrightarrow> \<forall>c. e \<noteq> SCause c \<Longrightarrow> same_db (sw_wf w) (sw_wf w')) \<Longrightarrow> stays m"
  by (simp add: stays_def)

lemma staysD: "stays m \<Longrightarrow> m w = (Inl e, w') \<Longrightarrow> \<forall>c. e \<noteq> SCause c \<Longrightarrow> same_db (sw_wf w) (sw_wf w')"
  by (simp add: stays_def)

lemma stays_quiet: "quiet m \<Longrightarrow> stays m"
  by (rule staysI) (rule quietD)

lemma stays_plain [simp, intro]: "stays (fail_with e)" "stays (ret x)"
  by (simp_all add: stays_quiet)

lemma stays_bind:
  assumes "quiet m" "\<And>x. stays (f x)"
  shows "stays (sbind m f)"
proof (rule staysI)
  fix w e w' assume h: "sbind m f w = (Inl e, w')" "\<forall>c. e \<noteq> SCause c"
  show "same_db (sw_wf w) (sw_wf w')"
    using h(1)
  proof (cases rule: sbind_cases)
    case (failed e')
    then show ?thesis using quietD [OF assms(1)] by blast
  next
    case (went x w1)
    then show ?thesis using same_db_trans [OF quietD [OF assms(1) went(1)] staysD [OF assms(2) went(2) h(2)]] by simp
  qed
qed

lemma stays_on_up: "stays m \<Longrightarrow> stays (on_up E site m)"
  by (rule staysI) (auto simp: on_up_def dest: staysD split: if_splits)

lemma stays_finish: "stays (finish_stage E st i action details)"
  unfolding finish_stage_def
  by (rule stays_on_up, rule stays_bind) (auto intro!: staysI split: sum.splits if_splits prod.splits)

lemma gate_stays:
  assumes "\<And>job. stays (work job)"
  shows "stays (stage_gate_step E st p work)"
  unfolding stage_gate_step_def
  by (rule stays_on_up, rule staysI) (auto dest: staysD [OF assms] split: gate.splits)

text \<open>Settling leaves such a delivery alone, on the last attempt too.\<close>

lemma settle_stays:
  assumes "stays m" "settle_stage f m j w = (Inl e, w')" "\<forall>c. e \<noteq> SCause c"
  shows "same_db (sw_wf w) (sw_wf w')"
  using assms(2,3) staysD [OF assms(1)] by (auto simp: settle_stage_def split: prod.splits sum.splits stage_error.splits)

end
