(* ===== verification/ChecksHandler.thy ===== *)
theory ChecksHandler
  imports StageBase
begin

text \<open>The checks handler (internal/checks/handler.go): one delivery of a \<open>workflow.run_checks\<close> message. Under the write
  lease of the workspace it runs the steps that are not over, compares the workspace with the snapshot taken before the
  first of them after each step, closes the run, gives the lease back and moves the workflow to REVIEWING. The detector
  and the runner are interfaces of the handler and parameters here: a runner returns a result and leaves a tree. Profile names are
  ASCII (checks/profiles.go), so \<open>sanitize_artifact_name\<close> goes over bytes.\<close>

record check_tools =
  ct_detect :: "string \<Rightarrow> tree \<Rightarrow> ck_error + profile list"
  ct_run :: "nat \<Rightarrow> string \<Rightarrow> profile \<Rightarrow> tree \<Rightarrow> check_result \<times> tree"
  ct_artifacts :: bool

definition sanitize_artifact_name :: "string \<Rightarrow> string" where
  "sanitize_artifact_name raw = (let s = trim_space raw in
     if s = [] then ''check''
     else map (\<lambda>c. let n = (of_char c :: nat) in
       if n \<in> {97..122} \<or> n \<in> {65..90} \<or> n \<in> {48..57} \<or> n = 45 \<or> n = 95 then c else CHR ''_'') s)"

definition two_digits :: "int \<Rightarrow> string" where
  "two_digits n = (let s = show_int n in if length s < 2 then CHR ''0'' # s else s)"

definition log_key :: "wf_job \<Rightarrow> check_run \<Rightarrow> check_step \<Rightarrow> profile \<Rightarrow> string" where
  "log_key job run s p = ''workflows/'' @ wf_id job @ ''/checks/'' @ cr_id run @ ''/'' @ two_digits (ck_sequence s)
     @ ''-'' @ sanitize_artifact_name (pf_name p) @ ''.log''"

definition ck_status_str :: "ck_status \<Rightarrow> string" where
  "ck_status_str s = (case s of CkPending \<Rightarrow> ''PENDING'' | CkRunning \<Rightarrow> ''RUNNING'' | CkPassed \<Rightarrow> ''PASSED''
     | CkFailed \<Rightarrow> ''FAILED'' | CkCancelled \<Rightarrow> ''CANCELLED'')"

definition finish_checks :: "stage_env \<Rightarrow> wf_job \<Rightarrow> check_run \<Rightarrow> json_text job \<Rightarrow> unit sstep" where
  "finish_checks E job run j = finish_stage E StChecking (wf_id job) ''CHECKS_COMPLETED''
     [(''check_run_id'', JStr (cr_id run)), (''check_status'', JStr (ck_status_str (cr_status run))),
      (''dispatch_job_id'', JStr (j_id j)), (''failed_steps'', JInt (cr_failed_steps run)),
      (''passed_steps'', JInt (cr_passed_steps run))]"

text \<open>Cancelling a step or the run is best effort.\<close>

definition set_ck :: "(check_db \<Rightarrow> check_db) \<Rightarrow> stage_world \<Rightarrow> stage_world" where
  "set_ck f w = w\<lparr> sw_ck := f (sw_ck w) \<rparr>"

definition try_ck :: "(check_db \<Rightarrow> ck_error + check_db) \<Rightarrow> check_db \<Rightarrow> check_db" where
  "try_ck f db = (case f db of Inl _ \<Rightarrow> db | Inr db' \<Rightarrow> db')"

definition cancel_step :: "stage_env \<Rightarrow> stage_site \<Rightarrow> check_step \<Rightarrow> string \<Rightarrow> stage_world \<Rightarrow> stage_world" where
  "cancel_step E site s message = set_ck (try_ck (ck_cancel_step (se_now E site) (ck_id s) message))"

definition cancel_run :: "stage_env \<Rightarrow> stage_site \<Rightarrow> check_run \<Rightarrow> stage_world \<Rightarrow> stage_world" where
  "cancel_run E site run = set_ck (try_ck (\<lambda>db. map_sum id fst (ck_cancel (se_now E site) (cr_id run) ''check run cancelled'' db)))"

text \<open>What the runner's return finds: the cancellation watcher first, then a cancelled command or an ended context.\<close>

definition stopped_step ::
  "stage_env \<Rightarrow> nat \<Rightarrow> check_run \<Rightarrow> check_step \<Rightarrow> check_result \<Rightarrow> ws_error option \<Rightarrow> stage_world \<Rightarrow> (stage_error \<times> stage_world) option" where
  "stopped_step E n run s k lost w =
     (let site = AtStepRun n in
      case se_watch E site of
        Some WatchCancelled \<Rightarrow>
          Some (SContext CtxCanceled, cancel_step E site s (ctx_text CtxCanceled) (cancel_run E site run w))
      | Some (WatchFailed m) \<Rightarrow> Some (SCause (SWatch m), cancel_step E site s m w)
      | None \<Rightarrow>
        let ended = (if se_down E site then Some CtxCanceled else if lost \<noteq> None then Some CtxCanceled else se_ctx E site) in
        if \<not> kr_cancelled k \<and> ended = None then None
        else let w1 = cancel_step E site s (kr_error_message k) w in
          case lost of
            Some e \<Rightarrow> Some (SCause (SWorkspace e), w1)
          | None \<Rightarrow> (case ended of Some c \<Rightarrow> Some (SContext c, w1) | None \<Rightarrow> Some (SContext CtxCanceled, w1)))"

definition save_log :: "check_tools \<Rightarrow> stage_env \<Rightarrow> nat \<Rightarrow> wf_job \<Rightarrow> check_run \<Rightarrow> check_step \<Rightarrow> profile \<Rightarrow> check_result \<Rightarrow> unit sstep" where
  "save_log K E n job run s p k w =
     (if \<not> ct_artifacts K \<or> \<not> (kr_truncated k \<or> length (kr_output k) \<ge> 65536) then (Inr (), w)
      else let key = log_key job run s p; out = (if kr_artifact_output k = [] then kr_output k else kr_artifact_output k) in
        case se_save_error E key of
          Some m \<Rightarrow> (Inl (SCause (SArtifact m)), w)
        | None \<Rightarrow> (Inr (), set_ck (ck_set_artifact (se_now E (AtStepEnd n)) (ck_id s) key)
            (w\<lparr> sw_artifacts := sw_artifacts w @ [(key, out)] \<rparr>)))"

definition step_payload :: "check_run \<Rightarrow> profile \<Rightarrow> check_result \<Rightarrow> (string \<times> json) list" where
  "step_payload run p k = [(''check_run_id'', JStr (cr_id run)), (''profile'', JStr (pf_name p)),
     (''passed'', JBool (kr_passed k)), (''exit_code'', JInt (kr_exit_code k)),
     (''duration_ms'', JInt (kr_duration k div nanos_per_milli)), (''timed_out'', JBool (kr_timed_out k)),
     (''output_truncated'', JBool (kr_truncated k))]"

text \<open>A command has run: the tree must be the one before the first step.\<close>

definition close_step ::
  "check_tools \<Rightarrow> stage_env \<Rightarrow> wf_job \<Rightarrow> workspace \<Rightarrow> git_snapshot \<Rightarrow> check_run \<Rightarrow> nat \<Rightarrow> profile \<Rightarrow> check_step \<Rightarrow> check_result \<Rightarrow> unit sstep" where
  "close_step K E job item base run n p s k =
     sbind (on_stage E (AtStepEnd n) (capture_stage E (w_path item))) (\<lambda>after.
     if gs_head after \<noteq> gs_head base \<or> gs_checksum after \<noteq> gs_checksum base
     then fail_with (SCause (SModified (pf_name p)))
     else
       sbind (call_ck (\<lambda>db. map_sum id (\<lambda>d. (d, ())) (ck_complete_step (se_now E (AtStepEnd n)) (ck_id s) k db))) (\<lambda>_.
       sbind (save_log K E n job run s p k) (\<lambda>_.
       note_stage E (AtStepEnd n) (wf_id job) ''checks.step_completed'' (step_payload run p k))))"

definition run_command ::
  "check_tools \<Rightarrow> stage_env \<Rightarrow> wf_job \<Rightarrow> workspace \<Rightarrow> string \<Rightarrow> git_snapshot \<Rightarrow> check_run \<Rightarrow> nat \<Rightarrow> profile \<Rightarrow> check_step \<Rightarrow> unit sstep" where
  "run_command K E job item tok base run n p s w =
     (case ct_run K n (w_path item) p (sw_tree w) of (k, t) \<Rightarrow>
      case renew_stage E (AtStepRun n) (w_id item) tok (w\<lparr> sw_tree := t \<rparr>) of (lost, w1) \<Rightarrow>
      case stopped_step E n run s k lost w1 of
        Some (e, w2) \<Rightarrow> (Inl e, w2)
      | None \<Rightarrow> close_step K E job item base run n p s k w1)"

definition run_check_step ::
  "check_tools \<Rightarrow> stage_env \<Rightarrow> wf_job \<Rightarrow> workspace \<Rightarrow> string \<Rightarrow> git_snapshot \<Rightarrow> check_run \<Rightarrow> nat \<Rightarrow> profile \<Rightarrow> unit sstep" where
  "run_check_step K E job item tok base run n p w0 =
     (case renew_stage E (AtStep n) (w_id item) tok w0 of
        (Some e, w) \<Rightarrow> (Inl (SCause (SWorkspace e)), w)
      | (None, w) \<Rightarrow>
        sbind (on_stage E (AtStep n) (call_ck (ck_start_step (se_now E (AtStep n)) (cr_id run) (pf_name p))))
          (run_command K E job item tok base run n p) w)"

text \<open>The profiles that are not over, in their order.\<close>

fun run_check_steps ::
  "check_tools \<Rightarrow> stage_env \<Rightarrow> wf_job \<Rightarrow> workspace \<Rightarrow> string \<Rightarrow> git_snapshot \<Rightarrow> check_run \<Rightarrow> string list \<Rightarrow> nat \<Rightarrow> profile list \<Rightarrow> unit sstep" where
  "run_check_steps K E job item tok base run over n [] = ret ()"
| "run_check_steps K E job item tok base run over n (p # ps) =
     (if pf_name p \<in> set over then run_check_steps K E job item tok base run over (n + 1) ps
      else sbind (run_check_step K E job item tok base run n p) (\<lambda>_.
        run_check_steps K E job item tok base run over (n + 1) ps))"

definition steps_over :: "check_step list \<Rightarrow> string list" where
  "steps_over xs = map ck_profile (filter (\<lambda>s. ck_status_of s = CkPassed \<or> ck_status_of s = CkFailed) xs)"

definition run_payload :: "check_run \<Rightarrow> (string \<times> json) list" where
  "run_payload run = [(''check_run_id'', JStr (cr_id run)), (''status'', JStr (ck_status_str (cr_status run))),
     (''total_steps'', JInt (cr_total_steps run)), (''passed_steps'', JInt (cr_passed_steps run)),
     (''failed_steps'', JInt (cr_failed_steps run))]"

definition run_checks ::
  "check_tools \<Rightarrow> stage_env \<Rightarrow> wf_job \<Rightarrow> execution \<Rightarrow> workspace \<Rightarrow> string \<Rightarrow> git_snapshot \<Rightarrow> check_run \<Rightarrow> profile list \<Rightarrow> check_run sstep" where
  "run_checks K E job x item tok base run0 profiles =
     sbind (on_stage E AtRunStart (call_ck (ck_start (\<lambda>n. se_new_id E (AtStep n)) (se_now E AtRunStart) (cr_id run0) profiles))) (\<lambda>run.
     sbind (on_stage E AtRunStart (\<lambda>w. (Inr (), set_ck (ck_recover (se_now E AtRunStart) (cr_id run)) w))) (\<lambda>_.
     sbind (on_stage E AtRunStart (\<lambda>w. (Inr (ck_list_steps (sw_ck w) (cr_id run)), w))) (\<lambda>existing.
     sbind (note_stage E AtRunStart (wf_id job) ''checks.started'' [(''check_run_id'', JStr (cr_id run)),
       (''execution_id'', JStr (ex_id x)), (''profile_count'', JInt (int (length profiles)))]) (\<lambda>_.
     sbind (run_check_steps K E job item tok base run (steps_over existing) 0 profiles) (\<lambda>_.
     sbind (on_stage E AtRunEnd (call_ck (ck_finish (se_now E AtRunEnd) (cr_id run)))) (\<lambda>closed.
     sbind (note_stage E AtRunEnd (wf_id job) ''checks.completed'' (run_payload closed)) (\<lambda>_.
     ret closed)))))))"

text \<open>The lease is given back with the state of the tree: before the workflow moves on when all went well, and by the
  deferred call otherwise, whose own error is reported only when there is none yet.\<close>

definition release_stage_lease :: "stage_env \<Rightarrow> workspace \<Rightarrow> string \<Rightarrow> unit sstep" where
  "release_stage_lease E item tok =
     sbind (capture_stage E (w_path item)) (\<lambda>g.
     sbind (call_ws (release_write (se_now E AtLeaseBack) (w_id item) tok (gs_head g) (gs_dirty g))) (\<lambda>_. ret ()))"

definition with_check_lease :: "stage_env \<Rightarrow> workspace \<Rightarrow> string \<Rightarrow> check_run sstep \<Rightarrow> check_run sstep" where
  "with_check_lease E item tok m w =
     (case m w of
        (Inl e, w1) \<Rightarrow> (case release_stage_lease E item tok w1 of (_, w2) \<Rightarrow> (Inl e, w2))
      | (Inr run, w1) \<Rightarrow>
        (case release_stage_lease E item tok w1 of
           (Inr _, w2) \<Rightarrow> (Inr run, w2)
         | (Inl e, w2) \<Rightarrow> (case release_stage_lease E item tok w2 of (_, w3) \<Rightarrow> (Inl e, w3))))"

definition check_work ::
  "check_tools \<Rightarrow> stage_env \<Rightarrow> json_text job \<Rightarrow> wf_job \<Rightarrow> execution \<Rightarrow> workspace \<Rightarrow> check_run \<Rightarrow> unit sstep" where
  "check_work K E j job x item run =
     sbind (read_with SCheck (\<lambda>w. ct_detect K (w_path item) (sw_tree w))) (\<lambda>profiles.
     if profiles = [] then fail_with (SCause (SCheck CkNoProfiles))
     else
       sbind (on_up E AtBaseline (capture_stage E (w_path item))) (\<lambda>base.
       if wf_base_commit_sha job \<noteq> [] \<and> gs_head base \<noteq> wf_base_commit_sha job then fail_with (SCause SHeadMoved)
       else
         sbind (on_up E AtWriteLease (call_ws (acquire_write (se_new_id E AtWriteLease) (se_now E AtWriteLease) (w_id item)
           (se_worker E @ '':checks'') (se_lease_ttl E)))) (\<lambda>(_, tok).
         sbind (with_check_lease E item tok (run_checks K E job x item tok base run profiles)) (\<lambda>closed.
         finish_checks E job closed j))))"

definition check_stage :: "check_tools \<Rightarrow> stage_env \<Rightarrow> json_text job \<Rightarrow> wf_job \<Rightarrow> unit sstep" where
  "check_stage K E j job =
     sbind (completed_execution job) (\<lambda>x.
     sbind (ready_workspace job) (\<lambda>item.
     sbind (on_up E AtCreated (call_ck (ck_create_or_get (se_new_id E AtCreated) (se_now E AtCreated) (se_refs_ok E)
       (wf_id job) (ex_id x) (w_id item) (wf_execution_version job)))) (\<lambda>(run, _).
     if cr_status run = CkPassed \<or> cr_status run = CkFailed then finish_checks E job run j
     else check_work K E j job x item run)))"

definition fail_checks :: "stage_env \<Rightarrow> string \<Rightarrow> json_text job \<Rightarrow> stage_error \<Rightarrow> stage_world \<Rightarrow> stage_world" where
  "fail_checks E i j e = fail_stage E StChecking i (j_id j) ''CHECKS_HANDLER_FAILED'' (take 1024 (trim_space (stage_text E e)))"

definition checks_handle :: "check_tools \<Rightarrow> stage_env \<Rightarrow> json_text job \<Rightarrow> unit sstep" where
  "checks_handle K E j =
     (case decode_checks_dispatch (j_payload j) of
        Inl e \<Rightarrow> fail_with (SCause (SDispatch e))
      | Inr p \<Rightarrow> settle_stage (fail_checks E (dp_workflow_job_id p) j) (stage_gate_step E StChecking p (check_stage K E j)) j)"

text \<open>The tools of the daemon (cmd/api/main.go): the detector, and a runner that starts the given process.\<close>

definition daemon_tools :: "detect_env \<Rightarrow> (nat \<Rightarrow> string list \<Rightarrow> string \<Rightarrow> process) \<Rightarrow> (nat \<Rightarrow> int) \<Rightarrow> (nat \<Rightarrow> tree \<Rightarrow> tree) \<Rightarrow> bool \<Rightarrow> check_tools" where
  "daemon_tools D start elapsed leaves_tree artifacts = \<lparr> ct_detect = detect D,
     ct_run = \<lambda>n root p t. (runner_run (start n) (elapsed n) root t p, leaves_tree n t), ct_artifacts = artifacts \<rparr>"

subsection \<open>No check stage is stranded\<close>

lemma quiet_set: "(\<And>w. sw_wf (f w) = sw_wf w) \<Longrightarrow> quiet (\<lambda>w. (x w, f w))"
  by (auto intro!: quietI)

lemma stopped_keeps: "stopped_step E n run s k lost w = Some (e, w') \<Longrightarrow> sw_wf w' = sw_wf w"
  by (auto simp: stopped_step_def Let_def cancel_step_def cancel_run_def set_ck_def split: option.splits watch_result.splits if_splits)

lemma stopped_plain:
  "calm E \<Longrightarrow> \<not> kr_cancelled k \<Longrightarrow> stopped_step E n run s k lost w = Some (e, w') \<Longrightarrow> \<exists>c. e = SCause c"
  using calmD(1-3) [of E "AtStepRun n"]
  by (auto simp: stopped_step_def Let_def split: option.splits watch_result.splits if_splits)

lemma renew_keeps: "renew_stage E site i tok w = (lost, w') \<Longrightarrow> sw_wf w' = sw_wf w"
  by (auto simp: renew_stage_def split: prod.splits)

lemma quiet_log: "quiet (save_log K E n job run s p k)"
  by (auto intro!: quietI simp: save_log_def Let_def set_ck_def split: if_splits option.splits)

lemma plain_log: "plain_step (save_log K E n job run s p k)"
  by (auto intro!: plain_stepI simp: save_log_def Let_def split: if_splits option.splits)

lemma quiet_close: "quiet (close_step K E job item base run n p s k)"
  by (auto simp: close_step_def intro!: quiet_bind quiet_on_stage quiet_log)

lemma plain_close: "calm E \<Longrightarrow> plain_step (close_step K E job item base run n p s k)"
  by (auto simp: close_step_def calm_calls intro!: plain_bind plain_log)

lemma quiet_command: "quiet (run_command K E job item tok base run n p s)"
proof (rule quietI)
  fix w r w' assume h: "run_command K E job item tok base run n p s w = (r, w')"
  obtain k t where k: "ct_run K n (w_path item) p (sw_tree w) = (k, t)" by fastforce
  obtain lost w1 where l: "renew_stage E (AtStepRun n) (w_id item) tok (w\<lparr> sw_tree := t \<rparr>) = (lost, w1)" by fastforce
  have w1: "sw_wf w1 = sw_wf w" using renew_keeps [OF l] by simp
  show "same_db (sw_wf w) (sw_wf w')"
    using h stopped_keeps [of E n run s k lost w1] quietD [OF quiet_close, of K E job item base run n p s k w1]
    by (simp add: run_command_def k l w1 split: option.splits prod.splits)
qed

lemma plain_command:
  assumes "calm E" "\<And>n root p t. \<not> kr_cancelled (fst (ct_run K n root p t))"
  shows "plain_step (run_command K E job item tok base run n p s)"
proof (rule plain_stepI)
  fix w e w' assume h: "run_command K E job item tok base run n p s w = (Inl e, w')"
  obtain k t where k: "ct_run K n (w_path item) p (sw_tree w) = (k, t)" by fastforce
  have c: "\<not> kr_cancelled k" using assms(2) [of n "w_path item" p "sw_tree w"] k by simp
  show "\<exists>c. e = SCause c"
    using h stopped_plain [OF assms(1) c] plain_stepD [OF plain_close [OF assms(1)]]
    by (simp add: run_command_def k split: prod.splits option.splits)
qed

lemma quiet_step: "quiet (run_check_step K E job item tok base run n p)"
proof (rule quietI)
  fix w r w' assume h: "run_check_step K E job item tok base run n p w = (r, w')"
  let ?m = "sbind (on_stage E (AtStep n) (call_ck (ck_start_step (se_now E (AtStep n)) (cr_id run) (pf_name p))))
    (run_command K E job item tok base run n p)"
  have q: "quiet ?m" by (intro quiet_bind quiet_on_stage quiet_calls quiet_command)
  obtain lost w1 where l: "renew_stage E (AtStep n) (w_id item) tok w = (lost, w1)" by fastforce
  show "same_db (sw_wf w) (sw_wf w')"
    using h renew_keeps [OF l] quietD [OF q, of w1] by (simp add: run_check_step_def l split: option.splits)
qed

lemma plain_run_step:
  assumes "calm E" "\<And>n root p t. \<not> kr_cancelled (fst (ct_run K n root p t))"
  shows "plain_step (run_check_step K E job item tok base run n p)"
proof (rule plain_stepI)
  fix w e w' assume h: "run_check_step K E job item tok base run n p w = (Inl e, w')"
  let ?m = "sbind (call_ck (ck_start_step (se_now E (AtStep n)) (cr_id run) (pf_name p)))
    (run_command K E job item tok base run n p)"
  have q: "plain_step ?m" by (intro plain_bind plain_calls plain_command assms)
  show "\<exists>c. e = SCause c"
    using h plain_stepD [OF q] by (auto simp: run_check_step_def calm_calls [OF assms(1)] split: prod.splits option.splits)
qed

lemma quiet_steps: "quiet (run_check_steps K E job item tok base run over n ps)"
  by (induction ps arbitrary: n) (auto intro!: quiet_bind quiet_step)

lemma plain_steps:
  assumes "calm E" "\<And>n root p t. \<not> kr_cancelled (fst (ct_run K n root p t))"
  shows "plain_step (run_check_steps K E job item tok base run over n ps)"
  by (induction ps arbitrary: n) (auto intro!: plain_bind plain_run_step assms)

lemma quiet_run: "quiet (run_checks K E job x item tok base run ps)"
  unfolding run_checks_def
  by (intro quiet_bind quiet_on_stage quiet_calls quiet_steps quiet_set) (simp_all add: set_ck_def)

lemma plain_run:
  assumes "calm E" "\<And>n root p t. \<not> kr_cancelled (fst (ct_run K n root p t))"
  shows "plain_step (run_checks K E job x item tok base run ps)"
  unfolding run_checks_def calm_calls [OF assms(1)]
  by (intro plain_bind plain_calls plain_steps assms) (auto intro!: plain_stepI)

lemma quiet_release: "quiet (release_stage_lease E item tok)"
  unfolding release_stage_lease_def by (intro quiet_bind quiet_calls)

lemma plain_release: "plain_step (release_stage_lease E item tok)"
  unfolding release_stage_lease_def by (intro plain_bind plain_calls)

lemma quiet_lease:
  assumes "quiet m"
  shows "quiet (with_check_lease E item tok m)"
proof (rule quietI)
  fix w r w' assume "with_check_lease E item tok m w = (r, w')"
  then show "same_db (sw_wf w) (sw_wf w')"
    using quietD [OF assms] quietD [OF quiet_release]
    by (auto simp: with_check_lease_def split: prod.splits sum.splits) (blast intro: same_db_trans)+
qed

lemma plain_lease: "plain_step m \<Longrightarrow> plain_step (with_check_lease E item tok m)"
  by (rule plain_stepI) (auto simp: with_check_lease_def dest: plain_stepD plain_stepD [OF plain_release] split: prod.splits sum.splits)

lemma decode_checks_trimmed: "decode_checks_dispatch raw = Inr p \<Longrightarrow> trim_space (dp_workflow_job_id p) = dp_workflow_job_id p"
  by (auto simp: decode_checks_dispatch_def Let_def guardE_def trim_payload_def split: if_splits)

lemma finish_checks_leaves:
  assumes "calm E" "trim_space (wf_id job) = wf_id job"
  shows "leaves StChecking {StReviewing} (wf_id job) (finish_checks E job run j)"
  unfolding finish_checks_def using assms
  by (intro leaves_finish) (simp_all add: plain_char_def upper_ascii_def action_of_string_def known_actions_def next_status_def transition_table_def)

lemma check_stage_leaves:
  assumes "calm E" "trim_space (wf_id job) = wf_id job"
  shows "leaves StChecking {StReviewing} (wf_id job) (check_stage K E j job)"
  unfolding check_stage_def check_work_def calm_calls [OF assms(1)]
  using finish_checks_leaves [OF assms]
  by (auto intro!: leaves_bind quiet_lease quiet_run split: prod.splits)

lemma check_stage_plain:
  assumes "calm E" "\<And>n root p t. \<not> kr_cancelled (fst (ct_run K n root p t))"
  shows "plain_step (check_stage K E j job)"
  unfolding check_stage_def check_work_def calm_calls [OF assms(1)]
  using plain_finish [OF assms(1)]
  by (auto intro!: plain_bind plain_lease plain_run assms simp: finish_checks_def split: prod.splits)

text \<open>C0: No workflow is stuck in CHECKING. When the last attempt of a checks job runs in calm surroundings (no shutdown, no
  cancellation, no deadline reached) and the runner does not report a cancellation, the workflow leaves CHECKING: it goes
  on to REVIEWING or is FAILED, whatever goes wrong in the execution, the workspace, the check tables, git, the
  commands or the artifact store.\<close>

theorem checks_never_strand:
  assumes "calm E" "\<And>n root p t. \<not> kr_cancelled (fst (ct_run K n root p t))"
    and "decode_checks_dispatch (j_payload j) = Inr p" "last_attempt j" "length (j_id j) \<le> 5000"
    and "at_stage StChecking (dp_workflow_job_id p) (sw_wf w)"
  shows "left_stage {StReviewing, StFailed} (dp_workflow_job_id p) (sw_wf (snd (checks_handle K E j w)))"
proof -
  let ?i = "dp_workflow_job_id p"
  have i: "trim_space ?i = ?i" using assms(3) by (rule decode_checks_trimmed)
  have l: "leaves StChecking {StReviewing} ?i (stage_gate_step E StChecking p (check_stage K E j))"
    by (rule gate_leaves [OF assms(1) _ i]) (use check_stage_leaves [OF assms(1)] i in metis)
  let ?msg = "\<lambda>e. take 1024 (trim_space (stage_text E e))" and ?m = "stage_gate_step E StChecking p (check_stage K E j)"
  have "left_stage {StFailed, StReviewing} ?i (sw_wf (snd (settle_stage (fail_checks E ?i j) ?m j w)))"
    unfolding fail_checks_def [abs_def]
  proof (rule settled_leaves [where message = ?msg and m = ?m, OF assms(1) l _ assms(4,6) i _ assms(5)])
    show "\<exists>c. e = SCause c \<and> trim_space (?msg e) \<noteq> []" if "?m w = (Inl e, w')" for e w'
      using gate_plain [OF assms(1) check_stage_plain [OF assms(1,2)] assms(6) i _ that] cut_message [OF assms(1)] by auto
  qed (simp add: failure_statuses_def)
  then show ?thesis using assms(3) by (simp add: checks_handle_def insert_commute)
qed

end
