(* ===== verification/StageSamples.thy ===== *)
theory StageSamples
  imports StageBase
begin

text \<open>A workflow in a stage after its execution, with the workspace and the execution it needs, for the examples of the
  stage handlers.\<close>

definition sample_checking :: wf_db where
  "sample_checking = sample_next ''d'' 4 ''EXECUTION_COMPLETED'' (sample_next ''c'' 3 ''EXECUTION_STARTED'' sample_queued)"

lemma sample_reviewing_next: "sample_reviewing = sample_next ''e'' 5 ''CHECKS_COMPLETED'' sample_checking"
  by (simp add: sample_reviewing_def sample_checking_def)

lemma sample_executing_at: "at_status (sample_next ''c'' 3 ''EXECUTION_STARTED'' sample_queued) StExecuting None 4 {''c'', ''a'', ''b''}"
  using sample_next_at [OF sample_queued_at, of "''c''" "''EXECUTION_STARTED''" ActExecutionStarted StExecuting]
  by (simp add: sample_actions plain_char_def next_status_def transition_table_def)

lemma sample_checking_at: "at_status sample_checking StChecking None 5 {''d'', ''c'', ''a'', ''b''}"
  using sample_next_at [OF sample_executing_at, of "''d''" "''EXECUTION_COMPLETED''" ActExecutionCompleted StChecking]
  by (simp add: sample_actions plain_char_def next_status_def transition_table_def sample_checking_def)

text \<open>The fields that transitions carry along.\<close>

definition carries :: "wf_db \<Rightarrow> int \<Rightarrow> bool" where
  "carries db n = (\<exists>w. db_workflows db = [w] \<and> wf_base_commit_sha w = ''abc'' \<and> wall_clock_seconds (wf_limits w) = 3600
     \<and> wf_updated_at w = 0 \<and> wf_execution_version w = n)"

lemma sample_next_carries:
  assumes "carries db n" "at_status db s r k ids" "at_status (sample_next d k a db) s' r' (k + 1) ids'"
    "action_of_string (input_action (sample_input a k)) = act"
  shows "carries (sample_next d k a db) (n + (if act = ActExecutionStarted then 1 else 0))"
proof -
  obtain w where w: "db_workflows db = [w]" "wf_id w = ''w''" "wf_version w = k" "wf_base_commit_sha w = ''abc''"
    "wall_clock_seconds (wf_limits w) = 3600" "wf_execution_version w = n"
    using assms(1,2) by (auto simp: at_status_def carries_def)
  have "sample_next d k a db \<noteq> db" using assms(3) w by (auto simp: at_status_def)
  then obtain db' w' where t: "wf_transition (sample_env d) ''w'' (sample_input a k) db = Inr (db', w')"
    by (auto simp: sample_next_def split: sum.splits)
  have g: "wf_get db ''w'' = Inr w" using w by (simp add: wf_get_def load_job_def lookup_by_def plain_char_def)
  obtain nx d' where n: "w' = apply_transition (sample_env d) act (sample_input a k) nx d' w" "wf_get db' ''w'' = Inr w'"
    using transition_shows [OF t g] assms(4) by auto
  have "sample_next d k a db = db'" by (simp add: sample_next_def t)
  moreover have "db_workflows db' = [w']"
    using n(2) assms(3) calculation
    by (auto simp: at_status_def wf_get_def load_job_def lookup_by_def plain_char_def split: if_splits)
  ultimately show ?thesis
    using n(1) w by (auto simp: carries_def apply_transition_def sample_env_def stored_at_def from_milli_def unix_milli_def sample_input_def split: prod.splits)
qed

lemma sample_db1_carries: "carries sample_db1 0"
  by (simp add: carries_def sample_db1_def wf_create_def sample_db0_def sample_env_def sample_create_def no_agent_def Let_def normalize_create_def
      normalize_agent_selection_def normalize_limits_def validate_agent_selections_def validate_limits_def
      resolve_inputs_def validate_base_branch_def has_prefix_def has_suffix_def contains_any_def is_control_def
      plain_char_def new_workflow_def insert_workflow_def insert_transition_def next_sequence_def record_event_def
      stored_at_def from_milli_def unix_milli_def)

lemma sample_start_at: "at_status (sample_next ''a'' 1 ''START'' sample_db1) StWorkspacePreparing None 2 {''a''}"
  using sample_next_at [OF sample_db1_at, of "''a''" "''START''" ActStart StWorkspacePreparing]
  by (simp add: sample_actions plain_char_def next_status_def transition_table_def)

lemma sample_checking_carries: "carries sample_checking 1"
proof -
  have 1: "carries (sample_next ''a'' 1 ''START'' sample_db1) 0"
    using sample_next_carries [OF sample_db1_carries sample_db1_at, of "''a''" "''START''"] sample_start_at by (simp add: sample_actions)
  have 2: "carries sample_queued 0"
    using sample_next_carries [OF 1 sample_start_at, of "''b''" "''WORKSPACE_READY''"] sample_queued_at
    by (simp add: sample_actions sample_queued_def)
  have 3: "carries (sample_next ''c'' 3 ''EXECUTION_STARTED'' sample_queued) 1"
    using sample_next_carries [OF 2 sample_queued_at, of "''c''" "''EXECUTION_STARTED''"] sample_executing_at by (simp add: sample_actions)
  show ?thesis
    using sample_next_carries [OF 3 sample_executing_at, of "''d''" "''EXECUTION_COMPLETED''"] sample_checking_at
    by (simp add: sample_actions sample_checking_def)
qed

lemma sample_checking_row:
  obtains job where "wf_get sample_checking ''w'' = Inr job" "wf_id job = ''w''" "wf_version job = 5" "wf_status_of job = StChecking"
    "wf_db_ok sample_checking" "\<not> wf_cancellation_requested job" "wf_base_commit_sha job = ''abc''" "wf_execution_version job = 1"
    "wall_clock_deadline job = Some 3600000000000" "''z'' \<notin> jr_id ` set (db_jobs sample_checking)" "db_workflows sample_checking = [job]"
proof -
  obtain job where j: "db_workflows sample_checking = [job]" "wf_id job = ''w''" "wf_version job = 5" "wf_status_of job = StChecking"
    and r: "wf_reachable sample_checking" "jr_id ` set (db_jobs sample_checking) \<subseteq> {''d'', ''c'', ''a'', ''b''}"
    using sample_checking_at by (auto simp: at_status_def)
  have ok: "wf_db_ok sample_checking" by (rule wf_reachable_ok [OF r(1)])
  then have "wf_row_ok job" using j(1) by (auto simp: wf_db_ok_def)
  then have "\<not> wf_cancellation_requested job" using j(4) by (auto simp: wf_row_ok_def)
  moreover have "wf_base_commit_sha job = ''abc''" "wf_execution_version job = 1" "wall_clock_deadline job = Some 3600000000000"
    using sample_checking_carries j(1) by (auto simp: carries_def wall_clock_deadline_def)
  moreover have "wf_get sample_checking ''w'' = Inr job" using j by (simp add: wf_get_def load_job_def lookup_by_def plain_char_def)
  moreover have "''z'' \<notin> jr_id ` set (db_jobs sample_checking)" using r(2) by auto
  ultimately show thesis using that j ok by blast
qed

subsection \<open>The world\<close>

text \<open>A workspace with one file, whose diff is its content.\<close>

definition stage_git :: git_cmd where
  "stage_git root args t =
     (if args = [''rev-parse'', ''HEAD''] then GitOut ''abc''
      else if take 2 args = [''diff'', ''HEAD''] then (case lstat t [''a''] of Found (File s) \<Rightarrow> GitOut s | _ \<Rightarrow> GitOut [])
      else GitOut [])"

definition one_file :: "string \<Rightarrow> tree" where
  "one_file s = [([], Dir), ([''a''], File s)]"

lemma one_file_capture:
  assumes "int (length s) \<le> default_max_patch_bytes"
  shows "capture stage_git (\<lambda>s. s) ''/w'' default_max_patch_bytes (one_file s) =
    Inr \<lparr> gs_head = ''abc'', gs_changed_files = [], gs_patch = s, gs_checksum = ''sha256:'' @ s, gs_dirty = False \<rparr>"
  using assms
  by (simp add: capture_def clean_root_def Let_def plain_char_def path_clean_def path_parts_def is_rooted_def lstat_def one_file_def
      rbind_def wrap_git_def git_run_def changed_files_def untracked_files_def guardE_def checksum_def stage_git_def
      default_max_patch_bytes_def)

definition ready_row :: ws_row where
  "ready_row = \<lparr> ws_id = ''s'', ws_workflow_job_id = ''w'', ws_project_id = ''p'', ws_repository_id = ''r'',
     ws_path = ''/w'', ws_base_commit_sha = ''abc'', ws_head_sha = ''abc'', ws_status = WsReady, ws_dirty = True,
     ws_lease_owner = None, ws_lease_token = None, ws_lease_expires_at = None,
     ws_failure_message = None, ws_created_at = 1, ws_updated_at = 1 \<rparr>"

definition done_execution :: execution where
  "done_execution = (new_execution ''e'' 0 demo_execution_input)\<lparr> ex_status_of := ExCompleted \<rparr>"

definition sample_stage_world :: "wf_db \<Rightarrow> stage_world" where
  "sample_stage_world db = \<lparr> sw_wf = db, sw_ws = [ready_row], sw_ex = empty_ex_db\<lparr> xd_executions := [done_execution] \<rparr>,
     sw_ck = \<lparr> cd_runs = [], cd_steps = [] \<rparr>, sw_rv = \<lparr> rd_runs = [], rd_issues = [] \<rparr>, sw_ap = \<lparr> ap_decisions = [], ap_requests = [] \<rparr>, sw_pb = [],
     sw_tree = one_file ''p'', sw_artifacts = [] \<rparr>"

definition sample_stage_env :: stage_env where
  "sample_stage_env = \<lparr> se_worker = ''x'', se_lease_ttl = 60000000000, se_now = (\<lambda>_. 0), se_queue_now = (\<lambda>_. 0),
     se_event_at = (\<lambda>_. 0), se_new_id = (\<lambda>_. ''z''), se_recorder_ok = (\<lambda>_. False), se_event_ok = (\<lambda>_. False),
     se_down = (\<lambda>_. False), se_ctx = (\<lambda>_. None), se_renewals = (\<lambda>_. []), se_watch = (\<lambda>_. None), se_refs_ok = True,
     se_git = stage_git, se_sha256 = (\<lambda>s. s), se_save_error = (\<lambda>_. None), se_text = (\<lambda>_. ''x'') \<rparr>"

lemma sample_stage_calm: "calm sample_stage_env"
  by (simp add: calm_def sample_stage_env_def new_id_ok_def stage_wf_env_def plain_char_def)

definition stage_job :: "string \<Rightarrow> wf_action \<Rightarrow> wf_status \<Rightarrow> json_text job" where
  "stage_job ty a st = (new_job ''d'' 0 ty (Some (dispatch_payload ''w'' 5 a st)) 3 0)\<lparr> j_attempts := 3 \<rparr>"

lemma stage_job_simps: "j_payload (stage_job ty a st) = Some (dispatch_payload ''w'' 5 a st)" "j_id (stage_job ty a st) = ''d''"
  "last_attempt (stage_job ty a st)"
  by (simp_all add: stage_job_def new_job_def last_attempt_def)

lemma sample_reads:
  assumes "wf_id job = ''w''" "wf_execution_version job = 1"
  shows "completed_execution job (sample_stage_world db) = (Inr done_execution, sample_stage_world db)"
    "ready_workspace job (sample_stage_world db) = (Inr (scan_workspace ready_row), sample_stage_world db)"
  using assms
  by (simp_all add: completed_execution_def ready_workspace_def sbind_def read_with_def lift_result_def sample_stage_world_def
      get_by_version_def ws_get_by_workflow_def load_by_workflow_def empty_ex_db_def done_execution_def new_execution_def
      demo_execution_input_def ready_row_def scan_workspace_def lookup_by_def plain_char_def)

lemma at_zero: "stored_at 0 = 0"
  by (simp add: stored_at_def from_milli_def unix_milli_def)

lemma sample_ids [simp]: "ex_id done_execution = ''e''" "w_id (scan_workspace ready_row) = ''s''" "w_path (scan_workspace ready_row) = ''/w''"
  by (simp_all add: done_execution_def new_execution_def ready_row_def scan_workspace_def)

lemma trim_z [simp]: "trim_space ''z'' = ''z''" "trim_space ''s'' = ''s''" "trim_space ''e'' = ''e''" "trim_space ''abc'' = ''abc''"
  "trim_space ''x:checks'' = ''x:checks''"
  by (simp_all add: plain_char_def)

definition sample_base :: git_snapshot where
  "sample_base = \<lparr> gs_head = ''abc'', gs_changed_files = [], gs_patch = ''p'', gs_checksum = ''sha256:p'', gs_dirty = False \<rparr>"

lemma sample_capture:
  "se_git E = stage_git \<Longrightarrow> se_sha256 E = (\<lambda>s. s) \<Longrightarrow> sw_tree w = one_file s \<Longrightarrow> length s < 100 \<Longrightarrow> capture_stage E ''/w'' w =
    (Inr \<lparr> gs_head = ''abc'', gs_changed_files = [], gs_patch = s, gs_checksum = ''sha256:'' @ s, gs_dirty = False \<rparr>, w)"
  using one_file_capture [of s] by (simp add: capture_stage_def read_with_def lift_result_def default_max_patch_bytes_def)

subsection \<open>A reviewed execution that waits for the decision\<close>

definition sample_waiting :: wf_db where
  "sample_waiting = sample_next ''f'' 6 ''REVIEW_COMPLETED'' sample_reviewing"

lemma sample_waiting_at: "at_status sample_waiting StWaitingApproval None 7 {''f'', ''a'', ''b'', ''c'', ''d'', ''e''}"
  using sample_next_at [OF sample_reviewing_at, of "''f''" "''REVIEW_COMPLETED''" ActReviewCompleted StWaitingApproval]
  by (simp add: sample_actions plain_char_def next_status_def transition_table_def sample_waiting_def)

lemma sample_waiting_carries: "carries sample_waiting 1"
proof -
  have 1: "carries sample_reviewing 1"
    using sample_next_carries [OF sample_checking_carries sample_checking_at, of "''e''" "''CHECKS_COMPLETED''"] sample_reviewing_at
    by (simp add: sample_actions sample_reviewing_next)
  show ?thesis
    using sample_next_carries [OF 1 sample_reviewing_at, of "''f''" "''REVIEW_COMPLETED''"] sample_waiting_at
    by (simp add: sample_actions sample_waiting_def)
qed

lemma sample_waiting_row:
  obtains job where "wf_get sample_waiting ''w'' = Inr job" "wf_id job = ''w''" "wf_version job = 7" "wf_status_of job = StWaitingApproval"
    "wf_db_ok sample_waiting" "wf_base_commit_sha job = ''abc''" "wf_execution_version job = 1" "db_workflows sample_waiting = [job]"
    "wf_retry_status job = None" "''z'' \<notin> jr_id ` set (db_jobs sample_waiting)"
proof -
  obtain job where j: "db_workflows sample_waiting = [job]" "wf_id job = ''w''" "wf_version job = 7" "wf_status_of job = StWaitingApproval"
    "wf_retry_status job = None" and r: "wf_reachable sample_waiting" "jr_id ` set (db_jobs sample_waiting) \<subseteq> {''f'', ''a'', ''b'', ''c'', ''d'', ''e''}"
    using sample_waiting_at by (auto simp: at_status_def)
  have ok: "wf_db_ok sample_waiting" by (rule wf_reachable_ok [OF r(1)])
  moreover have "wf_base_commit_sha job = ''abc''" "wf_execution_version job = 1"
    using sample_waiting_carries j(1) by (auto simp: carries_def)
  moreover have "wf_get sample_waiting ''w'' = Inr job" using j by (simp add: wf_get_def load_job_def lookup_by_def plain_char_def)
  moreover have "''z'' \<notin> jr_id ` set (db_jobs sample_waiting)" using r(2) by auto
  ultimately show thesis using that j ok by blast
qed

definition passed_checks :: check_run where
  "passed_checks = \<lparr> cr_id = ''k'', cr_workflow_job_id = ''w'', cr_execution_id = ''e'', cr_execution_version = 1, cr_workspace_id = ''s'',
     cr_status = CkPassed, cr_total_steps = 1, cr_passed_steps = 1, cr_failed_steps = 0, cr_started_at = Some 0, cr_completed_at = Some 0,
     cr_created_at = 0, cr_updated_at = 0 \<rparr>"

definition done_review :: review_run where
  "done_review = \<lparr> rv_id = ''v'', rv_workflow_job_id = ''w'', rv_execution_id = ''e'', rv_execution_version = 1, rv_check_run_id = ''k'',
     rv_checkpoint_id = ''c'', rv_agent_settings_version = 1, rv_provider = ''x'', rv_model = ''m'', rv_status_of = RvCompleted,
     rv_verdict = ''APPROVE'', rv_summary = ''x'', rv_total_issues = 0, rv_blocking_issues = 0, rv_usage = no_usage, rv_failure_code = [],
     rv_failure_message = [], rv_started_at = Some 0, rv_completed_at = Some 0, rv_created_at = 0, rv_updated_at = 0 \<rparr>"

definition the_checkpoint :: checkpoint where
  "the_checkpoint = \<lparr> cp_id = ''c'', cp_execution_id = ''e'', cp_sequence = 1, cp_base_commit_sha = ''c0'', cp_workspace_head_sha = ''c0'',
     cp_patch_checksum = ''sha256:p'', cp_patch_bytes = 1, cp_changed_files = [''a''], cp_patch_text = ''p'', cp_artifact_key = [],
     cp_created_at = 0 \<rparr>"

definition reviewed_world :: "wf_db \<Rightarrow> stage_world" where
  "reviewed_world db = (sample_stage_world db)\<lparr>
     sw_ex := empty_ex_db\<lparr> xd_executions := [done_execution], xd_checkpoints := [the_checkpoint] \<rparr>,
     sw_ck := \<lparr> cd_runs = [passed_checks], cd_steps = [] \<rparr>, sw_rv := \<lparr> rd_runs = [done_review], rd_issues = [] \<rparr> \<rparr>"

end
