(* ===== verification/ChecksOutcome.thy ===== *)
theory ChecksOutcome
  imports ChecksHandler StageSamples
begin

text \<open>What a delivery of the checks job leaves behind: its calls are a history of the check tables, a successful one
  ends with a finished run and the workspace of its beginning, and one whose wall clock has run out never settles.\<close>

subsection \<open>The calls on the check tables\<close>

definition logs :: "check_step list \<Rightarrow> 'a sstep \<Rightarrow> bool" where
  "logs S m = (\<forall>w r w'. cd_steps (sw_ck w) = S \<longrightarrow> m w = (r, w') \<longrightarrow> ck_event\<^sup>*\<^sup>* (sw_ck w) (sw_ck w'))"

abbreviation stored_steps :: "stage_world \<Rightarrow> check_step list" where
  "stored_steps w \<equiv> cd_steps (sw_ck w)"

lemma logsI: "(\<And>w r w'. stored_steps w = S \<Longrightarrow> m w = (r, w') \<Longrightarrow> ck_event\<^sup>*\<^sup>* (sw_ck w) (sw_ck w')) \<Longrightarrow> logs S m"
  by (simp add: logs_def)

lemma logsD: "logs S m \<Longrightarrow> stored_steps w = S \<Longrightarrow> m w = (r, w') \<Longrightarrow> ck_event\<^sup>*\<^sup>* (sw_ck w) (sw_ck w')"
  by (simp add: logs_def)

lemma logs_keeps: "keeps sw_ck m \<Longrightarrow> logs S m"
  by (rule logsI) (simp add: part_kept)

lemma logs_simps [simp, intro]:
  "logs S (ret x)" "logs S (fail_with e)" "logs S (read_with h g)" "logs S (capture_stage E path)" "logs S (call_ws m)"
  "logs S (completed_execution job)" "logs S (ready_workspace job)" "logs S (note_stage E site i ty kvs)"
  by (rule logs_keeps, simp)+ (rule logs_keeps, rule keeps_ws, simp, (rule logs_keeps, simp)+, rule logs_keeps, rule keeps_note, simp)

lemma logs_bind:
  assumes "logs S m" "\<And>x S. logs S (f x)"
  shows "logs S (sbind m f)"
proof (rule logsI)
  fix w r w' assume w: "stored_steps w = S" "sbind m f w = (r, w')"
  show "ck_event\<^sup>*\<^sup>* (sw_ck w) (sw_ck w')"
    using w(2)
  proof (cases rule: sbind_cases)
    case (failed e)
    then show ?thesis using logsD [OF assms(1) w(1)] by blast
  next
    case (went x w1)
    then show ?thesis using logsD [OF assms(1) w(1) went(1)] logsD [OF assms(2) refl went(2)] by simp
  qed
qed

lemma logs_bind_same:
  assumes "logs S m" "keeps stored_steps m" "\<And>x. logs S (f x)"
  shows "logs S (sbind m f)"
proof (rule logsI)
  fix w r w' assume w: "stored_steps w = S" "sbind m f w = (r, w')"
  show "ck_event\<^sup>*\<^sup>* (sw_ck w) (sw_ck w')"
    using w(2)
  proof (cases rule: sbind_cases)
    case (failed e)
    then show ?thesis using logsD [OF assms(1) w(1)] by blast
  next
    case (went x w1)
    have "stored_steps w1 = S" using part_kept [OF assms(2) went(1)] w(1) by simp
    then show ?thesis using logsD [OF assms(1) w(1) went(1)] logsD [OF assms(3) _ went(2)] by simp
  qed
qed

lemma logs_on_up: "logs S m \<Longrightarrow> logs S (on_up E site m)"
  by (auto intro!: logsI simp: on_up_def dest: logsD split: if_splits)

lemma logs_on_stage: "logs S m \<Longrightarrow> logs S (on_stage E site m)"
  unfolding on_stage_def by (intro logs_on_up) (auto intro!: logsI dest: logsD split: option.splits)

lemma logs_call:
  "(\<And>db db' x. cd_steps db = S \<Longrightarrow> m db = Inr (db', x) \<Longrightarrow> ck_event db db') \<Longrightarrow> logs S (call_ck m)"
  by (rule logsI) (auto simp: call_ck_def split: sum.splits intro: r_into_rtranclp)

lemma set_ck_sel [simp]: "sw_ck (set_ck f w) = f (sw_ck w)"
  by (simp add: set_ck_def)

lemma try_logs: "(\<And>db'. f db = Inr db' \<Longrightarrow> ck_event db db') \<Longrightarrow> ck_event\<^sup>*\<^sup>* db (try_ck f db)"
  by (auto simp: try_ck_def split: sum.splits intro: r_into_rtranclp)

lemma cancel_calls: "ck_event\<^sup>*\<^sup>* (sw_ck w) (sw_ck (cancel_step E site s m w))" "ck_event\<^sup>*\<^sup>* (sw_ck w) (sw_ck (cancel_run E site run w))"
  unfolding cancel_step_def cancel_run_def set_ck_sel
  by (rule try_logs, erule ev_cancel_step) (rule try_logs, auto simp: map_sum_def intro: ev_cancel split: sum.splits)

lemma cancel_both: "ck_event\<^sup>*\<^sup>* (sw_ck w) (sw_ck (cancel_step E site s m (cancel_run E site run w)))"
  using cancel_calls rtranclp_trans [of ck_event] by blast

lemma stopped_logs:
  assumes "stopped_step E n run s k lost w = Some (e, w')"
  shows "ck_event\<^sup>*\<^sup>* (sw_ck w) (sw_ck w')"
proof -
  have "w' = cancel_step E (AtStepRun n) s (ctx_text CtxCanceled) (cancel_run E (AtStepRun n) run w)
      \<or> (\<exists>m. w' = cancel_step E (AtStepRun n) s m w)"
    using assms by (auto simp: stopped_step_def Let_def split: option.splits watch_result.splits if_splits)
  then show ?thesis using cancel_calls cancel_both by metis
qed

lemma logs_log: "logs S (save_log K E n job run s p k)"
  by (auto intro!: logsI intro: r_into_rtranclp [of ck_event, OF ev_artifact] simp: save_log_def Let_def split: if_splits option.splits)

lemma logs_close: "logs S (close_step K E job item base run n p s k)"
proof -
  have "logs S (call_ck (\<lambda>db. map_sum id (\<lambda>d. (d, ())) (ck_complete_step t i k db)))" for S t i
    by (rule logs_call) (auto simp: map_sum_def intro: ev_complete_step split: sum.splits)
  then have "logs S (sbind (call_ck (\<lambda>db. map_sum id (\<lambda>d. (d, ())) (ck_complete_step t i k db))) (\<lambda>_.
      sbind (save_log K E n job run s p k) (\<lambda>_. note_stage E site j ty kvs)))" for S t i site j ty kvs
    by (intro logs_bind logs_log) simp_all
  then show ?thesis
    unfolding close_step_def by (intro logs_bind logs_on_stage) auto
qed

lemma renew_ck: "renew_stage E site i tok w = (lost, w') \<Longrightarrow> sw_ck w' = sw_ck w"
  by (rule keeps_renew [where f = sw_ck]) simp_all

lemma logs_command: "logs S (run_command K E job item tok base run n p s)"
proof (rule logsI)
  fix w r w' assume h: "run_command K E job item tok base run n p s w = (r, w')"
  obtain k t where k: "ct_run K n (w_path item) p (sw_tree w) = (k, t)" by fastforce
  obtain lost w1 where l: "renew_stage E (AtStepRun n) (w_id item) tok (w\<lparr> sw_tree := t \<rparr>) = (lost, w1)" by fastforce
  have w1: "sw_ck w1 = sw_ck w" using renew_ck [OF l] by simp
  show "ck_event\<^sup>*\<^sup>* (sw_ck w) (sw_ck w')"
    using h stopped_logs [of E n run s k lost w1] logsD [OF logs_close refl, of K E job item base run n p s k w1]
    by (simp add: run_command_def k l w1 split: option.splits prod.splits)
qed

lemma logs_step: "logs S (run_check_step K E job item tok base run n p)"
proof (rule logsI)
  fix w r w' assume h: "run_check_step K E job item tok base run n p w = (r, w')"
  let ?m = "sbind (on_stage E (AtStep n) (call_ck (ck_start_step (se_now E (AtStep n)) (cr_id run) (pf_name p))))
    (run_command K E job item tok base run n p)"
  have q: "logs S ?m" for S by (intro logs_bind logs_on_stage logs_call logs_command) (rule ev_start_step)
  obtain lost w1 where l: "renew_stage E (AtStep n) (w_id item) tok w = (lost, w1)" by fastforce
  show "ck_event\<^sup>*\<^sup>* (sw_ck w) (sw_ck w')"
    using h renew_ck [OF l] logsD [OF q refl, of w1] by (simp add: run_check_step_def l split: option.splits)
qed

lemma logs_steps: "logs S (run_check_steps K E job item tok base run over n ps)"
  by (induction ps arbitrary: n S) (simp_all add: logs_bind logs_step)

text \<open>The ids of new steps are fresh.\<close>

definition fresh_steps :: "stage_env \<Rightarrow> check_step list \<Rightarrow> bool" where
  "fresh_steps E S = (\<forall>n. se_new_id E (AtStep n) \<notin> ck_id ` set S)"

lemma logs_run:
  assumes "fresh_steps E S"
  shows "logs S (run_checks K E job x item tok base run ps)"
proof -
  have s: "logs S (call_ck (ck_start (\<lambda>n. se_new_id E (AtStep n)) t i ps))" for t i
    by (rule logs_call) (use assms in \<open>auto simp: fresh_steps_def intro: ev_start\<close>)
  have r: "logs S (\<lambda>w. (Inr (), set_ck (ck_recover t i) w))" for S t i
    by (rule logsI) (auto intro: ev_recover)
  have f: "logs S (call_ck (ck_finish t i))" for S t i by (rule logs_call) (rule ev_finish)
  show ?thesis
    unfolding run_checks_def
    by (intro logs_bind logs_on_stage s r f logs_steps) (auto intro: logs_keeps keepsI)
qed

lemma keeps_release: "keeps sw_ck (release_stage_lease E item tok)" "keeps sw_tree (release_stage_lease E item tok)"
  unfolding release_stage_lease_def by (intro keeps_bind keeps_reads keeps_ws keeps_plain; simp)+

lemma lease_ck:
  assumes "with_check_lease E item tok m w = (r, w')" "m w = (r1, w1)"
  shows "sw_ck w' = sw_ck w1" "sw_tree w' = sw_tree w1" "\<not> isl r \<Longrightarrow> r1 = r"
  using assms part_kept [OF keeps_release(1), of E item tok] part_kept [OF keeps_release(2), of E item tok]
  by (auto simp: with_check_lease_def split: sum.splits prod.splits)

lemma lease_Inr:
  assumes "with_check_lease E item tok m w = (Inr x, w')"
  shows "\<exists>w1. m w = (Inr x, w1) \<and> sw_ck w' = sw_ck w1 \<and> sw_tree w' = sw_tree w1"
proof -
  obtain r1 w1 where m: "m w = (r1, w1)" by fastforce
  show ?thesis using lease_ck [OF assms m] m by simp
qed

lemma logs_lease: "logs S m \<Longrightarrow> logs S (with_check_lease E item tok m)"
  by (rule logsI) (metis lease_ck(1) logsD surj_pair)

lemma create_keeps_steps: "ck_create_or_get i now refs wid xid sid v db = Inr (db', r, c) \<Longrightarrow> cd_steps db' = cd_steps db"
  by (auto simp: ck_create_or_get_def Let_def insert_run_def split: if_splits sum.splits)

lemma logs_stage:
  assumes "fresh_steps E S" "trim_space (se_new_id E AtCreated) = se_new_id E AtCreated"
  shows "logs S (check_stage K E j job)"
proof -
  let ?c = "\<lambda>x item. call_ck (ck_create_or_get (se_new_id E AtCreated) (se_now E AtCreated) (se_refs_ok E)
       (wf_id job) (ex_id x) (w_id item) (wf_execution_version job))"
  have c: "logs S (on_up E AtCreated (?c x item))" "keeps stored_steps (on_up E AtCreated (?c x item))" for x item
    by (intro logs_on_up logs_call, use assms(2) in \<open>auto intro: ev_create\<close>)
      (intro keeps_on_up keepsI, auto simp: call_ck_def split: sum.splits dest: create_keeps_steps)
  have f: "logs S (finish_checks E job run j)" for S run
    unfolding finish_checks_def by (intro logs_keeps keeps_finish) simp
  have t: "logs S (sbind (with_check_lease E item tok (run_checks K E job x item tok base run ps)) (\<lambda>closed. finish_checks E job closed j))"
    for x item tok base run ps
    by (intro logs_bind logs_lease logs_run f assms)
  have a: "keeps stored_steps (on_up E AtWriteLease (call_ws m))" for m :: "ws_table \<Rightarrow> ws_error + ws_table \<times> 'x"
    by (intro keeps_on_up keeps_ws) simp
  show ?thesis
    unfolding check_stage_def check_work_def
    by (auto intro!: logs_bind_same t f c a logs_on_up keeps_on_up split: prod.splits)
qed

subsection \<open>The tree\<close>

definition like :: "stage_env \<Rightarrow> string \<Rightarrow> git_snapshot \<Rightarrow> tree \<Rightarrow> bool" where
  "like E path base t = (\<exists>a. capture (se_git E) (se_sha256 E) path default_max_patch_bytes t = Inr a
     \<and> gs_head a = gs_head base \<and> gs_checksum a = gs_checksum base)"

lemma capture_like: "capture_stage E path w = (Inr base, w') \<Longrightarrow> w' = w \<and> like E path base (sw_tree w)"
  by (auto simp: capture_stage_def read_with_def lift_result_def like_def split: sum.splits)

lemma on_stage_Inr: "on_stage E site m w = (Inr x, w') \<longleftrightarrow> \<not> se_down E site \<and> se_ctx E site = None \<and> m w = (Inr x, w')"
  by (auto simp: on_stage_def on_up_def split: option.splits)

lemma on_up_Inr: "on_up E site m w = (Inr x, w') \<longleftrightarrow> \<not> se_down E site \<and> m w = (Inr x, w')"
  by (auto simp: on_up_def)

lemma keeps_log: "keeps sw_tree (save_log K E n job run s p k)"
  by (auto intro!: keepsI simp: save_log_def Let_def set_ck_def split: if_splits option.splits)

lemma close_like:
  assumes "close_step K E job item base run n p s k w = (Inr u, w')"
  shows "like E (w_path item) base (sw_tree w')"
proof -
  obtain a w1 where a: "capture_stage E (w_path item) w = (Inr a, w1)" "gs_head a = gs_head base" "gs_checksum a = gs_checksum base"
    "sbind (call_ck (\<lambda>db. map_sum id (\<lambda>d. (d, ())) (ck_complete_step (se_now E (AtStepEnd n)) (ck_id s) k db))) (\<lambda>_.
       sbind (save_log K E n job run s p k) (\<lambda>_.
       note_stage E (AtStepEnd n) (wf_id job) ''checks.step_completed'' (step_payload run p k))) w1 = (Inr u, w')"
    using assms unfolding close_step_def by (elim sbind_InrE) (auto simp: on_stage_Inr split: if_splits)
  have k: "keeps sw_tree (sbind (call_ck (\<lambda>db. map_sum id (\<lambda>d. (d, ())) (ck_complete_step (se_now E (AtStepEnd n)) (ck_id s) k db)))
      (\<lambda>_. sbind (save_log K E n job run s p k) (\<lambda>_.
        note_stage E (AtStepEnd n) (wf_id job) ''checks.step_completed'' (step_payload run p k))))"
    by (intro keeps_bind keeps_log keeps_ck keeps_note) simp_all
  show ?thesis using part_kept [OF k a(4)] capture_like [OF a(1)] a(2,3) by (auto simp: like_def)
qed

lemma step_like:
  assumes "run_check_step K E job item tok base run n p w = (Inr u, w')"
  shows "like E (w_path item) base (sw_tree w')"
proof -
  obtain s w1 where "run_command K E job item tok base run n p s w1 = (Inr u, w')"
    using assms by (auto simp: run_check_step_def elim!: sbind_InrE split: prod.splits option.splits)
  then obtain k w2 where "close_step K E job item base run n p s k w2 = (Inr u, w')"
    by (auto simp: run_command_def split: prod.splits option.splits)
  then show ?thesis by (rule close_like)
qed

lemma steps_like:
  "run_check_steps K E job item tok base run over n ps w = (Inr u, w') \<Longrightarrow> like E (w_path item) base (sw_tree w) \<Longrightarrow>
     like E (w_path item) base (sw_tree w')"
proof (induction ps arbitrary: n w)
  case (Cons p ps)
  show ?case
  proof (cases "pf_name p \<in> set over")
    case True
    then show ?thesis using Cons by simp
  next
    case False
    then obtain v w1 where "run_check_step K E job item tok base run n p w = (Inr v, w1)"
      "run_check_steps K E job item tok base run over (n + 1) ps w1 = (Inr u, w')"
      using Cons.prems by (auto elim!: sbind_InrE)
    then show ?thesis using Cons.IH step_like by blast
  qed
qed simp

subsection \<open>The run\<close>

definition run_key :: "check_run \<Rightarrow> string \<times> string \<times> int" where
  "run_key r = (cr_id r, cr_workflow_job_id r, cr_execution_version r)"

definition run_keys :: "check_db \<Rightarrow> (string \<times> string \<times> int) set" where
  "run_keys db = run_key ` set (cd_runs db)"

lemma run_keys_update: "(\<And>r. run_key (f r) = run_key r) \<Longrightarrow> run_key ` set (update_where P f rs) = run_key ` set rs"
  by (rule image_update_where)

lemma event_run_keys:
  assumes "ck_event db db'"
  shows "run_keys db \<subseteq> run_keys db'"
  using assms
proof cases
  case (ev_create i now refs wid xid sid v r created)
  then show ?thesis by (auto simp: ck_create_or_get_def Let_def insert_run_def run_keys_def split: if_splits sum.splits)
next
  case (ev_start ids now i ps r)
  have "run_key (start_run now n r) = run_key r" for n r by (simp add: start_run_def run_key_def)
  then show ?thesis
    using ev_start by (auto simp: ck_start_def Let_def run_keys_def run_keys_update split: if_splits option.splits)
next
  case (ev_cancel i now m r)
  have "run_keys (db\<lparr> cd_steps := t, cd_runs := update_where P (\<lambda>r. r\<lparr> cr_status := st, cr_passed_steps := a,
      cr_failed_steps := b, cr_completed_at := h r, cr_updated_at := u \<rparr>) (cd_runs db) \<rparr>) = run_keys db" for t P st a b h u
    by (simp add: run_keys_def, rule run_keys_update, simp add: run_key_def)
  then show ?thesis using ev_cancel by (auto simp: ck_cancel_def Let_def split: if_splits)
next
  case (ev_finish now i r)
  have "run_key (finish_row now t r) = run_key r" for t r by (simp add: finish_row_def run_key_def)
  then show ?thesis
    using ev_finish by (auto simp: ck_finish_def update_returning_def run_keys_def run_keys_update split: option.splits)
qed (auto simp: run_keys_def ck_recover_def ck_start_step_def update_returning_def ck_complete_step_def
    ck_set_artifact_def ck_cancel_step_def update_step_def split: option.splits if_splits)

lemma history_run_keys: "ck_event\<^sup>*\<^sup>* db db' \<Longrightarrow> run_keys db \<subseteq> run_keys db'"
  by (induction rule: rtranclp_induct) (use event_run_keys in blast)+

lemma created_run:
  assumes "ck_create_or_get i now refs wid xid sid v db = Inr (db', r, c)"
  shows "run_key r \<in> run_keys db'" "run_key r = (cr_id r, trim_space wid, v)" "cr_status r \<noteq> CkPending \<Longrightarrow> db' = db \<and> r \<in> set (cd_runs db)"
proof -
  have g: "ck_get_by_version db (trim_space wid) v = Inr r \<Longrightarrow> r \<in> set (cd_runs db) \<and> cr_workflow_job_id r = trim_space wid \<and> cr_execution_version r = v"
    using find_set by (fastforce simp: ck_get_by_version_def split: option.splits)
  show "run_key r \<in> run_keys db'" "run_key r = (cr_id r, trim_space wid, v)" "cr_status r \<noteq> CkPending \<Longrightarrow> db' = db \<and> r \<in> set (cd_runs db)"
    using assms g
    by (auto simp: ck_create_or_get_def Let_def insert_run_def run_key_def run_keys_def split: if_splits sum.splits)
qed

lemma started_run: "ck_start ids now i ps db = Inr (db', r) \<Longrightarrow> cr_id r = trim_space i"
  using lookup_by_Some by (fastforce simp: ck_start_def Let_def ck_get_def split: if_splits option.splits)

lemma closed_run:
  assumes "ck_finish now i db = Inr (db', r)"
  shows "r \<in> set (cd_runs db')" "cr_status r \<in> {CkPassed, CkFailed}" "cr_id r = i"
proof -
  obtain t where t: "update_returning (can_finish i (cd_steps db)) (finish_row now (cd_steps db)) (cd_runs db) = Some (t, r)"
    "db' = db\<lparr> cd_runs := t \<rparr>"
    using assms by (auto simp: ck_finish_def split: option.splits)
  obtain x where x: "x \<in> set (cd_runs db)" "can_finish i (cd_steps db) x" "r = finish_row now (cd_steps db) x"
    "t = update_where (can_finish i (cd_steps db)) (finish_row now (cd_steps db)) (cd_runs db)"
    using update_returning_Some [OF t(1)] by blast
  show "r \<in> set (cd_runs db')" using x t(2) by (auto simp: set_update_where)
  show "cr_status r \<in> {CkPassed, CkFailed}" "cr_id r = i" using x by (simp_all add: finish_row_def can_finish_def)
qed

lemma call_ck_Inr: "call_ck m w = (Inr x, w') \<longleftrightarrow> (\<exists>t. m (sw_ck w) = Inr (t, x) \<and> w' = w\<lparr> sw_ck := t \<rparr>)"
  by (auto simp: call_ck_def split: sum.splits)

lemma run_checks_in_time: "run_checks K E job x item tok base run0 ps w = (Inr closed, w') \<Longrightarrow> se_ctx E AtRunStart = None"
  unfolding run_checks_def by (elim sbind_InrE) (auto simp: on_stage_Inr)

lemma run_checks_done:
  assumes "run_checks K E job x item tok base run0 ps w = (Inr closed, w')" "like E (w_path item) base (sw_tree w)"
  shows "like E (w_path item) base (sw_tree w')" "closed \<in> set (cd_runs (sw_ck w'))" "cr_status closed \<in> {CkPassed, CkFailed}"
    "cr_id closed = trim_space (cr_id run0)"
proof -
  obtain run w1 over w2 w3 w4 w5 where r: "call_ck (ck_start (\<lambda>n. se_new_id E (AtStep n)) (se_now E AtRunStart) (cr_id run0) ps) w = (Inr run, w1)"
    and n: "note_stage E AtRunStart (wf_id job) ''checks.started'' [(''check_run_id'', JStr (cr_id run)),
       (''execution_id'', JStr (ex_id x)), (''profile_count'', JInt (int (length ps)))] (set_ck (ck_recover (se_now E AtRunStart) (cr_id run)) w1) = (Inr (), w2)"
    and s: "run_check_steps K E job item tok base run over 0 ps w2 = (Inr (), w3)"
    and f: "call_ck (ck_finish (se_now E AtRunEnd) (cr_id run)) w3 = (Inr closed, w4)"
    and e: "note_stage E AtRunEnd (wf_id job) ''checks.completed'' (run_payload closed) w4 = (Inr (), w')"
    using assms(1) unfolding run_checks_def by (elim sbind_InrE) (auto simp: on_stage_Inr)
  have t: "sw_tree w1 = sw_tree w" "sw_tree w4 = sw_tree w3" using r f by (auto simp: call_ck_Inr)
  have k: "keeps sw_tree (note_stage E site i ty kvs)" "keeps sw_ck (note_stage E site i ty kvs)" for site i ty kvs
    by (simp_all add: keeps_note)
  show "like E (w_path item) base (sw_tree w')"
    using steps_like [OF s] part_kept [OF k(1) n] part_kept [OF k(1) e] t assms(2) by (simp add: set_ck_def)
  show "closed \<in> set (cd_runs (sw_ck w'))" "cr_status closed \<in> {CkPassed, CkFailed}" "cr_id closed = trim_space (cr_id run0)"
    using f r closed_run started_run part_kept [OF k(2) e] by (fastforce simp: call_ck_Inr)+
qed

lemma check_work_done:
  assumes "check_work K E j job x item run w = (Inr u, w')"
  obtains base tok ps closed w2 w3 where "capture_stage E (w_path item) w = (Inr base, w)"
    "wf_base_commit_sha job \<noteq> [] \<longrightarrow> gs_head base = wf_base_commit_sha job"
    "with_check_lease E item tok (run_checks K E job x item tok base run ps) w2 = (Inr closed, w3)"
    "sw_tree w2 = sw_tree w" "sw_ck w2 = sw_ck w" "finish_checks E job closed j w3 = (Inr u, w')"
proof -
  obtain ps base l tok w1 w2 w3 w4 closed where b: "capture_stage E (w_path item) w1 = (Inr base, w2)"
    and h: "wf_base_commit_sha job \<noteq> [] \<longrightarrow> gs_head base = wf_base_commit_sha job"
    and p: "read_with SCheck (\<lambda>w. ct_detect K (w_path item) (sw_tree w)) w = (Inr ps, w1)"
    and q: "call_ws (acquire_write (se_new_id E AtWriteLease) (se_now E AtWriteLease) (w_id item)
           (se_worker E @ '':checks'') (se_lease_ttl E)) w2 = (Inr (l, tok), w3)"
    and r: "with_check_lease E item tok (run_checks K E job x item tok base run ps) w3 = (Inr closed, w4)"
      "finish_checks E job closed j w4 = (Inr u, w')"
    using assms unfolding check_work_def by (elim sbind_InrE) (auto simp: on_up_Inr split: if_splits prod.splits elim!: sbind_InrE)
  have "w1 = w" using p by (auto simp: read_with_def lift_result_def split: sum.splits)
  moreover have "sw_tree w3 = sw_tree w2" "sw_ck w3 = sw_ck w2" using q by (auto simp: call_ws_def split: sum.splits)
  ultimately show thesis using that b h r capture_like [OF b] by blast
qed

lemma ready_stored:
  assumes "ready_workspace job w = (Inr item, w')"
  shows "\<exists>r\<in>set (sw_ws w). ws_workflow_job_id r = trim_space (wf_id job) \<and> ws_status r = WsReady \<and> ws_path r = w_path item"
  using assms
  by (auto simp: ready_workspace_def sbind_def read_with_def lift_result_def ws_get_by_workflow_def load_by_workflow_def scan_workspace_def
      split: sum.splits option.splits if_splits dest!: lookup_by_Some)

lemma check_stage_done:
  assumes "check_stage K E j job w = (Inr u, w')" "fresh_steps E (stored_steps w)"
  obtains (over) run where "run \<in> set (cd_runs (sw_ck w))" "sw_tree w' = sw_tree w" "run \<in> set (cd_runs (sw_ck w'))" "cr_status run \<in> {CkPassed, CkFailed}"
      "run_key run = (cr_id run, trim_space (wf_id job), wf_execution_version job)"
  | (ran) item :: workspace and base :: git_snapshot and closed run0 :: check_run where "like E (w_path item) base (sw_tree w)" "like E (w_path item) base (sw_tree w')"
      "\<exists>r\<in>set (sw_ws w). ws_workflow_job_id r = trim_space (wf_id job) \<and> ws_status r = WsReady \<and> ws_path r = w_path item"
      "wf_base_commit_sha job \<noteq> [] \<longrightarrow> gs_head base = wf_base_commit_sha job"
      "closed \<in> set (cd_runs (sw_ck w'))" "cr_status closed \<in> {CkPassed, CkFailed}" "cr_id closed = trim_space (cr_id run0)"
      "(cr_id run0, trim_space (wf_id job), wf_execution_version job) \<in> run_keys (sw_ck w')" "se_ctx E AtRunStart = None"
proof -
  obtain x w2 item w3 run c w1 where x: "completed_execution job w = (Inr x, w2)" and y: "ready_workspace job w2 = (Inr item, w3)"
    and r3: "on_up E AtCreated (call_ck (ck_create_or_get (se_new_id E AtCreated) (se_now E AtCreated)
       (se_refs_ok E) (wf_id job) (ex_id x) (w_id item) (wf_execution_version job))) w3 = (Inr (run, c), w1)"
    and rest: "(if cr_status run = CkPassed \<or> cr_status run = CkFailed then finish_checks E job run j
        else check_work K E j job x item run) w1 = (Inr u, w')"
    using assms(1) unfolding check_stage_def by (elim sbind_InrE) (auto split: prod.splits)
  have "w2 = w" "w3 = w" using part_kept [of id, OF keeps_reads(2) x] part_kept [of id, OF keeps_reads(3) y] by simp_all
  note r = r3 [unfolded this] and stored = ready_stored [OF y, unfolded this]
  obtain t where t: "ck_create_or_get (se_new_id E AtCreated) (se_now E AtCreated) (se_refs_ok E)
       (wf_id job) (ex_id x) (w_id item) (wf_execution_version job) (sw_ck w) = Inr (t, run, c)" "w1 = w\<lparr> sw_ck := t \<rparr>"
    using r by (auto simp: on_up_Inr call_ck_Inr)
  have f: "keeps sw_tree (finish_checks E job run j)" "keeps sw_ck (finish_checks E job run j)" for run
    unfolding finish_checks_def by (intro keeps_finish; simp)+
  show thesis
  proof (cases "cr_status run = CkPassed \<or> cr_status run = CkFailed")
    case True
    then have e: "finish_checks E job run j w1 = (Inr u, w')" using rest by simp
    show thesis
      by (rule over [of run]) (use True created_run [OF t(1)] part_kept [OF f(1) e] part_kept [OF f(2) e] t(2) in auto)
  next
    case False
    then have "check_work K E j job x item run w1 = (Inr u, w')" using rest by simp
    then obtain base tok ps closed w2 w3 where b: "capture_stage E (w_path item) w1 = (Inr base, w1)"
      and h: "wf_base_commit_sha job \<noteq> [] \<longrightarrow> gs_head base = wf_base_commit_sha job"
      and l: "with_check_lease E item tok (run_checks K E job x item tok base run ps) w2 = (Inr closed, w3)"
      and w2: "sw_tree w2 = sw_tree w1" "sw_ck w2 = sw_ck w1" and e: "finish_checks E job closed j w3 = (Inr u, w')"
      by (rule check_work_done)
    obtain w4 where m: "run_checks K E job x item tok base run ps w2 = (Inr closed, w4)" "sw_ck w3 = sw_ck w4" "sw_tree w3 = sw_tree w4"
      using lease_Inr [OF l] by blast
    have like: "like E (w_path item) base (sw_tree w)" "like E (w_path item) base (sw_tree w2)"
      using capture_like [OF b] w2 t(2) by simp_all
    note d = run_checks_done [OF m(1) like(2)]
    have "fresh_steps E (stored_steps w2)" using assms(2) create_keeps_steps [OF t(1)] w2(2) t(2) by simp
    then have "run_keys (sw_ck w2) \<subseteq> run_keys (sw_ck w4)" by (rule history_run_keys [OF logsD [OF logs_run refl m(1)]])
    then have "run_key run \<in> run_keys (sw_ck w')"
      using created_run(1) [OF t(1)] w2(2) t(2) m(2) part_kept [OF f(2) e] by auto
    then show thesis
      using ran [of item base closed run] stored h like(1) d m(2,3) part_kept [OF f(1) e] part_kept [OF f(2) e] created_run(2) [OF t(1)]
        run_checks_in_time [OF m(1)] by simp
  qed
qed

text \<open>Two trees with the same Git state: the commit that is checked out and the checksum of the patch over it.\<close>

definition same_git_state :: "stage_env \<Rightarrow> string \<Rightarrow> tree \<Rightarrow> git_snapshot \<Rightarrow> tree \<Rightarrow> bool" where
  "same_git_state E path t s t' = (capture (se_git E) (se_sha256 E) path default_max_patch_bytes t = Inr s
     \<and> (\<exists>s'. capture (se_git E) (se_sha256 E) path default_max_patch_bytes t' = Inr s' \<and> gs_head s' = gs_head s \<and> gs_checksum s' = gs_checksum s))"

lemma like_same: "like E path base t \<Longrightarrow> like E path base t' \<Longrightarrow> \<exists>s. same_git_state E path t s t' \<and> gs_head s = gs_head base"
  by (auto simp: like_def same_git_state_def)

text \<open>C0: What a successful delivery of a checks job hands over. From a workflow in CHECKING it leaves a run of this
  execution version that is over, PASSED or FAILED, with the verdict its steps have earned. Either it has not touched the working
  tree at all, or the directory stored for the workflow in a READY workspace is in the Git state it was found in: the
  same HEAD, which is the base commit of the workflow where it has one, and the same patch checksum. The check tables stay
  well formed.\<close>

theorem checks_hand_over:
  assumes "decode_checks_dispatch (j_payload j) = Inr p" "checks_handle K E j w = (Inr (), w')"
    and "wf_get (sw_wf w) (dp_workflow_job_id p) = Inr job" "wf_status_of job = StChecking"
    and "check_ok (sw_ck w)" "fresh_steps E (cd_steps (sw_ck w))" "trim_space (se_new_id E AtCreated) = se_new_id E AtCreated"
  shows "check_ok (sw_ck w')
    \<and> (\<exists>run. ck_get_by_version (sw_ck w') (wf_id job) (wf_execution_version job) = Inr run
         \<and> cr_status run \<in> {CkPassed, CkFailed} \<and> run_ok (cd_steps (sw_ck w')) run)
    \<and> (sw_tree w' = sw_tree w
         \<or> (\<exists>r\<in>set (sw_ws w). ws_workflow_job_id r = wf_id job \<and> ws_status r = WsReady
              \<and> (\<exists>s. same_git_state E (ws_path r) (sw_tree w) s (sw_tree w')
                   \<and> (wf_base_commit_sha job \<noteq> [] \<longrightarrow> gs_head s = wf_base_commit_sha job))))"
proof -
  have s: "check_stage K E j job w = (Inr (), w')"
    using assms(1-4)
    by (auto simp: checks_handle_def settle_stage_def stage_gate_step_def stage_gate_def on_up_def split: prod.splits sum.splits if_splits stage_error.splits)
  have ok: "check_ok (sw_ck w')"
    using ck.settled_ok [OF logsD [OF logs_stage [OF assms(6,7)] refl s] assms(5)] .
  have u: "unique_key cr_id (cd_runs (sw_ck w'))" "unique_key (\<lambda>r. (cr_workflow_job_id r, cr_execution_version r)) (cd_runs (sw_ck w'))"
    "r \<in> set (cd_runs (sw_ck w')) \<Longrightarrow> run_ok (cd_steps (sw_ck w')) r \<and> trim_space (cr_id r) = cr_id r" for r
    using ok by (auto simp: check_ok_def)
  have i: "trim_space (wf_id job) = wf_id job" using wf_get_Inr [OF assms(3)] by simp
  have found: "ck_get_by_version (sw_ck w') (wf_id job) (wf_execution_version job) = Inr r"
    if r: "r \<in> set (cd_runs (sw_ck w'))" "cr_workflow_job_id r = wf_id job" "cr_execution_version r = wf_execution_version job" for r
    using r i find_unique [of "\<lambda>r. (cr_workflow_job_id r, cr_execution_version r)" "cd_runs (sw_ck w')" r
        "\<lambda>r. cr_workflow_job_id r = wf_id job \<and> cr_execution_version r = wf_execution_version job"] u(2)
    by (auto simp: ck_get_by_version_def)
  show ?thesis
    using s assms(6)
  proof (cases rule: check_stage_done)
    case (over run)
    then show ?thesis using ok found [of run] u(3) i by (auto simp: run_key_def)
  next
    case (ran item base closed run0)
    obtain y where y: "y \<in> set (cd_runs (sw_ck w'))" "cr_id y = cr_id run0" "cr_workflow_job_id y = wf_id job"
      "cr_execution_version y = wf_execution_version job"
      using ran(8) i by (auto simp: run_keys_def run_key_def)
    then have "cr_id closed = cr_id y" using ran(7) u(3) [of y] by simp
    then have c: "closed = y" using unique_keyD [OF u(1) ran(5) y(1)] by simp
    moreover obtain s where g: "same_git_state E (w_path item) (sw_tree w) s (sw_tree w')" "gs_head s = gs_head base"
      using like_same [OF ran(1,2)] by blast
    moreover obtain r where "r \<in> set (sw_ws w)" "ws_workflow_job_id r = wf_id job" "ws_status r = WsReady" "ws_path r = w_path item"
      using ran(3) i by auto
    ultimately have "\<exists>r\<in>set (sw_ws w). ws_workflow_job_id r = wf_id job \<and> ws_status r = WsReady
        \<and> (\<exists>s. same_git_state E (ws_path r) (sw_tree w) s (sw_tree w') \<and> (wf_base_commit_sha job \<noteq> [] \<longrightarrow> gs_head s = wf_base_commit_sha job))"
      using ran(4) by (intro bexI [of _ r]) auto
    then show ?thesis using ok found [OF y(1,3,4)] c ran(6) u(3) [OF y(1)] by auto
  qed
qed

subsection \<open>A stage that has run out of time\<close>

text \<open>The clock has passed the deadline of the stage when the first step is about to start, and contexts keep deadlines.\<close>

definition overdue :: "stage_env \<Rightarrow> wf_job \<Rightarrow> bool" where
  "overdue E job = (case wall_clock_deadline job of None \<Rightarrow> False
     | Some d \<Rightarrow> d \<le> se_now E AtRunStart \<and> se_ctx E AtRunStart = Some CtxDeadline)"

lemma check_stage_stays: "stays (check_stage K E j job)"
proof -
  have f: "stays (finish_checks E job run j)" for run unfolding finish_checks_def by (rule stays_finish)
  have "stays (check_work K E j job x item run)" for x item run
    unfolding check_work_def using f
    by (auto intro!: stays_bind quiet_on_up quiet_lease quiet_run split: prod.splits)
  then show ?thesis
    unfolding check_stage_def using f by (auto intro!: stays_bind quiet_on_up split: prod.splits)
qed

text \<open>C0: A check stage that has outlived its wall clock never settles. The deadline runs from the last transition, so it is
  the same for every attempt; once it has passed, no attempt succeeds while the run is not over, and an attempt that ends
  with the deadline leaves the workflow in CHECKING as it was, the last attempt too: the job dies and the workflow stays.\<close>

theorem overdue_checks_strand:
  assumes "decode_checks_dispatch (j_payload j) = Inr p" "wf_get (sw_wf w) (dp_workflow_job_id p) = Inr job"
    and "wf_status_of job = StChecking" "overdue E job" "fresh_steps E (stored_steps w)"
    and "\<forall>r\<in>set (cd_runs (sw_ck w)). cr_workflow_job_id r = wf_id job \<longrightarrow> cr_execution_version r = wf_execution_version job \<longrightarrow>
        cr_status r \<notin> {CkPassed, CkFailed}"
    and "checks_handle K E j w = (r, w')"
  shows "isl r \<and> (r = Inl (SContext CtxDeadline) \<longrightarrow> wf_get (sw_wf w') (dp_workflow_job_id p) = Inr job)"
proof
  have i: "trim_space (wf_id job) = wf_id job" using wf_get_Inr [OF assms(2)] by simp
  show "isl r"
  proof (rule ccontr)
    assume "\<not> isl r"
    then obtain u where "checks_handle K E j w = (Inr u, w')" using assms(7) by (cases r) auto
    then have "check_stage K E j job w = (Inr u, w')"
      using assms(1-3)
      by (auto simp: checks_handle_def settle_stage_def stage_gate_step_def stage_gate_def on_up_def
          split: prod.splits sum.splits if_splits stage_error.splits)
    then show False
      using assms(5)
    proof (cases rule: check_stage_done)
      case (over run)
      then show False using assms(6) i by (auto simp: run_key_def)
    next
      case (ran item base closed run0)
      then show False using assms(4) by (auto simp: overdue_def split: option.splits)
    qed
  qed
  show "r = Inl (SContext CtxDeadline) \<longrightarrow> wf_get (sw_wf w') (dp_workflow_job_id p) = Inr job"
    using assms(1,2,7) settle_stays [OF gate_stays [OF check_stage_stays]] same_db_get
    by (fastforce simp: checks_handle_def)
qed

subsection \<open>Examples\<close>

text \<open>One check, whose command leaves the file as \<open>f\<close> makes it.\<close>

definition one_check :: "(string \<Rightarrow> string) \<Rightarrow> check_tools" where
  "one_check f = \<lparr> ct_detect = (\<lambda>_ _. Inr [demo_profile]),
     ct_run = (\<lambda>_ _ _ t. (demo_result, case lstat t [''a''] of Found (File s) \<Rightarrow> one_file (f s) | _ \<Rightarrow> t)), ct_artifacts = True \<rparr>"

abbreviation check_job :: "json_text job" where
  "check_job \<equiv> stage_job ''workflow.run_checks'' ActExecutionCompleted StChecking"

abbreviation check_payload :: dispatch_payload_rec where
  "check_payload \<equiv> \<lparr> dp_workflow_job_id = ''w'', dp_workflow_version = 5, dp_action = ''EXECUTION_COMPLETED'', dp_target_status = ''CHECKING'' \<rparr>"

lemma check_job_decodes: "decode_checks_dispatch (j_payload check_job) = Inr check_payload"
  using unmarshal_dispatch_payload [of 5 "''w''" ActExecutionCompleted StChecking]
  by (simp add: stage_job_simps decode_checks_dispatch_def trim_payload_def plain_char_def Let_def)

lemma sample_at_checking: "at_stage StChecking ''w'' (sw_wf (sample_stage_world sample_checking))"
proof -
  obtain job where "wf_get sample_checking ''w'' = Inr job" "wf_status_of job = StChecking" "wf_db_ok sample_checking"
    by (rule sample_checking_row)
  then show ?thesis by (auto simp: at_stage_def sample_stage_world_def)
qed

lemma checks_never_strand_witness:
  "left_stage {StReviewing, StFailed} ''w''
     (sw_wf (snd (checks_handle (one_check rev) sample_stage_env check_job (sample_stage_world sample_checking))))"
  using checks_never_strand [OF sample_stage_calm _ check_job_decodes stage_job_simps(3), of "one_check rev"
      "sample_stage_world sample_checking"] sample_at_checking
  by (simp add: one_check_def demo_result_def stage_job_simps)

definition overdue_env :: stage_env where
  "overdue_env = sample_stage_env\<lparr> se_now := (\<lambda>s. if s = AtRunStart then 4000000000000 else 0),
     se_ctx := (\<lambda>s. if s = AtRunStart then Some CtxDeadline else None) \<rparr>"

definition pending_run :: check_run where
  "pending_run = \<lparr> cr_id = ''z'', cr_workflow_job_id = ''w'', cr_execution_id = ''e'', cr_execution_version = 1,
     cr_workspace_id = ''s'', cr_status = CkPending, cr_total_steps = 0, cr_passed_steps = 0, cr_failed_steps = 0,
     cr_started_at = None, cr_completed_at = None, cr_created_at = 0, cr_updated_at = 0 \<rparr>"

lemma sample_created: "ck_create_or_get ''z'' 0 True ''w'' ''e'' ''s'' 1 \<lparr> cd_runs = [], cd_steps = [] \<rparr> =
  Inr (\<lparr> cd_runs = [pending_run], cd_steps = [] \<rparr>, pending_run, True)"
  by (simp add: ck_create_or_get_def ck_get_by_version_def insert_run_def pending_run_def at_zero Let_def)

definition locked_row :: ws_row where
  "locked_row = write_row ''x:checks'' ''z'' 0 60000000000 ready_row"

lemma sample_locked: "acquire_write ''z'' 0 ''s'' ''x:checks'' 60000000000 [ready_row] =
  Inr ([locked_row], (scan_workspace locked_row, ''z''))"
  by (simp add: acquire_write_def Let_def ready_row_def update_returning_def can_acquire_write_def lease_result_def locked_row_def write_row_def)

text \<open>Up to the first step.\<close>

lemma sample_until_run:
  assumes "wf_id job = ''w''" "wf_execution_version job = 1" "wf_base_commit_sha job = ''abc''"
    and "E = sample_stage_env\<lparr> se_now := n, se_ctx := c \<rparr>" "n AtCreated = 0" "n AtWriteLease = 0"
  shows "check_stage (one_check f) E check_job job (sample_stage_world db) =
    sbind (with_check_lease E (scan_workspace ready_row) ''z''
      (run_checks (one_check f) E job done_execution (scan_workspace ready_row) ''z'' sample_base pending_run [demo_profile]))
      (\<lambda>closed. finish_checks E job closed check_job)
      ((sample_stage_world db)\<lparr> sw_ck := \<lparr> cd_runs = [pending_run], cd_steps = [] \<rparr>, sw_ws := [locked_row] \<rparr>)"
proof -
  let ?w = "(sample_stage_world db)\<lparr> sw_ck := \<lparr> cd_runs = [pending_run], cd_steps = [] \<rparr> \<rparr>"
  have E: "se_git E = stage_git" "se_sha256 E = (\<lambda>s. s)" "se_down E site = False" "se_new_id E site = ''z''" "se_refs_ok E"
    "se_worker E = ''x''" "se_lease_ttl E = 60000000000" "se_now E = n" for site
    by (simp_all add: assms(4) sample_stage_env_def)
  have 1: "call_ck (ck_create_or_get ''z'' 0 True ''w'' ''e'' ''s'' 1) (sample_stage_world db) = (Inr (pending_run, True), ?w)"
    using sample_created by (simp add: call_ck_def sample_stage_world_def)
  have 2: "capture_stage E ''/w'' ?w = (Inr sample_base, ?w)"
    using sample_capture [OF E(1,2), of ?w "''p''"] by (simp add: sample_stage_world_def sample_base_def)
  have 3: "call_ws (acquire_write ''z'' 0 ''s'' ''x:checks'' 60000000000) ?w =
      (Inr (scan_workspace locked_row, ''z''), ?w\<lparr> sw_ws := [locked_row] \<rparr>)"
    using sample_locked by (simp add: call_ws_def sample_stage_world_def)
  have 4: "gs_head sample_base = ''abc''" by (simp add: sample_base_def)
  show ?thesis
    using assms(1-3,5,6) 1 2 3 4
    by (simp add: check_stage_def check_work_def sbind_def sample_reads on_up_def E one_check_def read_with_def lift_result_def
        pending_run_def [THEN arg_cong [where f = cr_status]])
qed

lemma overdue_run:
  assumes "wf_id job = ''w''" "wf_execution_version job = 1" "wf_base_commit_sha job = ''abc''"
  shows "\<exists>w'. check_stage (one_check f) overdue_env check_job job (sample_stage_world db) = (Inl (SContext CtxDeadline), w')"
  by (subst sample_until_run [OF assms, where E = overdue_env and n = "\<lambda>s. if s = AtRunStart then 4000000000000 else 0" and c = "\<lambda>s. if s = AtRunStart then Some CtxDeadline else None"])
   (simp_all add: overdue_env_def sbind_def with_check_lease_def run_checks_def on_stage_def on_up_def sample_stage_env_def split: prod.splits)

lemma sample_gate:
  assumes "wf_get db ''w'' = Inr job" "wf_version job = 5" "wf_status_of job = StChecking" "\<not> wf_cancellation_requested job"
    "wf_execution_version job = 1" "\<not> se_down E AtGate"
  shows "checks_handle K E check_job (sample_stage_world db) =
    settle_stage (fail_checks E ''w'' check_job) (\<lambda>w. check_stage K E check_job job (sample_stage_world db)) check_job (sample_stage_world db)"
  using assms by (simp add: checks_handle_def check_job_decodes settle_stage_def stage_gate_step_def stage_gate_def on_up_def sample_stage_world_def)

lemma overdue_checks_strand_witness:
  "\<exists>job w'. checks_handle (one_check id) overdue_env check_job (sample_stage_world sample_checking) = (Inl (SContext CtxDeadline), w')
     \<and> last_attempt check_job \<and> wf_get (sw_wf w') ''w'' = Inr job \<and> wf_status_of job = StChecking"
proof -
  obtain job where j: "wf_get sample_checking ''w'' = Inr job" "wf_id job = ''w''" "wf_version job = 5" "wf_status_of job = StChecking"
    "\<not> wf_cancellation_requested job" "wf_base_commit_sha job = ''abc''" "wf_execution_version job = 1"
    "wall_clock_deadline job = Some 3600000000000"
    by (rule sample_checking_row)
  obtain w' where s: "check_stage (one_check id) overdue_env check_job job (sample_stage_world sample_checking) = (Inl (SContext CtxDeadline), w')"
    using overdue_run [OF j(2,7,6), of id sample_checking] by (elim exE)
  have h: "checks_handle (one_check id) overdue_env check_job (sample_stage_world sample_checking) = (Inl (SContext CtxDeadline), w')"
    using sample_gate [OF j(1,3,4,5,7), of overdue_env "one_check id"] s
    by (simp add: settle_stage_def overdue_env_def sample_stage_env_def)
  have o: "overdue overdue_env job" using j(8) by (simp add: overdue_def overdue_env_def)
  have "wf_get (sw_wf w') ''w'' = Inr job"
    using overdue_checks_strand [OF check_job_decodes _ j(4) o _ _ h] j(1) by (simp add: sample_stage_world_def fresh_steps_def)
  then show ?thesis using h j(4) stage_job_simps(3) by blast
qed

definition running_run :: check_run where
  "running_run = start_run 0 1 pending_run"

definition pending_step :: check_step where
  "pending_step = new_step ''z'' 0 ''z'' 1 demo_profile"

definition passed_step :: check_step where
  "passed_step = complete_step_row 0 demo_result (start_step_row 0 pending_step)"

definition passed_run :: check_run where
  "passed_run = finish_row 0 [passed_step] running_run"

lemma sample_fields [simp]:
  "cr_id pending_run = ''z''" "cr_status pending_run = CkPending" "cr_id running_run = ''z''" "cr_status running_run = CkRunning"
  "ck_id pending_step = ''z''" "ck_check_run_id pending_step = ''z''" "ck_status_of pending_step = CkPending" "ck_profile pending_step = ''go.vet''"
  "ck_id passed_step = ''z''" "ck_check_run_id passed_step = ''z''" "ck_status_of passed_step = CkPassed"
  "pf_name demo_profile = ''go.vet''" "cr_status passed_run = CkPassed" "cr_id passed_run = ''z''"
  by (simp_all add: running_run_def start_run_def pending_run_def pending_step_def new_step_def passed_step_def complete_step_row_def
      start_step_row_def demo_profile_def demo_result_def passed_run_def finish_row_def)

lemma sample_calls:
  "ck_start (\<lambda>_. ''z'') 0 ''z'' [demo_profile] \<lparr> cd_runs = [pending_run], cd_steps = [] \<rparr> =
     Inr (\<lparr> cd_runs = [running_run], cd_steps = [pending_step] \<rparr>, running_run)"
  "ck_recover 0 ''z'' \<lparr> cd_runs = [running_run], cd_steps = [pending_step] \<rparr> = \<lparr> cd_runs = [running_run], cd_steps = [pending_step] \<rparr>"
  "steps_over (ck_list_steps \<lparr> cd_runs = [running_run], cd_steps = [pending_step] \<rparr> ''z'') = []"
  "ck_start_step 0 ''z'' ''go.vet'' \<lparr> cd_runs = [running_run], cd_steps = [pending_step] \<rparr> =
     Inr (\<lparr> cd_runs = [running_run], cd_steps = [start_step_row 0 pending_step] \<rparr>, start_step_row 0 pending_step)"
  "ck_complete_step 0 ''z'' demo_result \<lparr> cd_runs = [running_run], cd_steps = [start_step_row 0 pending_step] \<rparr> =
     Inr \<lparr> cd_runs = [running_run], cd_steps = [passed_step] \<rparr>"
  "ck_finish 0 ''z'' \<lparr> cd_runs = [running_run], cd_steps = [passed_step] \<rparr> = Inr (\<lparr> cd_runs = [passed_run], cd_steps = [passed_step] \<rparr>, passed_run)"
proof -
  have v: "validate_profile demo_profile" by (simp add: demo_profile_def validate_profile_def fixed_commands_def)
  have r: "start_run 0 (Suc 0) pending_run = running_run" "new_step ''z'' 0 ''z'' 1 demo_profile = pending_step"
    "complete_step_row 0 demo_result (start_step_row 0 pending_step) = passed_step"
    by (simp_all add: running_run_def pending_step_def passed_step_def)
  show "ck_start (\<lambda>_. ''z'') 0 ''z'' [demo_profile] \<lparr> cd_runs = [pending_run], cd_steps = [] \<rparr> =
     Inr (\<lparr> cd_runs = [running_run], cd_steps = [pending_step] \<rparr>, running_run)"
    using v by (simp add: ck_start_def affected_def insert_step_def ck_get_def lookup_by_def Let_def r)
  show "ck_complete_step 0 ''z'' demo_result \<lparr> cd_runs = [running_run], cd_steps = [start_step_row 0 pending_step] \<rparr> =
     Inr \<lparr> cd_runs = [running_run], cd_steps = [passed_step] \<rparr>"
    by (simp add: ck_complete_step_def update_step_def affected_def running_step_def r(3)) (simp add: start_step_row_def)
qed (simp_all add: ck_recover_def steps_over_def ck_list_steps_def ck_start_step_def update_returning_def ck_complete_step_def
   update_step_def affected_def running_step_def ck_finish_def can_finish_def
   passed_run_def plain_char_def)

lemma sample_checks_pass:
  assumes "wf_id job = ''w''"
  shows "\<exists>w'. with_check_lease sample_stage_env (scan_workspace ready_row) ''z''
      (run_checks (one_check id) sample_stage_env job done_execution (scan_workspace ready_row) ''z'' sample_base pending_run [demo_profile])
      ((sample_stage_world db)\<lparr> sw_ck := \<lparr> cd_runs = [pending_run], cd_steps = [] \<rparr>, sw_ws := [locked_row] \<rparr>) = (Inr passed_run, w') \<and> sw_wf w' = db"
proof -
  let ?E = sample_stage_env and ?w = "(sample_stage_world db)\<lparr> sw_ck := \<lparr> cd_runs = [pending_run], cd_steps = [] \<rparr>, sw_ws := [locked_row] \<rparr>"
    and ?i = "scan_workspace ready_row"
  let ?at = "\<lambda>db. ?w\<lparr> sw_ck := db \<rparr>"
  have E: "se_git ?E = stage_git" "se_sha256 ?E = (\<lambda>s. s)" "se_down ?E site = False" "se_new_id ?E site = ''z''" "se_ctx ?E site = None"
    "se_now ?E site = 0" "se_watch ?E site = None" "se_renewals ?E site = []" "se_event_ok ?E site = False" for site
    by (simp_all add: sample_stage_env_def)
  have n: "note_stage ?E site i ty kvs v = (Inr (), v)" for site i ty kvs v by (simp add: note_stage_def E)
  have r: "renew_stage ?E site i tok v = (None, v)" for site i tok v by (simp add: renew_stage_def E)
  have c: "capture_stage ?E ''/w'' v = (Inr sample_base, v)" if "sw_tree v = one_file ''p''" for v
    using sample_capture [OF E(1,2) that] by (simp add: sample_base_def)
  have t: "sw_tree (?at d) = one_file ''p''" "ct_run (one_check id) 0 ''/w'' demo_profile (sw_tree (?at d)) = (demo_result, one_file ''p'')" for d
    by (simp_all add: sample_stage_world_def one_check_def one_file_def lstat_def)
  have same: "?at d\<lparr> sw_tree := one_file ''p'' \<rparr> = ?at d" for d by (simp add: sample_stage_world_def)
  have k: "\<not> kr_cancelled demo_result" "\<not> kr_truncated demo_result" "kr_output demo_result = []" by (simp_all add: demo_result_def)
  have cmd: "run_command (one_check id) ?E job ?i ''z'' sample_base running_run 0 demo_profile (start_step_row 0 pending_step)
      (?at \<lparr> cd_runs = [running_run], cd_steps = [start_step_row 0 pending_step] \<rparr>) =
      (Inr (), ?at \<lparr> cd_runs = [running_run], cd_steps = [passed_step] \<rparr>)"
    using sample_calls(5) c t
    by (simp add: run_command_def r stopped_step_def E k same close_step_def sbind_def on_stage_def on_up_def call_ck_def
        save_log_def n start_step_row_def [THEN arg_cong [where f = ck_id]])
  have steps: "run_check_steps (one_check id) ?E job ?i ''z'' sample_base running_run [] 0 [demo_profile]
      (?at \<lparr> cd_runs = [running_run], cd_steps = [pending_step] \<rparr>) = (Inr (), ?at \<lparr> cd_runs = [running_run], cd_steps = [passed_step] \<rparr>)"
    using cmd sample_calls(4) by (simp add: run_check_step_def r sbind_def on_stage_def on_up_def call_ck_def E)
  have run: "run_checks (one_check id) ?E job done_execution ?i ''z'' sample_base pending_run [demo_profile] ?w =
      (Inr passed_run, ?at \<lparr> cd_runs = [passed_run], cd_steps = [passed_step] \<rparr>)"
    using steps sample_calls(1-3,6) by (simp add: run_checks_def sbind_def on_stage_def on_up_def call_ck_def E n set_ck_def)
  have "\<exists>t y. release_write 0 ''s'' ''z'' ''abc'' False [locked_row] = Inr (t, y)"
    by (simp add: release_write_def Let_def update_returning_def locked_row_def write_row_def take_lease_def ready_row_def holds_token_def
        lease_live_def unix_milli_def)
  then obtain t y where l: "release_write 0 ''s'' ''z'' ''abc'' False [locked_row] = Inr (t, y)" by (elim exE)
  have b: "gs_head sample_base = ''abc''" "gs_dirty sample_base = False" by (simp_all add: sample_base_def)
  have "release_stage_lease ?E ?i ''z'' (?at d) = (Inr (), (?at d)\<lparr> sw_ws := t \<rparr>)" for d
    using c [OF t(1)] l by (simp add: release_stage_lease_def sbind_def call_ws_def E b)
  then show ?thesis using run by (simp add: with_check_lease_def sample_stage_world_def)
qed

lemma sample_checks_finish:
  assumes "wf_get sample_checking ''w'' = Inr job" "wf_id job = ''w''" "wf_status_of job = StChecking" "wf_db_ok sample_checking"
    "''z'' \<notin> jr_id ` set (db_jobs sample_checking)" "wf_db_ok sample_checking" "sw_wf w = sample_checking"
  shows "\<exists>w'. finish_checks sample_stage_env job passed_run check_job w = (Inr (), w')"
proof -
  let ?d = "[(''check_run_id'', JStr (cr_id passed_run)), (''check_status'', JStr (ck_status_str (cr_status passed_run))),
      (''dispatch_job_id'', JStr (j_id check_job)), (''failed_steps'', JInt (cr_failed_steps passed_run)),
      (''passed_steps'', JInt (cr_passed_steps passed_run))]"
  have f: "cr_failed_steps passed_run = 0" "cr_passed_steps passed_run = 1"
    by (simp_all add: passed_run_def finish_row_def steps_with_def running_run_def start_run_def)
  have "length (marshal (JObj ?d)) \<le> 32768"
    unfolding f stage_job_simps sample_fields
    using length_quote_json [of "''check_run_id''"] length_quote_json [of "''check_status''"] length_quote_json [of "''dispatch_job_id''"]
      length_quote_json [of "''failed_steps''"] length_quote_json [of "''passed_steps''"] length_quote_json [of "''z''"]
      length_quote_json [of "''d''"] length_quote_json [of "ck_status_str CkPassed"]
    by (simp add: ck_status_str_def show_int_def show_nat.simps)
  then have "\<exists>x. wf_transition (stage_wf_env sample_stage_env AtDone) (wf_id job) (stage_input job ''CHECKS_COMPLETED'' [] [] ?d) sample_checking = Inr x"
    by (intro finish_accepted [where n = StReviewing])
      (use assms in \<open>simp_all add: plain_char_def upper_ascii_def action_of_string_def known_actions_def next_status_def
        transition_table_def stage_wf_env_def sample_stage_env_def\<close>)
  then show ?thesis
    using assms
    by (auto simp: finish_checks_def finish_stage_def on_up_def sbind_def read_with_def lift_result_def sample_stage_env_def)
qed

lemma checks_hand_over_witness:
  "\<exists>w' run. checks_handle (one_check id) sample_stage_env check_job (sample_stage_world sample_checking) = (Inr (), w')
     \<and> ck_get_by_version (sw_ck w') ''w'' 1 = Inr run \<and> cr_status run \<in> {CkPassed, CkFailed}"
proof -
  obtain job where j: "wf_get sample_checking ''w'' = Inr job" "wf_id job = ''w''" "wf_version job = 5" "wf_status_of job = StChecking"
    "wf_db_ok sample_checking" "\<not> wf_cancellation_requested job" "wf_base_commit_sha job = ''abc''" "wf_execution_version job = 1"
    "''z'' \<notin> jr_id ` set (db_jobs sample_checking)"
    by (rule sample_checking_row)
  obtain w1 where p: "with_check_lease sample_stage_env (scan_workspace ready_row) ''z''
      (run_checks (one_check id) sample_stage_env job done_execution (scan_workspace ready_row) ''z'' sample_base pending_run [demo_profile])
      ((sample_stage_world sample_checking)\<lparr> sw_ck := \<lparr> cd_runs = [pending_run], cd_steps = [] \<rparr>, sw_ws := [locked_row] \<rparr>) = (Inr passed_run, w1)"
    "sw_wf w1 = sample_checking"
    using sample_checks_pass [OF j(2), of sample_checking] by (elim exE conjE)
  obtain w' where f: "finish_checks sample_stage_env job passed_run check_job w1 = (Inr (), w')"
    using sample_checks_finish [OF j(1,2,4,5,9,5) p(2)] by (elim exE)
  have "sample_stage_env = sample_stage_env\<lparr> se_now := (\<lambda>_. 0), se_ctx := (\<lambda>_. None) \<rparr>" by (simp add: sample_stage_env_def)
  from sample_until_run [OF j(2,8,7) this, of id sample_checking]
  have s: "check_stage (one_check id) sample_stage_env check_job job (sample_stage_world sample_checking) = (Inr (), w')"
    by (simp add: sbind_def p f)
  have h: "checks_handle (one_check id) sample_stage_env check_job (sample_stage_world sample_checking) = (Inr (), w')"
    using sample_gate [OF j(1,3,4,6,8), of sample_stage_env "one_check id"] s by (simp add: settle_stage_def sample_stage_env_def)
  have "check_ok \<lparr> cd_runs = [], cd_steps = [] \<rparr>" by (simp add: check_ok_def steps_ok_def unique_key_def)
  then have "\<exists>run. ck_get_by_version (sw_ck w') ''w'' 1 = Inr run \<and> cr_status run \<in> {CkPassed, CkFailed}"
    using checks_hand_over [OF check_job_decodes h _ j(4)] j(1,2,8)
    by (auto simp: sample_stage_world_def fresh_steps_def sample_stage_env_def)
  then show ?thesis using h by blast
qed

end
