(* ===== verification/ApprovalService.thy ===== *)
theory ApprovalService
  imports StageSamples
begin

text \<open>The human decision (internal/approval/service.go): \<open>Decide\<close> checks that the decision names the reviewed execution,
  records it and applies it to the workflow. It works on the stores of \<open>StageBase\<close>; its surroundings are the ids and
  clocks of the calls.\<close>

datatype decide_error =
  DeInvalid | DeNotAwaiting | DeBindingMismatch | DeOverrideRequired | DeChecksNotPassed
| DeWorkflow wf_error | DeExecution ex_error | DeReview rv_error | DeDecision ap_error

record decide_input =
  di_expected_version :: int
  di_execution_version :: int
  di_base_commit_sha :: string
  di_patch_checksum :: string
  di_note :: string
  di_review_override :: bool

record decide_env =
  de_new_id :: string
  de_request_id :: string
  de_now :: instant
  de_applied_at :: instant
  de_refs_ok :: bool
  de_wf :: "nat \<Rightarrow> wf_env"
  de_event_ok :: "nat \<Rightarrow> bool"
  de_event_at :: instant

type_synonym 'a dstep = "(stage_world, decide_error, 'a) step"

definition try_read :: "('e \<Rightarrow> decide_error) \<Rightarrow> (stage_world \<Rightarrow> 'e + 'a) \<Rightarrow> 'a dstep" where
  "try_read f g w = (case g w of Inl e \<Rightarrow> (Inl (f e), w) | Inr x \<Rightarrow> (Inr x, w))"

definition require :: "bool \<Rightarrow> decide_error \<Rightarrow> unit dstep" where
  "require b e w = (if b then (Inr (), w) else (Inl e, w))"

definition on_decisions :: "(approval_db \<Rightarrow> ap_error + approval_db \<times> 'a) \<Rightarrow> 'a dstep" where
  "on_decisions m w = (case m (sw_ap w) of Inl e \<Rightarrow> (Inl (DeDecision e), w) | Inr (t, x) \<Rightarrow> (Inr x, w\<lparr> sw_ap := t \<rparr>))"

definition on_workflow :: "wf_env \<Rightarrow> string \<Rightarrow> transition_input \<Rightarrow> wf_job dstep" where
  "on_workflow e i inp w = (case wf_transition e i inp (sw_wf w) of
     Inl err \<Rightarrow> (Inl (DeWorkflow err), w) | Inr (db, v) \<Rightarrow> (Inr v, w\<lparr> sw_wf := db \<rparr>))"

definition note_decision :: "decide_env \<Rightarrow> nat \<Rightarrow> instant \<Rightarrow> string \<Rightarrow> string \<Rightarrow> (string \<times> json) list \<Rightarrow> unit dstep" where
  "note_decision E n at i ty kvs w = (Inr (),
     if de_event_ok E n
     then w\<lparr> sw_wf := (sw_wf w)\<lparr> db_events := db_events (sw_wf w) @
       [\<lparr> ev_job = i, ev_type = ty, ev_payload = JObj (sort_key fst kvs), ev_at = at \<rparr>] \<rparr> \<rparr>
     else w)"

definition check_status_str :: "ck_status \<Rightarrow> string" where
  "check_status_str s = (case s of CkPending \<Rightarrow> ''PENDING'' | CkRunning \<Rightarrow> ''RUNNING'' | CkPassed \<Rightarrow> ''PASSED''
     | CkFailed \<Rightarrow> ''FAILED'' | CkCancelled \<Rightarrow> ''CANCELLED'')"

definition normalize_decide :: "decide_input \<Rightarrow> decide_input" where
  "normalize_decide i = i\<lparr> di_base_commit_sha := trim_space (di_base_commit_sha i),
     di_patch_checksum := trim_space (di_patch_checksum i), di_note := trim_space (di_note i) \<rparr>"

definition decide_valid :: "string \<Rightarrow> string \<Rightarrow> decide_input \<Rightarrow> bool" where
  "decide_valid i kind x = (i \<noteq> [] \<and> di_expected_version x \<ge> 1 \<and> di_execution_version x \<ge> 1
     \<and> di_base_commit_sha x \<noteq> [] \<and> di_patch_checksum x \<noteq> [] \<and> kind \<in> set decision_kinds \<and> length (di_note x) \<le> 8000
     \<and> (kind \<in> {''REQUEST_REVISION'', ''REJECT''} \<longrightarrow> di_note x \<noteq> []))"

definition acknowledged :: "decide_input \<Rightarrow> bool" where
  "acknowledged x = (di_review_override x \<and> di_note x \<noteq> [])"

subsection \<open>The evidence\<close>

text \<open>What the decision is about, read and compared with the request.\<close>

record evidence =
  ec_job :: wf_job
  ec_execution :: execution
  ec_review :: review_run
  ec_checks :: check_run
  ec_checkpoint :: checkpoint

definition evidence_for :: "string \<Rightarrow> string \<Rightarrow> decide_input \<Rightarrow> evidence dstep" where
  "evidence_for i kind x =
     sbind (try_read DeWorkflow (\<lambda>w. wf_get (sw_wf w) i)) (\<lambda>job.
     sbind (try_read DeExecution (\<lambda>w. get_by_version (sw_ex w) i (di_execution_version x))) (\<lambda>ex.
     sbind (require (ex_status_of ex = ExCompleted) DeBindingMismatch) (\<lambda>_.
     sbind (try_read DeReview (\<lambda>w. rv_get_by_version (sw_rv w) i (di_execution_version x))) (\<lambda>rv.
     sbind (require (rv_status_of rv = RvCompleted) DeBindingMismatch) (\<lambda>_.
     sbind (try_read (\<lambda>_. DeBindingMismatch) (\<lambda>w. ck_get_by_version (sw_ck w) i (di_execution_version x))) (\<lambda>ck.
     sbind (require (kind = ''APPROVE'' \<longrightarrow> cr_status ck \<noteq> CkPassed \<longrightarrow> cr_status ck = CkFailed \<and> acknowledged x) DeChecksNotPassed) (\<lambda>_.
     sbind (\<lambda>w. (Inr (list_checkpoints (sw_ex w) (ex_id ex)), w)) (\<lambda>cps.
     sbind (require (cps \<noteq> []) DeBindingMismatch) (\<lambda>_.
     let cp = last cps in
     sbind (require (ex_base_commit_sha ex = di_base_commit_sha x \<and> cp_base_commit_sha cp = di_base_commit_sha x
         \<and> cp_patch_checksum cp = di_patch_checksum x \<and> rv_execution_id rv = ex_id ex \<and> rv_checkpoint_id rv = cp_id cp)
       DeBindingMismatch) (\<lambda>_.
     sbind (require (wf_execution_version job \<ge> di_execution_version x) DeBindingMismatch) (\<lambda>_.
     sbind (require (kind = ''APPROVE'' \<longrightarrow> rv_verdict rv = ''REQUEST_REVISION'' \<longrightarrow> acknowledged x) DeOverrideRequired) (\<lambda>_.
     ret \<lparr> ec_job = job, ec_execution = ex, ec_review = rv, ec_checks = ck, ec_checkpoint = cp \<rparr>))))))))))))"

text \<open>A new decision is for a workflow that waits for it; a repeated one keeps the revision count it was taken at.\<close>

definition revision_count_for :: "string \<Rightarrow> decide_input \<Rightarrow> wf_job \<Rightarrow> int dstep" where
  "revision_count_for i x job w =
     (case ap_get_by_version (sw_ap w) i (di_execution_version x) of
        Inr d \<Rightarrow> (Inr (ad_revision_count_before d), w)
      | Inl e \<Rightarrow>
        if e \<noteq> ApNotFound then (Inl (DeDecision e), w)
        else if wf_status_of job \<noteq> StWaitingApproval \<or> wf_version job \<noteq> di_expected_version x
          \<or> wf_execution_version job \<noteq> di_execution_version x then (Inl DeNotAwaiting, w)
        else (Inr (wf_revision_count job), w))"

definition decision_of :: "string \<Rightarrow> string \<Rightarrow> decide_input \<Rightarrow> evidence \<Rightarrow> int \<Rightarrow> decision_input" where
  "decision_of i kind x c n = \<lparr> ai_workflow_job_id = i, ai_review_run_id = rv_id (ec_review c), ai_execution_id = ex_id (ec_execution c),
     ai_execution_version = di_execution_version x, ai_checkpoint_id = cp_id (ec_checkpoint c),
     ai_base_commit_sha = di_base_commit_sha x, ai_patch_checksum = di_patch_checksum x, ai_kind = kind, ai_note = di_note x,
     ai_revision_instructions = (if kind = ''REQUEST_REVISION'' then di_note x else []),
     ai_review_override = di_review_override x, ai_reviewer_verdict = rv_verdict (ec_review c),
     ai_check_status = check_status_str (cr_status (ec_checks c)), ai_failed_steps = cr_failed_steps (ec_checks c),
     ai_version_before = di_expected_version x, ai_revision_count_before = n \<rparr>"

subsection \<open>Applying a decision\<close>

definition decision_details :: "decision \<Rightarrow> (string \<times> json) list" where
  "decision_details d = [(''approval_decision_id'', JStr (ad_id d)), (''base_commit_sha'', JStr (ad_base_commit_sha d)),
     (''execution_version'', JInt (ad_execution_version d)), (''patch_checksum'', JStr (ad_patch_checksum d)),
     (''review_override'', JBool (ad_review_override d)), (''review_run_id'', JStr (ad_review_run_id d))]"

definition decide_transition :: "decide_env \<Rightarrow> nat \<Rightarrow> wf_job \<Rightarrow> string \<Rightarrow> decision \<Rightarrow> wf_job dstep" where
  "decide_transition E n job action d =
     on_workflow (de_wf E n) (wf_id job) (stage_input job action [] [] (decision_details d))"

definition approval_already_advanced :: "wf_status \<Rightarrow> bool" where
  "approval_already_advanced s = (s \<in> {StApproved, StPublishing, StCompleted})"

definition apply_revision :: "decide_env \<Rightarrow> wf_job \<Rightarrow> decision \<Rightarrow> wf_job dstep" where
  "apply_revision E job d =
     (if wf_revision_count job > ad_revision_count_before d then ret job
      else
        sbind (if wf_status_of job = StWaitingApproval then decide_transition E 0 job ''REQUEST_REVISION'' d else ret job) (\<lambda>job1.
        sbind (if wf_status_of job1 = StRevisionRequired then decide_transition E 1 job1 ''QUEUE_REVISION'' d else ret job1) (\<lambda>job2.
        sbind (require (wf_revision_count job2 > ad_revision_count_before d) DeNotAwaiting) (\<lambda>_.
        ret job2))))"

definition apply_to_workflow :: "decide_env \<Rightarrow> wf_job \<Rightarrow> decision \<Rightarrow> wf_job dstep" where
  "apply_to_workflow E job d =
     (if wf_status_of job = StWaitingApproval \<and> wf_version job \<noteq> ad_version_before d
      then fail_with (DeWorkflow ErrVersionConflict)
      else if ad_kind d = ''APPROVE'' then
        (if approval_already_advanced (wf_status_of job) then ret job
         else if wf_status_of job \<noteq> StWaitingApproval then fail_with DeNotAwaiting
         else decide_transition E 0 job ''APPROVE'' d)
      else if ad_kind d = ''REJECT'' then
        (if wf_status_of job = StRejected then ret job
         else if wf_status_of job \<noteq> StWaitingApproval then fail_with DeNotAwaiting
         else decide_transition E 0 job ''REJECT'' d)
      else if ad_kind d = ''REQUEST_REVISION'' then apply_revision E job d
      else fail_with DeInvalid)"

definition recorded_payload :: "decision \<Rightarrow> (string \<times> json) list" where
  "recorded_payload d = [(''decision_id'', JStr (ad_id d)), (''decision'', JStr (ad_kind d)),
     (''execution_version'', JInt (ad_execution_version d)), (''base_commit_sha'', JStr (ad_base_commit_sha d)),
     (''patch_checksum'', JStr (ad_patch_checksum d)), (''review_override'', JBool (ad_review_override d))]"

definition applied_payload :: "decision \<Rightarrow> wf_job \<Rightarrow> (string \<times> json) list" where
  "applied_payload d job = [(''decision_id'', JStr (ad_id d)), (''decision'', JStr (ad_kind d)),
     (''execution_version'', JInt (ad_execution_version d)), (''workflow_version'', JInt (wf_version job)),
     (''workflow_status'', JStr (status_str (wf_status_of job)))]"

definition decide :: "decide_env \<Rightarrow> string \<Rightarrow> string \<Rightarrow> decide_input \<Rightarrow> (decision \<times> wf_job) dstep" where
  "decide E raw_id raw_kind raw =
     (let i = trim_space raw_id; x = normalize_decide raw; kind = to_upper (trim_space raw_kind) in
      if \<not> decide_valid i kind x then fail_with DeInvalid
      else
        sbind (evidence_for i kind x) (\<lambda>c.
        sbind (revision_count_for i x (ec_job c)) (\<lambda>n.
        sbind (on_decisions (ap_create_or_get (de_new_id E) (de_request_id E) (de_now E) (de_refs_ok E) (decision_of i kind x c n)))
          (\<lambda>(d, created).
        sbind (if created then note_decision E 0 (ad_created_at d) i ''approval.decision_recorded'' (recorded_payload d) else ret ()) (\<lambda>_.
        if ad_status d = ApApplied then ret (d, ec_job c)
        else
          sbind (apply_to_workflow E (ec_job c) d) (\<lambda>job.
          sbind (on_decisions (ap_mark_applied (de_applied_at E) (ad_id d) (wf_version job))) (\<lambda>d2.
          sbind (note_decision E 1 (de_event_at E) i ''approval.decision_applied'' (applied_payload d2 job)) (\<lambda>_.
          ret (d2, job)))))))))"

definition decision_get :: "string \<Rightarrow> decision dstep" where
  "decision_get i = try_read DeDecision (\<lambda>w. ap_get (sw_ap w) i)"

definition decision_list :: "string \<Rightarrow> stage_world \<Rightarrow> decision list" where
  "decision_list i w = ap_list_workflow (sw_ap w) i"

subsection \<open>An approval is backed by evidence\<close>

lemma try_read_Inr [simp]: "try_read f g w = (Inr x, w') \<longleftrightarrow> g w = Inr x \<and> w' = w"
  by (auto simp: try_read_def split: sum.splits)

lemma require_Inr [simp]: "require b e w = (Inr u, w') \<longleftrightarrow> b \<and> w' = w"
  by (auto simp: require_def)

lemma on_decisions_Inr: "on_decisions m w = (Inr x, w') \<longleftrightarrow> (\<exists>t. m (sw_ap w) = Inr (t, x) \<and> w' = w\<lparr> sw_ap := t \<rparr>)"
  by (auto simp: on_decisions_def split: sum.splits)

text \<open>The facts the evidence stands for.\<close>

definition backed :: "stage_world \<Rightarrow> string \<Rightarrow> string \<Rightarrow> decide_input \<Rightarrow> evidence \<Rightarrow> bool" where
  "backed w i kind x c = (wf_get (sw_wf w) i = Inr (ec_job c)
     \<and> get_by_version (sw_ex w) i (di_execution_version x) = Inr (ec_execution c) \<and> ex_status_of (ec_execution c) = ExCompleted
     \<and> rv_get_by_version (sw_rv w) i (di_execution_version x) = Inr (ec_review c) \<and> rv_status_of (ec_review c) = RvCompleted
     \<and> ck_get_by_version (sw_ck w) i (di_execution_version x) = Inr (ec_checks c)
     \<and> list_checkpoints (sw_ex w) (ex_id (ec_execution c)) \<noteq> []
     \<and> ec_checkpoint c = last (list_checkpoints (sw_ex w) (ex_id (ec_execution c)))
     \<and> ex_base_commit_sha (ec_execution c) = di_base_commit_sha x \<and> cp_base_commit_sha (ec_checkpoint c) = di_base_commit_sha x
     \<and> cp_patch_checksum (ec_checkpoint c) = di_patch_checksum x
     \<and> rv_execution_id (ec_review c) = ex_id (ec_execution c) \<and> rv_checkpoint_id (ec_review c) = cp_id (ec_checkpoint c)
     \<and> di_execution_version x \<le> wf_execution_version (ec_job c)
     \<and> (kind = ''APPROVE'' \<longrightarrow> (cr_status (ec_checks c) = CkPassed \<or> cr_status (ec_checks c) = CkFailed \<and> acknowledged x)
          \<and> (rv_verdict (ec_review c) = ''REQUEST_REVISION'' \<longrightarrow> acknowledged x)))"

lemma evidence_backed: "evidence_for i kind x w = (Inr c, w') \<longleftrightarrow> backed w i kind x c \<and> w' = w"
proof
  assume "evidence_for i kind x w = (Inr c, w')"
  then show "backed w i kind x c \<and> w' = w"
    unfolding evidence_for_def Let_def by (elim sbind_InrE) (auto simp: backed_def)
next
  assume "backed w i kind x c \<and> w' = w"
  then show "evidence_for i kind x w = (Inr c, w')"
    by (cases c) (auto simp: evidence_for_def Let_def backed_def sbind_def try_read_def require_def)
qed

lemma created_same:
  assumes "ap_create_or_get i q now refs inp db = Inr (db', d, created)"
  shows "same_decision d (normalize_decision inp)" "decision_ok (normalize_decision inp)"
    "created = (\<forall>x. ap_get_by_version db (trim_space (ai_workflow_job_id inp)) (ai_execution_version inp) \<noteq> Inr x)"
    "\<not> created \<Longrightarrow> db' = db \<and> ap_get_by_version db (trim_space (ai_workflow_job_id inp)) (ai_execution_version inp) = Inr d"
    "created \<Longrightarrow> d = new_decision i now (normalize_decision inp)"
  using assms
  by (auto simp: ap_create_or_get_def Let_def existing_decision_def same_decision_def new_decision_def rbind_eq_Inr
      split: if_splits sum.splits)

text \<open>The row of a decision, whatever happens to the other columns.\<close>

definition row_for :: "decision_input \<Rightarrow> decision \<Rightarrow> bool" where
  "row_for i y = (ad_workflow_job_id y = ai_workflow_job_id i \<and> ad_execution_version y = ai_execution_version i \<and> ad_kind y = ai_kind i
     \<and> ad_checkpoint_id y = ai_checkpoint_id i \<and> ad_patch_checksum y = ai_patch_checksum i \<and> ad_base_commit_sha y = ai_base_commit_sha i
     \<and> ad_review_run_id y = ai_review_run_id i \<and> ad_review_override y = ai_review_override i \<and> ad_note y = ai_note i)"

lemma row_for_fields [simp]:
  "row_for i (apply_decision now v y) = row_for i y"
  "row_for i (y\<lparr> ad_revision_instructions := r \<rparr>) = row_for i y"
  "row_for i (y\<lparr> ad_revision_instructions := r, ad_created_at := a, ad_updated_at := b \<rparr>) = row_for i y"
  by (simp_all add: row_for_def apply_decision_def)

lemma same_decision_row: "same_decision d i \<Longrightarrow> row_for i d"
  by (simp add: same_decision_def row_for_def)

lemma created_row:
  assumes "ap_create_or_get i q now refs inp db = Inr (db', d, created)"
  shows "\<exists>y\<in>set (ap_decisions db'). row_for (normalize_decision inp) y"
proof (cases created)
  case True
  note n = created_same(5) [OF assms True]
  have s: "row_for (normalize_decision inp) d" by (rule same_decision_row [OF created_same(1) [OF assms]])
  have "d\<lparr> ad_revision_instructions := [], ad_created_at := stored_at (ad_created_at d), ad_updated_at := stored_at (ad_updated_at d) \<rparr>
      \<in> set (ap_decisions db')"
    using assms True n
    by (auto simp: ap_create_or_get_def Let_def existing_decision_def insert_decision_def insert_request_def rbind_eq_Inr
        split: if_splits sum.splits)
  then show ?thesis using s by (metis row_for_fields(3))
next
  case False
  note o = created_same(4) [OF assms False]
  have "row_for (normalize_decision inp) d" by (rule same_decision_row [OF created_same(1) [OF assms]])
  then show ?thesis
    using o by (auto simp: ap_get_by_version_def scan_decision_def split: option.splits dest!: find_set)
qed

lemma applied_row:
  assumes "ap_mark_applied now i v db = Inr (db', d)"
  shows "ad_status d = ApApplied" "\<exists>y\<in>set (ap_decisions db). row_for inp y \<Longrightarrow> \<exists>y\<in>set (ap_decisions db'). row_for inp y"
proof -
  let ?P = "\<lambda>d. ad_id d = trim_space i"
  have t: "ap_decisions db' = update_where ?P (apply_decision now v) (ap_decisions db)" "ap_get db' i = Inr d"
    using assms by (auto simp: ap_mark_applied_def Let_def rbind_eq_Inr split: if_splits)
  obtain y where y: "y \<in> set (ap_decisions db')" "ad_id y = trim_space i" "d = scan_decision db' y"
    using t(2) lookup_by_Some by (fastforce simp: ap_get_def split: option.splits)
  then show "ad_status d = ApApplied"
    unfolding t(1) by (auto simp: set_update_where scan_decision_def apply_decision_def)
  show "\<exists>y\<in>set (ap_decisions db'). row_for inp y" if e: "\<exists>y\<in>set (ap_decisions db). row_for inp y"
  proof -
    obtain y where "y \<in> set (ap_decisions db)" "row_for inp y" using e by blast
    then have "(if ?P y then apply_decision now v y else y) \<in> set (ap_decisions db')"
      "row_for inp (if ?P y then apply_decision now v y else y)"
      unfolding t(1) set_update_where_image by auto
    then show ?thesis by blast
  qed
qed

lemma approve_word [simp]: "to_upper ''APPROVE'' = ''APPROVE''" "trim_space ''APPROVE'' = ''APPROVE''"
  by (code_simp, simp add: trim_space_plain plain_char_def)

lemma approve_advances:
  assumes "decide_transition E n job ''APPROVE'' d w = (Inr v, w')"
  shows "wf_status_of v = StApproved"
proof -
  let ?inp = "stage_input job ''APPROVE'' [] [] (decision_details d)"
  obtain db where t: "wf_transition (de_wf E n) (wf_id job) ?inp (sw_wf w) = Inr (db, v)"
    using assms by (auto simp: decide_transition_def on_workflow_def split: sum.splits)
  have a: "input_action ?inp = ''APPROVE''" by (rule stage_input_action) (simp_all add: plain_char_def upper_ascii_def)
  show ?thesis
    using t
  proof (rule wf_transition_cases)
    fix w0 nxt details q d' evs
    assume "transition_guards w0 (action_of ?inp) ?inp = Inr (nxt, details)"
      and v: "v = apply_transition (de_wf E n) (action_of ?inp) ?inp nxt (dispatch_after w0 (action_of ?inp) d') w0"
    then have "next_status (wf_status_of w0) ActApprove (wf_retry_status w0) = Some nxt"
      unfolding a by (auto simp: transition_guards_def action_of_string_def known_actions_def rbind_eq_Inr split: option.splits)
    then have "nxt = StApproved" by (auto simp: next_status_def transition_table_def split: wf_status.splits if_splits)
    then show ?thesis using v by simp
  qed
qed

text \<open>Applying a decision touches the workflow only.\<close>

lemma apply_keeps_ap:
  assumes "apply_to_workflow E job d w = (r, w')"
  shows "sw_ap w' = sw_ap w"
proof -
  have t: "decide_transition E n j a d w = (r, w') \<Longrightarrow> sw_ap w' = sw_ap w" for n j a w r w'
    by (auto simp: decide_transition_def on_workflow_def split: sum.splits)
  have "apply_revision E job d w = (r, w') \<Longrightarrow> sw_ap w' = sw_ap w"
    unfolding apply_revision_def
    by (auto simp: require_def elim!: sbind_cases dest!: t split: if_splits)
  then show ?thesis
    using assms by (auto simp: apply_to_workflow_def dest: t split: if_splits)
qed

lemma approve_applied:
  assumes "apply_to_workflow E job d w = (Inr v, w')" "ad_kind d = ''APPROVE''"
  shows "approval_already_advanced (wf_status_of v)"
  using assms approve_advances [of E 0 job d w v w']
  by (auto simp: apply_to_workflow_def approval_already_advanced_def split: if_splits)

text \<open>What a decision that returns has done: the evidence was there, the row is stored, and either it was applied before or
  it has been applied now.\<close>

definition applied_now :: "decide_env \<Rightarrow> approval_db \<Rightarrow> decision \<Rightarrow> evidence \<Rightarrow> decision \<Rightarrow> wf_job \<Rightarrow> approval_db \<Rightarrow> bool" where
  "applied_now E db d0 c d job db' = ((\<exists>w w'. apply_to_workflow E (ec_job c) d0 w = (Inr job, w'))
     \<and> ap_mark_applied (de_applied_at E) (ad_id d0) (wf_version job) db = Inr (db', d))"

lemma decide_done:
  assumes "decide E raw_id raw_kind raw w = (Inr (d, job), w')"
    "i = trim_space raw_id" "x = normalize_decide raw" "kind = to_upper (trim_space raw_kind)"
  obtains c n db d0 created where "backed w i kind x c" "decide_valid i kind x"
    "ap_create_or_get (de_new_id E) (de_request_id E) (de_now E) (de_refs_ok E) (decision_of i kind x c n) (sw_ap w) = Inr (db, d0, created)"
    "ad_status d0 = ApApplied \<and> d = d0 \<and> sw_ap w' = db \<or> ad_status d0 \<noteq> ApApplied \<and> applied_now E db d0 c d job (sw_ap w')"
proof -
  have v: "decide_valid i kind x" using assms by (simp add: decide_def Let_def split: if_splits)
  have k: "revision_count_for i x j u = (Inr n, u') \<Longrightarrow> u' = u" for j u n u'
    by (auto simp: revision_count_for_def split: sum.splits if_splits)
  have q: "(if created then note_decision E 0 at i ty kvs else ret ()) u = (Inr z, u') \<Longrightarrow> sw_ap u' = sw_ap u"
    for created at ty kvs u z u'
    by (auto simp: note_decision_def split: if_splits)
  have q1: "note_decision E m at i ty kvs u = (Inr z, u') \<Longrightarrow> sw_ap u' = sw_ap u" for m at ty kvs u z u'
    by (auto simp: note_decision_def split: if_splits)
  let ?rest = "\<lambda>c d0. if ad_status d0 = ApApplied then ret (d0, ec_job c)
        else
          sbind (apply_to_workflow E (ec_job c) d0) (\<lambda>job.
          sbind (on_decisions (ap_mark_applied (de_applied_at E) (ad_id d0) (wf_version job))) (\<lambda>d2.
          sbind (note_decision E 1 (de_event_at E) i ''approval.decision_applied'' (applied_payload d2 job)) (\<lambda>_.
          ret (d2, job))))"
  obtain c n db d0 created where c: "backed w i kind x c"
    and m: "ap_create_or_get (de_new_id E) (de_request_id E) (de_now E) (de_refs_ok E) (decision_of i kind x c n) (sw_ap w) = Inr (db, d0, created)"
    and rest0: "sbind (if created then note_decision E 0 (ad_created_at d0) i ''approval.decision_recorded'' (recorded_payload d0) else ret ())
        (\<lambda>_. ?rest c d0) (w\<lparr> sw_ap := db \<rparr>) = (Inr (d, job), w')"
    using assms(1) v unfolding decide_def assms(2-4) [symmetric] Let_def
    by (simp only: if_False if_True not_True_eq_False) (elim sbind_InrE, auto simp: on_decisions_Inr evidence_backed dest!: k)
  obtain z w1 where n: "(if created then note_decision E 0 (ad_created_at d0) i ''approval.decision_recorded'' (recorded_payload d0) else ret ())
      (w\<lparr> sw_ap := db \<rparr>) = (Inr z, w1)" and rest: "?rest c d0 w1 = (Inr (d, job), w')"
    by (rule sbind_InrE [OF rest0])
  have w1: "sw_ap w1 = db" using q [OF n] by simp
  have "ad_status d0 \<noteq> ApApplied \<Longrightarrow> applied_now E db d0 c d job (sw_ap w')"
  proof -
    assume "ad_status d0 \<noteq> ApApplied"
    then obtain w2 t where "apply_to_workflow E (ec_job c) d0 w1 = (Inr job, w2)"
      "ap_mark_applied (de_applied_at E) (ad_id d0) (wf_version job) (sw_ap w2) = Inr (t, d)" "sw_ap w' = t"
      using rest by simp (elim sbind_InrE, auto simp: on_decisions_Inr dest!: q1)
    then show ?thesis using w1 apply_keeps_ap by (auto simp: applied_now_def)
  qed
  moreover have "ad_status d0 = ApApplied \<Longrightarrow> d = d0 \<and> sw_ap w' = db" using rest w1 by simp
  ultimately show ?thesis using that [OF c v m] by blast
qed

text \<open>C0: An approval is backed by evidence. When \<open>Decide\<close> returns an approval, the execution it names is completed and
  reviewed, the checksum and base commit it names are those of the last checkpoint, which is the one the review read,
  the checks have passed and the reviewer approves, unless the human overrides them with a note; the decision is
  applied, a row with exactly this binding is stored, and the workflow is approved unless the same decision had been
  applied before.\<close>

theorem approval_is_backed:
  assumes "decide E raw_id kind raw w = (Inr (d, job), w')" "to_upper (trim_space kind) = ''APPROVE''"
  shows "\<exists>c. backed w (trim_space raw_id) ''APPROVE'' (normalize_decide raw) c \<and> ad_status d = ApApplied
    \<and> (approval_already_advanced (wf_status_of job)
       \<or> (\<exists>d0. ap_get_by_version (sw_ap w) (trim_space raw_id) (di_execution_version raw) = Inr d0 \<and> ad_status d0 = ApApplied))
    \<and> (\<exists>y\<in>set (ap_decisions (sw_ap w')). ad_kind y = ''APPROVE'' \<and> ad_workflow_job_id y = trim_space raw_id
         \<and> ad_execution_version y = di_execution_version raw \<and> ad_patch_checksum y = trim_space (di_patch_checksum raw)
         \<and> ad_checkpoint_id y = trim_space (cp_id (ec_checkpoint c)))"
proof -
  let ?i = "trim_space raw_id" and ?x = "normalize_decide raw"
  obtain c n db d0 created where c: "backed w ?i ''APPROVE'' ?x c"
    and m: "ap_create_or_get (de_new_id E) (de_request_id E) (de_now E) (de_refs_ok E) (decision_of ?i ''APPROVE'' ?x c n) (sw_ap w) = Inr (db, d0, created)"
    and z: "ad_status d0 = ApApplied \<and> d = d0 \<and> sw_ap w' = db \<or> ad_status d0 \<noteq> ApApplied \<and> applied_now E db d0 c d job (sw_ap w')"
    by (rule decide_done [OF assms(1) refl refl assms(2) [symmetric]])
  let ?inp = "normalize_decision (decision_of ?i ''APPROVE'' ?x c n)"
  have k: "ad_kind d0 = ''APPROVE''"
    using created_same(1) [OF m] approve_word by (simp add: same_decision_def normalize_decision_def decision_of_def)
  have "ad_status d = ApApplied \<and> (\<exists>y\<in>set (ap_decisions (sw_ap w')). row_for ?inp y)"
  proof (cases "ad_status d0 = ApApplied")
    case True
    then show ?thesis using z created_row [OF m] by auto
  next
    case False
    then have a: "ap_mark_applied (de_applied_at E) (ad_id d0) (wf_version job) db = Inr (sw_ap w', d)"
      using z by (auto simp: applied_now_def)
    show ?thesis using applied_row(1) [OF a] applied_row(2) [OF a created_row [OF m]] by blast
  qed
  then have applied: "ad_status d = ApApplied" and row: "\<exists>y\<in>set (ap_decisions (sw_ap w')). row_for ?inp y" by blast+
  have "approval_already_advanced (wf_status_of job)" if "ad_status d0 \<noteq> ApApplied"
    using z that approve_applied [OF _ k] by (auto simp: applied_now_def)
  moreover have "ap_get_by_version (sw_ap w) ?i (di_execution_version raw) = Inr d0" if "ad_status d0 = ApApplied"
  proof -
    have "\<not> created" using created_same(5) [OF m] that by (auto simp: new_decision_def)
    from created_same(4) [OF m this] show ?thesis by (simp add: decision_of_def normalize_decide_def)
  qed
  ultimately show ?thesis
    using c applied row approve_word by (auto simp: row_for_def normalize_decision_def decision_of_def normalize_decide_def)
qed

subsection \<open>A revision beyond the limit\<close>

lemma stuck_in_revision:
  assumes "wf_get db i = Inr v" "wf_status_of v = StRevisionRequired" "wf_revision_count v \<ge> max_revisions (wf_limits v)"
    "wf_transition e i inp db = Inr r"
  shows "action_of inp = ActCancel"
proof -
  obtain db' v' where "r = (db', v')" by fastforce
  with assms(4) have "wf_transition e i inp db = Inr (db', v')" by simp
  then show ?thesis
  proof (rule wf_transition_cases)
    fix w nxt details
    assume l: "lookup_by wf_id (trim_space i) (db_workflows db) = Some w"
      and g: "transition_guards w (action_of inp) inp = Inr (nxt, details)"
    have "w = v" using l assms(1) by (simp add: wf_get_def load_job_def split: if_splits)
    then show ?thesis
      using g assms(2,3)
      by (auto simp: transition_guards_def next_status_def transition_table_def failure_statuses_def is_terminal_def rbind_eq_Inr guardE_def
          split: option.splits if_splits)
  qed
qed

lemma revision_limit_hit:
  assumes "wf_get db (wf_id v) = Inr v" "trim_space (wf_id v) \<noteq> []" "1 \<le> wf_version v"
    "wf_status_of v = StRevisionRequired" "wf_revision_count v \<ge> max_revisions (wf_limits v)"
  shows "wf_transition e (wf_id v) (stage_input v ''QUEUE_REVISION'' [] [] d) db = Inl ErrRevisionLimit"
proof -
  have a: "input_action (stage_input v ''QUEUE_REVISION'' [] [] d) = ''QUEUE_REVISION''"
    by (rule stage_input_action) (simp_all add: plain_char_def upper_ascii_def)
  have "load_job db (trim_space (wf_id v)) = Inr v"
    using assms(1,2) by (simp add: wf_get_def split: if_splits)
  then show ?thesis
    using assms a
    by (simp add: wf_transition_def Let_def rbind_def guardE_def stage_input_def transition_guards_def check_continue_def next_status_def
        transition_table_def action_of_string_def known_actions_def)
qed

text \<open>C0: A revision beyond the limit strands the workflow. When a revision is applied to a workflow that has used up its
  revisions, the workflow is moved to REVISION_REQUIRED first and queueing the revision is refused only then: \<open>Decide\<close>
  returns the limit error, the decision stays pending, and in the state left behind no transition but CANCEL is
  accepted any more.\<close>

theorem revision_beyond_limit_is_stuck:
  assumes "wf_db_ok (sw_wf w)" "wf_get (sw_wf w) (wf_id job) = Inr job" "wf_status_of job = StWaitingApproval"
    "wf_revision_count job \<ge> max_revisions (wf_limits job)" "wf_revision_count job \<le> ad_revision_count_before d"
    "length (marshal (JObj (decision_details d))) \<le> 32768" "apply_revision E job d w = (r, w')"
  shows "r = Inl (DeWorkflow ErrRevisionLimit) \<and> sw_ap w' = sw_ap w
    \<and> (\<exists>v. wf_get (sw_wf w') (wf_id job) = Inr v \<and> wf_status_of v = StRevisionRequired)
    \<and> (\<forall>e inp x. wf_transition e (wf_id job) inp (sw_wf w') = Inr x \<longrightarrow> action_of inp = ActCancel)"
proof -
  let ?inp = "stage_input job ''REQUEST_REVISION'' [] [] (decision_details d)"
  have row: "trim_space (wf_id job) \<noteq> []" "1 \<le> wf_version job"
    using wf_get_Inr [OF assms(2)] assms(1) by (auto simp: wf_db_ok_def wf_row_ok_def)
  have a: "input_action ?inp = ''REQUEST_REVISION''" by (rule stage_input_action) (simp_all add: plain_char_def upper_ascii_def)
  have act: "action_of_string ''REQUEST_REVISION'' = ActRequestRevision" by (simp add: action_of_string_def known_actions_def)
  have "\<exists>x. wf_transition (de_wf E 0) (wf_id job) ?inp (sw_wf w) = Inr x"
    by (rule finish_accepted [OF assms(1,2), where n = StRevisionRequired])
      (use assms(3,6) in \<open>simp_all add: act plain_char_def upper_ascii_def dispatch_type_def dispatch_for_def next_status_def transition_table_def\<close>)
  then obtain db v where t: "wf_transition (de_wf E 0) (wf_id job) ?inp (sw_wf w) = Inr (db, v)" by auto
  obtain n q where n: "next_status (wf_status_of job) (action_of ?inp) (wf_retry_status job) = Some n"
    "v = apply_transition (de_wf E 0) (action_of ?inp) ?inp n q job" "wf_get db (wf_id job) = Inr v"
    using transition_shows [OF t assms(2)] by blast
  have v: "wf_status_of v = StRevisionRequired" "wf_id v = wf_id job" "wf_version v = wf_version job + 1"
    "wf_revision_count v = wf_revision_count job" "wf_limits v = wf_limits job"
    using n(1,2) assms(3) unfolding a act by (simp_all add: next_status_def transition_table_def apply_transition_def split: prod.split)
  have limit: "wf_transition (de_wf E 1) (wf_id v) (stage_input v ''QUEUE_REVISION'' [] [] (decision_details d)) db = Inl ErrRevisionLimit"
    by (rule revision_limit_hit) (use row v n(3) assms(4) in simp_all)
  have e: "(r, w') = (Inl (DeWorkflow ErrRevisionLimit), w\<lparr> sw_wf := db \<rparr>)"
    using assms(3,5,7) t limit v by (simp add: apply_revision_def sbind_def decide_transition_def on_workflow_def)
  have "wf_transition e (wf_id job) inp db = Inr x \<Longrightarrow> action_of inp = ActCancel" for e inp x
    by (rule stuck_in_revision [OF n(3) v(1)]) (use v assms(4) in simp_all)
  then show ?thesis using e n(3) v(1) by auto
qed

subsection \<open>Examples\<close>

definition sample_decide_env :: decide_env where
  "sample_decide_env = \<lparr> de_new_id = ''z'', de_request_id = ''y'', de_now = 0, de_applied_at = 0, de_refs_ok = True,
     de_wf = (\<lambda>_. stage_wf_env sample_stage_env AtDone), de_event_ok = (\<lambda>_. False), de_event_at = 0 \<rparr>"

definition sample_approval :: decide_input where
  "sample_approval = \<lparr> di_expected_version = 7, di_execution_version = 1, di_base_commit_sha = ''c0'', di_patch_checksum = ''sha256:p'',
     di_note = [], di_review_override = False \<rparr>"

lemma sample_evidence:
  assumes "wf_get db ''w'' = Inr job" "wf_execution_version job = 1"
  shows "backed (reviewed_world db) ''w'' ''APPROVE'' sample_approval
    \<lparr> ec_job = job, ec_execution = done_execution, ec_review = done_review, ec_checks = passed_checks, ec_checkpoint = the_checkpoint \<rparr>"
  using assms
  by (simp add: backed_def reviewed_world_def sample_stage_world_def get_by_version_def rv_get_by_version_def ck_get_by_version_def
      list_checkpoints_def empty_ex_db_def done_execution_def new_execution_def demo_execution_input_def done_review_def passed_checks_def
      the_checkpoint_def sample_approval_def)

lemma sample_words: "to_upper ''PASSED'' = ''PASSED''" "to_upper [] = []"
  by code_simp+

definition sample_found :: "wf_job \<Rightarrow> evidence" where
  "sample_found job = \<lparr> ec_job = job, ec_execution = done_execution, ec_review = done_review, ec_checks = passed_checks,
     ec_checkpoint = the_checkpoint \<rparr>"

definition sample_decided :: "int \<Rightarrow> decision" where
  "sample_decided n = new_decision ''z'' 0 (decision_of ''w'' ''APPROVE'' sample_approval (sample_found undefined) n)"

lemma sample_decision:
  assumes "0 \<le> n"
  shows "ap_create_or_get ''z'' ''y'' 0 True (decision_of ''w'' ''APPROVE'' sample_approval (sample_found job) n) \<lparr> ap_decisions = [], ap_requests = [] \<rparr>
      = Inr (\<lparr> ap_decisions = [sample_decided n], ap_requests = [] \<rparr>, sample_decided n, True)"
proof -
  have t: "trim_space ''v'' = ''v''" "trim_space ''c'' = ''c''" "trim_space ''c0'' = ''c0''" "trim_space ''sha256:p'' = ''sha256:p''"
    "trim_space ''PASSED'' = ''PASSED''" by (simp_all add: plain_char_def)
  have i: "normalize_decision (decision_of ''w'' ''APPROVE'' sample_approval (sample_found job) n)
      = decision_of ''w'' ''APPROVE'' sample_approval (sample_found undefined) n"
    using t sample_words
    by (simp add: normalize_decision_def decision_of_def sample_approval_def sample_found_def done_execution_def new_execution_def done_review_def
        passed_checks_def the_checkpoint_def check_status_str_def del: to_upper.simps)
  have v: "decision_ok (decision_of ''w'' ''APPROVE'' sample_approval (sample_found undefined) n)"
    using assms by (simp add: decision_ok_def decision_of_def sample_approval_def sample_found_def done_execution_def new_execution_def
        done_review_def the_checkpoint_def decision_kinds_def)
  have z: "stored_at 0 = 0" by (rule at_zero)
  show ?thesis
    unfolding ap_create_or_get_def i Let_def
    using v z by (simp add: ap_get_by_version_def insert_decision_def sample_decided_def new_decision_def decision_of_def sample_approval_def
        sample_found_def passed_checks_def)
qed

lemma sample_decided_fields:
  "ad_status (sample_decided n) = ApPending" "ad_kind (sample_decided n) = ''APPROVE''" "ad_version_before (sample_decided n) = 7"
  "ad_id (sample_decided n) = ''z''"
  "decision_details (sample_decided n) = [(''approval_decision_id'', JStr ''z''), (''base_commit_sha'', JStr ''c0''),
     (''execution_version'', JInt 1), (''patch_checksum'', JStr ''sha256:p''), (''review_override'', JBool False), (''review_run_id'', JStr ''v'')]"
  by (simp_all add: sample_decided_def new_decision_def decision_of_def sample_approval_def decision_details_def sample_found_def done_review_def)

lemma sample_details_short: "length (marshal (JObj (decision_details (sample_decided n)))) \<le> 32768"
  using length_quote_json [of "''approval_decision_id''"] length_quote_json [of "''base_commit_sha''"] length_quote_json [of "''execution_version''"]
    length_quote_json [of "''patch_checksum''"] length_quote_json [of "''review_override''"] length_quote_json [of "''review_run_id''"]
    length_quote_json [of "''z''"] length_quote_json [of "''c0''"] length_quote_json [of "''sha256:p''"] length_quote_json [of "''v''"]
  by (simp add: sample_decided_fields show_int_def show_nat.simps)

lemma sample_apply:
  obtains job v db where "wf_get sample_waiting ''w'' = Inr job" "wf_execution_version job = 1" "wf_status_of job = StWaitingApproval"
    "wf_version job = 7" "0 \<le> wf_revision_count job" "wf_version v = 8"
    "\<forall>n w. sw_wf w = sample_waiting \<longrightarrow>
      apply_to_workflow sample_decide_env job (sample_decided n) w = (Inr v, w\<lparr> sw_wf := db \<rparr>)"
proof -
  obtain job where j: "wf_get sample_waiting ''w'' = Inr job" "wf_id job = ''w''" "wf_version job = 7" "wf_status_of job = StWaitingApproval"
    "wf_db_ok sample_waiting" "wf_execution_version job = 1" "wf_retry_status job = None"
    by (rule sample_waiting_row)
  have c: "0 \<le> wf_revision_count job" using wf_get_Inr [OF j(1)] j(5) by (auto simp: wf_db_ok_def wf_row_ok_def)
  let ?e = "stage_wf_env sample_stage_env AtDone" and ?d = "decision_details (sample_decided 0)"
  have d: "decision_details (sample_decided n) = ?d" for n by (simp add: sample_decided_fields)
  let ?inp = "stage_input job ''APPROVE'' [] [] ?d"
  have act: "action_of_string ''APPROVE'' = ActApprove" by (simp add: action_of_string_def known_actions_def)
  have a: "input_action ?inp = ''APPROVE''" by (rule stage_input_action) (simp_all add: plain_char_def upper_ascii_def)
  have short: "length (marshal (JObj ?d)) \<le> 32768" by (rule sample_details_short)
  have "\<exists>x. wf_transition ?e (wf_id job) ?inp sample_waiting = Inr x"
    by (rule finish_accepted [OF j(5), where n = StApproved])
      (use j short in \<open>simp_all add: act plain_char_def upper_ascii_def dispatch_type_def dispatch_for_def next_status_def transition_table_def\<close>)
  then obtain db v where t: "wf_transition ?e ''w'' ?inp sample_waiting = Inr (db, v)" using j(2) by auto
  have v: "wf_version v = 8"
  proof -
    obtain n q where "v = apply_transition ?e (action_of ?inp) ?inp n q job" using transition_shows [OF t j(1)] by blast
    then show ?thesis using j(3) by (simp add: apply_transition_def split: prod.split)
  qed
  have "apply_to_workflow sample_decide_env job (sample_decided n) w = (Inr v, w\<lparr> sw_wf := db \<rparr>)" if w: "sw_wf w = sample_waiting" for n w
    using w j t
    by (simp add: apply_to_workflow_def sample_decided_fields(1-4) approval_already_advanced_def decide_transition_def on_workflow_def d [of n]
        sample_decide_env_def)
  then have "\<forall>n w. sw_wf w = sample_waiting \<longrightarrow> apply_to_workflow sample_decide_env job (sample_decided n) w = (Inr v, w\<lparr> sw_wf := db \<rparr>)"
    by simp
  then show thesis by (rule that [OF j(1,6,4,3) c v])
qed

lemma sample_decide:
  obtains d job w' where "decide sample_decide_env ''w'' ''APPROVE'' sample_approval (reviewed_world sample_waiting) = (Inr (d, job), w')"
proof -
  obtain job v db where j: "wf_get sample_waiting ''w'' = Inr job" "wf_execution_version job = 1" "wf_status_of job = StWaitingApproval"
    "wf_version job = 7" "0 \<le> wf_revision_count job" "wf_version v = 8"
    and a: "\<forall>n w. sw_wf w = sample_waiting \<longrightarrow> apply_to_workflow sample_decide_env job (sample_decided n) w = (Inr v, w\<lparr> sw_wf := db \<rparr>)"
    by (rule sample_apply)
  let ?w = "reviewed_world sample_waiting" and ?n = "wf_revision_count job"
  have x: "normalize_decide sample_approval = sample_approval"
    by (simp add: normalize_decide_def sample_approval_def plain_char_def)
  have v: "decide_valid ''w'' ''APPROVE'' sample_approval" by (simp add: decide_valid_def sample_approval_def decision_kinds_def)
  have e: "evidence_for ''w'' ''APPROVE'' sample_approval ?w = (Inr (sample_found job), ?w)"
    using sample_evidence [OF j(1,2)] by (simp add: evidence_backed sample_found_def)
  have ap: "sw_ap ?w = \<lparr> ap_decisions = [], ap_requests = [] \<rparr>" "sw_wf ?w = sample_waiting"
    by (simp_all add: reviewed_world_def sample_stage_world_def)
  have r: "revision_count_for ''w'' sample_approval (ec_job (sample_found job)) ?w = (Inr ?n, ?w)"
    using j by (simp add: revision_count_for_def ap ap_get_by_version_def sample_found_def sample_approval_def)
  let ?w1 = "?w\<lparr> sw_ap := \<lparr> ap_decisions = [sample_decided ?n], ap_requests = [] \<rparr> \<rparr>"
  have m: "on_decisions (ap_create_or_get ''z'' ''y'' 0 True (decision_of ''w'' ''APPROVE'' sample_approval (sample_found job) ?n)) ?w
      = (Inr (sample_decided ?n, True), ?w1)"
    using sample_decision [OF j(5), of job] by (simp add: on_decisions_def ap)
  have env: "de_new_id sample_decide_env = ''z''" "de_request_id sample_decide_env = ''y''" "de_now sample_decide_env = 0"
    "de_refs_ok sample_decide_env" "de_applied_at sample_decide_env = 0" "de_event_ok sample_decide_env = (\<lambda>_. False)"
    by (simp_all add: sample_decide_env_def)
  let ?d = "apply_decision 0 8 (sample_decided ?n)"
  have p: "apply_to_workflow sample_decide_env job (sample_decided ?n) ?w1 = (Inr v, ?w1\<lparr> sw_wf := db \<rparr>)"
    using a ap(2) by simp
  have k: "ap_mark_applied 0 ''z'' 8 \<lparr> ap_decisions = [sample_decided ?n], ap_requests = [] \<rparr>
      = Inr (\<lparr> ap_decisions = [?d], ap_requests = [] \<rparr>, ?d\<lparr> ad_revision_instructions := [] \<rparr>)"
    by (simp add: ap_mark_applied_def sample_decided_fields(1-4) affected_def update_where_def ap_get_def lookup_by_def scan_decision_def
        apply_decision_def rbind_def)
  have k2: "on_decisions (ap_mark_applied 0 ''z'' 8) (?w1\<lparr> sw_wf := db \<rparr>)
      = (Inr (?d\<lparr> ad_revision_instructions := [] \<rparr>), ?w1\<lparr> sw_wf := db, sw_ap := \<lparr> ap_decisions = [?d], ap_requests = [] \<rparr> \<rparr>)"
    using k by (simp add: on_decisions_def)
  have f: "ec_job (sample_found job) = job" by (simp add: sample_found_def)
  have "decide sample_decide_env ''w'' ''APPROVE'' sample_approval ?w
      = (Inr (?d\<lparr> ad_revision_instructions := [] \<rparr>, v), ?w1\<lparr> sw_wf := db, sw_ap := \<lparr> ap_decisions = [?d], ap_requests = [] \<rparr> \<rparr>)"
    using e r m p k2 j(6) f
    by (simp add: decide_def Let_def x v sbind_def env sample_decided_fields(1-4) note_decision_def del: to_upper.simps)
  then show thesis using that by blast
qed

lemma approval_is_backed_witness:
  "\<exists>d job w'. decide sample_decide_env ''w'' ''APPROVE'' sample_approval (reviewed_world sample_waiting) = (Inr (d, job), w') \<and> ad_status d = ApApplied"
proof -
  obtain d job w' where d: "decide sample_decide_env ''w'' ''APPROVE'' sample_approval (reviewed_world sample_waiting) = (Inr (d, job), w')"
    by (rule sample_decide)
  have "to_upper (trim_space ''APPROVE'') = ''APPROVE''" by (simp del: to_upper.simps)
  from approval_is_backed [OF d this] show ?thesis using d by blast
qed

text \<open>A workflow that allows no revision at all, waiting for its approval.\<close>

definition no_revisions :: wf_db where
  "no_revisions = sample_waiting\<lparr> db_workflows := map (\<lambda>v. v\<lparr> wf_revision_count := max_revisions (wf_limits v) \<rparr>) (db_workflows sample_waiting) \<rparr>"

lemma no_revisions_row:
  obtains job where "wf_get no_revisions ''w'' = Inr job" "wf_id job = ''w''" "wf_status_of job = StWaitingApproval" "wf_db_ok no_revisions"
    "wf_revision_count job = max_revisions (wf_limits job)"
proof -
  obtain v where v: "wf_get sample_waiting ''w'' = Inr v" "wf_id v = ''w''" "wf_status_of v = StWaitingApproval"
    "wf_db_ok sample_waiting" "db_workflows sample_waiting = [v]"
    by (rule sample_waiting_row)
  let ?job = "v\<lparr> wf_revision_count := max_revisions (wf_limits v) \<rparr>"
  have d: "db_workflows no_revisions = [?job]" "db_jobs no_revisions = db_jobs sample_waiting"
    "db_transitions no_revisions = db_transitions sample_waiting"
    by (simp_all add: no_revisions_def v(5))
  have s: "wf_row_ok v" "dispatch_ok (db_jobs sample_waiting) v" "log_ok (log_of (db_transitions sample_waiting) ''w'') v"
    using v(2,4,5) by (auto simp: wf_db_ok_def)
  have "wf_row_ok ?job" using s(1) by (auto simp: wf_row_ok_def)
  moreover have "dispatch_ok (db_jobs sample_waiting) ?job" using s(2) v(3) by (simp add: dispatch_ok_def failure_statuses_def)
  moreover have "log_ok (log_of (db_transitions sample_waiting) ''w'') ?job" using s(3) by (simp add: log_ok_def)
  ultimately have "wf_db_ok no_revisions"
    using v(2-5) unfolding wf_db_ok_def d by (simp add: needs_approval_def unique_key_def)
  moreover have "wf_get no_revisions ''w'' = Inr ?job" using v(2) d(1) by (simp add: wf_get_def load_job_def lookup_by_def plain_char_def)
  ultimately show thesis using that [of ?job] v(2,3) by simp
qed

lemma revision_beyond_limit_is_stuck_witness:
  "\<exists>job d r w'. wf_get no_revisions ''w'' = Inr job
    \<and> apply_revision sample_decide_env job d (reviewed_world no_revisions) = (r, w') \<and> r = Inl (DeWorkflow ErrRevisionLimit)"
proof -
  obtain job where j: "wf_get no_revisions ''w'' = Inr job" "wf_id job = ''w''" "wf_status_of job = StWaitingApproval" "wf_db_ok no_revisions"
    "wf_revision_count job = max_revisions (wf_limits job)"
    by (rule no_revisions_row)
  let ?d = "sample_decided (max_revisions (wf_limits job))" and ?w = "reviewed_world no_revisions"
  obtain r w' where a: "apply_revision sample_decide_env job ?d ?w = (r, w')" by fastforce
  have w: "sw_wf ?w = no_revisions" by (simp add: reviewed_world_def sample_stage_world_def)
  have b: "ad_revision_count_before ?d = max_revisions (wf_limits job)"
    by (simp add: sample_decided_def new_decision_def decision_of_def)
  have "r = Inl (DeWorkflow ErrRevisionLimit) \<and> sw_ap w' = sw_ap ?w
      \<and> (\<exists>v. wf_get (sw_wf w') (wf_id job) = Inr v \<and> wf_status_of v = StRevisionRequired)
      \<and> (\<forall>e inp x. wf_transition e (wf_id job) inp (sw_wf w') = Inr x \<longrightarrow> action_of inp = ActCancel)"
    by (rule revision_beyond_limit_is_stuck [OF _ _ j(3) _ _ _ a]) (use j w b sample_details_short in simp_all)
  then show ?thesis using j(1) a by blast
qed

end
