(* ===== verification/PublicationHandler.thy ===== *)
theory PublicationHandler
  imports StageSamples
begin

text \<open>The publication handler (internal/publication/handler.go): one delivery of a \<open>workflow.publish\<close> message. Under the
  write lease of the workspace it compares the tree with the applied approval, commits it, compares the diff of the
  commit with the approval again, records the publication, gives the lease back and completes the workflow.

  The Git commands that change the workspace are a parameter \<open>G\<close>: a result and the tree they leave. The tree of the
  model is the whole working directory, \<open>.git\<close> included, so the commands that read (\<open>se_git\<close>) see what they did.\<close>

type_synonym git_effect = "string \<Rightarrow> string list \<Rightarrow> tree \<Rightarrow> git_result \<times> tree"

subsection \<open>Git\<close>

definition git_change :: "git_effect \<Rightarrow> string \<Rightarrow> string \<Rightarrow> string list \<Rightarrow> unit sstep" where
  "git_change G ctx path args w =
     (case clean_root path (sw_tree w) of
        Inl e \<Rightarrow> lift_result SGit (wrap_git ctx (Inl e)) w
      | Inr root \<Rightarrow>
        (case G root args (sw_tree w) of
           (GitOut _, t) \<Rightarrow> (Inr (), w\<lparr> sw_tree := t \<rparr>)
         | (GitExit c s, t) \<Rightarrow> lift_result SGit (wrap_git ctx (Inl (git_failure args (''exit status '' @ show_int c) s))) (w\<lparr> sw_tree := t \<rparr>)
         | (GitNotRun why, t) \<Rightarrow> lift_result SGit (wrap_git ctx (Inl (git_failure args why []))) (w\<lparr> sw_tree := t \<rparr>)))"

definition current_head :: "git_cmd \<Rightarrow> string \<Rightarrow> tree \<Rightarrow> git_error + string" where
  "current_head git path t = rbind (git_run git path [''rev-parse'', ''HEAD''] t) (\<lambda>s. Inr (trim_space s))"

definition commit_diff :: "git_cmd \<Rightarrow> string \<Rightarrow> string \<Rightarrow> tree \<Rightarrow> git_error + string" where
  "commit_diff git path base t = git_run git path [''diff'', base, ''HEAD'', ''--binary'', ''--no-ext-diff'', ''--no-color''] t"

definition publish_message :: "string \<Rightarrow> string" where
  "publish_message i = ''Orkoda publish: '' @ i"

text \<open>Is HEAD the commit of an earlier attempt? When a command fails, it is not.\<close>

definition is_published_commit :: "git_cmd \<Rightarrow> (string \<Rightarrow> string) \<Rightarrow> string \<Rightarrow> string \<Rightarrow> string \<Rightarrow> string \<Rightarrow> tree \<Rightarrow> bool" where
  "is_published_commit git sha path base i expected t =
     (case current_head git path t of Inl _ \<Rightarrow> False | Inr head \<Rightarrow> head \<noteq> base
      \<and> (case git_run git path [''rev-parse'', ''HEAD^''] t of Inl _ \<Rightarrow> False | Inr parent \<Rightarrow> trim_space parent = base
         \<and> (case git_run git path [''log'', ''-1'', ''--format=%s''] t of Inl _ \<Rightarrow> False | Inr subject \<Rightarrow> trim_space subject = publish_message i
            \<and> (case commit_diff git path base t of Inl _ \<Rightarrow> False | Inr patch \<Rightarrow> checksum sha patch = expected))))"

subsection \<open>The stage\<close>

text \<open>The renewals up to a Git command: when the lease is lost, the context of the stage is cancelled.\<close>

definition keep_lease :: "stage_env \<Rightarrow> stage_site \<Rightarrow> workspace \<Rightarrow> string \<Rightarrow> unit sstep" where
  "keep_lease E site item tok w =
     (case renew_stage E site (w_id item) tok w of
        (None, w1) \<Rightarrow> (Inr (), w1) | (Some _, w1) \<Rightarrow> (Inl (SContext CtxCanceled), w1))"

definition under_lease :: "stage_env \<Rightarrow> stage_site \<Rightarrow> workspace \<Rightarrow> string \<Rightarrow> 'a sstep \<Rightarrow> 'a sstep" where
  "under_lease E site item tok m = sbind (keep_lease E site item tok) (\<lambda>_. on_stage E site m)"

definition stage_error_step :: "stage_env \<Rightarrow> stage_site \<Rightarrow> workspace \<Rightarrow> string \<Rightarrow> unit sstep" where
  "stage_error_step E site item tok w =
     (case renew_stage E site (w_id item) tok w of
        (Some e, w1) \<Rightarrow> (Inl (SCause (SWorkspace e)), w1)
      | (None, w1) \<Rightarrow>
        (case se_watch E site of
           Some WatchCancelled \<Rightarrow> (Inl (SContext CtxCanceled), w1)
         | Some (WatchFailed m) \<Rightarrow> (Inl (SCause (SWatch m)), w1)
         | None \<Rightarrow> on_stage E site (ret ()) w1))"

definition publication_of :: "wf_job \<Rightarrow> decision \<Rightarrow> string \<Rightarrow> publication" where
  "publication_of job d head = \<lparr> pb_id = [], pb_workflow_job_id = wf_id job, pb_execution_version = wf_execution_version job,
     pb_approval_decision_id = ad_id d, pb_base_commit_sha = wf_base_commit_sha job, pb_patch_checksum = ad_patch_checksum d,
     pb_published_commit_sha = head, pb_status = [], pb_error_message = [], pb_created_at = 0, pb_completed_at = None \<rparr>"

text \<open>Recording the publication and giving the lease back, both beyond the context of the delivery.\<close>

definition record_publication :: "stage_env \<Rightarrow> wf_job \<Rightarrow> decision \<Rightarrow> workspace \<Rightarrow> string \<Rightarrow> string \<Rightarrow> publication sstep" where
  "record_publication E job d item tok head =
     sbind (call_pb (pb_complete (se_new_id E AtPublish) (se_now E AtPublish) (se_refs_ok E) (publication_of job d head))) (\<lambda>p.
     sbind (call_ws (release_write (se_now E AtLeaseBack) (w_id item) tok head False)) (\<lambda>_. ret p))"

definition adopt_commit :: "stage_env \<Rightarrow> wf_job \<Rightarrow> decision \<Rightarrow> workspace \<Rightarrow> string \<Rightarrow> publication sstep" where
  "adopt_commit E job d item tok =
     sbind (under_lease E AtResult item tok (read_with SGit (\<lambda>w. current_head (se_git E) (w_path item) (sw_tree w)))) (\<lambda>head.
     record_publication E job d item tok head)"

definition commit_workspace :: "git_effect \<Rightarrow> stage_env \<Rightarrow> wf_job \<Rightarrow> decision \<Rightarrow> workspace \<Rightarrow> string \<Rightarrow> publication sstep" where
  "commit_workspace G E job d item tok =
     sbind (under_lease E (AtStep 0) item tok (git_change G ''stage approved workspace patch'' (w_path item) [''add'', ''--all''])) (\<lambda>_.
     sbind (under_lease E (AtStep 1) item tok (git_change G ''commit approved workspace patch'' (w_path item)
       [''-c'', ''user.name=Orkoda'', ''-c'', ''user.email=orkoda@localhost'', ''commit'', ''--no-verify'', ''--no-gpg-sign'',
        ''--allow-empty'', ''-m'', publish_message (wf_id job)])) (\<lambda>_.
     sbind (under_lease E (AtStep 2) item tok (read_with SGit (\<lambda>w. current_head (se_git E) (w_path item) (sw_tree w)))) (\<lambda>head.
     sbind (under_lease E (AtStep 3) item tok (read_with SGit (\<lambda>w. wrap_git ''verify published workspace patch''
       (commit_diff (se_git E) (w_path item) (wf_base_commit_sha job) (sw_tree w))))) (\<lambda>patch.
     if checksum (se_sha256 E) patch \<noteq> ad_patch_checksum d then fail_with (SCause SPublishedMismatch)
     else record_publication E job d item tok head))))"

text \<open>The publication and whether this delivery made the commit.\<close>

definition publish_checked ::
  "git_effect \<Rightarrow> stage_env \<Rightarrow> wf_job \<Rightarrow> decision \<Rightarrow> workspace \<Rightarrow> string \<Rightarrow> git_snapshot \<Rightarrow> (publication \<times> bool) sstep" where
  "publish_checked G E job d item tok g w =
     (if gs_head g \<noteq> wf_base_commit_sha job \<or> gs_head g \<noteq> ad_base_commit_sha d \<or> gs_checksum g \<noteq> ad_patch_checksum d then
        if gs_head g \<noteq> wf_base_commit_sha job \<and> \<not> se_down E AtRunStart \<and> se_ctx E AtRunStart = None
          \<and> is_published_commit (se_git E) (se_sha256 E) (w_path item) (wf_base_commit_sha job) (wf_id job) (ad_patch_checksum d) (sw_tree w)
        then sbind (adopt_commit E job d item tok) (\<lambda>p. ret (p, False)) w
        else (Inl (SCause SSnapshotMismatch), w)
      else sbind (commit_workspace G E job d item tok) (\<lambda>p. ret (p, True)) w)"

definition publish_snapshot :: "git_effect \<Rightarrow> stage_env \<Rightarrow> wf_job \<Rightarrow> decision \<Rightarrow> workspace \<Rightarrow> string \<Rightarrow> (publication \<times> bool) sstep" where
  "publish_snapshot G E job d item tok =
     sbind (under_lease E AtBaseline item tok (capture_stage E (w_path item))) (\<lambda>g.
     sbind (stage_error_step E AtContext item tok) (\<lambda>_. publish_checked G E job d item tok g))"

text \<open>The deferred release, when the lease has not been given back.\<close>

definition return_lease :: "stage_env \<Rightarrow> workspace \<Rightarrow> string \<Rightarrow> stage_world \<Rightarrow> stage_world" where
  "return_lease E item tok w =
     (case capture_stage E (w_path item) w of
        (Inr g, w1) \<Rightarrow> snd (call_ws (release_write (se_now E AtLeaseBack) (w_id item) tok (gs_head g) (gs_dirty g)) w1)
      | (Inl _, w1) \<Rightarrow> (case release (se_now E AtLeaseBack) (w_id item) tok (sw_ws w1) of
          Inl _ \<Rightarrow> w1 | Inr t \<Rightarrow> w1\<lparr> sw_ws := t \<rparr>))"

definition with_publish_lease :: "stage_env \<Rightarrow> workspace \<Rightarrow> string \<Rightarrow> 'a sstep \<Rightarrow> 'a sstep" where
  "with_publish_lease E item tok m w =
     (case m w of (Inl e, w1) \<Rightarrow> (Inl e, return_lease E item tok w1) | (Inr x, w1) \<Rightarrow> (Inr x, w1))"

definition finish_publication :: "stage_env \<Rightarrow> wf_job \<Rightarrow> publication \<Rightarrow> json_text job \<Rightarrow> unit sstep" where
  "finish_publication E job p j = finish_stage E StPublishing (wf_id job) ''PUBLICATION_COMPLETED''
     [(''dispatch_job_id'', JStr (j_id j)), (''publication_id'', JStr (pb_id p)), (''published_commit_sha'', JStr (pb_published_commit_sha p))]"

definition publishable :: "wf_job \<Rightarrow> decision sstep" where
  "publishable job =
     sbind (read_with SApproval (\<lambda>w. ap_get_by_version (sw_ap w) (wf_id job) (wf_execution_version job))) (\<lambda>d.
     if ad_status d \<noteq> ApApplied \<or> ad_kind d \<noteq> ''APPROVE'' then fail_with (SCause SNotApproved)
     else
       sbind (read_with SCheck (\<lambda>w. ck_get_by_version (sw_ck w) (wf_id job) (wf_execution_version job))) (\<lambda>ck.
       if cr_status ck \<noteq> CkPassed \<and> (cr_status ck \<noteq> CkFailed \<or> \<not> ad_review_override d \<or> trim_space (ad_note d) = [])
       then fail_with (SCause SChecksNotPassed) else ret d))"

definition publish_approved :: "git_effect \<Rightarrow> stage_env \<Rightarrow> json_text job \<Rightarrow> wf_job \<Rightarrow> unit sstep" where
  "publish_approved G E j job =
     sbind (publishable job) (\<lambda>d.
     sbind (ready_workspace job) (\<lambda>item.
     sbind (on_up E AtWriteLease (call_ws (acquire_write (se_new_id E AtWriteLease) (se_now E AtWriteLease) (w_id item)
       (se_worker E @ '':publish'') (se_lease_ttl E)))) (\<lambda>(_, tok).
     sbind (with_publish_lease E item tok (publish_snapshot G E job d item tok)) (\<lambda>(p, fresh).
     sbind (if fresh then note_stage E AtDone (wf_id job) ''publication.completed''
         [(''publication_id'', JStr (pb_id p)), (''published_commit_sha'', JStr (pb_published_commit_sha p)),
          (''approval_decision_id'', JStr (ad_id d))] else ret ()) (\<lambda>_.
     finish_publication E job p j)))))"

definition publish_stage :: "git_effect \<Rightarrow> stage_env \<Rightarrow> json_text job \<Rightarrow> wf_job \<Rightarrow> unit sstep" where
  "publish_stage G E j job w =
     (case pb_get_by_workflow (sw_pb w) (wf_id job) of
        Inr p \<Rightarrow> if pb_status p = ''COMPLETED'' then finish_publication E job p j w else publish_approved G E j job w
      | Inl PbNotFound \<Rightarrow> publish_approved G E j job w
      | Inl e \<Rightarrow> (Inl (SCause (SPublication e)), w))"

definition publication_handle :: "git_effect \<Rightarrow> stage_env \<Rightarrow> json_text job \<Rightarrow> unit sstep" where
  "publication_handle G E j =
     (case decode_publish_dispatch (j_payload j) of
        Inl e \<Rightarrow> fail_with (SCause (SDispatch e))
      | Inr p \<Rightarrow> stage_gate_step E StPublishing p (publish_stage G E j))"

subsection \<open>A failed delivery leaves the workflow alone\<close>

definition unharmed :: "'a sstep \<Rightarrow> bool" where
  "unharmed m = (\<forall>w e w'. m w = (Inl e, w') \<longrightarrow> same_db (sw_wf w) (sw_wf w'))"

lemma unharmedI: "(\<And>w e w'. m w = (Inl e, w') \<Longrightarrow> same_db (sw_wf w) (sw_wf w')) \<Longrightarrow> unharmed m"
  by (simp add: unharmed_def)

lemma unharmedD: "unharmed m \<Longrightarrow> m w = (Inl e, w') \<Longrightarrow> same_db (sw_wf w) (sw_wf w')"
  by (simp add: unharmed_def)

lemma unharmed_bind:
  assumes "quiet m" "\<And>x. unharmed (f x)"
  shows "unharmed (sbind m f)"
proof (rule unharmedI)
  fix w e w' assume "sbind m f w = (Inl e, w')"
  then show "same_db (sw_wf w) (sw_wf w')"
  proof (cases rule: sbind_cases)
    case (failed e')
    then show ?thesis using quietD [OF assms(1)] by blast
  next
    case (went x w1)
    then show ?thesis using same_db_trans [OF quietD [OF assms(1) went(1)] unharmedD [OF assms(2) went(2)]] by simp
  qed
qed

lemma unharmed_finish: "unharmed (finish_stage E st i action details)"
  unfolding finish_stage_def on_up_def
  by (auto intro!: unharmedI simp: sbind_def read_with_def lift_result_def split: sum.splits if_splits prod.splits)

lemma quiet_keep_lease: "quiet (keep_lease E site item tok)"
  by (auto intro!: quietI simp: keep_lease_def renew_stage_def split: option.splits prod.splits)

lemma quiet_leased: "quiet m \<Longrightarrow> quiet (under_lease E site item tok m)"
  unfolding under_lease_def by (intro quiet_bind quiet_keep_lease quiet_on_stage)

lemma quiet_stage_error: "quiet (stage_error_step E site item tok)"
  by (auto intro!: quietI simp: stage_error_step_def renew_stage_def on_stage_def on_up_def
      split: option.splits prod.splits watch_result.splits if_splits)

lemma quiet_change: "quiet (git_change G ctx path args)"
  by (auto intro!: quietI simp: git_change_def lift_result_def wrap_git_def split: sum.splits prod.splits git_result.splits git_error.splits)

lemma quiet_record: "quiet (record_publication E job d item tok head)"
  unfolding record_publication_def by (intro quiet_bind quiet_calls)

lemma quiet_snapshot: "quiet (publish_snapshot G E job d item tok)"
proof -
  have a: "quiet (adopt_commit E job d item tok)"
    unfolding adopt_commit_def by (intro quiet_bind quiet_leased quiet_calls quiet_record)
  have c: "quiet (commit_workspace G E job d item tok)"
    unfolding commit_workspace_def by (intro quiet_bind quiet_leased quiet_calls quiet_change) (auto intro: quiet_record)
  have "quiet (publish_checked G E job d item tok g)" for g
    using quietD [OF quiet_bind [OF a quiet_calls(1)]] quietD [OF quiet_bind [OF c quiet_calls(1)]]
    by (auto intro!: quietI simp: publish_checked_def split: if_splits)
  then show ?thesis
    unfolding publish_snapshot_def by (intro quiet_bind quiet_leased quiet_calls quiet_stage_error)
qed

lemma return_lease_keeps [simp]:
  "sw_wf (return_lease E item tok w) = sw_wf w" "sw_tree (return_lease E item tok w) = sw_tree w" "sw_pb (return_lease E item tok w) = sw_pb w"
  by (auto simp: return_lease_def capture_stage_def read_with_def lift_result_def call_ws_def split: sum.splits prod.splits)

lemma quiet_with_lease: "quiet m \<Longrightarrow> quiet (with_publish_lease E item tok m)"
  by (auto intro!: quietI simp: with_publish_lease_def dest: quietD split: prod.splits sum.splits)

lemma quiet_publishable: "quiet (publishable job)"
  unfolding publishable_def by (auto intro!: quiet_bind)

lemma publish_unharmed: "unharmed (publish_approved G E j job)"
  unfolding publish_approved_def finish_publication_def
  by (auto intro!: unharmed_bind quiet_publishable quiet_on_up quiet_with_lease quiet_snapshot unharmed_finish split: prod.splits)

lemma publication_unharmed: "unharmed (publication_handle G E j)"
proof -
  have u: "unharmed (publish_stage G E j job)" for job
    using unharmedD [OF publish_unharmed] unharmedD [OF unharmed_finish]
    by (auto intro!: unharmedI simp: publish_stage_def finish_publication_def split: sum.splits if_splits pb_error.splits)
  have "unharmed (stage_gate_step E StPublishing p (publish_stage G E j))" for p
    unfolding stage_gate_step_def on_up_def by (auto intro!: unharmedI dest: unharmedD [OF u] split: gate.splits if_splits)
  then show ?thesis by (auto intro!: unharmedI simp: publication_handle_def dest: unharmedD split: sum.splits)
qed

text \<open>C0: A failed publication does not fail the workflow. Whatever error a publication delivery returns, on whichever
  attempt, the workflows, their dispatches and their history are as before it: a workflow in PUBLISHING whose last
  delivery fails stays in PUBLISHING with a dead job, where each of the other stages would have failed it.\<close>

theorem failed_publication_stays:
  assumes "publication_handle G E j w = (Inl e, w')"
  shows "same_db (sw_wf w) (sw_wf w') \<and> (at_stage StPublishing i (sw_wf w) \<longrightarrow> at_stage StPublishing i (sw_wf w'))"
  using unharmedD [OF publication_unharmed assms] same_db_stage by blast

subsection \<open>What is published is what was approved\<close>

text \<open>The row that completing a publication leaves.\<close>

lemma completed_row:
  assumes "pb_complete new_id now refs raw t = Inr (t', q)"
  shows "q \<in> set t'" "pb_workflow_job_id q = trim_space (pb_workflow_job_id raw)" "pb_approval_decision_id q = trim_space (pb_approval_decision_id raw)"
    "pb_patch_checksum q = trim_space (pb_patch_checksum raw)" "pb_published_commit_sha q = trim_space (pb_published_commit_sha raw)"
proof -
  let ?p = "trim_publication raw"
  obtain row where row: "upsert_publication row t = Some t'" "pb_workflow_job_id row = pb_workflow_job_id ?p"
      "pb_approval_decision_id row = pb_approval_decision_id ?p" "pb_patch_checksum row = pb_patch_checksum ?p"
      "pb_published_commit_sha row = pb_published_commit_sha ?p"
    and g: "pb_get_by_workflow t' (pb_workflow_job_id ?p) = Inr q"
    using assms by (auto simp: pb_complete_def Let_def rbind_eq_Inr split: if_splits option.splits)
  have i: "pb_workflow_job_id ?p = trim_space (pb_workflow_job_id raw)" by (simp add: trim_publication_def)
  have q: "q \<in> set t'" "pb_workflow_job_id q = pb_workflow_job_id ?p"
    using g i lookup_by_Some by (fastforce simp: pb_get_by_workflow_def split: option.splits)+
  then have "pb_approval_decision_id q = pb_approval_decision_id row \<and> pb_patch_checksum q = pb_patch_checksum row
      \<and> pb_published_commit_sha q = pb_published_commit_sha row"
    using row(1,2) by (auto simp: upsert_publication_def set_update_where image_iff dest!: bspec [where x = q] split: if_splits)
  then show "q \<in> set t'" "pb_workflow_job_id q = trim_space (pb_workflow_job_id raw)" "pb_approval_decision_id q = trim_space (pb_approval_decision_id raw)"
      "pb_patch_checksum q = trim_space (pb_patch_checksum raw)" "pb_published_commit_sha q = trim_space (pb_published_commit_sha raw)"
    using q row(3-5) i by (simp_all add: trim_publication_def)
qed

text \<open>Either the publications are the old ones, or the tree ends at a commit whose diff has the approved checksum and a row
  names it.\<close>

definition published_as :: "stage_env \<Rightarrow> string \<Rightarrow> wf_job \<Rightarrow> decision \<Rightarrow> publication list \<Rightarrow> stage_world \<Rightarrow> bool" where
  "published_as E path job d old w = (sw_pb w = old \<or> (\<exists>patch. \<exists>p\<in>set (sw_pb w).
     commit_diff (se_git E) path (wf_base_commit_sha job) (sw_tree w) = Inr patch \<and> checksum (se_sha256 E) patch = ad_patch_checksum d
     \<and> current_head (se_git E) path (sw_tree w) = Inr (pb_published_commit_sha p) \<and> pb_workflow_job_id p = trim_space (wf_id job)
     \<and> pb_approval_decision_id p = trim_space (ad_id d)))"

lemma unpublished: "sw_pb w = old \<Longrightarrow> published_as E path job d old w"
  by (simp add: published_as_def)

abbreviation published_part :: "stage_world \<Rightarrow> publication list \<times> tree" where
  "published_part w \<equiv> (sw_pb w, sw_tree w)"

lemma published_as_part: "published_part w' = published_part w \<Longrightarrow> published_as E path job d old w' = published_as E path job d old w"
  by (simp add: published_as_def)

lemma keeps_published_lease: "keeps published_part (keep_lease E site item tok)"
  by (auto intro!: keepsI simp: keep_lease_def renew_stage_def split: option.splits prod.splits)

lemma keeps_leased: "keeps published_part m \<Longrightarrow> keeps published_part (under_lease E site item tok m)"
  unfolding under_lease_def by (intro keeps_bind keeps_published_lease keeps_on_stage)

lemma keeps_stage_error: "keeps published_part (stage_error_step E site item tok)"
  by (auto intro!: keepsI simp: stage_error_step_def renew_stage_def on_stage_def on_up_def
      split: option.splits prod.splits watch_result.splits if_splits)

lemma post_keeps: "keeps f m \<Longrightarrow> post m w (\<lambda>r w'. f w' = f w)"
  by (rule postI) (rule part_kept)

lemma leased_read:
  assumes "under_lease E site item tok (read_with h g) w = (Inr x, w')"
  shows "g w' = Inr x \<or> (\<exists>w1. g w1 = Inr x \<and> published_part w1 = published_part w')"
  using assms part_kept [OF keeps_published_lease]
  by (auto simp: under_lease_def on_stage_def on_up_def read_with_def lift_result_def elim!: sbind_cases split: if_splits option.splits sum.splits)

lemma head_read:
  assumes "under_lease E site item tok (read_with SGit (\<lambda>w. current_head (se_git E) path (sw_tree w))) w = (Inr head, w')"
  shows "current_head (se_git E) path (sw_tree w') = Inr head" "published_part w' = published_part w"
  using leased_read [OF assms] part_kept [OF keeps_leased [OF keeps_plain(4)] assms] by auto

lemma diff_read:
  assumes "under_lease E site item tok (read_with SGit (\<lambda>w. wrap_git m (commit_diff (se_git E) path base (sw_tree w)))) w = (Inr patch, w')"
  shows "commit_diff (se_git E) path base (sw_tree w') = Inr patch" "published_part w' = published_part w"
proof -
  have "wrap_git m (commit_diff (se_git E) path base (sw_tree w')) = Inr patch" using leased_read [OF assms] by auto
  then show "commit_diff (se_git E) path base (sw_tree w') = Inr patch"
    by (auto simp: wrap_git_def split: sum.splits git_error.splits)
  show "published_part w' = published_part w" by (rule part_kept [OF keeps_leased [OF keeps_plain(4)] assms])
qed

lemma record_publishes:
  assumes "current_head (se_git E) path (sw_tree w) = Inr head" "commit_diff (se_git E) path (wf_base_commit_sha job) (sw_tree w) = Inr patch"
    "checksum (se_sha256 E) patch = ad_patch_checksum d"
  shows "post (record_publication E job d item tok head) w (\<lambda>_. published_as E path job d (sw_pb w))"
proof -
  have h: "trim_space head = head" using assms(1) by (auto simp: current_head_def rbind_eq_Inr)
  have k: "post (call_pb (pb_complete a b c (publication_of job d head))) w (\<lambda>_. published_as E path job d (sw_pb w))" for a b c
  proof (rule postI)
    fix r w' assume "call_pb (pb_complete a b c (publication_of job d head)) w = (r, w')"
    then show "published_as E path job d (sw_pb w) w'"
      using completed_row [of a b c "publication_of job d head" "sw_pb w"] assms h
      by (fastforce simp: call_pb_def published_as_def publication_of_def split: sum.splits prod.splits)
  qed
  have m: "post (sbind (call_ws (release_write x (w_id item) tok head False)) (\<lambda>_. ret p)) u (\<lambda>_. published_as E path job d (sw_pb w))"
    if "published_as E path job d (sw_pb w) u" for x p u
    using that by (auto simp: post_def sbind_def call_ws_def published_as_def split: sum.splits prod.splits)
  show ?thesis unfolding record_publication_def by (rule post_bindI [OF k]) (simp_all add: m)
qed

lemma git_change_pb: "git_change G ctx path args w = (r, w') \<Longrightarrow> sw_pb w' = sw_pb w"
  by (auto simp: git_change_def lift_result_def wrap_git_def split: sum.splits prod.splits git_result.splits git_error.splits)

lemma change_keeps: "under_lease E site item tok (git_change G ctx path args) w = (r, w') \<Longrightarrow> sw_pb w' = sw_pb w"
  using part_kept [OF keeps_published_lease] git_change_pb
  by (auto simp: under_lease_def on_stage_def on_up_def elim!: sbind_cases split: if_splits option.splits)

lemma commit_publishes: "post (commit_workspace G E job d item tok) w (\<lambda>_. published_as E (w_path item) job d (sw_pb w))"
proof (rule postI)
  fix r w' assume "commit_workspace G E job d item tok w = (r, w')"
  then show "published_as E (w_path item) job d (sw_pb w) w'"
    unfolding commit_workspace_def
  proof (elim sbind_cases)
    fix u1 w1 u2 w2 head w3 patch w4
    assume a: "under_lease E (AtStep 0) item tok (git_change G ''stage approved workspace patch'' (w_path item) [''add'', ''--all'']) w = (Inr u1, w1)"
      and b: "under_lease E (AtStep 1) item tok (git_change G ''commit approved workspace patch'' (w_path item)
         [''-c'', ''user.name=Orkoda'', ''-c'', ''user.email=orkoda@localhost'', ''commit'', ''--no-verify'', ''--no-gpg-sign'',
          ''--allow-empty'', ''-m'', publish_message (wf_id job)]) w1 = (Inr u2, w2)"
      and c: "under_lease E (AtStep 2) item tok (read_with SGit (\<lambda>w. current_head (se_git E) (w_path item) (sw_tree w))) w2 = (Inr head, w3)"
      and d: "under_lease E (AtStep 3) item tok (read_with SGit (\<lambda>w. wrap_git ''verify published workspace patch''
         (commit_diff (se_git E) (w_path item) (wf_base_commit_sha job) (sw_tree w)))) w3 = (Inr patch, w4)"
      and e: "(if checksum (se_sha256 E) patch \<noteq> ad_patch_checksum d then fail_with (SCause SPublishedMismatch)
         else record_publication E job d item tok head) w4 = (r, w')"
    have pb: "sw_pb w4 = sw_pb w"
      using change_keeps [OF a] change_keeps [OF b] head_read(2) [OF c] diff_read(2) [OF d] by simp
    have "current_head (se_git E) (w_path item) (sw_tree w4) = Inr head"
      using head_read(1) [OF c] diff_read(2) [OF d] by simp
    from postD [OF record_publishes [OF this diff_read(1) [OF d]]] show ?thesis
      using e pb by (auto simp: published_as_def split: if_splits)
  qed (rule unpublished, auto dest!: change_keeps part_kept [OF keeps_leased [OF keeps_plain(4)]])+
qed

lemma adoption_publishes:
  assumes "is_published_commit (se_git E) (se_sha256 E) (w_path item) (wf_base_commit_sha job) i (ad_patch_checksum d) (sw_tree w)"
  shows "post (adopt_commit E job d item tok) w (\<lambda>_. published_as E (w_path item) job d (sw_pb w))"
proof (rule postI)
  obtain patch where p: "commit_diff (se_git E) (w_path item) (wf_base_commit_sha job) (sw_tree w) = Inr patch"
    "checksum (se_sha256 E) patch = ad_patch_checksum d"
    using assms by (auto simp: is_published_commit_def split: sum.splits)
  fix r w' assume "adopt_commit E job d item tok w = (r, w')"
  then show "published_as E (w_path item) job d (sw_pb w) w'"
    unfolding adopt_commit_def
  proof (cases rule: sbind_cases)
    case (failed e)
    have "sw_pb w' = sw_pb w" using part_kept [OF keeps_leased [OF keeps_plain(4)] failed(1)] by simp
    then show ?thesis by (rule unpublished)
  next
    case (went head w1)
    then show ?thesis
      using head_read [OF went(1)] p postD [OF record_publishes [OF head_read(1) [OF went(1)]] went(2)] by simp
  qed
qed

lemma with_lease_publishes:
  assumes "post m w (\<lambda>_. published_as E path job d old)"
  shows "post (with_publish_lease E item tok m) w (\<lambda>_. published_as E path job d old)"
  using assms by (auto simp: post_def with_publish_lease_def published_as_def split: prod.splits sum.splits)

lemma post_ret_bind: "post m w (\<lambda>_. Q) \<Longrightarrow> post (sbind m (\<lambda>x. ret (f x))) w (\<lambda>_. Q)"
  by (rule post_bindI) auto

lemma checked_publishes: "post (publish_checked G E job d item tok g) w (\<lambda>_. published_as E (w_path item) job d (sw_pb w))"
proof -
  have a: "post (sbind (commit_workspace G E job d item tok) (\<lambda>p. ret (p, True))) w (\<lambda>_. published_as E (w_path item) job d (sw_pb w))"
    by (rule post_ret_bind [OF commit_publishes])
  have b: "post (sbind (adopt_commit E job d item tok) (\<lambda>p. ret (p, False))) w (\<lambda>_. published_as E (w_path item) job d (sw_pb w))"
    if "is_published_commit (se_git E) (se_sha256 E) (w_path item) (wf_base_commit_sha job) (wf_id job) (ad_patch_checksum d) (sw_tree w)"
    by (rule post_ret_bind [OF adoption_publishes [OF that]])
  show ?thesis using a b by (simp add: post_def publish_checked_def unpublished)
qed

lemma snapshot_publishes: "post (publish_snapshot G E job d item tok) w (\<lambda>_. published_as E (w_path item) job d (sw_pb w))"
  unfolding publish_snapshot_def
proof (rule post_bindI [OF post_keeps [OF keeps_leased [OF keeps_reads(1)]]])
  fix g w1 assume 1: "published_part w1 = published_part w"
  show "post (sbind (stage_error_step E AtContext item tok) (\<lambda>_. publish_checked G E job d item tok g)) w1
      (\<lambda>_. published_as E (w_path item) job d (sw_pb w))"
  proof (rule post_bindI [OF post_keeps [OF keeps_stage_error]])
    fix u w2 assume "published_part w2 = published_part w1"
    then have "sw_pb w2 = sw_pb w" using 1 by simp
    with checked_publishes [of G E job d item tok g w2]
    show "post (publish_checked G E job d item tok g) w2 (\<lambda>_. published_as E (w_path item) job d (sw_pb w))" by simp
  qed (use 1 in \<open>auto intro: unpublished\<close>)
qed (auto intro: unpublished)

lemma publishable_done:
  assumes "publishable job w = (Inr d, w')"
  shows "w' = w" "ap_get_by_version (sw_ap w) (wf_id job) (wf_execution_version job) = Inr d" "ad_status d = ApApplied" "ad_kind d = ''APPROVE''"
    "\<exists>ck. ck_get_by_version (sw_ck w) (wf_id job) (wf_execution_version job) = Inr ck
      \<and> (cr_status ck = CkPassed \<or> cr_status ck = CkFailed \<and> ad_review_override d \<and> trim_space (ad_note d) \<noteq> [])"
  using assms unfolding publishable_def
  by (auto simp: read_with_def lift_result_def elim!: sbind_InrE split: sum.splits if_splits)

lemma ready_done:
  assumes "ready_workspace job w = (Inr item, w')"
  shows "w' = w" "ws_get_by_workflow (sw_ws w) (wf_id job) = Inr item" "w_status item = WsReady"
  using assms unfolding ready_workspace_def
  by (auto simp: read_with_def lift_result_def elim!: sbind_InrE split: sum.splits if_splits)

lemma keeps_publishable: "keeps f (publishable job)"
  unfolding publishable_def by (auto intro!: keeps_bind)

lemma keeps_ending:
  "keeps published_part (sbind (if fresh then note_stage E AtDone i ty kvs else ret ()) (\<lambda>_. finish_publication E job p j))"
  unfolding finish_publication_def by (auto intro!: keeps_bind keeps_note keeps_finish)

lemma ending_publishes:
  assumes "published_as E path job d old w"
  shows "post (sbind (if fresh then note_stage E' AtDone i ty kvs else ret ()) (\<lambda>_. finish_publication E' job' p j)) w
    (\<lambda>_. published_as E path job d old)"
proof (rule postI)
  fix r w' assume "sbind (if fresh then note_stage E' AtDone i ty kvs else ret ()) (\<lambda>_. finish_publication E' job' p j) w = (r, w')"
  from part_kept [OF keeps_ending this] show "published_as E path job d old w'" using assms published_as_part by blast
qed

definition may_publish :: "stage_world \<Rightarrow> wf_job \<Rightarrow> decision \<Rightarrow> workspace \<Rightarrow> bool" where
  "may_publish w job d item = (ap_get_by_version (sw_ap w) (wf_id job) (wf_execution_version job) = Inr d
     \<and> ad_status d = ApApplied \<and> ad_kind d = ''APPROVE''
     \<and> (\<exists>ck. ck_get_by_version (sw_ck w) (wf_id job) (wf_execution_version job) = Inr ck
          \<and> (cr_status ck = CkPassed \<or> cr_status ck = CkFailed \<and> ad_review_override d \<and> trim_space (ad_note d) \<noteq> []))
     \<and> ws_get_by_workflow (sw_ws w) (wf_id job) = Inr item \<and> w_status item = WsReady)"

lemma approved_publishes:
  assumes "publish_approved G E j job w = (r, w')"
  shows "sw_pb w' = sw_pb w \<or> (\<exists>d item. may_publish w job d item \<and> published_as E (w_path item) job d (sw_pb w) w')"
  using assms unfolding publish_approved_def
proof (cases rule: sbind_cases)
  case (failed e)
  then show ?thesis using part_kept [OF keeps_publishable] by blast
next
  case (went d w1)
  note d = publishable_done [OF went(1)]
  show ?thesis
    using went(2)
  proof (cases rule: sbind_cases)
    case (failed e)
    then show ?thesis using part_kept [OF keeps_reads(3) failed(1), of sw_pb] d(1) by simp
  next
    case (went item w2)
    note i = ready_done [OF went(1)]
    have a: "may_publish w job d item" using d i by (simp add: may_publish_def)
    have k: "keeps published_part (on_up E AtWriteLease (call_ws m))" for m
      by (intro keeps_on_up keeps_ws) simp
    show ?thesis
      using went(2)
    proof (cases rule: sbind_cases)
      case (failed e)
      then show ?thesis using part_kept [OF k failed(1)] d(1) i(1) by simp
    next
      case (went x w3)
      obtain l tok where x: "x = (l, tok)" by fastforce
      have pb: "sw_pb w3 = sw_pb w" using part_kept [OF k went(1)] d(1) i(1) by simp
      have p: "post (with_publish_lease E item tok (publish_snapshot G E job d item tok)) w3 (\<lambda>_. published_as E (w_path item) job d (sw_pb w))"
        by (rule with_lease_publishes) (rule snapshot_publishes [of G E job d item tok w3, unfolded pb])
      have "post (sbind (with_publish_lease E item tok (publish_snapshot G E job d item tok)) (\<lambda>(p, fresh).
          sbind (if fresh then note_stage E AtDone (wf_id job) ''publication.completed''
              [(''publication_id'', JStr (pb_id p)), (''published_commit_sha'', JStr (pb_published_commit_sha p)),
               (''approval_decision_id'', JStr (ad_id d))] else ret ()) (\<lambda>_. finish_publication E job p j))) w3
          (\<lambda>_. published_as E (w_path item) job d (sw_pb w))"
        by (rule post_bindI [OF p]) (simp_all add: ending_publishes split: prod.split)
      from postD [OF this] show ?thesis using went(2) x a by auto
    qed
  qed
qed

text \<open>What the tables must hold for a workflow to be published, row by row: the workflow that the message names, not
  behind it, in PUBLISHING and not being cancelled; the applied approval and the check run of its execution version;
  its READY workspace.\<close>

definition publishing_row :: "wf_db \<Rightarrow> dispatch_payload_rec \<Rightarrow> wf_job \<Rightarrow> bool" where
  "publishing_row db q job = (job \<in> set (db_workflows db) \<and> wf_id job = trim_space (dp_workflow_job_id q)
     \<and> dp_workflow_version q \<le> wf_version job \<and> wf_status_of job = StPublishing \<and> \<not> wf_cancellation_requested job
     \<and> 1 \<le> wf_execution_version job)"

definition approval_row :: "approval_db \<Rightarrow> wf_job \<Rightarrow> decision \<Rightarrow> bool" where
  "approval_row db job d = (d \<in> set (ap_decisions db) \<and> ad_workflow_job_id d = wf_id job
     \<and> ad_execution_version d = wf_execution_version job \<and> ad_status d = ApApplied \<and> ad_kind d = ''APPROVE'')"

definition settled_by :: "check_db \<Rightarrow> wf_job \<Rightarrow> decision \<Rightarrow> bool" where
  "settled_by db job d = (\<exists>k\<in>set (cd_runs db). cr_workflow_job_id k = wf_id job \<and> cr_execution_version k = wf_execution_version job
     \<and> (cr_status k = CkPassed \<or> cr_status k = CkFailed \<and> ad_review_override d \<and> trim_space (ad_note d) \<noteq> []))"

definition workspace_row :: "ws_table \<Rightarrow> wf_job \<Rightarrow> ws_row \<Rightarrow> bool" where
  "workspace_row t job r = (r \<in> set t \<and> ws_workflow_job_id r = wf_id job \<and> ws_status r = WsReady)"

lemma may_publish_rows:
  assumes "may_publish w job d item" "trim_space (wf_id job) = wf_id job"
  obtains d0 r where "approval_row (sw_ap w) job d0" "settled_by (sw_ck w) job d0" "workspace_row (sw_ws w) job r"
    "w_path item = ws_path r" "ad_patch_checksum d = ad_patch_checksum d0" "ad_id d = ad_id d0"
proof -
  have a: "ap_get_by_version (sw_ap w) (wf_id job) (wf_execution_version job) = Inr d" "ad_status d = ApApplied" "ad_kind d = ''APPROVE''"
    "ws_get_by_workflow (sw_ws w) (wf_id job) = Inr item" "w_status item = WsReady"
    using assms(1) by (simp_all add: may_publish_def)
  obtain k where k: "ck_get_by_version (sw_ck w) (wf_id job) (wf_execution_version job) = Inr k"
    "cr_status k = CkPassed \<or> cr_status k = CkFailed \<and> ad_review_override d \<and> trim_space (ad_note d) \<noteq> []"
    using assms(1) by (auto simp: may_publish_def)
  obtain d0 where d: "d0 \<in> set (ap_decisions (sw_ap w))" "ad_workflow_job_id d0 = wf_id job"
    "ad_execution_version d0 = wf_execution_version job" "d = scan_decision (sw_ap w) d0"
    using a(1) assms(2) by (auto simp: ap_get_by_version_def dest: find_set split: option.splits)
  obtain r where r: "r \<in> set (sw_ws w)" "ws_workflow_job_id r = wf_id job" "item = scan_workspace r"
    using a(4) assms(2) lookup_by_Some [of ws_workflow_job_id "wf_id job" "sw_ws w"]
    by (auto simp: ws_get_by_workflow_def load_by_workflow_def split: option.splits)
  have k': "k \<in> set (cd_runs (sw_ck w))" "cr_workflow_job_id k = wf_id job" "cr_execution_version k = wf_execution_version job"
    using k(1) assms(2) by (auto simp: ck_get_by_version_def dest: find_set split: option.splits)
  show thesis
  proof (rule that)
    show "approval_row (sw_ap w) job d0" using d a(2,3) by (simp add: approval_row_def scan_decision_def)
    show "settled_by (sw_ck w) job d0" using k' k(2) d(4) by (auto simp: settled_by_def scan_decision_def)
    show "workspace_row (sw_ws w) job r" using r a(5) by (simp add: workspace_row_def scan_workspace_def)
  qed (simp_all add: d(4) r(3) scan_decision_def scan_workspace_def)
qed

lemma publish_delivery:
  assumes "publication_handle G E j w = (r, w')" "sw_pb w' \<noteq> sw_pb w"
  obtains q job where "decode_publish_dispatch (j_payload j) = Inr q" "stage_gate StPublishing (sw_wf w) q = GateProceed job"
    "publish_approved G E j job w = (r, w')"
proof -
  have f: "finish_publication E job p j w = (r, w') \<Longrightarrow> sw_pb w' = sw_pb w" for job p
    unfolding finish_publication_def by (rule part_kept [OF keeps_finish]) simp
  obtain q job where q: "decode_publish_dispatch (j_payload j) = Inr q" "stage_gate StPublishing (sw_wf w) q = GateProceed job"
    and s: "publish_stage G E j job w = (r, w')"
    using assms by (auto simp: publication_handle_def stage_gate_step_def on_up_def split: sum.splits gate.splits if_splits)
  have "publish_approved G E j job w = (r, w')"
    using s f assms(2) by (auto simp: publish_stage_def split: sum.splits if_splits pb_error.splits)
  with q that show thesis by blast
qed

lemma gate_row: "stage_gate StPublishing db q = GateProceed job \<Longrightarrow> publishing_row db q job"
  by (auto simp: stage_gate_def publishing_row_def dest: wf_get_Inr split: if_splits sum.splits)

text \<open>C0: What is published is what was approved. When a delivery records a publication, the workflow row that its message
  names is in PUBLISHING, not behind the message and not being cancelled; the tables hold an applied approval of this
  workflow at its execution version, and a check run of that version which has passed or which the approval overrides with
  a note. The workspace of this workflow ends at the commit that the new row names, and the difference between
  the base commit of the workflow row and that commit has exactly the checksum of the approval row.\<close>

theorem published_is_approved:
  assumes "publication_handle G E j w = (r, w')" "sw_pb w' \<noteq> sw_pb w"
  shows "\<exists>q job d item patch. \<exists>p\<in>set (sw_pb w').
      decode_publish_dispatch (j_payload j) = Inr q \<and> publishing_row (sw_wf w) q job
    \<and> approval_row (sw_ap w) job d \<and> settled_by (sw_ck w) job d \<and> workspace_row (sw_ws w) job item
    \<and> commit_diff (se_git E) (ws_path item) (wf_base_commit_sha job) (sw_tree w') = Inr patch
    \<and> checksum (se_sha256 E) patch = ad_patch_checksum d
    \<and> current_head (se_git E) (ws_path item) (sw_tree w') = Inr (pb_published_commit_sha p)
    \<and> pb_workflow_job_id p = wf_id job \<and> pb_approval_decision_id p = trim_space (ad_id d)"
proof -
  obtain q job where q: "decode_publish_dispatch (j_payload j) = Inr q" "stage_gate StPublishing (sw_wf w) q = GateProceed job"
    and s: "publish_approved G E j job w = (r, w')"
    by (rule publish_delivery [OF assms])
  note row = gate_row [OF q(2)]
  have i: "trim_space (wf_id job) = wf_id job" using row by (simp add: publishing_row_def)
  obtain d item where m: "may_publish w job d item" and p: "published_as E (w_path item) job d (sw_pb w) w'"
    using approved_publishes [OF s] assms(2) by blast
  obtain d0 y where y: "approval_row (sw_ap w) job d0" "settled_by (sw_ck w) job d0" "workspace_row (sw_ws w) job y"
    "w_path item = ws_path y" "ad_patch_checksum d = ad_patch_checksum d0" "ad_id d = ad_id d0"
    by (rule may_publish_rows [OF m i])
  obtain patch x where "x \<in> set (sw_pb w')" "commit_diff (se_git E) (w_path item) (wf_base_commit_sha job) (sw_tree w') = Inr patch"
    "checksum (se_sha256 E) patch = ad_patch_checksum d" "current_head (se_git E) (w_path item) (sw_tree w') = Inr (pb_published_commit_sha x)"
    "pb_workflow_job_id x = trim_space (wf_id job)" "pb_approval_decision_id x = trim_space (ad_id d)"
    using p assms(2) unfolding published_as_def by blast
  then show ?thesis
    using q(1) row y i
    by (intro exI [of _ q] exI [of _ job] exI [of _ d0] exI [of _ y] exI [of _ patch] bexI [of _ x]) simp_all
qed

subsection \<open>A commit that does not match is final\<close>

text \<open>The head has left the base, and what it adds is not what was approved.\<close>

definition wrong_commit :: "stage_env \<Rightarrow> wf_job \<Rightarrow> stage_world \<Rightarrow> bool" where
  "wrong_commit E job w = (pb_get_by_workflow (sw_pb w) (wf_id job) = Inl PbNotFound
     \<and> (\<forall>item d. may_publish w job d item \<longrightarrow>
          (\<forall>g. capture (se_git E) (se_sha256 E) (w_path item) default_max_patch_bytes (sw_tree w) = Inr g \<longrightarrow> gs_head g \<noteq> wf_base_commit_sha job)
        \<and> (\<forall>patch. commit_diff (se_git E) (w_path item) (wf_base_commit_sha job) (sw_tree w) = Inr patch
             \<longrightarrow> checksum (se_sha256 E) patch \<noteq> ad_patch_checksum d)))"

lemma refused_snapshot:
  assumes "\<And>g. capture (se_git E) (se_sha256 E) (w_path item) default_max_patch_bytes (sw_tree w) = Inr g \<Longrightarrow> gs_head g \<noteq> wf_base_commit_sha job"
    and "\<And>patch. commit_diff (se_git E) (w_path item) (wf_base_commit_sha job) (sw_tree w) = Inr patch \<Longrightarrow> checksum (se_sha256 E) patch \<noteq> ad_patch_checksum d"
  shows "post (publish_snapshot G E job d item tok) w (\<lambda>r w'. isl r \<and> published_part w' = published_part w)"
  unfolding publish_snapshot_def
proof (rule post_bindI [where P = "\<lambda>r w'. published_part w' = published_part w \<and> (\<forall>g. r = Inr g \<longrightarrow> gs_head g \<noteq> wf_base_commit_sha job)"])
  show "post (under_lease E AtBaseline item tok (capture_stage E (w_path item))) w
      (\<lambda>r w'. published_part w' = published_part w \<and> (\<forall>g. r = Inr g \<longrightarrow> gs_head g \<noteq> wf_base_commit_sha job))"
  proof (rule postI)
    fix r w' assume h: "under_lease E AtBaseline item tok (capture_stage E (w_path item)) w = (r, w')"
    have p: "published_part w' = published_part w" by (rule part_kept [OF keeps_leased [OF keeps_reads(1)] h])
    then show "published_part w' = published_part w \<and> (\<forall>g. r = Inr g \<longrightarrow> gs_head g \<noteq> wf_base_commit_sha job)"
      using assms(1) leased_read [of E AtBaseline item tok SGit _ w _ w'] h unfolding capture_stage_def by fastforce
  qed
next
  fix g :: git_snapshot and w1 assume "published_part w1 = published_part w \<and> (\<forall>g'. Inr g = Inr g' \<longrightarrow> gs_head g' \<noteq> wf_base_commit_sha job)"
  then have g: "gs_head g \<noteq> wf_base_commit_sha job" and 1: "published_part w1 = published_part w" by blast+
  show "post (sbind (stage_error_step E AtContext item tok) (\<lambda>_. publish_checked G E job d item tok g)) w1
      (\<lambda>r w'. isl r \<and> published_part w' = published_part w)"
  proof (rule post_bindI [OF post_keeps [OF keeps_stage_error]])
    fix u w2 assume 2: "published_part w2 = published_part w1"
    then have "\<not> is_published_commit (se_git E) (se_sha256 E) (w_path item) (wf_base_commit_sha job) (wf_id job) (ad_patch_checksum d) (sw_tree w2)"
      using 1 assms(2) by (auto simp: is_published_commit_def split: sum.splits)
    then show "post (publish_checked G E job d item tok g) w2 (\<lambda>r w'. isl r \<and> published_part w' = published_part w)"
      using g 1 2 by (auto simp: post_def publish_checked_def)
  qed (use 1 in auto)
qed auto

lemma refused_publication:
  assumes "wrong_commit E job w" "publish_approved G E j job w = (r, w')"
  shows "isl r \<and> published_part w' = published_part w"
  using assms(2) unfolding publish_approved_def
proof (cases rule: sbind_cases)
  case (failed e)
  then show ?thesis using part_kept [OF keeps_publishable failed(1), of published_part] by simp
next
  case (went d w1)
  note d = publishable_done [OF went(1)]
  show ?thesis
    using went(2)
  proof (cases rule: sbind_cases)
    case (failed e)
    then show ?thesis using part_kept [OF keeps_reads(3) failed(1), of published_part] d(1) by simp
  next
    case (went item w2)
    note i = ready_done [OF went(1)]
    have a: "may_publish w job d item" using d i by (simp add: may_publish_def)
    have k: "keeps published_part (on_up E AtWriteLease (call_ws m))" for m
      by (intro keeps_on_up keeps_ws) simp
    show ?thesis
      using went(2)
    proof (cases rule: sbind_cases)
      case (failed e)
      then show ?thesis using part_kept [OF k failed(1)] d(1) i(1) by simp
    next
      case (went x w3)
      obtain l tok where x: "x = (l, tok)" by fastforce
      have p: "published_part w3 = published_part w" using part_kept [OF k went(1)] d(1) i(1) by simp
      obtain s w4 where s: "publish_snapshot G E job d item tok w3 = (s, w4)" by fastforce
      have "isl s \<and> published_part w4 = published_part w3"
        by (rule postD [OF refused_snapshot s]) (use assms(1) a p in \<open>auto simp: wrong_commit_def\<close>)
      then show ?thesis using went(2) x s p by (cases s) (auto simp: sbind_def with_publish_lease_def)
    qed
  qed
qed

text \<open>C0: A commit that does not match is final. Once HEAD has left the base commit and the difference between the two is not
  the approved patch, which is where an attempt ends whose own commit fails the comparison, no attempt publishes: every
  delivery fails, and the tree, the publications and the workflow are as they were, so the next one finds the same
  commit.\<close>

theorem mismatched_commit_is_final:
  assumes "decode_publish_dispatch (j_payload j) = Inr q" "wf_get (sw_wf w) (dp_workflow_job_id q) = Inr job"
    "wf_status_of job = StPublishing" "wrong_commit E job w" "publication_handle G E j w = (r, w')"
  shows "isl r \<and> sw_tree w' = sw_tree w \<and> sw_pb w' = sw_pb w \<and> same_db (sw_wf w) (sw_wf w')"
proof -
  have p: "publish_stage G E j job w = publish_approved G E j job w"
    using assms(4) by (simp add: publish_stage_def wrong_commit_def)
  have "isl r \<and> published_part w' = published_part w"
    using assms(1-3,5) refused_publication [OF assms(4)] p
    by (auto simp: publication_handle_def stage_gate_step_def stage_gate_def on_up_def split: if_splits)
  moreover have "same_db (sw_wf w) (sw_wf w')"
    using calculation assms(5) publication_unharmed [of G E j] unharmedD by (cases r) auto
  ultimately show ?thesis by simp
qed

subsection \<open>Examples\<close>

definition sample_publishing :: wf_db where
  "sample_publishing = sample_next ''h'' 8 ''PUBLISH'' (sample_next ''g'' 7 ''APPROVE'' sample_waiting)"

lemma sample_publish_actions:
  "action_of (sample_input ''PUBLISH'' k) = ActPublish" "input_action (sample_input ''PUBLISH'' k) \<noteq> []"
  by (simp_all add: action_evals)

lemma sample_publishing_row:
  obtains job where "wf_get sample_publishing ''w'' = Inr job" "wf_id job = ''w''" "wf_version job = 9" "wf_status_of job = StPublishing"
    "\<not> wf_cancellation_requested job" "wf_base_commit_sha job = ''abc''" "wf_execution_version job = 1"
proof -
  let ?a = "sample_next ''g'' 7 ''APPROVE'' sample_waiting"
  have 1: "at_status ?a StApproved None 8 {''g'', ''f'', ''a'', ''b'', ''c'', ''d'', ''e''}"
    using sample_next_at [OF sample_waiting_at, of "''g''" "''APPROVE''" ActApprove StApproved]
    by (simp add: sample_actions plain_char_def next_status_def transition_table_def)
  have c1: "carries ?a 1"
    using sample_next_carries [OF sample_waiting_carries sample_waiting_at, of "''g''" "''APPROVE''"] 1 by (simp add: sample_actions)
  have 2: "at_status sample_publishing StPublishing None 9 {''h'', ''g'', ''f'', ''a'', ''b'', ''c'', ''d'', ''e''}"
    using sample_next_at [OF 1, of "''h''" "''PUBLISH''" ActPublish StPublishing]
    by (simp add: sample_publish_actions plain_char_def next_status_def transition_table_def sample_publishing_def)
  have c2: "carries sample_publishing 1"
    using sample_next_carries [OF c1 1, of "''h''" "''PUBLISH''"] 2 by (simp add: sample_publish_actions sample_publishing_def)
  obtain job where j: "db_workflows sample_publishing = [job]" "wf_id job = ''w''" "wf_version job = 9" "wf_status_of job = StPublishing"
    and r: "wf_reachable sample_publishing"
    using 2 by (auto simp: at_status_def)
  have "wf_row_ok job" using wf_reachable_ok [OF r] j(1) by (auto simp: wf_db_ok_def)
  then have "\<not> wf_cancellation_requested job" using j(4) by (auto simp: wf_row_ok_def)
  moreover have "wf_base_commit_sha job = ''abc''" "wf_execution_version job = 1" using c2 j(1) by (auto simp: carries_def)
  moreover have "wf_get sample_publishing ''w'' = Inr job" using j by (simp add: wf_get_def load_job_def lookup_by_def plain_char_def)
  ultimately show thesis using that j by blast
qed

definition the_approval :: decision where
  "the_approval = (new_decision ''b'' 0 \<lparr> ai_workflow_job_id = ''w'', ai_review_run_id = ''v'', ai_execution_id = ''e'', ai_execution_version = 1,
     ai_checkpoint_id = ''c'', ai_base_commit_sha = ''abc'', ai_patch_checksum = ''sha256:p'', ai_kind = ''APPROVE'', ai_note = [],
     ai_revision_instructions = [], ai_review_override = False, ai_reviewer_verdict = ''APPROVE'', ai_check_status = ''PASSED'',
     ai_failed_steps = 0, ai_version_before = 7, ai_revision_count_before = 0 \<rparr>)\<lparr> ad_status := ApApplied \<rparr>"

text \<open>A repository of one file and at most one commit, \<open>def\<close> on top of \<open>abc\<close>, whose diff is given.\<close>

definition committed :: "tree \<Rightarrow> bool" where
  "committed t = (lstat t [''c''] = Found (File []))"

definition publish_git :: "string \<Rightarrow> git_cmd" where
  "publish_git diff root args t =
     (if args = [''rev-parse'', ''HEAD''] then GitOut (if committed t then ''def'' else ''abc'')
      else if take 2 args = [''diff'', ''HEAD''] then GitOut (if committed t then [] else ''p'')
      else if take 3 args = [''diff'', ''abc'', ''HEAD''] then GitOut diff
      else GitOut [])"

definition publish_effect :: git_effect where
  "publish_effect root args t = (GitOut [], if ''commit'' \<in> set args then t @ [([''c''], File [])] else t)"

definition publish_env :: "string \<Rightarrow> stage_env" where
  "publish_env diff = sample_stage_env\<lparr> se_git := publish_git diff \<rparr>"

definition publish_world :: "tree \<Rightarrow> stage_world" where
  "publish_world t = (reviewed_world sample_publishing)\<lparr> sw_ap := \<lparr> ap_decisions = [the_approval], ap_requests = [] \<rparr>, sw_tree := t \<rparr>"

abbreviation publish_job :: "json_text job" where
  "publish_job \<equiv> stage_job ''workflow.publish'' ActPublish StPublishing"

abbreviation publish_payload :: dispatch_payload_rec where
  "publish_payload \<equiv> \<lparr> dp_workflow_job_id = ''w'', dp_workflow_version = 5, dp_action = ''PUBLISH'', dp_target_status = ''PUBLISHING'' \<rparr>"

lemma publish_job_decodes: "decode_publish_dispatch (j_payload publish_job) = Inr publish_payload"
  using unmarshal_dispatch_payload [of 5 "''w''" ActPublish StPublishing]
  by (simp add: stage_job_simps decode_publish_dispatch_def plain_char_def)

lemma publish_world_simps [simp]:
  "sw_wf (publish_world t) = sample_publishing" "sw_pb (publish_world t) = []" "sw_tree (publish_world t) = t"
  "sw_ws (publish_world t) = [ready_row]" "sw_ap (publish_world t) = \<lparr> ap_decisions = [the_approval], ap_requests = [] \<rparr>"
  "sw_ck (publish_world t) = \<lparr> cd_runs = [passed_checks], cd_steps = [] \<rparr>"
  by (simp_all add: publish_world_def reviewed_world_def sample_stage_world_def)

lemma publish_env_simps [simp]:
  "se_git (publish_env x) = publish_git x" "se_sha256 (publish_env x) = (\<lambda>s. s)" "se_down (publish_env x) site = False"
  "se_new_id (publish_env x) site = ''z''" "se_ctx (publish_env x) site = None" "se_now (publish_env x) site = 0"
  "se_watch (publish_env x) site = None" "se_renewals (publish_env x) site = []" "se_event_ok (publish_env x) site = False"
  "se_worker (publish_env x) = ''x''" "se_lease_ttl (publish_env x) = 60000000000" "se_refs_ok (publish_env x)"
  by (simp_all add: publish_env_def sample_stage_env_def)

lemma publish_gate:
  obtains job where "wf_get sample_publishing ''w'' = Inr job" "wf_id job = ''w''" "wf_status_of job = StPublishing"
    "wf_base_commit_sha job = ''abc''" "wf_execution_version job = 1"
    "publication_handle publish_effect (publish_env x) publish_job (publish_world t) =
       publish_approved publish_effect (publish_env x) publish_job job (publish_world t)"
proof -
  obtain job where j: "wf_get sample_publishing ''w'' = Inr job" "wf_id job = ''w''" "wf_version job = 9" "wf_status_of job = StPublishing"
    "\<not> wf_cancellation_requested job" "wf_base_commit_sha job = ''abc''" "wf_execution_version job = 1"
    by (rule sample_publishing_row)
  have "publication_handle publish_effect (publish_env x) publish_job (publish_world t) =
      publish_approved publish_effect (publish_env x) publish_job job (publish_world t)"
    using j by (simp add: publication_handle_def publish_job_decodes stage_gate_step_def stage_gate_def on_up_def publish_stage_def
        pb_get_by_workflow_def lookup_by_def)
  then show thesis using that j by blast
qed

lemma publish_reads:
  assumes "wf_id job = ''w''" "wf_execution_version job = 1"
  shows "publishable job (publish_world t) = (Inr the_approval, publish_world t)"
    "ready_workspace job (publish_world t) = (Inr (scan_workspace ready_row), publish_world t)"
  using assms
  by (simp_all add: publishable_def ready_workspace_def sbind_def read_with_def lift_result_def ap_get_by_version_def scan_decision_def
      ck_get_by_version_def the_approval_def new_decision_def passed_checks_def lookup_by_def ws_get_by_workflow_def load_by_workflow_def
      ready_row_def scan_workspace_def plain_char_def)

definition publish_lock :: ws_row where
  "publish_lock = write_row ''x:publish'' ''z'' 0 60000000000 ready_row"

lemma publish_locks: "acquire_write ''z'' 0 ''s'' ''x:publish'' 60000000000 [ready_row] = Inr ([publish_lock], (scan_workspace publish_lock, ''z''))"
  by (simp add: acquire_write_def Let_def ready_row_def update_returning_def can_acquire_write_def lease_result_def publish_lock_def write_row_def
      plain_char_def)

lemma publish_runs:
  "git_run (publish_git x) ''/w'' args (one_file s @ u) = (case publish_git x ''/w'' args (one_file s @ u) of GitOut o' \<Rightarrow> Inr o' | GitExit c o' \<Rightarrow>
     Inl (git_failure args (''exit status '' @ show_int c) o') | GitNotRun why \<Rightarrow> Inl (git_failure args why []))"
  by (simp add: git_run_def clean_root_def Let_def plain_char_def path_clean_def path_parts_def is_rooted_def lstat_def one_file_def rbind_def)

lemma not_committed: "committed (one_file s) = False" "committed (one_file s @ [([''c''], File [])]) = True"
  by (simp_all add: committed_def lstat_def one_file_def)

lemma publish_leased: "under_lease (publish_env x) site item tok m w = m w"
  by (simp add: under_lease_def keep_lease_def renew_stage_def sbind_def on_stage_def on_up_def)

lemma publish_stage_error: "stage_error_step (publish_env x) site item tok w = (Inr (), w)"
  by (simp add: stage_error_step_def renew_stage_def on_stage_def on_up_def)

lemma publish_capture:
  "capture (publish_git x) (\<lambda>s. s) ''/w'' default_max_patch_bytes (one_file ''p'') = Inr sample_base"
  by (simp add: capture_def clean_root_def Let_def plain_char_def path_clean_def path_parts_def is_rooted_def lstat_def one_file_def
      rbind_def wrap_git_def git_run_def changed_files_def untracked_files_def guardE_def checksum_def publish_git_def committed_def
      default_max_patch_bytes_def sample_base_def)

lemma committed_capture:
  "capture (publish_git x) (\<lambda>s. s) ''/w'' default_max_patch_bytes (one_file ''p'' @ [([''c''], File [])]) = Inr g \<Longrightarrow> gs_head g = ''def''"
  by (auto simp: capture_def clean_root_def Let_def plain_char_def path_clean_def path_parts_def is_rooted_def lstat_def one_file_def
      rbind_def wrap_git_def git_run_def changed_files_def untracked_files_def guardE_def checksum_def publish_git_def committed_def
      default_max_patch_bytes_def)

lemma committed_diff: "commit_diff (publish_git x) ''/w'' ''abc'' (one_file s @ u) = Inr x"
  by (simp add: commit_diff_def publish_runs publish_git_def)

lemma committed_head: "current_head (publish_git x) ''/w'' (one_file s @ [([''c''], File [])]) = Inr ''def''"
  by (simp add: current_head_def publish_runs publish_git_def not_committed rbind_def plain_char_def)

lemma publish_changes:
  assumes "sw_tree w = one_file s"
  shows "git_change publish_effect m ''/w'' [''add'', ''--all''] w = (Inr (), w)"
    "''commit'' \<in> set args \<Longrightarrow> git_change publish_effect m ''/w'' args w = (Inr (), w\<lparr> sw_tree := one_file s @ [([''c''], File [])] \<rparr>)"
  using assms
  by (simp_all add: git_change_def clean_root_def Let_def plain_char_def path_clean_def path_parts_def is_rooted_def lstat_def one_file_def
      publish_effect_def)

lemma publish_unlocks: "\<exists>t y. release_write 0 ''s'' ''z'' ''def'' False [publish_lock] = Inr (t, y)"
  by (simp add: release_write_def Let_def update_returning_def publish_lock_def write_row_def take_lease_def ready_row_def holds_token_def
      lease_live_def unix_milli_def plain_char_def)

lemma publish_completes:
  assumes "wf_id job = ''w''" "wf_base_commit_sha job = ''abc''" "wf_execution_version job = 1"
  shows "\<exists>p. pb_complete ''z'' 0 True (publication_of job the_approval ''def'') [] = Inr ([p], p)"
  using assms
  by (simp add: pb_complete_def Let_def trim_publication_def publication_of_def publication_valid_def the_approval_def new_decision_def
      upsert_publication_def pb_get_by_workflow_def lookup_by_def rbind_def plain_char_def)

lemma published_is_approved_witness:
  "\<exists>r w' q job d item. publication_handle publish_effect (publish_env ''p'') publish_job (publish_world (one_file ''p'')) = (r, w')
     \<and> sw_pb w' \<noteq> [] \<and> decode_publish_dispatch (j_payload publish_job) = Inr q
     \<and> publishing_row (sw_wf (publish_world (one_file ''p''))) q job
     \<and> approval_row (sw_ap (publish_world (one_file ''p''))) job d \<and> ad_patch_checksum d = ''sha256:p''
     \<and> workspace_row (sw_ws (publish_world (one_file ''p''))) job item
     \<and> commit_diff (publish_git ''p'') (ws_path item) (wf_base_commit_sha job) (sw_tree w') = Inr ''p''"
proof -
  let ?E = "publish_env ''p''" and ?w = "publish_world (one_file ''p'')" and ?i = "scan_workspace ready_row"
  obtain job where j: "wf_id job = ''w''" "wf_base_commit_sha job = ''abc''" "wf_execution_version job = 1"
    and h: "publication_handle publish_effect ?E publish_job ?w = publish_approved publish_effect ?E publish_job job ?w"
    by (rule publish_gate)
  let ?w3 = "?w\<lparr> sw_ws := [publish_lock] \<rparr>" and ?c = "one_file ''p'' @ [([''c''], File [])]"
  obtain p where p: "pb_complete ''z'' 0 True (publication_of job the_approval ''def'') [] = Inr ([p], p)"
    using publish_completes [OF j] by blast
  obtain t y where u: "release_write 0 ''s'' ''z'' ''def'' False [publish_lock] = Inr (t, y)" using publish_unlocks by blast
  have lock: "call_ws (acquire_write ''z'' 0 ''s'' ''x:publish'' 60000000000) ?w = (Inr (scan_workspace publish_lock, ''z''), ?w3)"
    using publish_locks by (simp add: call_ws_def)
  have g: "capture_stage ?E ''/w'' ?w3 = (Inr sample_base, ?w3)"
    using publish_capture by (simp add: capture_stage_def read_with_def lift_result_def)
  let ?w4 = "?w3\<lparr> sw_tree := ?c \<rparr>"
  have recorded: "record_publication ?E job the_approval ?i ''z'' ''def'' ?w4 = (Inr p, ?w4\<lparr> sw_pb := [p], sw_ws := t \<rparr>)"
    using p u by (simp add: record_publication_def sbind_def call_pb_def call_ws_def)
  have tree: "sw_tree ?w3 = one_file ''p''" "sw_tree ?w4 = ?c" by simp_all
  have commit: "commit_workspace publish_effect ?E job the_approval ?i ''z'' ?w3 = (Inr p, ?w4\<lparr> sw_pb := [p], sw_ws := t \<rparr>)"
    using recorded publish_changes [OF tree(1)] committed_head [of "''p''" "''p''"] committed_diff [of "''p''" "''p''"] j(2)
    by (simp add: commit_workspace_def publish_leased sbind_def read_with_def lift_result_def wrap_git_def checksum_def
        the_approval_def [THEN arg_cong [where f = ad_patch_checksum]] new_decision_def)
  have snap: "publish_snapshot publish_effect ?E job the_approval ?i ''z'' ?w3 = (Inr (p, True), ?w4\<lparr> sw_pb := [p], sw_ws := t \<rparr>)"
    using commit g j(2)
    by (simp add: publish_snapshot_def publish_checked_def publish_leased publish_stage_error sbind_def sample_base_def
        the_approval_def [THEN arg_cong [where f = ad_patch_checksum]] the_approval_def [THEN arg_cong [where f = ad_base_commit_sha]] new_decision_def)
  obtain r w' where f: "finish_publication ?E job p publish_job (?w4\<lparr> sw_pb := [p], sw_ws := t \<rparr>) = (r, w')" by fastforce
  have pb: "sw_pb w' = [p]"
    using part_kept [OF keeps_finish [of sw_pb] f [unfolded finish_publication_def]] by simp
  have "publish_approved publish_effect ?E publish_job job ?w = (r, w')"
    using publish_reads [OF j(1,3)] lock snap f
    by (simp add: publish_approved_def sbind_def on_up_def with_publish_lease_def note_stage_def)
  then have "publication_handle publish_effect ?E publish_job ?w = (r, w')" using h by simp
  moreover have "sw_pb w' \<noteq> sw_pb ?w" using pb by (simp add: publish_world_def reviewed_world_def sample_stage_world_def)
  ultimately obtain q job' d row patch where "decode_publish_dispatch (j_payload publish_job) = Inr q" "publishing_row (sw_wf ?w) q job'"
    "workspace_row (sw_ws ?w) job' row" and a: "approval_row (sw_ap ?w) job' d"
    and "commit_diff (se_git ?E) (ws_path row) (wf_base_commit_sha job') (sw_tree w') = Inr patch"
    "checksum (se_sha256 ?E) patch = ad_patch_checksum d"
    using published_is_approved [of publish_effect ?E publish_job ?w r w'] by blast
  moreover have "ad_patch_checksum d = ''sha256:p''"
    using a by (simp add: approval_row_def publish_world_def the_approval_def new_decision_def)
  moreover have "se_git ?E = publish_git ''p''" "se_sha256 ?E = (\<lambda>s. s)" by (simp_all add: publish_env_def sample_stage_env_def)
  ultimately show ?thesis
    using \<open>publication_handle publish_effect ?E publish_job ?w = (r, w')\<close> pb by (auto simp: checksum_def)
qed

lemma sample_wrong_commit:
  assumes "wf_id job = ''w''" "wf_base_commit_sha job = ''abc''" "wf_execution_version job = 1"
  shows "wrong_commit (publish_env ''q'') job (publish_world (one_file ''p'' @ [([''c''], File [])]))"
proof -
  let ?t = "one_file ''p'' @ [([''c''], File [])]"
  have "w_path item = ''/w'' \<and> ad_patch_checksum d = ''sha256:p''" if "may_publish (publish_world ?t) job d item" for d item
    using that publishable_done(2) [OF publish_reads(1) [OF assms(1,3)], of ?t] ready_done(2) [OF publish_reads(2) [OF assms(1,3)], of ?t]
    by (auto simp: may_publish_def the_approval_def new_decision_def)
  moreover have "gs_head g = ''def''" if "capture (publish_git ''q'') (\<lambda>s. s) ''/w'' default_max_patch_bytes ?t = Inr g" for g
    by (rule committed_capture [OF that])
  moreover have "commit_diff (publish_git ''q'') ''/w'' ''abc'' ?t = Inr ''q''" by (rule committed_diff)
  ultimately show ?thesis
    using assms(2) unfolding wrong_commit_def
    by (fastforce simp: pb_get_by_workflow_def lookup_by_def checksum_def)
qed

lemma mismatched_commit_is_final_witness:
  "isl (fst (publication_handle publish_effect (publish_env ''q'') publish_job (publish_world (one_file ''p'' @ [([''c''], File [])]))))"
proof -
  let ?E = "publish_env ''q''" and ?t = "one_file ''p'' @ [([''c''], File [])]"
  obtain job where j: "wf_get sample_publishing ''w'' = Inr job" "wf_id job = ''w''" "wf_status_of job = StPublishing"
    "wf_base_commit_sha job = ''abc''" "wf_execution_version job = 1"
    by (rule publish_gate)
  obtain r w' where h: "publication_handle publish_effect ?E publish_job (publish_world ?t) = (r, w')" by fastforce
  from mismatched_commit_is_final [OF publish_job_decodes _ j(3) sample_wrong_commit [OF j(2,4,5)] h] show ?thesis using j(1) h by simp
qed

lemma failed_publication_stays_witness:
  "\<exists>e w'. publication_handle publish_effect (publish_env ''q'') publish_job (publish_world (one_file ''p'' @ [([''c''], File [])])) = (Inl e, w')
     \<and> same_db sample_publishing (sw_wf w')"
proof -
  let ?w = "publish_world (one_file ''p'' @ [([''c''], File [])])"
  obtain r w' where h: "publication_handle publish_effect (publish_env ''q'') publish_job ?w = (r, w')" by fastforce
  obtain job where j: "wf_get sample_publishing ''w'' = Inr job" "wf_id job = ''w''" "wf_base_commit_sha job = ''abc''" "wf_execution_version job = 1"
    and p: "publication_handle publish_effect (publish_env ''q'') publish_job ?w = publish_approved publish_effect (publish_env ''q'') publish_job job ?w"
    by (rule publish_gate)
  have "publish_approved publish_effect (publish_env ''q'') publish_job job ?w = (r, w')" using p h by simp
  then have "isl r" using refused_publication [OF sample_wrong_commit [OF j(2-4)]] by blast
  then obtain e where "r = Inl e" by (cases r) auto
  then show ?thesis using h failed_publication_stays [of publish_effect "publish_env ''q''" publish_job ?w e w'] by auto
qed

end
