(* ===== verification/ReviewResponse.thy ===== *)
theory ReviewResponse
  imports ReviewRepo Paths
begin

text \<open>The answer of the reviewer agent (internal/reviewer/response.go): decoding, normalising and validating it against
  the changed files and the acceptance criteria it may refer to. Of the response the model has the first JSON value of
  its text and whether anything follows it. A document that repeats the key \<open>issues\<close> is taken at its last array.\<close>

datatype response_error =
  ReUndecodable | ReTrailing | ReVerdict | ReNoSummary | ReSummaryLong | ReTooManyIssues | ReKey nat | ReDuplicate string
| ReSeverity string | ReCategory string | ReNoText string | ReTextLong string | ReNotBlocking string
| ReLocation string string | ReUnknownCriterion string string | ReRepeatedCriterion string string
| ReApproveBlocked | ReNothingBlocking

record validation =
  va_changed_files :: "string set"
  va_criteria_refs :: "string set"

subsection \<open>Decoding\<close>

text \<open>\<open>time.Time\<close> decodes from an RFC 3339 text; the time of an issue is replaced when it is stored.\<close>

definition digits_at :: "string \<Rightarrow> nat \<Rightarrow> nat \<Rightarrow> nat option" where
  "digits_at s i n = (let d = take n (drop i s) in
     if length d = n \<and> list_all (\<lambda>c. (of_char c :: nat) \<in> {48..57}) d
     then Some (foldl (\<lambda>k c. 10 * k + (of_char c - 48)) 0 d) else None)"

definition days_in_month :: "nat \<Rightarrow> nat \<Rightarrow> nat" where
  "days_in_month y m =
     (if m = 2 then (if y mod 4 = 0 \<and> (y mod 100 \<noteq> 0 \<or> y mod 400 = 0) then 29 else 28)
      else if m \<in> {4, 6, 9, 11} then 30 else 31)"

definition zone_ok :: "string \<Rightarrow> bool" where
  "zone_ok z = (z = ''Z'' \<or> length z = 6 \<and> z ! 0 \<in> set ''+-'' \<and> z ! 3 = CHR '':''
     \<and> (case (digits_at z 1 2, digits_at z 4 2) of (Some h, Some m) \<Rightarrow> h < 24 \<and> m < 60 | _ \<Rightarrow> False))"

definition rfc3339_ok :: "string \<Rightarrow> bool" where
  "rfc3339_ok s =
     (case (digits_at s 0 4, digits_at s 5 2, digits_at s 8 2, digits_at s 11 2, digits_at s 14 2, digits_at s 17 2) of
        (Some y, Some mo, Some d, Some h, Some mi, Some sec) \<Rightarrow>
          s ! 4 = CHR ''-'' \<and> s ! 7 = CHR ''-'' \<and> s ! 10 = CHR ''T'' \<and> s ! 13 = CHR '':'' \<and> s ! 16 = CHR '':''
          \<and> 1 \<le> mo \<and> mo \<le> 12 \<and> 1 \<le> d \<and> d \<le> days_in_month y mo \<and> h < 24 \<and> mi < 60 \<and> sec < 60
          \<and> (let rest = drop 19 s; frac = takeWhile (\<lambda>c. (of_char c :: nat) \<in> {48..57}) (drop 1 rest) in
             if rest \<noteq> [] \<and> hd rest = CHR ''.'' then frac \<noteq> [] \<and> zone_ok (drop (1 + length frac) rest) else zone_ok rest)
      | _ \<Rightarrow> False)"

fun dec_time :: "json \<Rightarrow> instant option" where
  "dec_time (JStr s) = (if rfc3339_ok s then Some 0 else None)"
| "dec_time _ = None"

definition no_issue :: issue where
  "no_issue = \<lparr> is_id = [], is_review_run_id = [], is_position = 0, is_key = [], is_severity = [], is_category = [],
     is_blocking = False, is_title = [], is_description = [], is_file_path = [], is_line_start = 0, is_line_end = 0,
     is_criteria_refs = [], is_created_at = 0 \<rparr>"

definition issue_fields :: "string list" where
  "issue_fields = [''id'', ''review_run_id'', ''position'', ''key'', ''severity'', ''category'', ''blocking'', ''title'',
     ''description'', ''file_path'', ''line_start'', ''line_end'', ''criteria_refs'', ''created_at'']"

definition issue_of_fields :: "(string \<times> json) list \<Rightarrow> issue option" where
  "issue_of_fields kvs =
     (case (get_str ''id'' kvs, get_str ''review_run_id'' kvs, get_int ''position'' kvs, get_field dec_time 0 ''created_at'' kvs) of
        (Some i, Some r, Some p, Some t) \<Rightarrow>
       (case (get_str ''key'' kvs, get_str ''severity'' kvs, get_str ''category'' kvs, get_field dec_bool False ''blocking'' kvs) of
          (Some k, Some s, Some c, Some b) \<Rightarrow>
         (case (get_str ''title'' kvs, get_str ''description'' kvs, get_str ''file_path'' kvs) of
            (Some ti, Some d, Some f) \<Rightarrow>
           (case (get_int ''line_start'' kvs, get_int ''line_end'' kvs, get_field (dec_list dec_string []) [] ''criteria_refs'' kvs) of
              (Some ls, Some le, Some cs) \<Rightarrow>
                Some \<lparr> is_id = i, is_review_run_id = r, is_position = p, is_key = k, is_severity = s, is_category = c,
                  is_blocking = b, is_title = ti, is_description = d, is_file_path = f, is_line_start = ls, is_line_end = le,
                  is_criteria_refs = cs, is_created_at = t \<rparr>
            | _ \<Rightarrow> None)
          | _ \<Rightarrow> None)
        | _ \<Rightarrow> None)
      | _ \<Rightarrow> None)"

fun dec_issue :: "json \<Rightarrow> issue option" where
  "dec_issue (JObj kvs) = (if known_fields issue_fields kvs then issue_of_fields kvs else None)"
| "dec_issue _ = None"

definition unmarshal_result :: "json_text \<Rightarrow> review_result option" where
  "unmarshal_result raw =
     (case raw of
        Some (JObj kvs) \<Rightarrow>
          if \<not> known_fields [''verdict'', ''summary'', ''issues''] kvs then None
          else (case (get_str ''verdict'' kvs, get_str ''summary'' kvs, get_field (dec_list dec_issue no_issue) [] ''issues'' kvs) of
            (Some v, Some s, Some xs) \<Rightarrow> Some \<lparr> re_verdict = v, re_summary = s, re_issues = xs \<rparr> | _ \<Rightarrow> None)
      | Some JNull \<Rightarrow> Some \<lparr> re_verdict = [], re_summary = [], re_issues = [] \<rparr>
      | _ \<Rightarrow> None)"

subsection \<open>Normalising\<close>

definition normalized_strings :: "string list \<Rightarrow> string list" where
  "normalized_strings xs = filter (\<lambda>x. x \<noteq> []) (map trim_space xs)"

definition to_slashes :: "string \<Rightarrow> string" where
  "to_slashes s = map (\<lambda>c. if c = CHR 0x5C then slash else c) s"

definition normalize_issue :: "issue \<Rightarrow> issue" where
  "normalize_issue x = (let f = trim_space (is_file_path x) in
     x\<lparr> is_key := trim_space (is_key x), is_title := trim_space (is_title x), is_description := trim_space (is_description x),
        is_file_path := (if f = [] then [] else path_clean (to_slashes f)),
        is_criteria_refs := normalized_strings (is_criteria_refs x) \<rparr>)"

definition normalize_result :: "review_result \<Rightarrow> review_result" where
  "normalize_result k = k\<lparr> re_summary := trim_space (re_summary k), re_issues := map normalize_issue (re_issues k) \<rparr>"

subsection \<open>Validating\<close>

definition key_head :: "char \<Rightarrow> bool" where
  "key_head c = (let n = (of_char c :: nat) in n \<in> {97..122} \<or> n \<in> {65..90} \<or> n \<in> {48..57})"

definition issue_key_ok :: "string \<Rightarrow> bool" where
  "issue_key_ok k = (k \<noteq> [] \<and> key_head (hd k) \<and> length k \<le> 128 \<and> list_all (\<lambda>c. key_head c \<or> c \<in> set ''._-'') (tl k))"

definition escaping :: "string \<Rightarrow> bool" where
  "escaping p = (p = ''.'' \<or> p = ''..'' \<or> has_prefix p ''../'')"

definition validate_issue_location :: "issue \<Rightarrow> string set \<Rightarrow> string option" where
  "validate_issue_location x changed =
     (let f = is_file_path x; cleaned = path_clean (to_slashes f) in
      if f = [] then (if is_line_start x \<noteq> 0 \<or> is_line_end x \<noteq> 0 then Some ''line range requires file_path'' else None)
      else if CHR 0x00 \<in> set f \<or> has_prefix f [slash] then Some ''file_path must be repository-relative''
      else if escaping cleaned then Some ''file_path escapes the repository root''
      else if cleaned \<notin> changed then Some ''file_path is not in changed_files''
      else if is_line_start x < 0 \<or> is_line_end x < 0 then Some ''line range cannot be negative''
      else if is_line_end x > 0 \<and> is_line_start x = 0 then Some ''line_end requires line_start''
      else if is_line_end x > 0 \<and> is_line_end x < is_line_start x then Some ''line_end cannot precede line_start''
      else None)"

fun check_criteria :: "string set \<Rightarrow> string \<Rightarrow> string list \<Rightarrow> string list \<Rightarrow> response_error option" where
  "check_criteria known k seen [] = None"
| "check_criteria known k seen (c # cs) =
     (if c \<notin> known then Some (ReUnknownCriterion k c)
      else if c \<in> set seen then Some (ReRepeatedCriterion k c)
      else check_criteria known k (c # seen) cs)"

fun check_issues :: "validation \<Rightarrow> nat \<Rightarrow> string list \<Rightarrow> issue list \<Rightarrow> response_error option" where
  "check_issues V n seen [] = None"
| "check_issues V n seen (x # xs) =
     (let k = is_key x in
      if \<not> issue_key_ok k then Some (ReKey n)
      else if k \<in> set seen then Some (ReDuplicate k)
      else if is_severity x \<notin> set valid_severities then Some (ReSeverity k)
      else if is_category x \<notin> set valid_categories then Some (ReCategory k)
      else if is_title x = [] \<or> is_description x = [] then Some (ReNoText k)
      else if length (is_title x) > 500 \<or> length (is_description x) > 8000 then Some (ReTextLong k)
      else if is_severity x = ''CRITICAL'' \<and> \<not> is_blocking x then Some (ReNotBlocking k)
      else case validate_issue_location x (va_changed_files V) of Some m \<Rightarrow> Some (ReLocation k m)
      | None \<Rightarrow>
        (case check_criteria (va_criteria_refs V) k [] (is_criteria_refs x) of Some e \<Rightarrow> Some e
         | None \<Rightarrow> check_issues V (n + 1) (k # seen) xs))"

definition validate_result :: "review_result \<Rightarrow> validation \<Rightarrow> response_error option" where
  "validate_result k V =
     (if re_verdict k \<notin> set valid_verdicts then Some ReVerdict
      else if re_summary k = [] then Some ReNoSummary
      else if length (re_summary k) > 8000 then Some ReSummaryLong
      else if length (re_issues k) > 100 then Some ReTooManyIssues
      else case check_issues V 0 [] (re_issues k) of Some e \<Rightarrow> Some e
      | None \<Rightarrow>
        if re_verdict k = ''APPROVE'' \<and> blocking_count (re_issues k) > 0 then Some ReApproveBlocked
        else if re_verdict k = ''REQUEST_REVISION'' \<and> blocking_count (re_issues k) = 0 then Some ReNothingBlocking
        else None)"

definition parse_response :: "json_text \<Rightarrow> bool \<Rightarrow> validation \<Rightarrow> response_error + review_result" where
  "parse_response raw ends V =
     (case unmarshal_result raw of
        None \<Rightarrow> Inl ReUndecodable
      | Some k0 \<Rightarrow>
        if \<not> ends then Inl ReTrailing
        else let k = normalize_result k0 in
          case validate_result k V of Some e \<Rightarrow> Inl e | None \<Rightarrow> Inr k)"

subsection \<open>An accepted review is grounded\<close>

definition issue_passes :: "validation \<Rightarrow> issue \<Rightarrow> bool" where
  "issue_passes V x = (issue_key_ok (is_key x) \<and> is_severity x \<in> set valid_severities \<and> is_category x \<in> set valid_categories
     \<and> is_title x \<noteq> [] \<and> is_description x \<noteq> [] \<and> length (is_title x) \<le> 500 \<and> length (is_description x) \<le> 8000
     \<and> (is_severity x = ''CRITICAL'' \<longrightarrow> is_blocking x) \<and> validate_issue_location x (va_changed_files V) = None
     \<and> set (is_criteria_refs x) \<subseteq> va_criteria_refs V \<and> distinct (is_criteria_refs x))"

definition result_passes :: "validation \<Rightarrow> review_result \<Rightarrow> bool" where
  "result_passes V k = (re_verdict k \<in> set valid_verdicts \<and> re_summary k \<noteq> [] \<and> length (re_summary k) \<le> 8000 \<and> length (re_issues k) \<le> 100
     \<and> (\<forall>x\<in>set (re_issues k). issue_passes V x) \<and> distinct (map is_key (re_issues k))
     \<and> (re_verdict k = ''APPROVE'' \<longleftrightarrow> (\<forall>x\<in>set (re_issues k). \<not> is_blocking x)))"

lemma check_criteria_None: "check_criteria known k seen cs = None \<longleftrightarrow> set cs \<subseteq> known \<and> distinct cs \<and> set cs \<inter> set seen = {}"
  by (induction cs arbitrary: seen) auto

lemma first_error_None: "(case x of Some e \<Rightarrow> Some (f e) | None \<Rightarrow> r) = None \<longleftrightarrow> x = None \<and> r = None"
  by (cases x) simp_all

lemma check_issues_None:
  "check_issues V n seen xs = None \<longleftrightarrow>
     (\<forall>x\<in>set xs. issue_passes V x) \<and> distinct (map is_key xs) \<and> is_key ` set xs \<inter> set seen = {}"
  by (induction xs arbitrary: n seen) (auto simp: Let_def issue_passes_def check_criteria_None first_error_None)

lemma blocking_count_zero: "blocking_count xs = 0 \<longleftrightarrow> (\<forall>x\<in>set xs. \<not> is_blocking x)"
  by (auto simp: blocking_count_def filter_empty_conv)

lemma validate_None: "validate_result k V = None \<longleftrightarrow> result_passes V k"
proof -
  have "blocking_count xs > 0 \<longleftrightarrow> \<not> blocking_count xs = 0" for xs by (auto simp: blocking_count_def)
  then show ?thesis
    using check_issues_None [of V 0 "[]" "re_issues k"]
    by (cases "check_issues V 0 [] (re_issues k)") (auto simp: validate_result_def result_passes_def valid_verdicts_def blocking_count_zero)
qed

lemma parse_response_iff:
  "parse_response raw ends V = Inr k \<longleftrightarrow> ends \<and> (\<exists>k0. unmarshal_result raw = Some k0 \<and> k = normalize_result k0) \<and> result_passes V k"
  by (auto simp: parse_response_def Let_def validate_None split: option.splits)
    (metis not_Some_eq validate_None)+

subsection \<open>What a grounded review is\<close>

text \<open>The promise of the reviewer stage to the rest of the program, in its own words: nothing here is shared with the
  validation above. A key begins with a letter or digit and goes on with these, dots, underscores and hyphens.\<close>

definition alnum :: "char \<Rightarrow> bool" where
  "alnum c = ((of_char c :: nat) \<in> {48..57} \<union> {65..90} \<union> {97..122})"

definition grounded_place :: "string set \<Rightarrow> issue \<Rightarrow> bool" where
  "grounded_place changed x =
     (if is_file_path x = [] then is_line_start x = 0 \<and> is_line_end x = 0
      else is_file_path x \<in> changed \<and> CHR 0x00 \<notin> set (is_file_path x) \<and> hd (is_file_path x) \<noteq> CHR ''/''
        \<and> is_file_path x \<noteq> ''.'' \<and> is_file_path x \<noteq> ''..'' \<and> take 3 (is_file_path x) \<noteq> ''../''
        \<and> 0 \<le> is_line_start x \<and> (is_line_end x = 0 \<or> 1 \<le> is_line_start x \<and> is_line_start x \<le> is_line_end x))"

definition grounded_issue :: "validation \<Rightarrow> issue \<Rightarrow> bool" where
  "grounded_issue V x =
     (length (is_key x) \<in> {1..128} \<and> alnum (hd (is_key x)) \<and> (\<forall>c\<in>set (is_key x). alnum c \<or> c = CHR ''.'' \<or> c = CHR ''_'' \<or> c = CHR ''-'')
      \<and> is_severity x \<in> {''CRITICAL'', ''HIGH'', ''MEDIUM'', ''LOW''}
      \<and> is_category x \<in> {''CORRECTNESS'', ''SECURITY'', ''RELIABILITY'', ''PERFORMANCE'', ''MAINTAINABILITY'', ''TESTING'', ''REQUIREMENT''}
      \<and> length (is_title x) \<in> {1..500} \<and> length (is_description x) \<in> {1..8000}
      \<and> (is_severity x = ''CRITICAL'' \<longrightarrow> is_blocking x)
      \<and> grounded_place (va_changed_files V) x
      \<and> set (is_criteria_refs x) \<subseteq> va_criteria_refs V \<and> distinct (is_criteria_refs x))"

definition grounded :: "validation \<Rightarrow> review_result \<Rightarrow> bool" where
  "grounded V k =
     (length (re_summary k) \<in> {1..8000} \<and> length (re_issues k) \<le> 100 \<and> distinct (map is_key (re_issues k))
      \<and> (\<forall>x\<in>set (re_issues k). grounded_issue V x)
      \<and> re_verdict k = (if \<exists>x\<in>set (re_issues k). is_blocking x then ''REQUEST_REVISION'' else ''APPROVE''))"

text \<open>How the stored review reads the answer: texts without the space around them, empty references dropped, paths
  cleaned with slashes between their parts, everything else as it was.\<close>

definition issue_reads :: "issue \<Rightarrow> issue \<Rightarrow> bool" where
  "issue_reads a x =
     (is_key x = trim_space (is_key a) \<and> is_title x = trim_space (is_title a) \<and> is_description x = trim_space (is_description a)
      \<and> is_file_path x = (if trim_space (is_file_path a) = [] then []
          else path_clean (map (\<lambda>c. if c = CHR 0x5C then CHR ''/'' else c) (trim_space (is_file_path a))))
      \<and> is_criteria_refs x = [r \<leftarrow> map trim_space (is_criteria_refs a). r \<noteq> []]
      \<and> is_severity x = is_severity a \<and> is_category x = is_category a \<and> is_blocking x = is_blocking a
      \<and> is_line_start x = is_line_start a \<and> is_line_end x = is_line_end a \<and> is_id x = is_id a
      \<and> is_review_run_id x = is_review_run_id a \<and> is_position x = is_position a \<and> is_created_at x = is_created_at a)"

definition result_reads :: "review_result \<Rightarrow> review_result \<Rightarrow> bool" where
  "result_reads a k = (re_verdict k = re_verdict a \<and> re_summary k = trim_space (re_summary a)
     \<and> list_all2 issue_reads (re_issues a) (re_issues k))"

lemma issue_reads_iff: "issue_reads a x \<longleftrightarrow> x = normalize_issue a"
  by (cases a; cases x) (auto simp: issue_reads_def normalize_issue_def normalized_strings_def to_slashes_def Let_def)

lemma result_reads_iff: "result_reads a k \<longleftrightarrow> k = normalize_result a"
proof -
  have "list_all2 issue_reads xs ys \<longleftrightarrow> ys = map normalize_issue xs" for xs ys
    by (induction xs arbitrary: ys) (auto simp: issue_reads_iff list_all2_Cons1)
  then show ?thesis by (cases a; cases k) (auto simp: result_reads_def normalize_result_def)
qed

text \<open>The path of a normal issue is clean.\<close>

definition clean_place :: "issue \<Rightarrow> bool" where
  "clean_place x = (is_file_path x = [] \<or> path_clean (to_slashes (is_file_path x)) = is_file_path x)"

lemma no_backslash: "CHR 0x5C \<notin> set s \<Longrightarrow> to_slashes s = s"
  by (auto simp: to_slashes_def intro: map_idI)

lemma clean_parts_subset: "set (clean_parts r acc ps) \<subseteq> set acc \<union> set ps"
  by (induction r acc ps rule: clean_parts.induct) (auto split: list.splits if_splits)

lemma split_char_chars: "p \<in> set (split_char c s) \<Longrightarrow> set p \<subseteq> set s"
  by (induction c s arbitrary: p rule: split_char.induct) (fastforce split: list.splits if_splits)+

lemma join_chars: "set (join_with sep ps) \<subseteq> set sep \<union> (\<Union>p\<in>set ps. set p)"
  by (induction sep ps rule: join_with.induct) auto

lemma clean_no_backslash: "CHR 0x5C \<notin> set s \<Longrightarrow> CHR 0x5C \<notin> set (path_clean s)"
proof -
  assume s: "CHR 0x5C \<notin> set s"
  have "CHR 0x5C \<notin> set p" if "p \<in> set (path_parts s)" for p
    using clean_parts_subset [of "is_rooted s" "[]" "split_char slash s"] split_char_chars [of p slash s] s that
    by (auto simp: path_parts_def)
  then show ?thesis using join_chars [of "[slash]" "path_parts s"] by (auto simp: path_clean_def)
qed

lemma normal_clean_place: "clean_place (normalize_issue x)"
proof -
  have "CHR 0x5C \<notin> set (to_slashes s)" for s by (auto simp: to_slashes_def)
  then show ?thesis by (auto simp: clean_place_def normalize_issue_def Let_def no_backslash clean_no_backslash)
qed

lemma place_iff: "clean_place x \<Longrightarrow> validate_issue_location x changed = None \<longleftrightarrow> grounded_place changed x"
  by (cases "is_file_path x") (auto simp: validate_issue_location_def grounded_place_def clean_place_def escaping_def has_prefix_def Let_def numeral_2_eq_2)

lemma key_iff: "issue_key_ok k \<longleftrightarrow> length k \<in> {1..128} \<and> alnum (hd k) \<and> (\<forall>c\<in>set k. alnum c \<or> c = CHR ''.'' \<or> c = CHR ''_'' \<or> c = CHR ''-'')"
  by (cases k) (auto simp: issue_key_ok_def key_head_def alnum_def list_all_iff Let_def)

lemma issue_iff: "clean_place x \<Longrightarrow> issue_passes V x \<longleftrightarrow> grounded_issue V x"
  by (auto simp: issue_passes_def grounded_issue_def place_iff key_iff valid_severities_def valid_categories_def Suc_le_eq)

lemma result_iff: "\<forall>x\<in>set (re_issues k). clean_place x \<Longrightarrow> result_passes V k \<longleftrightarrow> grounded V k"
  by (auto simp: result_passes_def grounded_def issue_iff valid_verdicts_def Suc_le_eq)

text \<open>C0: An answer of the reviewer model is accepted exactly when it is one JSON document of the expected shape whose reading is
  grounded: a summary of 1 to 8000 bytes, at most 100 issues with distinct well-formed keys, each of a known severity and
  category, with a title and a description within their limits, pointing at a changed file inside the repository with
  a sensible line range or at none, referring only to given acceptance criteria, each once, blocking when critical; and
  the verdict is REQUEST_REVISION if some issue is blocking and APPROVE if none is. The accepted review is that reading.\<close>

theorem accepted_review_is_grounded:
  "parse_response raw ends V = Inr k \<longleftrightarrow> ends \<and> (\<exists>a. unmarshal_result raw = Some a \<and> result_reads a k) \<and> grounded V k"
proof -
  have "result_passes V (normalize_result a) \<longleftrightarrow> grounded V (normalize_result a)" for a
    by (rule result_iff) (auto simp: normalize_result_def normal_clean_place)
  then show ?thesis by (auto simp: parse_response_iff result_reads_iff)
qed

subsection \<open>Every grounded review can be said\<close>

text \<open>A review as the response schema of reviewer/prompt.go asks for it.\<close>

definition schema_issue :: "issue \<Rightarrow> json" where
  "schema_issue x = JObj [(''key'', JStr (is_key x)), (''severity'', JStr (is_severity x)), (''category'', JStr (is_category x)),
     (''blocking'', JBool (is_blocking x)), (''title'', JStr (is_title x)), (''description'', JStr (is_description x)),
     (''file_path'', JStr (is_file_path x)), (''line_start'', JInt (is_line_start x)), (''line_end'', JInt (is_line_end x)),
     (''criteria_refs'', JArr (map JStr (is_criteria_refs x)))]"

definition schema_result :: "review_result \<Rightarrow> json" where
  "schema_result k = JObj [(''verdict'', JStr (re_verdict k)), (''summary'', JStr (re_summary k)),
     (''issues'', JArr (map schema_issue (re_issues k)))]"

text \<open>An issue that was not stored yet, of normal form, whose numbers fit a Go int.\<close>

definition plain_issue :: "issue \<Rightarrow> bool" where
  "plain_issue x = (normalize_issue x = x \<and> is_id x = [] \<and> is_review_run_id x = [] \<and> is_position x = 0 \<and> is_created_at x = 0
     \<and> is_line_start x \<in> {-(2 ^ 63)..<2 ^ 63} \<and> is_line_end x \<in> {-(2 ^ 63)..<2 ^ 63})"

lemma schema_names:
  "fold_name ''id'' = ''ID''" "fold_name ''review_run_id'' = ''REVIEW_RUN_ID''" "fold_name ''position'' = ''POSITION''"
  "fold_name ''key'' = ''KEY''" "fold_name ''severity'' = ''SEVERITY''" "fold_name ''category'' = ''CATEGORY''"
  "fold_name ''blocking'' = ''BLOCKING''" "fold_name ''title'' = ''TITLE''" "fold_name ''description'' = ''DESCRIPTION''"
  "fold_name ''file_path'' = ''FILE_PATH''" "fold_name ''line_start'' = ''LINE_START''" "fold_name ''line_end'' = ''LINE_END''"
  "fold_name ''criteria_refs'' = ''CRITERIA_REFS''" "fold_name ''created_at'' = ''CREATED_AT''"
  "fold_name ''verdict'' = ''VERDICT''" "fold_name ''summary'' = ''SUMMARY''" "fold_name ''issues'' = ''ISSUES''"
  by (simp_all add: fold_name_ascii is_ascii_def) code_simp+

lemma all_options_map: "(\<And>x. x \<in> set xs \<Longrightarrow> f x = Some (g x)) \<Longrightarrow> all_options (map f xs) = Some (map g xs)"
  by (induction xs) (auto simp: all_options_def List.map_filter_def image_iff split: if_splits)

lemma dec_strings: "dec_list dec_string [] (JArr (map JStr xs)) = Some xs"
  using all_options_map [of xs "\<lambda>x. dec_elem dec_string [] (JStr x)" id] by (simp add: dec_list_def dec_elem_def comp_def)

lemma schema_issue_decodes:
  assumes "plain_issue x"
  shows "dec_issue (schema_issue x) = Some x"
proof -
  have "known_fields issue_fields (case schema_issue x of JObj kvs \<Rightarrow> kvs | _ \<Rightarrow> [])"
    by (simp add: known_fields_def issue_fields_def schema_issue_def schema_names)
  then show ?thesis
    using assms
    by (simp add: schema_issue_def issue_of_fields_def get_field_def schema_names plain_issue_def dec_strings)
qed

text \<open>C0: Every grounded review can be said and is heard unchanged: written as the schema asks for it, a grounded review in
  normal form is parsed into itself.\<close>

theorem review_round_trip:
  assumes "grounded V k" "re_summary k = trim_space (re_summary k)" "\<forall>x\<in>set (re_issues k). plain_issue x"
  shows "parse_response (Some (schema_result k)) True V = Inr k"
proof -
  have "dec_elem dec_issue no_issue (schema_issue x) = Some x" if "x \<in> set (re_issues k)" for x
    using assms(3) that schema_issue_decodes [of x] by (simp add: dec_elem_def) (simp add: schema_issue_def)
  then have "dec_list dec_issue no_issue (JArr (map schema_issue (re_issues k))) = Some (re_issues k)"
    using all_options_map [of "re_issues k" "\<lambda>x. dec_elem dec_issue no_issue (schema_issue x)" id] by (simp add: dec_list_def comp_def)
  moreover have "known_fields [''verdict'', ''summary'', ''issues''] [(''verdict'', a), (''summary'', b), (''issues'', c)]" for a b c
    by (simp add: known_fields_def schema_names)
  ultimately have "unmarshal_result (Some (schema_result k)) = Some k"
    by (simp add: unmarshal_result_def schema_result_def get_field_def schema_names)
  moreover have "map normalize_issue (re_issues k) = re_issues k"
    using assms(3) by (intro map_idI) (simp add: plain_issue_def)
  then have n: "normalize_result k = k" using assms(2) by (simp add: normalize_result_def)
  have "\<forall>x\<in>set (re_issues k). clean_place x" using assms(3) normal_clean_place by (metis plain_issue_def)
  then have "result_passes V k" using assms(1) by (simp add: result_iff)
  ultimately show ?thesis using n by (auto simp: parse_response_iff intro!: exI [of _ k])
qed

definition sample_issue :: issue where
  "sample_issue = no_issue\<lparr> is_key := ''k'', is_severity := ''HIGH'', is_category := ''TESTING'', is_blocking := True,
     is_title := ''t'', is_description := ''d'', is_file_path := ''a'', is_line_start := 3, is_criteria_refs := [''c''] \<rparr>"

lemma sample_issue_ok:
  "grounded \<lparr> va_changed_files = {''a''}, va_criteria_refs = {''c''} \<rparr> \<lparr> re_verdict = ''REQUEST_REVISION'', re_summary = ''s'', re_issues = [sample_issue] \<rparr>"
  "plain_issue sample_issue"
proof -
  have c: "path_clean (to_slashes ''a'') = ''a''" by (simp add: to_slashes_def path_clean_def path_parts_def is_rooted_def)
  show "grounded \<lparr> va_changed_files = {''a''}, va_criteria_refs = {''c''} \<rparr> \<lparr> re_verdict = ''REQUEST_REVISION'', re_summary = ''s'', re_issues = [sample_issue] \<rparr>"
    by (simp add: grounded_def grounded_issue_def grounded_place_def alnum_def sample_issue_def no_issue_def)
  show "plain_issue sample_issue"
    using c by (simp add: plain_issue_def normalize_issue_def sample_issue_def no_issue_def normalized_strings_def Let_def plain_char_def)
qed

lemma review_round_trip_witness:
  "parse_response (Some (schema_result \<lparr> re_verdict = ''REQUEST_REVISION'', re_summary = ''s'', re_issues = [sample_issue] \<rparr>)) True
     \<lparr> va_changed_files = {''a''}, va_criteria_refs = {''c''} \<rparr> = Inr \<lparr> re_verdict = ''REQUEST_REVISION'', re_summary = ''s'', re_issues = [sample_issue] \<rparr>"
  using review_round_trip [OF sample_issue_ok(1)] sample_issue_ok(2) by (simp add: plain_char_def)

end
