(* ===== verification/ReviewHandler.thy ===== *)
theory ReviewHandler
  imports StageSamples ReviewContext
begin

text \<open>The review handler (internal/reviewer/handler.go): one delivery of a \<open>workflow.review\<close> message. It opens the run of
  the execution version, asks the reviewer agent about the last checkpoint and the checks, stores the parsed answer and
  moves the workflow to WAITING_APPROVAL. The settings, the source of the context and the gateway are interfaces of the
  handler and parameters here; \<open>daemon_review\<close> gives it the modelled context builder. The sampling temperature is left
  out.\<close>

record agent_entry =
  ae_role :: string
  ae_provider :: string
  ae_model :: string
  ae_max_output_tokens :: int
  ae_enabled :: bool
  ae_system_instruction :: string

record reviewer_settings =
  vs_version :: int
  vs_agents :: "agent_entry list"

record review_answer =
  aw_value :: json_text
  aw_ends :: bool
  aw_usage :: usage

record review_tools =
  vt_settings :: "string \<Rightarrow> string + reviewer_settings"
  vt_context :: "string \<Rightarrow> execution \<Rightarrow> checkpoint \<Rightarrow> check_run \<Rightarrow> check_step list \<Rightarrow> context_error + review_context \<times> validation"
  vt_context_text :: "context_error \<Rightarrow> string"
  vt_complete :: "string \<Rightarrow> review_request \<Rightarrow> stage_error + review_answer"
  vt_text :: "response_error \<Rightarrow> string"
  vt_default_provider :: string
  vt_default_model :: string

definition resolve_reviewer :: "agent_entry list \<Rightarrow> string \<Rightarrow> string \<Rightarrow> string + agent_entry" where
  "resolve_reviewer agents provider model =
     (case find (\<lambda>a. ae_role a = ''REVIEWER'') agents of
        None \<Rightarrow> Inl ''reviewer agent configuration is missing''
      | Some a \<Rightarrow>
        if \<not> ae_enabled a then Inl ''reviewer agent is disabled''
        else Inr (a\<lparr> ae_provider := (if trim_space (ae_provider a) = [] then provider else ae_provider a),
                    ae_model := (if trim_space (ae_model a) = [] then model else ae_model a),
                    ae_max_output_tokens := (if ae_max_output_tokens a \<le> 0 then 4096 else ae_max_output_tokens a) \<rparr>))"

definition chosen_reviewer :: "wf_job \<Rightarrow> agent_entry \<Rightarrow> agent_entry" where
  "chosen_reviewer job a = (let p = trim_space (ag_provider (wf_reviewer job)); m = trim_space (ag_model (wf_reviewer job)) in
     a\<lparr> ae_provider := (if p = [] then ae_provider a else p), ae_model := (if m = [] then ae_model a else m) \<rparr>)"

text \<open>The code and message of a failure: those of a provider error, cut to 1024 bytes.\<close>

definition safe_failure :: "stage_env \<Rightarrow> stage_error \<Rightarrow> string \<times> string" where
  "safe_failure E e =
     (case e of
        SWrapped _ _ code m \<Rightarrow> (code, take 1024 (trim_space m))
      | SCause (SProvider _ code m) \<Rightarrow> (code, take 1024 (trim_space m))
      | _ \<Rightarrow> (''REVIEWER_FAILED'', take 1024 (trim_space (stage_text E e))))"

definition cancelled_error :: "stage_error \<Rightarrow> bool" where
  "cancelled_error e = (\<forall>c. e \<noteq> SCause c)"

text \<open>What the review is about.\<close>

record review_subject =
  su_execution :: execution
  su_checks :: check_run
  su_steps :: "check_step list"
  su_checkpoint :: checkpoint
  su_reviewer :: agent_entry
  su_settings_version :: int

definition review_subject_of :: "review_tools \<Rightarrow> wf_job \<Rightarrow> review_subject sstep" where
  "review_subject_of T job =
     sbind (completed_execution job) (\<lambda>x.
     sbind (read_with SCheck (\<lambda>w. ck_get_by_version (sw_ck w) (wf_id job) (wf_execution_version job))) (\<lambda>ck.
     if cr_status ck \<noteq> CkPassed \<and> cr_status ck \<noteq> CkFailed then fail_with (SCause (SOther ''check run is not completed''))
     else
       sbind (\<lambda>w. (Inr (ck_list_steps (sw_ck w) (cr_id ck), list_checkpoints (sw_ex w) (ex_id x)), w)) (\<lambda>(steps, cps).
       if cps = [] then fail_with (SCause SNoCheckpoint)
       else
         sbind (read_with SOther (\<lambda>_. vt_settings T (wf_project_id job))) (\<lambda>s.
         sbind (lift_result SOther (resolve_reviewer (vs_agents s) (vt_default_provider T) (vt_default_model T))) (\<lambda>a.
         ret \<lparr> su_execution = x, su_checks = ck, su_steps = steps, su_checkpoint = last cps, su_reviewer = chosen_reviewer job a,
               su_settings_version = (if wf_agent_settings_version job < 1 then vs_version s else wf_agent_settings_version job) \<rparr>)))))"

definition review_input_of :: "wf_job \<Rightarrow> review_subject \<Rightarrow> review_input" where
  "review_input_of job s = \<lparr> ri_workflow_job_id = wf_id job, ri_execution_id = ex_id (su_execution s),
     ri_execution_version = wf_execution_version job, ri_check_run_id = cr_id (su_checks s), ri_checkpoint_id = cp_id (su_checkpoint s),
     ri_agent_settings_version = su_settings_version s, ri_provider = ae_provider (su_reviewer s), ri_model = ae_model (su_reviewer s) \<rparr>"

text \<open>Asking: the context, the request, and the call of the gateway under the wall clock of the stage.\<close>

definition watched :: "stage_env \<Rightarrow> stage_site \<Rightarrow> unit sstep" where
  "watched E site w = (case se_watch E site of
     Some WatchCancelled \<Rightarrow> (Inl (SContext CtxCanceled), w) | Some (WatchFailed m) \<Rightarrow> (Inl (SCause (SWatch m)), w) | None \<Rightarrow> (Inr (), w))"

definition ask_reviewer :: "review_tools \<Rightarrow> stage_env \<Rightarrow> wf_job \<Rightarrow> review_subject \<Rightarrow> review_run \<Rightarrow> (review_result \<times> usage) sstep" where
  "ask_reviewer T E job s run =
     sbind (on_up E AtContext (read_with (\<lambda>e. SOther (vt_context_text T e)) (\<lambda>_. vt_context T (wf_plan_version_id job) (su_execution s) (su_checkpoint s) (su_checks s) (su_steps s))))
       (\<lambda>(c, V).
     sbind (lift_result (\<lambda>_. SOther ''review run, workflow, and model are required'') (build_request c \<lparr> qc_run_id = rv_id run,
       qc_workflow_job_id = wf_id job, qc_model = ae_model (su_reviewer s), qc_max_output_tokens = ae_max_output_tokens (su_reviewer s),
       qc_system_instruction = ae_system_instruction (su_reviewer s) \<rparr>)) (\<lambda>q.
     sbind (note_stage E AtRunStart (wf_id job) ''review.started'' [(''review_run_id'', JStr (rv_id run)),
       (''execution_id'', JStr (ex_id (su_execution s))), (''check_run_id'', JStr (cr_id (su_checks s))),
       (''checkpoint_id'', JStr (cp_id (su_checkpoint s))), (''provider'', JStr (ae_provider (su_reviewer s))),
       (''model'', JStr (ae_model (su_reviewer s))), (''changed_file_count'', JInt (int (length (rc_changed_files c))))]) (\<lambda>_.
     sbind (on_stage E AtGateway (\<lambda>w. (vt_complete T (ae_provider (su_reviewer s)) q, w))) (\<lambda>a.
     sbind (watched E AtGateway) (\<lambda>_.
     sbind (lift_result (\<lambda>e. SProvider [] ''INVALID_RESPONSE'' (vt_text T e)) (parse_response (aw_value a) (aw_ends a) V)) (\<lambda>k.
     ret (k, aw_usage a)))))))"

text \<open>An error ends the run, as cancelled or failed, unless it comes from opening or completing it.\<close>

definition with_review_run :: "stage_env \<Rightarrow> string \<Rightarrow> 'a sstep \<Rightarrow> 'a sstep" where
  "with_review_run E i m w =
     (case m w of
        (Inl e, w1) \<Rightarrow> (Inl e, w1\<lparr> sw_rv := rv_fail (se_now E AtFailed) i (fst (safe_failure E e)) (snd (safe_failure E e))
          (cancelled_error e) (sw_rv w1) \<rparr>)
      | (Inr x, w1) \<Rightarrow> (Inr x, w1))"

definition finish_review :: "stage_env \<Rightarrow> wf_job \<Rightarrow> review_run \<Rightarrow> json_text job \<Rightarrow> unit sstep" where
  "finish_review E job run j = finish_stage E StReviewing (wf_id job) ''REVIEW_COMPLETED''
     [(''blocking_issues'', JInt (rv_blocking_issues run)), (''checkpoint_id'', JStr (rv_checkpoint_id run)), (''dispatch_job_id'', JStr (j_id j)),
      (''execution_version'', JInt (rv_execution_version run)), (''review_run_id'', JStr (rv_id run)),
      (''total_issues'', JInt (rv_total_issues run)), (''verdict'', JStr (rv_verdict run))]"

definition review_completed_note :: "stage_env \<Rightarrow> wf_job \<Rightarrow> review_run \<Rightarrow> usage \<Rightarrow> unit sstep" where
  "review_completed_note E job run u = note_stage E AtResult (wf_id job) ''review.completed'' [(''review_run_id'', JStr (rv_id run)),
     (''verdict'', JStr (rv_verdict run)), (''total_issues'', JInt (rv_total_issues run)),
     (''blocking_issues'', JInt (rv_blocking_issues run)), (''input_tokens'', JInt (us_input_tokens u)),
     (''output_tokens'', JInt (us_output_tokens u))]"

definition run_review :: "review_tools \<Rightarrow> stage_env \<Rightarrow> json_text job \<Rightarrow> wf_job \<Rightarrow> review_subject \<Rightarrow> review_run \<Rightarrow> unit sstep" where
  "run_review T E j job s run0 =
     sbind (on_up E AtRunStart (call_rv (rv_start (se_now E AtRunStart) (rv_id run0)))) (\<lambda>run.
     sbind (with_review_run E (rv_id run) (ask_reviewer T E job s run)) (\<lambda>(k, u).
     sbind (call_rv (rv_complete (\<lambda>n. se_new_id E (AtStep n)) (se_now E AtResult) (rv_id run) k u)) (\<lambda>closed.
     with_review_run E (rv_id closed) (sbind (review_completed_note E job closed u) (\<lambda>_. finish_review E job closed j)))))"

definition review_stage :: "review_tools \<Rightarrow> stage_env \<Rightarrow> json_text job \<Rightarrow> wf_job \<Rightarrow> unit sstep" where
  "review_stage T E j job =
     sbind (review_subject_of T job) (\<lambda>s.
     sbind (on_up E AtCreated (call_rv (rv_create_or_get (se_new_id E AtCreated) (se_now E AtCreated) (se_refs_ok E) (review_input_of job s))))
       (\<lambda>(run, _).
     if rv_status_of run = RvCompleted then with_review_run E (rv_id run) (finish_review E job run j)
     else run_review T E j job s run))"

definition fail_review_stage :: "stage_env \<Rightarrow> string \<Rightarrow> json_text job \<Rightarrow> stage_error \<Rightarrow> stage_world \<Rightarrow> stage_world" where
  "fail_review_stage E i j e = fail_stage E StReviewing i (j_id j) ''REVIEWER_HANDLER_FAILED'' (snd (safe_failure E e))"

definition review_handle :: "review_tools \<Rightarrow> stage_env \<Rightarrow> json_text job \<Rightarrow> unit sstep" where
  "review_handle T E j =
     (case decode_review_dispatch (j_payload j) of
        Inl e \<Rightarrow> fail_with (SCause (SDispatch e))
      | Inr p \<Rightarrow> settle_stage (fail_review_stage E (dp_workflow_job_id p) j) (stage_gate_step E StReviewing p (review_stage T E j)) j)"

text \<open>The tools of the daemon (cmd/api/main.go) over given plan tables.\<close>

definition daemon_review ::
  "plan_tables \<Rightarrow> (string \<Rightarrow> string + reviewer_settings) \<Rightarrow> (string \<Rightarrow> review_request \<Rightarrow> stage_error + review_answer)
    \<Rightarrow> (response_error \<Rightarrow> string) \<Rightarrow> (context_error \<Rightarrow> string) \<Rightarrow> string \<Rightarrow> string \<Rightarrow> review_tools" where
  "daemon_review tables settings gateway text ctext provider model = \<lparr> vt_settings = settings, vt_context = build_context tables,
     vt_context_text = ctext, vt_complete = gateway, vt_text = text, vt_default_provider = provider, vt_default_model = model \<rparr>"

subsection \<open>Where a review leaves the workflow\<close>

lemma decode_review_trimmed: "decode_review_dispatch raw = Inr p \<Longrightarrow> trim_space (dp_workflow_job_id p) = dp_workflow_job_id p"
  by (auto simp: decode_review_dispatch_def Let_def guardE_def trim_payload_def rbind_eq_Inr split: if_splits)

lemma quiet_same: "quiet (\<lambda>w. (f w, w))"
  by (rule quietI) simp

lemma plain_same: "(\<And>w e. f w = Inl e \<Longrightarrow> \<exists>c. e = SCause c) \<Longrightarrow> plain_step (\<lambda>w. (f w, w))"
  by (rule plain_stepI) simp

lemma quiet_subject: "quiet (review_subject_of T job)"
  unfolding review_subject_of_def by (auto intro!: quiet_bind quiet_same split: prod.splits)

lemma quiet_watched: "quiet (watched E site)"
  by (auto intro!: quietI simp: watched_def split: option.splits watch_result.splits)

lemma quiet_ask: "quiet (ask_reviewer T E job s run)"
  unfolding ask_reviewer_def
  by (auto intro!: quiet_bind quiet_on_up quiet_on_stage quiet_watched quiet_same split: prod.splits)

lemma quiet_with_run: "quiet m \<Longrightarrow> quiet (with_review_run E i m)"
  by (auto intro!: quietI simp: with_review_run_def dest: quietD split: prod.splits sum.splits)

lemma plain_with_run: "plain_step m \<Longrightarrow> plain_step (with_review_run E i m)"
  by (rule plain_stepI) (auto simp: with_review_run_def dest: plain_stepD split: prod.splits sum.splits)

lemma leaves_with_run: "leaves st K i m \<Longrightarrow> leaves st K i (with_review_run E r m)"
  by (rule leavesI) (auto simp: with_review_run_def dest: leavesD split: prod.splits sum.splits)

lemma stays_with_run: "stays m \<Longrightarrow> stays (with_review_run E r m)"
  by (rule staysI) (auto simp: with_review_run_def dest: staysD split: prod.splits sum.splits)

lemma finish_review_leaves:
  assumes "calm E" "trim_space (wf_id job) = wf_id job"
  shows "leaves StReviewing {StWaitingApproval} (wf_id job) (finish_review E job run j)"
  unfolding finish_review_def using assms
  by (intro leaves_finish) (simp_all add: plain_char_def upper_ascii_def action_of_string_def known_actions_def next_status_def transition_table_def)

lemma review_stage_leaves:
  assumes "calm E" "trim_space (wf_id job) = wf_id job"
  shows "leaves StReviewing {StWaitingApproval} (wf_id job) (review_stage T E j job)"
  unfolding review_stage_def run_review_def review_completed_note_def calm_calls [OF assms(1)]
  using finish_review_leaves [OF assms]
  by (auto intro!: leaves_bind quiet_subject quiet_with_run quiet_ask leaves_with_run split: prod.splits)

text \<open>Errors that are no context errors and whose message is not blank.\<close>

definition told_step :: "stage_env \<Rightarrow> 'a sstep \<Rightarrow> bool" where
  "told_step E m = (\<forall>w e w'. m w = (Inl e, w') \<longrightarrow> (\<exists>c. e = SCause c) \<and> trim_space (snd (safe_failure E e)) \<noteq> [])"

lemma told_stepI: "(\<And>w e w'. m w = (Inl e, w') \<Longrightarrow> (\<exists>c. e = SCause c) \<and> trim_space (snd (safe_failure E e)) \<noteq> []) \<Longrightarrow> told_step E m"
  by (simp add: told_step_def)

lemma told_stepD: "told_step E m \<Longrightarrow> m w = (Inl e, w') \<Longrightarrow> (\<exists>c. e = SCause c) \<and> trim_space (snd (safe_failure E e)) \<noteq> []"
  by (auto simp: told_step_def)

lemma told_bind:
  assumes "told_step E m" "\<And>x. told_step E (f x)"
  shows "told_step E (sbind m f)"
proof (rule told_stepI)
  fix w e w' assume "sbind m f w = (Inl e, w')"
  then show "(\<exists>c. e = SCause c) \<and> trim_space (snd (safe_failure E e)) \<noteq> []"
    by (cases rule: sbind_cases) (use assms in \<open>blast dest: told_stepD\<close>)+
qed

definition tellable :: "stage_cause \<Rightarrow> bool" where
  "tellable c = (case c of SProvider _ _ m \<Rightarrow> trim_space m \<noteq> [] | _ \<Rightarrow> True)"

lemma tellable_message: "calm E \<Longrightarrow> tellable c \<Longrightarrow> trim_space (snd (safe_failure E (SCause c))) \<noteq> []"
  using cut_message [of E c] take_not_blank [of _ 1024]
  by (cases c) (simp_all add: safe_failure_def tellable_def)

lemma told_plain: "calm E \<Longrightarrow> (\<And>w e w'. m w = (Inl e, w') \<Longrightarrow> \<exists>c. e = SCause c \<and> tellable c) \<Longrightarrow> told_step E m"
  by (rule told_stepI) (use tellable_message in blast)

lemma told_calls:
  assumes "calm E"
  shows "told_step E (ret x)" "tellable c \<Longrightarrow> told_step E (fail_with (SCause c))"
    "(\<And>e. r = Inl e \<Longrightarrow> tellable (f e)) \<Longrightarrow> told_step E (lift_result f r)" "(\<And>e. tellable (g e)) \<Longrightarrow> told_step E (read_with g h)"
    "told_step E (call_rv m)" "told_step E (note_stage E site i ty kvs)" "told_step E (\<lambda>w. (Inr (y w), w))"
  by (auto intro!: told_plain [OF assms] simp: lift_result_def read_with_def call_rv_def note_stage_def tellable_def split: sum.splits if_splits)

lemma told_with_run: "told_step E m \<Longrightarrow> told_step E (with_review_run E i m)"
  by (rule told_stepI) (auto simp: with_review_run_def dest: told_stepD split: prod.splits sum.splits)

lemma told_subject: "calm E \<Longrightarrow> told_step E (review_subject_of T job)"
  unfolding review_subject_of_def completed_execution_def
  by (auto intro!: told_bind told_calls simp: tellable_def split: prod.splits)

lemma told_ask:
  assumes "calm E" "\<And>p q e. vt_complete T p q = Inl e \<Longrightarrow> \<exists>c. e = SCause c \<and> tellable c" "\<And>e. trim_space (vt_text T e) \<noteq> []"
  shows "told_step E (ask_reviewer T E job s run)"
proof -
  have w: "told_step E (watched E AtGateway)"
    using calmD(3) [OF assms(1), of AtGateway]
    by (auto intro!: told_plain [OF assms(1)] simp: watched_def tellable_def split: option.splits watch_result.splits)
  have g: "told_step E (\<lambda>w. (vt_complete T p q, w))" for p q using assms(2) by (auto intro!: told_plain [OF assms(1)])
  show ?thesis
    unfolding ask_reviewer_def calm_calls [OF assms(1)]
    by (auto intro!: told_bind w g told_calls assms(1) simp: tellable_def assms(3) split: prod.splits)
qed

lemma told_finish: "calm E \<Longrightarrow> told_step E (finish_review E job run j)"
  unfolding finish_review_def
  by (auto intro!: told_plain simp: finish_stage_def calm_calls read_with_def lift_result_def sbind_def tellable_def
      split: sum.splits if_splits prod.splits)

lemma review_stage_told:
  assumes "calm E" "\<And>p q e. vt_complete T p q = Inl e \<Longrightarrow> \<exists>c. e = SCause c \<and> tellable c" "\<And>e. trim_space (vt_text T e) \<noteq> []"
  shows "told_step E (review_stage T E j job)"
  unfolding review_stage_def run_review_def review_completed_note_def calm_calls [OF assms(1)]
  by (auto intro!: told_bind told_subject told_with_run told_ask told_finish told_calls assms split: prod.splits)

lemma gate_told:
  assumes "calm E" "\<And>job. told_step E (work job)" "at_stage st i (sw_wf w)" "trim_space (dp_workflow_job_id p) = i" "st \<noteq> StCancelled"
    and "stage_gate_step E st p work w = (Inl e, w')"
  shows "\<exists>c. e = SCause c \<and> trim_space (snd (safe_failure E e)) \<noteq> []"
proof -
  have "wf_get (sw_wf w) (dp_workflow_job_id p) = wf_get (sw_wf w) i" using assms(4) by (auto simp: wf_get_def)
  then obtain v where v: "wf_get (sw_wf w) (dp_workflow_job_id p) = Inr v" "wf_status_of v = st" "wf_db_ok (sw_wf w)"
    using assms(3) by (auto simp: at_stage_def)
  then have "\<not> wf_cancellation_requested v" using wf_get_Inr [OF v(1)] assms(5) by (auto simp: wf_db_ok_def wf_row_ok_def)
  then show ?thesis
    using assms(6) v told_stepD [OF assms(2)] tellable_message [OF assms(1)]
    by (auto simp: stage_gate_step_def calm_calls [OF assms(1)] stage_gate_def tellable_def split: if_splits)
qed

text \<open>C0: A review stage is not stranded by errors of its own. On its last attempt, with nothing cancelled and no deadline, and
  a gateway whose errors are no context errors and have a message, a review delivery that finds its workflow in
  REVIEWING leaves it in WAITING_APPROVAL or FAILED.\<close>

theorem review_never_strands:
  assumes "calm E" "\<And>p q e. vt_complete T p q = Inl e \<Longrightarrow> \<exists>c. e = SCause c \<and> tellable c" "\<And>e. trim_space (vt_text T e) \<noteq> []"
    and "decode_review_dispatch (j_payload j) = Inr p" "last_attempt j" "length (j_id j) \<le> 5000"
    and "at_stage StReviewing (dp_workflow_job_id p) (sw_wf w)"
  shows "left_stage {StWaitingApproval, StFailed} (dp_workflow_job_id p) (sw_wf (snd (review_handle T E j w)))"
proof -
  let ?i = "dp_workflow_job_id p" and ?m = "stage_gate_step E StReviewing p (review_stage T E j)"
  have i: "trim_space ?i = ?i" using assms(4) by (rule decode_review_trimmed)
  have l: "leaves StReviewing {StWaitingApproval} ?i ?m"
    by (rule gate_leaves [OF assms(1) _ i]) (use review_stage_leaves [OF assms(1)] i in metis)
  have "left_stage {StFailed, StWaitingApproval} ?i (sw_wf (snd (settle_stage (fail_review_stage E ?i j) ?m j w)))"
    unfolding fail_review_stage_def [abs_def]
  proof (rule settled_leaves [where message = "\<lambda>e. snd (safe_failure E e)" and m = ?m, OF assms(1) l _ assms(5,7) i _ assms(6)])
    show "\<exists>c. e = SCause c \<and> trim_space (snd (safe_failure E e)) \<noteq> []" if "?m w = (Inl e, w')" for e w'
      using gate_told [OF assms(1) review_stage_told [OF assms(1-3)] assms(7) i _ that] by simp
  qed (simp add: failure_statuses_def)
  then show ?thesis using assms(4) by (simp add: review_handle_def insert_commute)
qed

text \<open>C0: A review that times out is stranded. A delivery that ends with an error below which \<open>errors.Is\<close> finds a context
  error, be it the shutdown of the daemon, the wall clock of the stage or merely the timeout of one provider request,
  leaves the workflow and its history as they were: on the last attempt too, so that the workflow stays in REVIEWING with
  a dead job.\<close>

theorem timed_out_review_strands:
  assumes "review_handle T E j w = (Inl e, w')" "\<forall>c. e \<noteq> SCause c"
  shows "same_db (sw_wf w) (sw_wf w') \<and> (at_stage StReviewing i (sw_wf w) \<longrightarrow> at_stage StReviewing i (sw_wf w'))"
proof -
  have f: "stays (finish_review E job run j)" for job run unfolding finish_review_def by (rule stays_finish)
  have "stays (run_review T E j job s run)" for job s run
    unfolding run_review_def review_completed_note_def
    by (intro stays_bind quiet_on_up quiet_calls) (auto intro!: stays_bind quiet_with_run quiet_ask stays_with_run f split: prod.splits)
  then have "stays (review_stage T E j job)" for job
    unfolding review_stage_def
    by (auto intro!: stays_bind quiet_subject quiet_on_up stays_with_run f split: prod.splits)
  then have "stays (stage_gate_step E StReviewing p (review_stage T E j))" for p by (rule gate_stays)
  note g = this
  have s: "same_db (sw_wf w) (sw_wf w')"
  proof (cases "decode_review_dispatch (j_payload j)")
    case (Inl x)
    then show ?thesis using assms(1) by (simp add: review_handle_def)
  next
    case (Inr p)
    then show ?thesis using assms(1) settle_stays [OF g _ assms(2)] by (simp add: review_handle_def)
  qed
  then show ?thesis using same_db_stage [OF s] by simp
qed

subsection \<open>A review in calm surroundings and one that times out\<close>

definition sample_agent :: agent_entry where
  "sample_agent = \<lparr> ae_role = ''REVIEWER'', ae_provider = ''x'', ae_model = ''m'', ae_max_output_tokens = 0, ae_enabled = True,
     ae_system_instruction = [] \<rparr>"

definition sample_review_tools :: "(string \<Rightarrow> review_request \<Rightarrow> stage_error + review_answer) \<Rightarrow> review_tools" where
  "sample_review_tools gateway = \<lparr> vt_settings = (\<lambda>_. Inr \<lparr> vs_version = 1, vs_agents = [sample_agent] \<rparr>),
     vt_context = (\<lambda>_. build_context sample_tables ''p''), vt_context_text = (\<lambda>_. ''x''), vt_complete = gateway, vt_text = (\<lambda>_. ''x''),
     vt_default_provider = ''x'', vt_default_model = ''m'' \<rparr>"

definition request_timeout :: stage_error where
  "request_timeout = SWrapped CtxDeadline ''x'' ''TIMEOUT'' ''provider request timed out''"

definition no_review_world :: stage_world where
  "no_review_world = (reviewed_world sample_reviewing)\<lparr> sw_rv := \<lparr> rd_runs = [], rd_issues = [] \<rparr> \<rparr>"

definition review_job :: "json_text job" where
  "review_job = stage_job ''workflow.review'' ActChecksCompleted StReviewing"

definition review_payload :: dispatch_payload_rec where
  "review_payload = \<lparr> dp_workflow_job_id = ''w'', dp_workflow_version = 5, dp_action = ''CHECKS_COMPLETED'', dp_target_status = ''REVIEWING'' \<rparr>"

lemma review_job_decodes: "decode_review_dispatch (j_payload review_job) = Inr review_payload"
  using unmarshal_dispatch_payload [of 5 "''w''" ActChecksCompleted StReviewing]
  by (simp add: review_job_def review_payload_def stage_job_simps decode_review_dispatch_def trim_payload_def plain_char_def Let_def)

lemma sample_reviewing_row:
  obtains job where "wf_get sample_reviewing ''w'' = Inr job" "wf_id job = ''w''" "wf_version job = 6" "wf_status_of job = StReviewing"
    "wf_db_ok sample_reviewing" "\<not> wf_cancellation_requested job" "wf_execution_version job = 1"
proof -
  obtain job where j: "db_workflows sample_reviewing = [job]" "wf_id job = ''w''" "wf_version job = 6" "wf_status_of job = StReviewing"
    and r: "wf_reachable sample_reviewing"
    using sample_reviewing_at by (auto simp: at_status_def)
  have ok: "wf_db_ok sample_reviewing" by (rule wf_reachable_ok [OF r])
  then have "wf_row_ok job" using j(1) by (auto simp: wf_db_ok_def)
  then have "\<not> wf_cancellation_requested job" using j(4) by (auto simp: wf_row_ok_def)
  moreover have "carries sample_reviewing 1"
    using sample_next_carries [OF sample_checking_carries sample_checking_at, of "''e''" "''CHECKS_COMPLETED''"] sample_reviewing_at
    by (simp add: sample_actions sample_reviewing_next)
  then have "wf_execution_version job = 1" using j(1) by (auto simp: carries_def)
  moreover have "wf_get sample_reviewing ''w'' = Inr job" using j by (simp add: wf_get_def load_job_def lookup_by_def plain_char_def)
  ultimately show thesis using that j ok by blast
qed

lemma sample_at_reviewing: "at_stage StReviewing ''w'' (sw_wf no_review_world)"
proof -
  obtain job where "wf_get sample_reviewing ''w'' = Inr job" "wf_status_of job = StReviewing" "wf_db_ok sample_reviewing"
    by (rule sample_reviewing_row)
  then show ?thesis by (auto simp: at_stage_def no_review_world_def reviewed_world_def sample_stage_world_def)
qed

lemma review_never_strands_witness:
  "left_stage {StWaitingApproval, StFailed} ''w'' (sw_wf (snd (review_handle
     (sample_review_tools (\<lambda>_ _. Inr \<lparr> aw_value = Some JNull, aw_ends = True, aw_usage = no_usage \<rparr>)) sample_stage_env review_job no_review_world)))"
  using review_never_strands [OF sample_stage_calm _ _ review_job_decodes, of "sample_review_tools (\<lambda>_ _. Inr \<lparr> aw_value = Some JNull, aw_ends = True, aw_usage = no_usage \<rparr>)" no_review_world] sample_at_reviewing
  by (simp add: sample_review_tools_def review_payload_def review_job_def stage_job_simps plain_char_def)

lemma sample_subject:
  assumes "wf_id job = ''w''" "wf_execution_version job = 1"
  obtains s where "review_subject_of (sample_review_tools g) job no_review_world = (Inr s, no_review_world)" "su_execution s = done_execution"
    "su_checks s = passed_checks" "su_checkpoint s = the_checkpoint" "su_steps s = []" "1 \<le> su_settings_version s"
    "trim_space (ae_provider (su_reviewer s)) \<noteq> []" "trim_space (ae_model (su_reviewer s)) \<noteq> []"
proof -
  have c: "completed_execution job no_review_world = (Inr done_execution, no_review_world)"
    using assms by (simp add: completed_execution_def sbind_def read_with_def lift_result_def no_review_world_def reviewed_world_def sample_stage_world_def
      get_by_version_def empty_ex_db_def done_execution_def new_execution_def demo_execution_input_def plain_char_def)
  have k: "ck_get_by_version (sw_ck no_review_world) (wf_id job) (wf_execution_version job) = Inr passed_checks"
    using assms by (simp add: ck_get_by_version_def no_review_world_def reviewed_world_def passed_checks_def plain_char_def)
  have p: "list_checkpoints (sw_ex no_review_world) ''e'' = [the_checkpoint]" "ck_list_steps (sw_ck no_review_world) (cr_id passed_checks) = []"
    by (simp_all add: list_checkpoints_def ck_list_steps_def no_review_world_def reviewed_world_def the_checkpoint_def plain_char_def)
  let ?a = "chosen_reviewer job (sample_agent\<lparr> ae_max_output_tokens := 4096 \<rparr>)"
  let ?s = "\<lparr> su_execution = done_execution, su_checks = passed_checks, su_steps = [], su_checkpoint = the_checkpoint, su_reviewer = ?a,
    su_settings_version = (if wf_agent_settings_version job < 1 then 1 else wf_agent_settings_version job) \<rparr>"
  have a: "resolve_reviewer [sample_agent] ''x'' ''m'' = Inr (sample_agent\<lparr> ae_max_output_tokens := 4096 \<rparr>)"
    by (simp add: resolve_reviewer_def sample_agent_def plain_char_def)
  show thesis
  proof (rule that [of ?s])
    show "review_subject_of (sample_review_tools g) job no_review_world = (Inr ?s, no_review_world)"
      by (simp add: review_subject_of_def sbind_def c k p a read_with_def lift_result_def sample_review_tools_def) (simp add: passed_checks_def)
  qed (simp_all add: chosen_reviewer_def sample_agent_def Let_def plain_char_def)
qed

lemma sample_created_review:
  assumes "wf_id job = ''w''" "wf_execution_version job = 1" "su_execution s = done_execution" "su_checks s = passed_checks"
    "su_checkpoint s = the_checkpoint" "1 \<le> su_settings_version s" "trim_space (ae_provider (su_reviewer s)) \<noteq> []" "trim_space (ae_model (su_reviewer s)) \<noteq> []"
  obtains r t where "rv_create_or_get ''z'' 0 True (review_input_of job s) \<lparr> rd_runs = [], rd_issues = [] \<rparr> = Inr (\<lparr> rd_runs = [t], rd_issues = [] \<rparr>, r, True)"
    "rv_id r = ''z''" "rv_id t = ''z''" "rv_status_of r = RvPending" "rv_status_of t = RvPending"
proof -
  have "review_input_ok (normalize_review_input (review_input_of job s))"
    using assms by (simp add: review_input_ok_def normalize_review_input_def review_input_of_def passed_checks_def the_checkpoint_def plain_char_def)
  then show thesis
    using that by (simp add: rv_create_or_get_def rv_get_by_version_def insert_review_def Let_def new_review_def)
qed

lemma sample_ask_times_out:
  assumes "su_execution s = done_execution" "su_checks s = passed_checks" "su_checkpoint s = the_checkpoint" "su_steps s = []"
    "trim_space (ae_model (su_reviewer s)) \<noteq> []" "rv_id run = ''z''" "wf_id job = ''w''"
  shows "\<exists>w'. ask_reviewer (sample_review_tools (\<lambda>_ _. Inl request_timeout)) sample_stage_env job s run w = (Inl request_timeout, w')"
proof -
  have "\<exists>c V. build_context sample_tables ''p'' done_execution the_checkpoint passed_checks [] = Inr (c, V)"
    by (simp add: the_checkpoint_def build_context_def sample_tables_def lookup_by_def unmarshal_strings_def dec_list_def dec_elem_def
        all_options_def List.map_filter_def load_implementation_plan_def rbind_def Let_def truncate_bytes_def max_patch_bytes_def plain_char_def
        to_slashes_def path_clean_def path_parts_def is_rooted_def has_prefix_def)
  then obtain c V where c: "build_context sample_tables ''p'' done_execution the_checkpoint passed_checks [] = Inr (c, V)" by auto
  have "\<exists>q. build_request c \<lparr> qc_run_id = rv_id run, qc_workflow_job_id = wf_id job, qc_model = ae_model (su_reviewer s),
      qc_max_output_tokens = ae_max_output_tokens (su_reviewer s), qc_system_instruction = ae_system_instruction (su_reviewer s) \<rparr> = Inr q"
    using assms by (simp add: build_request_def Let_def plain_char_def)
  then obtain q where q: "build_request c \<lparr> qc_run_id = rv_id run, qc_workflow_job_id = wf_id job, qc_model = ae_model (su_reviewer s),
      qc_max_output_tokens = ae_max_output_tokens (su_reviewer s), qc_system_instruction = ae_system_instruction (su_reviewer s) \<rparr> = Inr q" ..
  obtain w1 where n: "note_stage sample_stage_env AtRunStart (wf_id job) ''review.started'' kvs w = (Inr (), w1)" for kvs
    by (simp add: note_stage_def sample_stage_env_def)
  show ?thesis
    using assms(1-4) q
    by (simp add: ask_reviewer_def sbind_def calm_calls [OF sample_stage_calm] read_with_def lift_result_def sample_review_tools_def c n)
qed

lemma timed_out_review_strands_witness:
  "\<exists>w'. review_handle (sample_review_tools (\<lambda>_ _. Inl request_timeout)) sample_stage_env review_job no_review_world = (Inl request_timeout, w')
     \<and> last_attempt review_job \<and> at_stage StReviewing ''w'' (sw_wf w')"
proof -
  obtain job where j: "wf_get sample_reviewing ''w'' = Inr job" "wf_id job = ''w''" "wf_version job = 6" "wf_status_of job = StReviewing"
    "\<not> wf_cancellation_requested job" "wf_execution_version job = 1"
    by (rule sample_reviewing_row)
  let ?T = "sample_review_tools (\<lambda>_ _. Inl request_timeout)" and ?E = sample_stage_env
  obtain s where s: "review_subject_of ?T job no_review_world = (Inr s, no_review_world)" "su_execution s = done_execution"
    "su_checks s = passed_checks" "su_checkpoint s = the_checkpoint" "su_steps s = []" "1 \<le> su_settings_version s"
    "trim_space (ae_provider (su_reviewer s)) \<noteq> []" "trim_space (ae_model (su_reviewer s)) \<noteq> []"
    by (rule sample_subject [OF j(2,6)])
  obtain r t where r: "rv_create_or_get ''z'' 0 True (review_input_of job s) \<lparr> rd_runs = [], rd_issues = [] \<rparr>
      = Inr (\<lparr> rd_runs = [t], rd_issues = [] \<rparr>, r, True)" "rv_id r = ''z''" "rv_id t = ''z''" "rv_status_of r = RvPending" "rv_status_of t = RvPending"
    by (rule sample_created_review [OF j(2,6) s(2-4,6-8)])
  have rs: "rv_start 0 ''z'' \<lparr> rd_runs = [t], rd_issues = [] \<rparr> = Inr (\<lparr> rd_runs = [start_review 0 t], rd_issues = [] \<rparr>, start_review 0 t)"
    using r(3,5) by (simp add: rv_start_def update_returning_def open_review_def plain_char_def)
  have "\<exists>w'. ask_reviewer ?T ?E job s (start_review 0 t) w = (Inl request_timeout, w')" for w
    by (rule sample_ask_times_out [OF s(2-5,8) _ j(2)]) (simp add: start_review_def r)
  note ask = this
  have wr: "\<exists>w'. with_review_run ?E i (ask_reviewer ?T ?E job s (start_review 0 t)) w = (Inl request_timeout, w')" for i w
  proof -
    obtain w1 where "ask_reviewer ?T ?E job s (start_review 0 t) w = (Inl request_timeout, w1)" using ask [of w] by blast
    then show ?thesis by (simp add: with_review_run_def)
  qed
  have e: "se_new_id ?E site = ''z''" "se_now ?E site = 0" "se_refs_ok ?E" "sw_rv no_review_world = \<lparr> rd_runs = [], rd_issues = [] \<rparr>" for site
    by (simp_all add: sample_stage_env_def no_review_world_def)
  let ?w1 = "no_review_world\<lparr> sw_rv := \<lparr> rd_runs = [start_review 0 t], rd_issues = [] \<rparr> \<rparr>"
  obtain w' where w': "with_review_run ?E (rv_id (start_review 0 t)) (ask_reviewer ?T ?E job s (start_review 0 t)) ?w1 = (Inl request_timeout, w')"
    using wr by blast
  have "review_stage ?T ?E review_job job no_review_world = (Inl request_timeout, w')"
    using r(2,4) w' by (simp add: review_stage_def run_review_def sbind_def s(1) calm_calls [OF sample_stage_calm] call_rv_def e r(1) rs)
  then have h: "review_handle ?T ?E review_job no_review_world = (Inl request_timeout, w')"
    using j by (auto simp: review_handle_def review_job_decodes settle_stage_def stage_gate_step_def stage_gate_def calm_calls [OF sample_stage_calm]
        review_payload_def no_review_world_def reviewed_world_def sample_stage_world_def request_timeout_def)
  have "at_stage StReviewing ''w'' (sw_wf w')"
    using timed_out_review_strands [OF h, of "''w''"] sample_at_reviewing by (simp add: request_timeout_def)
  then show ?thesis using h stage_job_simps(3) by (simp add: review_job_def)
qed

end
