(* ===== verification/LlmGateway.thy ===== *)
theory LlmGateway
  imports HandlerBase ExecutionRepo "HOL-Library.AList"
begin

text \<open>The gateway to the language models (internal/llm: types.go, errors.go, validate.go, registry.go, policy.go, gateway.go):
  one logical request becomes a bounded number of attempts at the provider and its fallbacks, within a token budget.

  A provider answers the n-th attempt of a call with a response and maybe an error, as its Go interface does. The
  clock, how the context stands and the random jitter are arguments by site. Metadata are association lists without repeated keys. Raw JSON
  stays text; whether it is valid is an argument. Sampling temperature, cost estimates and the range check of the jitter (floating point) and the time stamps that the
  recorder puts on events are left out.\<close>

subsection \<open>Requests and responses\<close>

record chat_message =
  cm_role :: string
  cm_content :: string

type_synonym metadata = "(string \<times> string) list"

record llm_call =
  lc_model :: string
  lc_messages :: "chat_message list"
  lc_schema :: string
  lc_max_output_tokens :: int
  lc_metadata :: metadata

record llm_answer =
  la_id :: string
  la_model :: string
  la_content :: string
  la_finish_reason :: string
  la_usage :: usage
  la_metadata :: metadata

record provider_error =
  pe_provider :: string
  pe_code :: string
  pe_message :: string
  pe_retryable :: bool
  pe_retry_after :: int
  pe_cause :: "ctx_error option"

text \<open>What a call may end with: a provider error in the chain, a bare context error, anything else.\<close>

datatype call_error = CallProvider provider_error | CallContext ctx_error | CallOther

definition lookup_meta :: "metadata \<Rightarrow> string \<Rightarrow> string" where
  "lookup_meta m k = (case map_of m k of None \<Rightarrow> [] | Some v \<Rightarrow> v)"

text \<open>\<open>strconv.Atoi\<close> and \<open>strconv.ParseBool\<close> with their errors ignored: a malformed number is 0, one out of range the
  nearest in range.\<close>

fun digits_value :: "nat \<Rightarrow> string \<Rightarrow> nat option" where
  "digits_value n [] = Some n"
| "digits_value n (c # s) = (let d = (of_char c :: nat) in if 48 \<le> d \<and> d \<le> 57 then digits_value (10 * n + (d - 48)) s else None)"

definition clamp_int :: "int \<Rightarrow> int" where
  "clamp_int i = max (- (2 ^ 63)) (min (2 ^ 63 - 1) i)"

definition signed_value :: "string \<Rightarrow> int option" where
  "signed_value s = (let neg = (case s of [] \<Rightarrow> False | c # _ \<Rightarrow> c = CHR ''-'');
                 ds = (case s of [] \<Rightarrow> [] | c # r \<Rightarrow> if c = CHR ''-'' \<or> c = CHR ''+'' then r else s) in
     if ds = [] then None
     else map_option (\<lambda>n. if neg then - int n else int n) (digits_value 0 ds))"

definition atoi :: "string \<Rightarrow> int" where
  "atoi s = (case signed_value s of None \<Rightarrow> 0 | Some i \<Rightarrow> clamp_int i)"

definition parse_bool :: "string \<Rightarrow> bool" where
  "parse_bool s = (s \<in> {''1'', ''t'', ''T'', ''TRUE'', ''true'', ''True''})"

definition show_bool :: "bool \<Rightarrow> string" where
  "show_bool b = (if b then ''true'' else ''false'')"

definition apply_execution_metadata :: "metadata \<Rightarrow> usage \<Rightarrow> usage" where
  "apply_execution_metadata m u =
     (if m = [] then u
      else u\<lparr> us_final_provider := trim_space (lookup_meta m ''final_provider''), us_final_model := trim_space (lookup_meta m ''final_model''),
        us_attempt_count := atoi (lookup_meta m ''attempt_count''), us_fallback_used := parse_bool (lookup_meta m ''fallback_used''),
        us_estimated_input_tokens := atoi (lookup_meta m ''estimated_input_tokens''),
        us_estimated_tokens_spent := atoi (lookup_meta m ''estimated_tokens_spent''),
        us_validation_attempts := atoi (lookup_meta m ''validation_attempts''),
        us_validation_error_count := atoi (lookup_meta m ''validation_error_count''),
        us_repair_used := parse_bool (lookup_meta m ''repair_used''), us_redaction_count := atoi (lookup_meta m ''redaction_count'') \<rparr>)"

definition clone_answer :: "llm_answer \<Rightarrow> llm_answer" where
  "clone_answer r = r\<lparr> la_usage := apply_execution_metadata (la_metadata r) (la_usage r) \<rparr>"

definition normalize_usage :: "usage \<Rightarrow> usage" where
  "normalize_usage u = u\<lparr> us_input_tokens := max 0 (us_input_tokens u), us_output_tokens := max 0 (us_output_tokens u),
     us_cached_input_tokens := max 0 (us_cached_input_tokens u),
     us_total_tokens := max 0 (us_input_tokens u) + max 0 (us_output_tokens u) \<rparr>"

definition normalize_answer :: "llm_call \<Rightarrow> llm_answer \<Rightarrow> llm_answer" where
  "normalize_answer q r = r\<lparr> la_id := trim_space (la_id r),
     la_model := (if trim_space (la_model r) = [] then trim_space (lc_model q) else trim_space (la_model r)),
     la_finish_reason := (if la_finish_reason r = [] then ''UNKNOWN'' else la_finish_reason r),
     la_usage := normalize_usage (la_usage r) \<rparr>"

definition has_usage :: "usage \<Rightarrow> bool" where
  "has_usage u = (us_input_tokens u \<noteq> 0 \<or> us_output_tokens u \<noteq> 0 \<or> us_cached_input_tokens u \<noteq> 0 \<or> us_total_tokens u \<noteq> 0)"

definition sum_usage :: "usage \<Rightarrow> usage \<Rightarrow> usage" where
  "sum_usage l r = normalize_usage (no_usage\<lparr> us_input_tokens := us_input_tokens l + us_input_tokens r,
     us_output_tokens := us_output_tokens l + us_output_tokens r,
     us_cached_input_tokens := us_cached_input_tokens l + us_cached_input_tokens r \<rparr>)"

subsection \<open>Errors\<close>

definition provider_failure :: "string \<Rightarrow> string \<Rightarrow> string \<Rightarrow> provider_error" where
  "provider_failure p code m = \<lparr> pe_provider = p, pe_code = code, pe_message = m, pe_retryable = False, pe_retry_after = 0, pe_cause = None \<rparr>"

definition normalize_error :: "string \<Rightarrow> call_error \<Rightarrow> provider_error" where
  "normalize_error p e =
     (case e of
        CallProvider x \<Rightarrow> x\<lparr> pe_provider := (if trim_space (pe_provider x) = [] then p else pe_provider x),
                            pe_code := (if pe_code x = [] then ''UNKNOWN'' else pe_code x) \<rparr>
      | CallContext CtxCanceled \<Rightarrow> (provider_failure p ''CANCELLED'' ''request was cancelled'')\<lparr> pe_cause := Some CtxCanceled \<rparr>
      | CallContext CtxDeadline \<Rightarrow> (provider_failure p ''TIMEOUT'' ''request deadline exceeded'')\<lparr> pe_retryable := True, pe_cause := Some CtxDeadline \<rparr>
      | CallOther \<Rightarrow> provider_failure p ''UNKNOWN'' ''provider request failed'')"

definition retryable_error :: "provider_error \<Rightarrow> bool" where
  "retryable_error e = (pe_retryable e \<and> pe_code e \<in> {''RATE_LIMITED'', ''TIMEOUT'', ''UNAVAILABLE''})"

definition should_fallback :: "provider_error \<Rightarrow> bool" where
  "should_fallback e = (pe_code e = ''TIMEOUT'' \<or> pe_code e = ''UNAVAILABLE'')"

definition budget_error :: "string \<Rightarrow> provider_error" where
  "budget_error m = provider_failure ''LLM'' ''BUDGET_EXCEEDED'' m"

text \<open>Why a request is invalid.\<close>

definition message_fault :: "chat_message \<Rightarrow> bool" where
  "message_fault m = (cm_role m \<notin> {''system'', ''user'', ''assistant''} \<or> trim_space (cm_content m) = [])"

definition validate_request :: "(string \<Rightarrow> bool) \<Rightarrow> string \<Rightarrow> llm_call \<Rightarrow> provider_error option" where
  "validate_request json_valid p q =
     (if trim_space (lc_model q) = [] then Some (provider_failure p ''INVALID_REQUEST'' ''model is required'')
      else if lc_messages q = [] then Some (provider_failure p ''INVALID_REQUEST'' ''at least one message is required'')
      else case find message_fault (lc_messages q) of
        Some m \<Rightarrow> let i = show_nat (length (takeWhile (\<lambda>m. \<not> message_fault m) (lc_messages q))) in
          Some (provider_failure p ''INVALID_REQUEST''
            (if cm_role m \<notin> {''system'', ''user'', ''assistant''} then ''message '' @ i @ '' has an invalid role''
             else ''message '' @ i @ '' content is required''))
      | None \<Rightarrow>
        if lc_max_output_tokens q < 0 then Some (provider_failure p ''INVALID_REQUEST'' ''max output tokens cannot be negative'')
        else if lc_schema q \<noteq> [] \<and> \<not> json_valid (lc_schema q)
          then Some (provider_failure p ''INVALID_REQUEST'' ''response schema must be valid JSON'')
        else None)"

subsection \<open>Providers and policy\<close>

type_synonym provider = "nat \<Rightarrow> llm_call \<Rightarrow> llm_answer \<times> call_error option"
type_synonym registry = "(string \<times> provider) list"

definition provider_name :: "string \<Rightarrow> string" where
  "provider_name s = to_lower (trim_space s)"

datatype registry_error = NoProviderName | ProviderExists string | ProviderNotFound string

definition register :: "string \<Rightarrow> provider \<Rightarrow> registry \<Rightarrow> registry_error + registry" where
  "register name p r = (let n = provider_name name in
     if n = [] then Inl NoProviderName else if map_of r n \<noteq> None then Inl (ProviderExists n) else Inr (AList.update n p r))"

definition upsert_provider :: "string \<Rightarrow> provider \<Rightarrow> registry \<Rightarrow> registry_error + registry" where
  "upsert_provider name p r = (let n = provider_name name in if n = [] then Inl NoProviderName else Inr (AList.update n p r))"

definition remove_provider :: "string \<Rightarrow> registry \<Rightarrow> registry \<times> bool" where
  "remove_provider name r = (let n = provider_name name in
     if n = [] then (r, False) else (AList.delete n r, map_of r n \<noteq> None))"

definition provider_of :: "registry \<Rightarrow> string \<Rightarrow> registry_error + provider" where
  "provider_of r name = (let n = provider_name name in
     if n = [] then Inl (ProviderNotFound ''provider name is required'')
     else case map_of r n of None \<Rightarrow> Inl (ProviderNotFound n) | Some p \<Rightarrow> Inr p)"

definition provider_names :: "registry \<Rightarrow> string list" where
  "provider_names r = sort (remdups (map fst r))"

record fallback_target =
  ft_provider :: string
  ft_model :: string

record token_budget =
  tb_max_input :: int
  tb_max_output :: int
  tb_max_total :: int

record llm_policy =
  lp_attempt_timeout :: int
  lp_max_wall_clock :: int
  lp_max_attempts :: int
  lp_initial_backoff :: int
  lp_max_backoff :: int
  lp_fallbacks :: "fallback_target list"
  lp_budget :: token_budget

definition single_attempt_policy :: llm_policy where
  "single_attempt_policy = \<lparr> lp_attempt_timeout = 0, lp_max_wall_clock = 0, lp_max_attempts = 1, lp_initial_backoff = 0, lp_max_backoff = 0,
     lp_fallbacks = [], lp_budget = \<lparr> tb_max_input = 0, tb_max_output = 0, tb_max_total = 0 \<rparr> \<rparr>"

definition normal_target :: "fallback_target \<Rightarrow> fallback_target" where
  "normal_target t = \<lparr> ft_provider = provider_name (ft_provider t), ft_model = trim_space (ft_model t) \<rparr>"

fun validate_fallbacks :: "registry \<Rightarrow> fallback_target list \<Rightarrow> fallback_target list \<Rightarrow> string + fallback_target list" where
  "validate_fallbacks reg seen [] = Inr (rev seen)"
| "validate_fallbacks reg seen (t # ts) = (let f = normal_target t in
     if ft_provider f = [] \<or> ft_model f = [] then Inl ''LLM fallback provider and model are required''
     else if f \<in> set seen then Inl (''duplicate LLM fallback target: '' @ ft_provider f @ ''/'' @ ft_model f)
     else case provider_of reg (ft_provider f) of
       Inl _ \<Rightarrow> Inl (''LLM fallback provider '' @ ft_provider f @ '' is not registered'')
     | Inr _ \<Rightarrow> validate_fallbacks reg (f # seen) ts)"

definition validate_policy :: "registry \<Rightarrow> llm_policy \<Rightarrow> string + llm_policy" where
  "validate_policy reg p =
     (let b = lp_budget p in
      if lp_max_attempts p < 1 then Inl ''LLM max attempts must be at least one''
      else if lp_attempt_timeout p < 0 \<or> lp_max_wall_clock p < 0 then Inl ''LLM timeouts cannot be negative''
      else if lp_initial_backoff p < 0 \<or> lp_max_backoff p < 0 then Inl ''LLM backoff cannot be negative''
      else if lp_max_backoff p > 0 \<and> lp_initial_backoff p > lp_max_backoff p
        then Inl ''LLM maximum backoff must not be smaller than initial backoff''
      else if tb_max_input b < 0 \<or> tb_max_output b < 0 \<or> tb_max_total b < 0 then Inl ''LLM token budgets cannot be negative''
      else rbind (validate_fallbacks reg [] (lp_fallbacks p)) (\<lambda>ts. Inr (p\<lparr> lp_fallbacks := ts \<rparr>)))"

lemma registered_provider: "register name p r = Inr r' \<Longrightarrow> provider_of r' name = Inr p"
  by (auto simp: register_def provider_of_def Let_def update_conv' split: if_splits)

lemma removed_provider: "provider_name name \<noteq> [] \<Longrightarrow> provider_of (fst (remove_provider name r)) name = Inl (ProviderNotFound (provider_name name))"
  by (simp add: remove_provider_def provider_of_def Let_def delete_conv')

lemma validate_fallbacks_ok:
  "validate_fallbacks reg seen ts = Inr us \<Longrightarrow> distinct seen \<Longrightarrow> \<forall>t\<in>set seen. \<not> isl (provider_of reg (ft_provider t))
     \<Longrightarrow> distinct us \<and> us = rev seen @ map normal_target ts \<and> (\<forall>t\<in>set us. \<not> isl (provider_of reg (ft_provider t)))"
proof (induction ts arbitrary: seen)
  case (Cons t ts)
  let ?f = "normal_target t"
  have f: "?f \<notin> set seen" "\<not> isl (provider_of reg (ft_provider ?f))" "validate_fallbacks reg (?f # seen) ts = Inr us"
    using Cons.prems(1) by (auto simp: Let_def split: if_splits sum.splits)
  have "distinct us \<and> us = rev (?f # seen) @ map normal_target ts \<and> (\<forall>t\<in>set us. \<not> isl (provider_of reg (ft_provider t)))"
    by (rule Cons.IH [OF f(3)]) (use f Cons.prems in auto)
  moreover from this have "us = rev seen @ map normal_target (t # ts)" by simp
  ultimately show ?case by blast
qed auto

text \<open>A policy in force allows an attempt, and its fallbacks are different registered providers with a model.\<close>

lemma validated_policy:
  assumes "validate_policy reg p = Inr p'"
  shows "1 \<le> lp_max_attempts p' \<and> distinct (lp_fallbacks p') \<and> lp_fallbacks p' = map normal_target (lp_fallbacks p)
    \<and> (\<forall>t\<in>set (lp_fallbacks p'). \<not> isl (provider_of reg (ft_provider t)))"
  using assms validate_fallbacks_ok [of reg "[]" "lp_fallbacks p"]
  by (auto simp: validate_policy_def Let_def rbind_def split: if_splits sum.splits)

text \<open>\<open>ConservativeTokenEstimator\<close>: a quarter of the bytes, rounded up, with 24 for the frame of every message.\<close>

definition conservative_estimate :: "llm_call \<Rightarrow> int" where
  "conservative_estimate q =
     (int (length (lc_schema q)) + sum_list (map (\<lambda>m. int (length (cm_content m)) + 24) (lc_messages q)) + 3) div 4"

subsection \<open>The gateway\<close>

text \<open>Sites of a call; the number counts the attempts begun. \<open>AtGwStart\<close> is the reading of \<open>startedAt\<close>.\<close>

datatype gw_site = AtGwId | AtGwStart | BeforeAttempt nat | AttemptStart nat | InAttempt nat | AttemptOver nat | InSleep nat | AtGwEnd

type_synonym gw_event = "string \<times> (string \<times> json) list"

record gw_world =
  gw_sequence :: nat
  gw_calls :: "(string \<times> llm_call) list"
  gw_events :: "gw_event list"

record gw_env =
  ge_registry :: registry
  ge_policy :: llm_policy
  ge_estimate :: "llm_call \<Rightarrow> int"
  ge_attempt_events :: bool
  ge_recorder :: bool
  ge_json_valid :: "string \<Rightarrow> bool"
  ge_now :: "gw_site \<Rightarrow> instant"
  ge_ctx :: "gw_site \<Rightarrow> ctx_error option"
  ge_jitter :: "nat \<Rightarrow> int \<Rightarrow> int"

definition millis :: "int \<Rightarrow> int" where
  "millis d = d div 1000000"

definition gw_elapsed :: "gw_env \<Rightarrow> gw_site \<Rightarrow> gw_site \<Rightarrow> int" where
  "gw_elapsed E started site = max 0 (ge_now E site - ge_now E started)"

definition plan_fields :: "metadata \<Rightarrow> (string \<times> json) list" where
  "plan_fields m = List.map_filter (\<lambda>k. let v = trim_space (lookup_meta m k) in
     if v = [] then None
     else if k = ''plan_version'' \<and> signed_value v = Some (atoi v) then Some (k, JInt (atoi v))
     else Some (k, JStr v))
   [''project_id'', ''plan_id'', ''plan_version'', ''planning_context_id'', ''repository_summary_id'']"

definition event_payload :: "string \<Rightarrow> string \<Rightarrow> metadata \<Rightarrow> int \<Rightarrow> (string \<times> json) list" where
  "event_payload p model m d = [(''provider'', JStr p), (''model'', JStr (trim_space model)), (''duration_ms'', JInt (millis d))] @ plan_fields m"

definition gw_record :: "gw_env \<Rightarrow> string \<Rightarrow> (string \<times> json) list \<Rightarrow> gw_world \<Rightarrow> gw_world" where
  "gw_record E ty kvs w = (if ge_recorder E then w\<lparr> gw_events := gw_events w @ [(ty, kvs)] \<rparr> else w)"

text \<open>The budget of a request, what an attempt needs of it, and what the attempts used.\<close>

definition apply_budget :: "gw_env \<Rightarrow> llm_call \<Rightarrow> provider_error + llm_call" where
  "apply_budget E q =
     (let est = ge_estimate E q; b = lp_budget (ge_policy E);
          out = (if tb_max_output b > 0 \<and> (lc_max_output_tokens q \<le> 0 \<or> lc_max_output_tokens q > tb_max_output b)
                 then tb_max_output b else lc_max_output_tokens q);
          remaining = tb_max_total b - est in
      if tb_max_input b > 0 \<and> est > tb_max_input b then Inl (budget_error ''estimated input exceeds the configured token budget'')
      else if tb_max_total b > 0
        then if remaining \<le> 0 then Inl (budget_error ''estimated request exceeds the configured total token budget'')
             else Inr (q\<lparr> lc_max_output_tokens := (if out \<le> 0 \<or> out > remaining then remaining else out) \<rparr>)
        else Inr (q\<lparr> lc_max_output_tokens := out \<rparr>))"

definition check_remaining :: "token_budget \<Rightarrow> llm_call \<Rightarrow> int \<Rightarrow> int \<Rightarrow> usage \<Rightarrow> bool" where
  "check_remaining b q est spent u =
     (tb_max_total b = 0 \<or> est + max 0 (lc_max_output_tokens q) \<le> tb_max_total b - us_total_tokens u - spent)"

definition check_actual :: "token_budget \<Rightarrow> string \<Rightarrow> usage \<Rightarrow> provider_error option" where
  "check_actual b p u =
     (if tb_max_input b > 0 \<and> us_input_tokens u > tb_max_input b
        then Some (provider_failure p ''BUDGET_EXCEEDED'' ''actual input usage exceeded the configured token budget'')
      else if tb_max_output b > 0 \<and> us_output_tokens u > tb_max_output b
        then Some (provider_failure p ''BUDGET_EXCEEDED'' ''actual output usage exceeded the configured token budget'')
      else if tb_max_total b > 0 \<and> us_total_tokens u > tb_max_total b
        then Some (provider_failure p ''BUDGET_EXCEEDED'' ''actual total usage exceeded the configured token budget'')
      else None)"

definition gw_retry_delay :: "gw_env \<Rightarrow> nat \<Rightarrow> int \<Rightarrow> int" where
  "gw_retry_delay E n retry_after =
     (let P = ge_policy E;
          grown = (if lp_initial_backoff P > 0 \<and> 1 < n then lp_initial_backoff P * 2 ^ (n - 1) else lp_initial_backoff P);
          capped = (if lp_max_backoff P > 0 \<and> grown > lp_max_backoff P then lp_max_backoff P else grown);
          backoff = (if capped > 0 then ge_jitter E n capped else capped) in
      if retry_after > backoff then retry_after else backoff)"

text \<open>\<open>invoke\<close>: the context of the attempt has the last word about its outcome.\<close>

definition gw_invoke :: "gw_env \<Rightarrow> nat \<Rightarrow> string \<Rightarrow> provider \<Rightarrow> llm_call \<Rightarrow> gw_world \<Rightarrow> (llm_answer \<times> call_error option) \<times> gw_world" where
  "gw_invoke E n name p q w = (case p n q of (r, e) \<Rightarrow>
     ((r, case ge_ctx E (InAttempt n) of Some c \<Rightarrow> Some (CallContext c) | None \<Rightarrow> e), w\<lparr> gw_calls := gw_calls w @ [(name, q)] \<rparr>))"

definition execution_metadata :: "metadata \<Rightarrow> string \<Rightarrow> string \<Rightarrow> fallback_target \<Rightarrow> string \<Rightarrow> nat \<Rightarrow> bool \<Rightarrow> int \<Rightarrow> int \<Rightarrow> metadata" where
  "execution_metadata m p model t rid n fb est spent =
     AList.updates [''request_id'', ''requested_provider'', ''requested_model'', ''final_provider'', ''final_model'', ''attempt_count'',
         ''fallback_used'', ''estimated_input_tokens'', ''estimated_tokens_spent'']
       [rid, p, trim_space model, ft_provider t, ft_model t, show_nat n, show_bool fb, show_int est, show_int spent] m"

text \<open>One call of the gateway: the request within its budget, its estimate, its id and its targets.\<close>

record gw_run =
  gr_provider :: string
  gr_request :: llm_call
  gr_estimate :: int
  gr_id :: string
  gr_targets :: "fallback_target list"

record gw_state =
  gl_target :: nat
  gl_attempts :: nat
  gl_usage :: usage
  gl_spent :: int
  gl_fallback :: bool

datatype attempt_end = Stopped provider_error | Answered llm_answer | Again provider_error

definition the_target :: "gw_run \<Rightarrow> gw_state \<Rightarrow> fallback_target" where
  "the_target R s = gr_targets R ! gl_target s"

definition note_attempt :: "gw_env \<Rightarrow> string \<Rightarrow> (string \<times> json) list \<Rightarrow> gw_world \<Rightarrow> gw_world" where
  "note_attempt E ty kvs = (if ge_attempt_events E then gw_record E ty kvs else id)"

definition usage_fields :: "usage \<Rightarrow> (string \<times> json) list" where
  "usage_fields u = [(''input_tokens'', JInt (us_input_tokens u)), (''output_tokens'', JInt (us_output_tokens u)),
     (''total_tokens'', JInt (us_total_tokens u))]"

definition retry_after_field :: "provider_error \<Rightarrow> (string \<times> json) list" where
  "retry_after_field e = (if pe_retry_after e > 0 then [(''retry_after_ms'', JInt (millis (pe_retry_after e)))] else [])"

definition accept_answer ::
  "gw_env \<Rightarrow> gw_run \<Rightarrow> fallback_target \<Rightarrow> llm_call \<Rightarrow> llm_answer \<Rightarrow> gw_state \<Rightarrow> gw_world \<Rightarrow> attempt_end \<times> gw_state \<times> gw_world" where
  "accept_answer E R t q r s w =
     (let n = gl_attempts s; u = gl_usage s; p = ft_provider t; rid = [(''request_id'', JStr (gr_id R))];
          so_far = event_payload p (lc_model q) (lc_metadata q) (gw_elapsed E AtGwStart (AttemptOver n)) in
      case check_actual (lp_budget (ge_policy E)) p u of
        Some e \<Rightarrow> (Stopped e, s, gw_record E ''llm.budget_exhausted'' (so_far @ rid @ [(''attempt_count'', JInt (int n)),
          (''total_tokens_so_far'', JInt (us_total_tokens u)), (''error_code'', JStr ''BUDGET_EXCEEDED'')]) w)
      | None \<Rightarrow>
        let w1 = note_attempt E ''llm.attempt_completed'' (event_payload p (lc_model q) (lc_metadata q)
              (gw_elapsed E (AttemptStart n) (AttemptOver n)) @ rid @ [(''attempt'', JInt (int n))] @ usage_fields (la_usage r)) w;
            r' = r\<lparr> la_usage := u, la_metadata := execution_metadata (la_metadata r) (gr_provider R) (lc_model (gr_request R)) t (gr_id R) n
              (gl_fallback s) (gr_estimate R) (gl_spent s) \<rparr>;
            w2 = gw_record E ''llm.request_completed'' (so_far @ rid @ [(''response_id'', JStr (la_id r)), (''finish_reason'', JStr (la_finish_reason r)),
              (''attempt_count'', JInt (int n)), (''fallback_used'', JBool (gl_fallback s))] @ usage_fields u
              @ [(''cached_input_tokens'', JInt (us_cached_input_tokens u))]) w1 in
        (Answered (clone_answer r'), s, w2))"

definition next_target :: "gw_env \<Rightarrow> gw_run \<Rightarrow> provider_error \<Rightarrow> gw_state \<Rightarrow> gw_world \<Rightarrow> gw_state \<times> gw_world" where
  "next_target E R e s w =
     (if should_fallback e \<and> Suc (gl_target s) < length (gr_targets R)
      then let s' = s\<lparr> gl_target := Suc (gl_target s), gl_fallback := True \<rparr>; t = the_target R s' in
        (s', gw_record E ''llm.fallback_selected'' (event_payload (ft_provider t) (ft_model t) (lc_metadata (gr_request R)) 0
          @ [(''request_id'', JStr (gr_id R)), (''attempt'', JInt (int (Suc (gl_attempts s)))),
             (''from_provider'', JStr (ft_provider (the_target R s)))]) w)
      else (s, w))"

definition after_failure ::
  "gw_env \<Rightarrow> gw_run \<Rightarrow> llm_call \<Rightarrow> provider_error \<Rightarrow> gw_state \<Rightarrow> gw_world \<Rightarrow> attempt_end \<times> gw_state \<times> gw_world" where
  "after_failure E R q e s w =
     (let n = gl_attempts s; p = ft_provider (the_target R s);
          w1 = note_attempt E ''llm.attempt_failed'' (event_payload p (lc_model q) (lc_metadata q) (gw_elapsed E (AttemptStart n) (AttemptOver n))
            @ [(''request_id'', JStr (gr_id R)), (''attempt'', JInt (int n)), (''error_code'', JStr (pe_code e)),
               (''retryable'', JBool (pe_retryable e)), (''total_tokens_so_far'', JInt (us_total_tokens (gl_usage s)))]) w in
      if \<not> retryable_error e \<or> lp_max_attempts (ge_policy E) \<le> int n then (Stopped e, s, w1)
      else case next_target E R e s w1 of (s', w2) \<Rightarrow>
        let t = the_target R s';
            w3 = gw_record E ''llm.retry_scheduled'' (event_payload (ft_provider t) (ft_model t) (lc_metadata (gr_request R)) 0
              @ [(''request_id'', JStr (gr_id R)), (''attempt'', JInt (int (Suc n))),
                 (''delay_ms'', JInt (millis (gw_retry_delay E n (pe_retry_after e)))), (''error_code'', JStr (pe_code e))] @ retry_after_field e) w2 in
        case ge_ctx E (InSleep n) of
          Some c \<Rightarrow> (Stopped (normalize_error (ft_provider t) (CallContext c)), s', w3)
        | None \<Rightarrow> (Again e, s', w3))"

definition call_target :: "gw_env \<Rightarrow> gw_run \<Rightarrow> provider \<Rightarrow> gw_state \<Rightarrow> gw_world \<Rightarrow> attempt_end \<times> gw_state \<times> gw_world" where
  "call_target E R p s w =
     (let n = Suc (gl_attempts s); t = the_target R s; q = (gr_request R)\<lparr> lc_model := ft_model t \<rparr>;
          w1 = note_attempt E ''llm.attempt_started'' (event_payload (ft_provider t) (lc_model q) (lc_metadata q) 0
            @ [(''request_id'', JStr (gr_id R)), (''attempt'', JInt (int n)), (''fallback'', JBool (0 < gl_target s)),
               (''estimated_input_tokens'', JInt (gr_estimate R))]) w in
      case gw_invoke E n (ft_provider t) p q w1 of ((r0, err), w2) \<Rightarrow>
        let r = normalize_answer q r0; told = has_usage (la_usage r);
            s1 = s\<lparr> gl_attempts := n, gl_usage := (if told then sum_usage (gl_usage s) (la_usage r) else gl_usage s),
                    gl_spent := (if \<not> told \<and> err \<noteq> None then gl_spent s + gr_estimate R else gl_spent s) \<rparr> in
        case err of
          None \<Rightarrow> accept_answer E R t q r s1 w2
        | Some e \<Rightarrow> after_failure E R q (normalize_error (ft_provider t) e) s1 w2)"

definition attempt :: "gw_env \<Rightarrow> gw_run \<Rightarrow> gw_state \<Rightarrow> gw_world \<Rightarrow> attempt_end \<times> gw_state \<times> gw_world" where
  "attempt E R s w =
     (let n = gl_attempts s; p = ft_provider (the_target R s); q = gr_request R; u = gl_usage s in
      case ge_ctx E (BeforeAttempt n) of
        Some c \<Rightarrow> (Stopped (normalize_error p (CallContext c)), s, w)
      | None \<Rightarrow>
        if \<not> check_remaining (lp_budget (ge_policy E)) q (gr_estimate R) (gl_spent s) u
        then (Stopped (budget_error ''remaining token budget is insufficient for another attempt''), s,
          gw_record E ''llm.budget_exhausted'' (event_payload p (lc_model q) (lc_metadata q) (gw_elapsed E AtGwStart (BeforeAttempt n))
            @ [(''request_id'', JStr (gr_id R)), (''attempt_count'', JInt (int n)), (''total_tokens_so_far'', JInt (us_total_tokens u)),
               (''estimated_tokens_spent'', JInt (gl_spent s)), (''error_code'', JStr ''BUDGET_EXCEEDED'')]) w)
        else case provider_of (ge_registry E) p of
          Inl _ \<Rightarrow> (Stopped (provider_failure p ''UNAVAILABLE'' ''provider is not registered''), s, w)
        | Inr f \<Rightarrow> call_target E R f s w)"

fun attempts_left :: "gw_env \<Rightarrow> gw_run \<Rightarrow> nat \<Rightarrow> provider_error \<Rightarrow> gw_state \<Rightarrow> gw_world \<Rightarrow> (provider_error + llm_answer) \<times> gw_state \<times> gw_world" where
  "attempts_left E R 0 last_error s w = (Inl last_error, s, w)"
| "attempts_left E R (Suc k) last_error s w =
     (case attempt E R s w of
        (Stopped e, s', w') \<Rightarrow> (Inl e, s', w')
      | (Answered r, s', w') \<Rightarrow> (Inr r, s', w')
      | (Again e, s', w') \<Rightarrow> attempts_left E R k e s' w')"

definition finish_failure :: "gw_env \<Rightarrow> gw_run \<Rightarrow> provider_error \<Rightarrow> gw_state \<Rightarrow> gw_world \<Rightarrow> gw_world" where
  "finish_failure E R e s w = gw_record E (if pe_code e = ''CANCELLED'' then ''llm.request_cancelled'' else ''llm.request_failed'')
     (event_payload (pe_provider e) (lc_model (gr_request R)) (lc_metadata (gr_request R)) (gw_elapsed E AtGwStart AtGwEnd)
       @ [(''request_id'', JStr (gr_id R)), (''attempt_count'', JInt (int (gl_attempts s))), (''fallback_used'', JBool (gl_fallback s)),
          (''error_code'', JStr (pe_code e)), (''retryable'', JBool (pe_retryable e))] @ usage_fields (gl_usage s) @ retry_after_field e) w"

definition run_request :: "gw_env \<Rightarrow> gw_run \<Rightarrow> gw_world \<Rightarrow> (provider_error + llm_answer) \<times> gw_world" where
  "run_request E R w =
     (let w1 = gw_record E ''llm.request_started'' (event_payload (gr_provider R) (lc_model (gr_request R)) (lc_metadata (gr_request R)) 0
           @ [(''request_id'', JStr (gr_id R)), (''estimated_input_tokens'', JInt (gr_estimate R)),
              (''max_attempts'', JInt (lp_max_attempts (ge_policy E)))]) w;
          s = \<lparr> gl_target = 0, gl_attempts = 0, gl_usage = no_usage, gl_spent = 0, gl_fallback = False \<rparr> in
      case attempts_left E R (nat (lp_max_attempts (ge_policy E))) (provider_failure (gr_provider R) ''UNKNOWN'' ''provider request failed'') s w1 of
        (Inr r, _, w2) \<Rightarrow> (Inr r, w2)
      | (Inl e, s', w2) \<Rightarrow> (Inl e, finish_failure E R e s' w2))"

definition gateway_complete :: "gw_env \<Rightarrow> string \<Rightarrow> llm_call \<Rightarrow> gw_world \<Rightarrow> (provider_error + llm_answer) \<times> gw_world" where
  "gateway_complete E name q w =
     (let p = provider_name name; ts = lp_fallbacks (ge_policy E) in
      case provider_of (ge_registry E) p of
        Inl _ \<Rightarrow> (Inl (provider_failure p ''UNAVAILABLE'' ''provider is not registered''), w)
      | Inr _ \<Rightarrow>
        (case validate_request (ge_json_valid E) p q of
           Some e \<Rightarrow> (Inl e, w)
         | None \<Rightarrow>
           if \<exists>t\<in>set ts. ft_provider t = p
           then (Inl (provider_failure p ''INVALID_REQUEST'' ''fallback provider must differ from the primary provider''), w)
           else
             let w1 = w\<lparr> gw_sequence := Suc (gw_sequence w) \<rparr>; rid = ''llm-'' @ show_int (ge_now E AtGwId) @ ''-'' @ show_nat (gw_sequence w1) in
             case apply_budget E q of
               Inl e \<Rightarrow> (Inl e, gw_record E ''llm.budget_rejected'' (event_payload p (lc_model q) (lc_metadata q) 0
                 @ [(''request_id'', JStr rid), (''estimated_input_tokens'', JInt (ge_estimate E q)), (''error_code'', JStr ''BUDGET_EXCEEDED'')]) w1)
             | Inr q' \<Rightarrow> run_request E \<lparr> gr_provider = p, gr_request = q', gr_estimate = ge_estimate E q, gr_id = rid,
                 gr_targets = \<lparr> ft_provider = p, ft_model = lc_model q' \<rparr> # ts \<rparr> w1))"

subsection \<open>The bounds of a call\<close>

lemma gw_record_calls [simp]: "gw_calls (gw_record E ty kvs w) = gw_calls w" "gw_calls (note_attempt E ty kvs w) = gw_calls w"
  "gw_calls (finish_failure E R e s w) = gw_calls w"
  by (simp_all add: gw_record_def note_attempt_def finish_failure_def)

definition usage_within :: "token_budget \<Rightarrow> usage \<Rightarrow> bool" where
  "usage_within b u = ((tb_max_input b > 0 \<longrightarrow> us_input_tokens u \<le> tb_max_input b) \<and> (tb_max_output b > 0 \<longrightarrow> us_output_tokens u \<le> tb_max_output b)
     \<and> (tb_max_total b > 0 \<longrightarrow> us_total_tokens u \<le> tb_max_total b))"

lemma check_actual_None: "check_actual b p u = None \<longleftrightarrow> usage_within b u"
  by (auto simp: check_actual_def usage_within_def)

lemma usage_within_metadata [simp]: "usage_within b (apply_execution_metadata m u) = usage_within b u"
  by (simp add: usage_within_def apply_execution_metadata_def)

definition call_of :: "gw_run \<Rightarrow> nat \<Rightarrow> string \<times> llm_call" where
  "call_of R i = (ft_provider (gr_targets R ! i), (gr_request R)\<lparr> lc_model := ft_model (gr_targets R ! i) \<rparr>)"

text \<open>The provider that got the n-th request answered it without an error, and this is its text.\<close>

definition answers :: "gw_env \<Rightarrow> nat \<Rightarrow> string \<times> llm_call \<Rightarrow> llm_answer \<Rightarrow> bool" where
  "answers E n c a = (\<exists>f raw. provider_of (ge_registry E) (fst c) = Inr f \<and> f n (snd c) = (raw, None) \<and> la_content a = la_content raw)"

lemma accept_answer_shape:
  "accept_answer E R t q r s w = (x, s', w') \<Longrightarrow> gw_calls w' = gw_calls w \<and> s' = s \<and> (\<forall>e. x \<noteq> Again e)
    \<and> (\<forall>a. x = Answered a \<longrightarrow> la_content a = la_content r \<and> usage_within (lp_budget (ge_policy E)) (la_usage a))"
  by (auto simp: accept_answer_def Let_def clone_answer_def check_actual_None split: option.splits)

lemma after_failure_shape:
  "after_failure E R q e s w = (x, s', w') \<Longrightarrow> gw_calls w' = gw_calls w \<and> gl_target s \<le> gl_target s' \<and> (\<forall>a. x \<noteq> Answered a)
    \<and> (gl_target s < length (gr_targets R) \<longrightarrow> gl_target s' < length (gr_targets R)) \<and> gl_attempts s' = gl_attempts s"
  by (auto simp: after_failure_def next_target_def Let_def split: if_splits option.splits prod.splits)

lemma attempt_shape:
  assumes "attempt E R s w = (x, s', w')"
  shows "(gw_calls w' = gw_calls w \<and> (\<exists>e. x = Stopped e))
    \<or> (gw_calls w' = gw_calls w @ [call_of R (gl_target s)] \<and> gl_target s \<le> gl_target s' \<and> gl_attempts s' = Suc (gl_attempts s)
      \<and> (gl_target s < length (gr_targets R) \<longrightarrow> gl_target s' < length (gr_targets R))
      \<and> (\<forall>a. x = Answered a \<longrightarrow> answers E (Suc (gl_attempts s)) (call_of R (gl_target s)) a
           \<and> usage_within (lp_budget (ge_policy E)) (la_usage a)))"
proof -
  have *: "gw_calls w' = gw_calls w @ [call_of R (gl_target s)] \<and> gl_target s \<le> gl_target s' \<and> gl_attempts s' = Suc (gl_attempts s)
      \<and> (gl_target s < length (gr_targets R) \<longrightarrow> gl_target s' < length (gr_targets R))
      \<and> (\<forall>a. x = Answered a \<longrightarrow> answers E (Suc (gl_attempts s)) (call_of R (gl_target s)) a
           \<and> usage_within (lp_budget (ge_policy E)) (la_usage a))"
    if c: "call_target E R f s w = (x, s', w')" and f: "provider_of (ge_registry E) (ft_provider (the_target R s)) = Inr f" for f
  proof -
    have q: "call_of R (gl_target s) = (ft_provider (the_target R s), (gr_request R)\<lparr> lc_model := ft_model (the_target R s) \<rparr>)"
      by (simp add: call_of_def the_target_def)
    obtain raw err where a: "f (Suc (gl_attempts s)) ((gr_request R)\<lparr> lc_model := ft_model (the_target R s) \<rparr>) = (raw, err)"
      by fastforce
    show ?thesis
      using c f a by (auto simp: call_target_def gw_invoke_def Let_def q answers_def normalize_answer_def split: option.splits
          dest!: accept_answer_shape after_failure_shape)
  qed
  show ?thesis using assms * by (auto simp: attempt_def Let_def split: option.splits if_splits sum.splits)
qed

lemma attempts_left_calls:
  assumes "attempts_left E R k e s w = (r, s', w')" "gl_target s < length (gr_targets R)"
  shows "\<exists>ks. gw_calls w' = gw_calls w @ map (call_of R) ks \<and> length ks \<le> k \<and> sorted ks
    \<and> (\<forall>i\<in>set ks. gl_target s \<le> i \<and> i < length (gr_targets R))
    \<and> (\<forall>a. r = Inr a \<longrightarrow> ks \<noteq> [] \<and> answers E (gl_attempts s + length ks) (call_of R (last ks)) a
         \<and> usage_within (lp_budget (ge_policy E)) (la_usage a))"
  using assms
proof (induction k arbitrary: e s w)
  case (Suc k)
  obtain x s1 w1 where a: "attempt E R s w = (x, s1, w1)" by (metis prod_cases3)
  show ?case
  proof (cases x)
    case (Again e1)
    then have l: "attempts_left E R k e1 s1 w1 = (r, s', w')" using Suc.prems(1) a by simp
    have h: "gw_calls w1 = gw_calls w @ [call_of R (gl_target s)]" "gl_target s \<le> gl_target s1" "gl_target s1 < length (gr_targets R)"
      "gl_attempts s1 = Suc (gl_attempts s)"
      using attempt_shape [OF a] Again Suc.prems(2) by auto
    obtain ks where ks: "gw_calls w' = gw_calls w1 @ map (call_of R) ks" "length ks \<le> k" "sorted ks"
      "\<forall>i\<in>set ks. gl_target s1 \<le> i \<and> i < length (gr_targets R)"
      "\<forall>a. r = Inr a \<longrightarrow> ks \<noteq> [] \<and> answers E (gl_attempts s1 + length ks) (call_of R (last ks)) a
         \<and> usage_within (lp_budget (ge_policy E)) (la_usage a)"
      using Suc.IH [OF l h(3)] by auto
    show ?thesis by (rule exI [of _ "gl_target s # ks"]) (use ks h Suc.prems(2) in auto)
  next
    case (Stopped e1)
    then have "r = Inl e1" "w' = w1" using Suc.prems(1) a by auto
    then show ?thesis using attempt_shape [OF a] Suc.prems(2)
      by (elim disjE conjE) (auto intro: exI [of _ "[]"] exI [of _ "[gl_target s]"])
  next
    case (Answered b)
    then have "r = Inr b" "w' = w1" using Suc.prems(1) a by auto
    then show ?thesis using attempt_shape [OF a] Suc.prems(2) Answered by (auto intro!: exI [of _ "[gl_target s]"])
  qed
qed auto

text \<open>What the budget leaves of a request.\<close>

definition budgeted :: "token_budget \<Rightarrow> int \<Rightarrow> llm_call \<Rightarrow> llm_call \<Rightarrow> bool" where
  "budgeted b est q c = (lc_messages c = lc_messages q \<and> lc_schema c = lc_schema q \<and> lc_metadata c = lc_metadata q
     \<and> (tb_max_input b > 0 \<longrightarrow> est \<le> tb_max_input b)
     \<and> (tb_max_output b > 0 \<longrightarrow> 0 < lc_max_output_tokens c \<and> lc_max_output_tokens c \<le> tb_max_output b)
     \<and> (tb_max_total b > 0 \<longrightarrow> 0 < lc_max_output_tokens c \<and> est + lc_max_output_tokens c \<le> tb_max_total b))"

lemma apply_budget_ok: "apply_budget E q = Inr c \<Longrightarrow> budgeted (lp_budget (ge_policy E)) (ge_estimate E q) q c \<and> lc_model c = lc_model q"
  by (auto simp: apply_budget_def budgeted_def Let_def split: if_splits)

lemma budgeted_model [simp]: "budgeted b est q (c\<lparr> lc_model := m \<rparr>) = budgeted b est q c"
  by (simp add: budgeted_def)

text \<open>The targets of a call in their order: the provider asked for, then the fallbacks.\<close>

definition targets_of :: "gw_env \<Rightarrow> string \<Rightarrow> llm_call \<Rightarrow> fallback_target list" where
  "targets_of E name q = \<lparr> ft_provider = provider_name name, ft_model = lc_model q \<rparr> # lp_fallbacks (ge_policy E)"


subsection \<open>An example\<close>

text \<open>The first provider is too slow, the fallback answers.\<close>

definition demo_call :: llm_call where
  "demo_call = \<lparr> lc_model = ''m'', lc_messages = [\<lparr> cm_role = ''user'', cm_content = ''x'' \<rparr>], lc_schema = [], lc_max_output_tokens = 0,
     lc_metadata = [] \<rparr>"

definition demo_reply :: "string \<Rightarrow> int \<Rightarrow> llm_answer" where
  "demo_reply s n = \<lparr> la_id = ''i'', la_model = ''n'', la_content = s, la_finish_reason = ''STOP'',
     la_usage = no_usage\<lparr> us_input_tokens := n, us_output_tokens := n \<rparr>, la_metadata = [] \<rparr>"

definition demo_gateway :: gw_env where
  "demo_gateway = \<lparr> ge_registry = [(''a'', \<lambda>n q. (demo_reply [] 0, Some (CallContext CtxDeadline))), (''b'', \<lambda>n q. (demo_reply ''hi'' 9, None))],
     ge_policy = single_attempt_policy\<lparr> lp_max_attempts := 2, lp_fallbacks := [\<lparr> ft_provider = ''b'', ft_model = ''n'' \<rparr>],
       lp_budget := \<lparr> tb_max_input = 100, tb_max_output = 10, tb_max_total = 100 \<rparr> \<rparr>,
     ge_estimate = conservative_estimate, ge_attempt_events = False, ge_recorder = False, ge_json_valid = (\<lambda>_. True),
     ge_now = (\<lambda>_. 0), ge_ctx = (\<lambda>_. None), ge_jitter = (\<lambda>_ d. d) \<rparr>"

definition demo_gw_start :: gw_world where
  "demo_gw_start = \<lparr> gw_sequence = 0, gw_calls = [], gw_events = [] \<rparr>"

lemma demo_names: "provider_name ''a'' = ''a''" "provider_name ''b'' = ''b''" "trim_space ''m'' = ''m''" "trim_space ''x'' = ''x''"
  by (simp_all add: provider_name_def lower_char_def plain_char_def)

lemma demo_budget: "apply_budget demo_gateway demo_call = Inr (demo_call\<lparr> lc_max_output_tokens := 10 \<rparr>)"
  by (simp add: apply_budget_def demo_gateway_def conservative_estimate_def demo_call_def)

lemma demo_answers:
  "\<exists>a w'. gateway_complete demo_gateway ''a'' demo_call demo_gw_start = (Inr a, w')
     \<and> map fst (gw_calls w') = [''a'', ''b''] \<and> la_content a = ''hi''"
proof -
  have v: "validate_request (\<lambda>_. True) ''a'' demo_call = None"
    by (simp add: validate_request_def demo_call_def message_fault_def demo_names)
  have p: "provider_of (ge_registry demo_gateway) ''a'' = Inr (\<lambda>n q. (demo_reply [] 0, Some (CallContext CtxDeadline)))"
    "provider_of (ge_registry demo_gateway) ''b'' = Inr (\<lambda>n q. (demo_reply ''hi'' 9, None))"
    by (simp_all add: provider_of_def demo_names demo_gateway_def)
  have f: "ge_policy demo_gateway = single_attempt_policy\<lparr> lp_max_attempts := 2, lp_fallbacks := [\<lparr> ft_provider = ''b'', ft_model = ''n'' \<rparr>],
       lp_budget := \<lparr> tb_max_input = 100, tb_max_output = 10, tb_max_total = 100 \<rparr> \<rparr>" "ge_estimate demo_gateway = conservative_estimate"
    "ge_ctx demo_gateway = (\<lambda>_. None)" "ge_json_valid demo_gateway = (\<lambda>_. True)" "\<not> ge_attempt_events demo_gateway" "\<not> ge_recorder demo_gateway"
    by (simp_all add: demo_gateway_def)
  have e: "conservative_estimate demo_call = 7" by (simp add: conservative_estimate_def demo_call_def)
  show ?thesis
    by (simp add: gateway_complete_def Let_def demo_names p v f demo_budget e run_request_def single_attempt_policy_def attempt_def
        call_target_def gw_invoke_def the_target_def check_remaining_def no_usage_def demo_reply_def normalize_answer_def normalize_usage_def
        has_usage_def normalize_error_def provider_failure_def after_failure_def retryable_error_def next_target_def should_fallback_def
        accept_answer_def check_actual_def sum_usage_def clone_answer_def gw_record_def note_attempt_def numeral_2_eq_2 demo_gw_start_def
        plain_char_def)
qed


end
