(* ===== verification/Spec2Isabelle.thy ===== *)
theory Spec2Isabelle
  imports Scheduler PrepareHandler ExecutionHandler ExecutionRecovery ChecksOutcome ApprovalService PublicationHandler ReviewHandler LlmGateway
begin
text \<open>
  Orkoda runs coding work as workflow jobs. A daemon (cmd/api) keeps every state in one SQLite database and a durable
  queue in the same database. A user creates a workflow from a plan version; each stage of the workflow is a message of the
  queue, and the handler of the message type does the work of the stage and moves the workflow on, which enqueues the
  message of the following stage in the same transaction:

    DRAFT, START: WORKSPACE_PREPARING (workspace/handler.go makes a Git worktree),
    WORKSPACE_READY: QUEUED (execution/handler.go opens an execution and starts it),
    EXECUTION_STARTED: EXECUTING (the executor agent edits the worktree with tools, the result is a patch checkpoint),
    EXECUTION_COMPLETED: CHECKING (checks/handler.go runs the check commands),
    CHECKS_COMPLETED: REVIEWING (reviewer/handler.go asks the reviewer agent),
    REVIEW_COMPLETED: WAITING_APPROVAL (approval/service.go records what a human decides),
    APPROVE, PUBLISH: PUBLISHING (publication/handler.go commits the approved patch), PUBLISHED: COMPLETED,
    REQUEST_REVISION: REVISION_REQUIRED and back to QUEUED.

  FAIL, CANCEL, PAUSE, RESUME and RETRY lead aside and back (transition.go).

  Theories and code (below src/internal unless said otherwise).

  Base. Prelude: results, the used fragment of SQL (a table is a list of rows), milliseconds; the locale
  \<open>settled_history\<close>: a history of operations keeps an invariant and does not change what is settled. GoStd: package strings.
  Json: encoding/json. Paths: path/filepath. WorkTree: a directory tree with links.

  State. JobQueue: jobqueue/*. WorkflowTransition and WorkflowRepo: workflowjob/transition.go, repository.go.
  Workspace: workspace/repository.go, write_lease.go, restart_lease.go, startup_recovery.go and the statements of
  reconcile.go. ExecutionRepo: execution/repository.go, iterations.go. CheckRepo: checks/repository.go. ReviewRepo:
  reviewer/repository.go. ApprovalRepo: approval/repository.go, publication/repository.go. Each operation of a repository
  is one definition from the table and its arguments to an error or the new table with a result.

  Machinery. Scheduler: scheduler/*, over the interface \<open>work_queue\<close> that JobQueue implements. Dispatch: the decoding of the
  messages by all handlers and their first decision. GitState: gitstate/*. Tools, ContextSelector, ExecutorLoop:
  execution/tools.go, context_selector.go, llm_runner.go. CheckRunner: checks/profiles.go, runner.go, docker_runner.go.
  ReviewResponse, ReviewContext: reviewer/response.go, context.go, prompt.go.

  Stages. HandlerBase, StageBase: what the handlers share. PrepareHandler: workspace/handler.go, terminal_failure.go.
  ExecutionHandler: execution/handler.go, watchdog.go. ExecutionRecovery: execution/recovery.go. ChecksHandler, ChecksOutcome:
  checks/handler.go. ReviewHandler: reviewer/handler.go. ApprovalService: approval/service.go. PublicationHandler:
  publication/handler.go. StageSamples holds the worlds of the examples.
  LlmGateway: llm/gateway.go, policy.go, registry.go, validate.go: one request to a model with its retries, fallbacks and
  token budgets; the providers are parameters.

  How state and surroundings are represented. A stage world is a record of the tables a handler works on with the worktree and the
  saved artifacts. A step takes a world to an error or a result, with the world it leaves: writes made before an error stay,
  as in the code, where each repository call is a transaction of its own. What happens beside the calls of a handler is an
  argument, indexed by the site of the call: the clock, the fresh id, whether the activity recorder works, whether the
  context of the daemon or of the stage has ended, when a lease is renewed, what the cancellation watcher says. A theorem
  about all such arguments therefore speaks of all timings at these sites.

  What the lemmas show. For the repositories: an invariant of the tables that every operation keeps, what is final
  (settled jobs, verdicts, decisions), fencing of leases, and exactly when a transition succeeds. For the executor: it stays
  in its worktree, its runs end, its budgets hold, a paused run can continue. For the agents' answers: exactly
  which reviews are accepted, that every review can be said, and bounds of what the models read and of what a call of a model costs. For the stages: that calm
  deliveries do not strand their workflow, what they record, and where they do strand it (theorems of kind error,
  which the findings of PROJECT.json explain). Across stages: nothing is published without the human approval of exactly this
  patch (\<open>published_only_after_approval\<close>, \<open>approval_is_backed\<close>, \<open>published_is_approved\<close>).

  Bounds. The loops of the code are structural recursions: over the rows, the remaining turns of the executor, the list
  of turns of the scheduler's endless loop. No definition has fuel that can run out. Numbers are int where the code's
  ints cannot overflow within the validated limits; the parsing of JSON numbers keeps the range of Go's int.

  The closed world. A handler run sees the writes of others only where the code reads them through an argument (watchers,
  renewals, clocks); between its own statements the tables do not change. So the theorems on whole deliveries speak of deliveries
  that no other actor disturbs; the branches for disturbed runs are in the definitions, and \<open>advance_yields\<close> says
  for the preparation that such a run gives way without a change. The invariants of the repositories hold for any
  interleaving of their operations, as each is one transaction.

  Not modelled. Failures of the database itself (each statement either works or refuses what its constraints refuse), its
  connection pool, and the texts of operating system and SQL errors. Goroutines: a delivery is sequential, its
  watchers and heartbeats are arguments by site. The Git program, the check commands, SHA-256 and the language models are
  arguments. Floating point (sampling temperature, cost estimates), progress events of the executor, log output.
  The HTTP interface, the terminal program (apps/tui), configuration, credentials, backups, migrations and the catalogue
  of projects and plans are listed in the manifest with the reason.
\<close>

end
